(* ===== verification/Prelude.thy ===== *)
theory Prelude
  imports Main "HOL-Library.Word"
begin

text \<open>
  Names and generic facts shared by every component: the machine types of the C code, the
  outcome of a computation that may run into undefined behaviour, bounded reads of a buffer,
  sequential input and output, and a model of the stdio streams (\<open>fread\<close>, \<open>fwrite\<close>, \<open>fseek\<close>) the file formats use.
\<close>

type_synonym byte = "8 word"
type_synonym u32 = "32 word"
type_synonym u64 = "64 word"
type_synonym bytes = "byte list"

text \<open>
  The i-th \<open>malloc\<close> of an operation, of a given size, succeeds or not. A definition that
  allocates takes such a function, so every combination of outcomes is covered.
\<close>

type_synonym heap_oracle = "nat \<Rightarrow> u64 \<Rightarrow> bool"

named_theorems wire_simps
named_theorems inv_defs

text \<open>
  \<open>UB\<close> stands for undefined behaviour of the C program: a read past the end of a buffer, a null
  pointer that is followed, \<open>fclose(NULL)\<close>.
\<close>

datatype 'a exec = Done 'a | UB

fun exec_bind :: "'a exec \<Rightarrow> ('a \<Rightarrow> 'b exec) \<Rightarrow> 'b exec" where
  "exec_bind (Done x) f = f x"
| "exec_bind UB f = UB"

fun is_ub :: "'a exec \<Rightarrow> bool" where
  "is_ub (Done x) = False"
| "is_ub UB = True"

lemma exec_bind_Done_iff:
  "exec_bind m f = Done y \<longleftrightarrow> (\<exists>x. m = Done x \<and> f x = Done y)"
  by (cases m) auto

section \<open>Buffers\<close>

definition slice :: "nat \<Rightarrow> nat \<Rightarrow> bytes \<Rightarrow> bytes" where
  "slice i n bs = take n (drop i bs)"

text \<open>A read of \<open>n\<close> bytes at offset \<open>i\<close>: undefined past the end of the buffer.\<close>

definition read_at :: "bytes \<Rightarrow> nat \<Rightarrow> nat \<Rightarrow> bytes exec" where
  "read_at bs i n = (if i + n \<le> length bs then Done (slice i n bs) else UB)"

lemma length_slice [simp]: "length (slice i n bs) = min n (length bs - i)"
  by (simp add: slice_def)

lemma slice_skip [wire_simps]:
  "length xs \<le> i \<Longrightarrow> slice i n (xs @ ys) = slice (i - length xs) n ys"
  by (simp add: slice_def)

lemma slice_here [wire_simps]: "n = length xs \<Longrightarrow> slice 0 n (xs @ ys) = xs"
  by (simp add: slice_def)

lemma slice_at [wire_simps]:
  "length xs = i \<Longrightarrow> length ys = n \<Longrightarrow> slice i n (xs @ ys @ zs) = ys"
  by (simp add: slice_def)

lemma slice_all [simp]: "length bs \<le> n \<Longrightarrow> slice 0 n bs = bs"
  by (simp add: slice_def)

lemma read_at_append: "length xs = i \<Longrightarrow> length ys = n \<Longrightarrow> read_at (xs @ ys @ zs) i n = Done ys"
  by (simp add: read_at_def slice_at)

lemma read_at_Done: "read_at bs i n = Done x \<longleftrightarrow> i + n \<le> length bs \<and> x = slice i n bs"
  by (auto simp: read_at_def)

lemma read_at_length: "read_at bs i n = Done x \<Longrightarrow> length x = n"
  by (auto simp: read_at_Done)

lemma take_length_append [simp]: "length xs = n \<Longrightarrow> take n (xs @ ys) = xs"
  by simp

lemma drop_length_append [simp]: "length xs = n \<Longrightarrow> drop n (xs @ ys) = ys"
  by simp

lemma unat_of_nat_small: "n < 2 ^ 64 \<Longrightarrow> unat (of_nat n :: u64) = n"
  by (simp add: unat_of_nat take_bit_eq_mod)

lemma unat64_less: "unat (x :: u64) < 2 ^ 64"
  by (rule order_less_le_trans [OF unsigned_less]) simp

lemma unat_plus_small: "unat (x :: u64) + unat y < 2 ^ 64 \<Longrightarrow> unat (x + y) = unat x + unat y"
  by (simp add: unat_word_ariths)

lemma of_nat64_eq_0: "n < 2 ^ 64 \<Longrightarrow> (of_nat n :: u64) = 0 \<longleftrightarrow> n = 0"
proof -
  assume n: "n < 2 ^ 64"
  have "n = 0" if "(of_nat n :: u64) = 0"
    using unat_of_nat_small [OF n] unfolding that by simp
  then show ?thesis by auto
qed

section \<open>Sequential input and output\<close>

text \<open>
  A series of writes to a socket or a file, each of which must be complete: \<open>tx j = Some k\<close> when the
  j-th one stops after \<open>k\<close> bytes (an error or a timeout), which ends the series.
\<close>

fun send_fields :: "(nat \<Rightarrow> nat option) \<Rightarrow> bytes list \<Rightarrow> bool \<times> bytes" where
  "send_fields tx [] = (True, [])"
| "send_fields tx (b # bs) =
     (case tx 0 of
        Some k \<Rightarrow> (False, take k b)
      | None \<Rightarrow> (case send_fields (\<lambda>j. tx (Suc j)) bs of (ok, w) \<Rightarrow> (ok, b @ w)))"

lemma send_fields_all: "(\<And>j. tx j = None) \<Longrightarrow> send_fields tx bs = (True, concat bs)"
  by (induction bs arbitrary: tx) auto

lemma send_fields_True: "send_fields tx bs = (True, w) \<Longrightarrow> w = concat bs"
  by (induction bs arbitrary: tx w) (auto split: option.splits prod.splits)

text \<open>A read of exactly \<open>n\<close> bytes from what is left of the input.\<close>

definition rd :: "nat \<Rightarrow> bytes \<Rightarrow> (bytes \<times> bytes) option" where
  "rd n inp = (if n \<le> length inp then Some (take n inp, drop n inp) else None)"

lemma rd_append [simp]: "length xs = n \<Longrightarrow> rd n (xs @ ys) = Some (xs, ys)"
  by (simp add: rd_def)

lemma rd_Some: "rd n inp = Some (xs, ys) \<longleftrightarrow> inp = xs @ ys \<and> length xs = n"
  by (auto simp: rd_def)

section \<open>stdio streams\<close>

text \<open>
  An open file: its content and the position. \<open>fread_n n\<close> is \<open>None\<close> when fewer than \<open>n\<close> bytes
  are left (the source treats every short read as an error). \<open>fwrite_n\<close> overwrites or extends.
  \<open>fseek\<close> takes a signed offset, so an unsigned value of 2^63 or more makes it fail.
\<close>

record stream =
  st_data :: bytes
  st_pos :: nat

definition fopen_bytes :: "bytes \<Rightarrow> stream" where
  "fopen_bytes bs = \<lparr>st_data = bs, st_pos = 0\<rparr>"

definition fread_n :: "nat \<Rightarrow> stream \<Rightarrow> (bytes \<times> stream) option" where
  "fread_n n s =
     (if st_pos s + n \<le> length (st_data s)
      then Some (slice (st_pos s) n (st_data s), s\<lparr>st_pos := st_pos s + n\<rparr>) else None)"

definition fwrite_n :: "bytes \<Rightarrow> stream \<Rightarrow> stream" where
  "fwrite_n bs s =
     (let d = st_data s @ replicate (st_pos s - length (st_data s)) 0; p = st_pos s
      in s\<lparr>st_data := take p d @ bs @ drop (p + length bs) d, st_pos := p + length bs\<rparr>)"

definition fseek_set :: "u64 \<Rightarrow> stream \<Rightarrow> stream option" where
  "fseek_set off s = (if sint off < 0 then None else Some (s\<lparr>st_pos := unat off\<rparr>))"

lemma fseek_set_small: "n < 2 ^ 63 \<Longrightarrow> fseek_set (of_nat n) s = Some (s\<lparr>st_pos := n\<rparr>)"
proof -
  assume n: "n < 2 ^ 63"
  have "sint (of_nat n :: u64) = int n"
    using n by (simp add: signed_of_nat signed_take_bit_int_eq_self)
  with n show ?thesis by (simp add: fseek_set_def unat_of_nat take_bit_eq_mod)
qed

lemma fread_n_at:
  "length xs = p \<Longrightarrow> length ys = n \<Longrightarrow>
   fread_n n \<lparr>st_data = xs @ ys @ zs, st_pos = p\<rparr> = Some (ys, \<lparr>st_data = xs @ ys @ zs, st_pos = p + n\<rparr>)"
  by (simp add: fread_n_def slice_at)

lemma fwrite_n_at:
  "length xs = p \<Longrightarrow> length ys = length bs \<Longrightarrow>
   fwrite_n bs \<lparr>st_data = xs @ ys @ zs, st_pos = p\<rparr> = \<lparr>st_data = xs @ bs @ zs, st_pos = p + length bs\<rparr>"
  by (simp add: fwrite_n_def)

lemma fwrite_n_end:
  "length xs = p \<Longrightarrow>
   fwrite_n bs \<lparr>st_data = xs, st_pos = p\<rparr> = \<lparr>st_data = xs @ bs, st_pos = p + length bs\<rparr>"
  by (simp add: fwrite_n_def)

end
