(* ===== verification/Rwlock.thy ===== *)
theory Rwlock
  imports Prelude
begin

text \<open>
  \<open>util/lock.c\<close>: the readers/writer lock. The bodies that test and change \<open>use_state\<close> are
  functions; the threads that run them are a step relation at the granularity of the pthread calls
  (lock, wait, broadcast, unlock), so that every interleaving the mutex allows is covered.
\<close>

section \<open>The code\<close>

definition INT_MAX :: int where
  "INT_MAX = 2 ^ 31 - 1"

definition MAX_READERS :: int where
  "MAX_READERS = INT_MAX - 1"

text \<open>One evaluation of the loop condition: \<open>None\<close> is \<open>pthread_cond_wait\<close>.\<close>

definition acquire_readlock :: "int \<Rightarrow> int option" where
  "acquire_readlock us = (if us < 0 \<or> us = MAX_READERS then None else Some (us + 1))"

definition acquire_writelock :: "int \<Rightarrow> int option" where
  "acquire_writelock us = (if us \<noteq> 0 then None else Some (us - 1))"

text \<open>The release functions: \<open>None\<close> is a failed assertion.\<close>

definition release_readlock :: "int \<Rightarrow> int option" where
  "release_readlock us = (if us > 0 then Some (us - 1) else None)"

definition release_writelock :: "int \<Rightarrow> int option" where
  "release_writelock us = (if us = -1 then Some (us + 1) else None)"

datatype lock_pc =
    Out
  | RAcq | RTest | RWait | RGot | RIn | RRel | RDec | RDone
  | WAcq | WTest | WWait | WGot | WIn | WRel | WDec | WDone
  | Aborted

record lock_state =
  use_state :: int
  use_mutex :: "nat option"
  pcs :: "nat \<Rightarrow> lock_pc"

definition init_lock :: lock_state where
  "init_lock = \<lparr>use_state = 0, use_mutex = None, pcs = (\<lambda>_. Out)\<rparr>"

text \<open>\<open>pthread_cond_broadcast\<close>: every waiter goes back to competing for the mutex.\<close>

definition broadcast :: "(nat \<Rightarrow> lock_pc) \<Rightarrow> nat \<Rightarrow> lock_pc" where
  "broadcast f t = (case f t of RWait \<Rightarrow> RAcq | WWait \<Rightarrow> WAcq | p \<Rightarrow> p)"

inductive lock_step :: "lock_state \<Rightarrow> lock_state \<Rightarrow> bool" where
  r_call: "pcs s t = Out \<Longrightarrow> lock_step s (s\<lparr>pcs := (pcs s)(t := RAcq)\<rparr>)"
| r_lock: "pcs s t = RAcq \<Longrightarrow> use_mutex s = None \<Longrightarrow>
    lock_step s (s\<lparr>use_mutex := Some t, pcs := (pcs s)(t := RTest)\<rparr>)"
| r_wait: "pcs s t = RTest \<Longrightarrow> acquire_readlock (use_state s) = None \<Longrightarrow>
    lock_step s (s\<lparr>use_mutex := None, pcs := (pcs s)(t := RWait)\<rparr>)"
| r_spurious: "pcs s t = RWait \<Longrightarrow> lock_step s (s\<lparr>pcs := (pcs s)(t := RAcq)\<rparr>)"
| r_take: "pcs s t = RTest \<Longrightarrow> acquire_readlock (use_state s) = Some us \<Longrightarrow>
    lock_step s (s\<lparr>use_state := us, pcs := (pcs s)(t := RGot)\<rparr>)"
| r_enter: "pcs s t = RGot \<Longrightarrow> lock_step s (s\<lparr>use_mutex := None, pcs := (pcs s)(t := RIn)\<rparr>)"
| r_release: "pcs s t = RIn \<Longrightarrow> lock_step s (s\<lparr>pcs := (pcs s)(t := RRel)\<rparr>)"
| r_relock: "pcs s t = RRel \<Longrightarrow> use_mutex s = None \<Longrightarrow>
    lock_step s (s\<lparr>use_mutex := Some t, pcs := (pcs s)(t := RDec)\<rparr>)"
| r_assert: "pcs s t = RDec \<Longrightarrow> release_readlock (use_state s) = None \<Longrightarrow>
    lock_step s (s\<lparr>pcs := (pcs s)(t := Aborted)\<rparr>)"
| r_dec: "pcs s t = RDec \<Longrightarrow> release_readlock (use_state s) = Some us \<Longrightarrow>
    lock_step s (s\<lparr>use_state := us, pcs := broadcast ((pcs s)(t := RDone))\<rparr>)"
| r_leave: "pcs s t = RDone \<Longrightarrow> lock_step s (s\<lparr>use_mutex := None, pcs := (pcs s)(t := Out)\<rparr>)"
| w_call: "pcs s t = Out \<Longrightarrow> lock_step s (s\<lparr>pcs := (pcs s)(t := WAcq)\<rparr>)"
| w_lock: "pcs s t = WAcq \<Longrightarrow> use_mutex s = None \<Longrightarrow>
    lock_step s (s\<lparr>use_mutex := Some t, pcs := (pcs s)(t := WTest)\<rparr>)"
| w_wait: "pcs s t = WTest \<Longrightarrow> acquire_writelock (use_state s) = None \<Longrightarrow>
    lock_step s (s\<lparr>use_mutex := None, pcs := (pcs s)(t := WWait)\<rparr>)"
| w_spurious: "pcs s t = WWait \<Longrightarrow> lock_step s (s\<lparr>pcs := (pcs s)(t := WAcq)\<rparr>)"
| w_take: "pcs s t = WTest \<Longrightarrow> acquire_writelock (use_state s) = Some us \<Longrightarrow>
    lock_step s (s\<lparr>use_state := us, pcs := (pcs s)(t := WGot)\<rparr>)"
| w_enter: "pcs s t = WGot \<Longrightarrow> lock_step s (s\<lparr>use_mutex := None, pcs := (pcs s)(t := WIn)\<rparr>)"
| w_release: "pcs s t = WIn \<Longrightarrow> lock_step s (s\<lparr>pcs := (pcs s)(t := WRel)\<rparr>)"
| w_relock: "pcs s t = WRel \<Longrightarrow> use_mutex s = None \<Longrightarrow>
    lock_step s (s\<lparr>use_mutex := Some t, pcs := (pcs s)(t := WDec)\<rparr>)"
| w_assert: "pcs s t = WDec \<Longrightarrow> release_writelock (use_state s) = None \<Longrightarrow>
    lock_step s (s\<lparr>pcs := (pcs s)(t := Aborted)\<rparr>)"
| w_dec: "pcs s t = WDec \<Longrightarrow> release_writelock (use_state s) = Some us \<Longrightarrow>
    lock_step s (s\<lparr>use_state := us, pcs := broadcast ((pcs s)(t := WDone))\<rparr>)"
| w_leave: "pcs s t = WDone \<Longrightarrow> lock_step s (s\<lparr>use_mutex := None, pcs := (pcs s)(t := Out)\<rparr>)"

inductive lock_reachable :: "lock_state \<Rightarrow> bool" where
  start: "lock_reachable init_lock"
| step: "lock_reachable s \<Longrightarrow> lock_step s s' \<Longrightarrow> lock_reachable s'"

section \<open>The invariant\<close>

definition reader_pcs :: "lock_pc set" where
  "reader_pcs = {RGot, RIn, RRel, RDec}"

definition writer_pcs :: "lock_pc set" where
  "writer_pcs = {WGot, WIn, WRel, WDec}"

definition mutex_pcs :: "lock_pc set" where
  "mutex_pcs = {RTest, RGot, RDec, RDone, WTest, WGot, WDec, WDone, Aborted}"

definition readers :: "(nat \<Rightarrow> lock_pc) \<Rightarrow> nat set" where
  "readers f = {t. f t \<in> reader_pcs}"

definition writers :: "(nat \<Rightarrow> lock_pc) \<Rightarrow> nat set" where
  "writers f = {t. f t \<in> writer_pcs}"

text \<open>
  \<open>use_state\<close> counts the readers or is -1 for the one writer; the mutex knows its owner; and a
  thread sleeps on the condition only while its own loop condition holds, so no wake-up is lost.
\<close>

definition lock_inv :: "lock_state \<Rightarrow> bool" where
  "lock_inv s \<longleftrightarrow>
     (\<forall>t. pcs s t \<in> mutex_pcs \<longleftrightarrow> use_mutex s = Some t) \<and>
     finite (readers (pcs s)) \<and>
     (use_state s = int (card (readers (pcs s))) \<and> writers (pcs s) = {} \<or>
      use_state s = -1 \<and> readers (pcs s) = {} \<and> (\<exists>t. writers (pcs s) = {t})) \<and>
     use_state s \<le> MAX_READERS \<and>
     (\<forall>t. pcs s t = RWait \<longrightarrow> acquire_readlock (use_state s) = None) \<and>
     (\<forall>t. pcs s t = WWait \<longrightarrow> acquire_writelock (use_state s) = None) \<and>
     (\<forall>t. pcs s t \<noteq> Aborted)"

lemmas lock_pc_sets = reader_pcs_def writer_pcs_def mutex_pcs_def
lemmas lock_bodies = acquire_readlock_def acquire_writelock_def
  release_readlock_def release_writelock_def

lemma readers_upd:
  "readers (f(t := p)) = (if p \<in> reader_pcs then insert t (readers f) else readers f - {t})"
  by (auto simp: readers_def)

lemma writers_upd:
  "writers (f(t := p)) = (if p \<in> writer_pcs then insert t (writers f) else writers f - {t})"
  by (auto simp: writers_def)

lemma broadcast_pcs:
  "broadcast f t \<in> reader_pcs \<longleftrightarrow> f t \<in> reader_pcs"
  "broadcast f t \<in> writer_pcs \<longleftrightarrow> f t \<in> writer_pcs"
  "broadcast f t \<in> mutex_pcs \<longleftrightarrow> f t \<in> mutex_pcs"
  "broadcast f t \<noteq> RWait" "broadcast f t \<noteq> WWait" "broadcast f t = Aborted \<longleftrightarrow> f t = Aborted"
  by (cases "f t"; simp add: broadcast_def lock_pc_sets)+

lemma broadcast_sets:
  "readers (broadcast f) = readers f" "writers (broadcast f) = writers f"
  by (simp_all add: readers_def writers_def broadcast_pcs)

lemma mem_readers: "t \<in> readers f \<longleftrightarrow> f t \<in> reader_pcs"
  by (simp add: readers_def)

lemma mem_writers: "t \<in> writers f \<longleftrightarrow> f t \<in> writer_pcs"
  by (simp add: writers_def)

text \<open>The four parts of the invariant, each kept by every step.\<close>

definition mutex_inv :: "lock_state \<Rightarrow> bool" where
  "mutex_inv s \<longleftrightarrow> (\<forall>t. pcs s t \<in> mutex_pcs \<longleftrightarrow> use_mutex s = Some t)"

definition count_inv :: "lock_state \<Rightarrow> bool" where
  "count_inv s \<longleftrightarrow> finite (readers (pcs s)) \<and> use_state s \<le> MAX_READERS \<and>
     (use_state s = int (card (readers (pcs s))) \<and> writers (pcs s) = {} \<or>
      use_state s = -1 \<and> readers (pcs s) = {} \<and> (\<exists>t. writers (pcs s) = {t}))"

definition wait_inv :: "lock_state \<Rightarrow> bool" where
  "wait_inv s \<longleftrightarrow>
     (\<forall>t. pcs s t = RWait \<longrightarrow> acquire_readlock (use_state s) = None) \<and>
     (\<forall>t. pcs s t = WWait \<longrightarrow> acquire_writelock (use_state s) = None)"

definition no_abort :: "lock_state \<Rightarrow> bool" where
  "no_abort s \<longleftrightarrow> (\<forall>t. pcs s t \<noteq> Aborted)"

lemma lock_inv_parts: "lock_inv s \<longleftrightarrow> mutex_inv s \<and> count_inv s \<and> wait_inv s \<and> no_abort s"
  by (auto simp: lock_inv_def mutex_inv_def count_inv_def wait_inv_def no_abort_def)

lemma mutex_step: "lock_step s s' \<Longrightarrow> mutex_inv s \<Longrightarrow> mutex_inv s'"
  by (induction rule: lock_step.induct)
    (simp_all add: mutex_inv_def broadcast_pcs, (force simp: mutex_pcs_def)+)

lemma wait_step: "lock_step s s' \<Longrightarrow> wait_inv s \<Longrightarrow> wait_inv s'"
  by (induction rule: lock_step.induct)
    (auto simp: wait_inv_def broadcast_pcs lock_bodies split: if_splits)

lemma count_frame:
  assumes "count_inv s" "use_state s' = use_state s"
    "\<And>u. pcs s' u \<in> reader_pcs \<longleftrightarrow> pcs s u \<in> reader_pcs"
    "\<And>u. pcs s' u \<in> writer_pcs \<longleftrightarrow> pcs s u \<in> writer_pcs"
  shows "count_inv s'"
proof -
  have "readers (pcs s') = readers (pcs s)" "writers (pcs s') = writers (pcs s)"
    using assms(3,4) by (auto simp: readers_def writers_def)
  with assms(1,2) show ?thesis by (simp add: count_inv_def)
qed

lemma count_read:
  assumes "count_inv s" "pcs s t = RTest" "acquire_readlock (use_state s) = Some us"
  shows "count_inv (s\<lparr>use_state := us, pcs := (pcs s)(t := RGot)\<rparr>)"
  using assms
  by (auto simp: count_inv_def readers_upd writers_upd mem_readers lock_bodies lock_pc_sets
      card_insert_if split: if_splits)

lemma count_unread:
  assumes "count_inv s" "pcs s t = RDec" "release_readlock (use_state s) = Some us"
  shows "count_inv (s\<lparr>use_state := us, pcs := broadcast ((pcs s)(t := RDone))\<rparr>)"
proof -
  have t: "t \<in> readers (pcs s)"
    using assms(2) by (simp add: mem_readers reader_pcs_def)
  with assms(1) have "0 < card (readers (pcs s))"
    by (auto simp: count_inv_def card_gt_0_iff)
  with t assms show ?thesis
    by (auto simp: count_inv_def broadcast_sets readers_upd writers_upd lock_bodies lock_pc_sets
        card_Diff_singleton of_nat_diff split: if_splits)
qed

lemma count_write:
  assumes "count_inv s" "pcs s t = WTest" "acquire_writelock (use_state s) = Some us"
  shows "count_inv (s\<lparr>use_state := us, pcs := (pcs s)(t := WGot)\<rparr>)"
  using assms
  by (auto simp: count_inv_def readers_upd writers_upd lock_bodies lock_pc_sets
      MAX_READERS_def INT_MAX_def split: if_splits)

lemma count_unwrite:
  assumes "count_inv s" "pcs s t = WDec" "release_writelock (use_state s) = Some us"
  shows "count_inv (s\<lparr>use_state := us, pcs := broadcast ((pcs s)(t := WDone))\<rparr>)"
proof -
  have "t \<in> writers (pcs s)"
    using assms(2) by (simp add: mem_writers writer_pcs_def)
  with assms show ?thesis
    by (auto simp: count_inv_def broadcast_sets readers_upd writers_upd lock_bodies lock_pc_sets
        MAX_READERS_def INT_MAX_def split: if_splits)
qed

lemma count_step: "lock_step s s' \<Longrightarrow> count_inv s \<Longrightarrow> count_inv s'"
proof (induction rule: lock_step.induct)
  case (r_take s t us)
  then show ?case by (intro count_read)
next
  case (r_dec s t us)
  then show ?case by (intro count_unread)
next
  case (w_take s t us)
  then show ?case by (intro count_write)
next
  case (w_dec s t us)
  then show ?case by (intro count_unwrite)
next
  case (r_assert s t)
  then have "t \<in> readers (pcs s)" by (simp add: mem_readers reader_pcs_def)
  with r_assert show ?case
    by (auto simp: count_inv_def lock_bodies card_eq_0_iff split: if_splits)
next
  case (w_assert s t)
  then have "t \<in> writers (pcs s)" by (simp add: mem_writers writer_pcs_def)
  with w_assert show ?case
    by (auto simp: count_inv_def lock_bodies split: if_splits)
qed (erule count_frame; simp add: reader_pcs_def writer_pcs_def)+

lemma abort_step: "lock_step s s' \<Longrightarrow> count_inv s \<Longrightarrow> no_abort s \<Longrightarrow> no_abort s'"
proof (induction rule: lock_step.induct)
  case (r_assert s t)
  then have "t \<in> readers (pcs s)" by (simp add: mem_readers reader_pcs_def)
  with r_assert show ?case
    by (auto simp: count_inv_def lock_bodies card_eq_0_iff split: if_splits)
next
  case (w_assert s t)
  then have "t \<in> writers (pcs s)" by (simp add: mem_writers writer_pcs_def)
  with w_assert show ?case
    by (auto simp: count_inv_def lock_bodies split: if_splits)
qed (auto simp: no_abort_def broadcast_pcs)

lemma lock_inv_init: "lock_inv init_lock"
  by (simp add: lock_inv_def init_lock_def readers_def writers_def lock_pc_sets
      MAX_READERS_def INT_MAX_def)

lemma reachable_lock_inv: "lock_reachable s \<Longrightarrow> lock_inv s"
proof (induction rule: lock_reachable.induct)
  case start
  show ?case by (rule lock_inv_init)
next
  case (step s s')
  then show ?case
    using mutex_step count_step wait_step abort_step by (auto simp: lock_inv_parts)
qed

section \<open>The contract its users rely on\<close>

text \<open>
  The handler table, the user database and the client's global state are only touched between an
  acquire and the matching release. What they need of the lock is this contract.
\<close>

locale rw_contract =
  fixes reach :: "'s \<Rightarrow> bool"
    and reading :: "'s \<Rightarrow> nat \<Rightarrow> bool"
    and writing :: "'s \<Rightarrow> nat \<Rightarrow> bool"
  assumes one_writer: "reach s \<Longrightarrow> writing s t \<Longrightarrow> writing s u \<Longrightarrow> u = t"
    and writer_excludes: "reach s \<Longrightarrow> writing s t \<Longrightarrow> \<not> reading s u"
begin

lemma conflict_free:
  "reach s \<Longrightarrow> writing s t \<Longrightarrow> reading s u \<or> writing s u \<Longrightarrow> u = t"
  using one_writer writer_excludes by blast

end

lemma lock_inv_exclusive:
  assumes "lock_inv s" "pcs s t \<in> writer_pcs"
  shows "pcs s u \<in> writer_pcs \<Longrightarrow> u = t" "pcs s u \<notin> reader_pcs"
proof -
  have t: "t \<in> writers (pcs s)" using assms(2) by (simp add: mem_writers)
  with assms(1) have r: "readers (pcs s) = {}" and w: "writers (pcs s) = {t}"
    by (auto simp: lock_inv_def)
  show "u = t" if "pcs s u \<in> writer_pcs"
    using w that by (auto simp: mem_writers [symmetric])
  show "pcs s u \<notin> reader_pcs"
    using r by (auto simp: mem_readers [symmetric])
qed

interpretation rwl: rw_contract lock_reachable "\<lambda>s t. pcs s t = RIn" "\<lambda>s t. pcs s t = WIn"
proof unfold_locales
  show "u = t" if "lock_reachable s" "pcs s t = WIn" "pcs s u = WIn" for s t u
    by (rule lock_inv_exclusive(1) [OF reachable_lock_inv [OF that(1)]])
      (use that in \<open>simp_all add: writer_pcs_def\<close>)
  show "\<not> pcs s u = RIn" if "lock_reachable s" "pcs s t = WIn" for s t u
    using lock_inv_exclusive(2) [OF reachable_lock_inv [OF that(1)], of t u] that
    by (auto simp: lock_pc_sets)
qed

text \<open>A run that ends with thread 0 inside the write section and thread 1 asleep.\<close>

definition demo_lock_state :: lock_state where
  "demo_lock_state = \<lparr>use_state = -1, use_mutex = None,
     pcs = (\<lambda>_. Out)(0 := WAcq, 0 := WTest, 0 := WGot, 0 := WIn, 1 := RAcq, 1 := RTest, 1 := RWait)\<rparr>"

lemma demo_lock_reachable: "lock_reachable demo_lock_state"
proof -
  let ?a = "\<lparr>use_state = 0, use_mutex = None, pcs = (\<lambda>_. Out)(0 := WAcq)\<rparr>"
  let ?b = "\<lparr>use_state = 0, use_mutex = Some 0, pcs = (\<lambda>_. Out)(0 := WAcq, 0 := WTest)\<rparr>"
  let ?f = "(\<lambda>_. Out)(0 := WAcq, 0 := WTest, 0 := WGot)"
  let ?c = "\<lparr>use_state = -1, use_mutex = Some 0, pcs = ?f\<rparr>"
  let ?d = "\<lparr>use_state = -1, use_mutex = None, pcs = ?f(0 := WIn)\<rparr>"
  let ?e = "\<lparr>use_state = -1, use_mutex = None, pcs = ?f(0 := WIn, 1 := RAcq)\<rparr>"
  let ?g = "\<lparr>use_state = -1, use_mutex = Some 1, pcs = ?f(0 := WIn, 1 := RAcq, 1 := RTest)\<rparr>"
  have "lock_reachable ?a"
    using lock_reachable.step [OF lock_reachable.start w_call [of init_lock 0]]
    by (simp add: init_lock_def)
  then have "lock_reachable ?b"
    using lock_reachable.step [OF _ w_lock [of ?a 0]] by simp
  then have "lock_reachable ?c"
    using lock_reachable.step [OF _ w_take [of ?b 0 "-1"]] by (simp add: acquire_writelock_def)
  then have "lock_reachable ?d"
    using lock_reachable.step [OF _ w_enter [of ?c 0]] by simp
  then have "lock_reachable ?e"
    using lock_reachable.step [OF _ r_call [of ?d 1]] by simp
  then have "lock_reachable ?g"
    using lock_reachable.step [OF _ r_lock [of ?e 1]] by simp
  then show ?thesis
    using lock_reachable.step [OF _ r_wait [of ?g 1]]
    by (simp add: acquire_readlock_def demo_lock_state_def)
qed

section \<open>Properties\<close>

text \<open>
  C31: In every reachable state of the readers/writer lock, while one thread is in a write section
  no other thread is in a read or a write section; no assertion of the release functions ever
  fails, and \<open>use_state\<close> stays within -1 and \<open>MAX_READERS\<close>, so it never overflows an \<open>int\<close>.
\<close>
theorem rwlock_safe:
  assumes "lock_reachable s"
  shows "(pcs s t = WIn \<and> (pcs s u = RIn \<or> pcs s u = WIn) \<longrightarrow> u = t) \<and> pcs s t \<noteq> Aborted \<and>
    -1 \<le> use_state s \<and> use_state s \<le> MAX_READERS"
  using rwl.conflict_free [OF assms] reachable_lock_inv [OF assms]
  by (auto simp: lock_inv_def)

theorem rwlock_safe_witness:
  "lock_reachable demo_lock_state \<and> pcs demo_lock_state 0 = WIn \<and>
   \<not> (pcs demo_lock_state 1 = RIn \<or> pcs demo_lock_state 1 = WIn)"
  using demo_lock_reachable rwlock_safe [OF demo_lock_reachable, of 0 1]
  by (auto simp: demo_lock_state_def)

text \<open>
  C32: No wake-up is lost: a thread asleep in \<open>acquire_readlock\<close> implies that a writer holds the
  lock or all reader slots are taken, and one asleep in \<open>acquire_writelock\<close> that somebody holds it;
  with the lock free, nobody sleeps.
\<close>
theorem rwlock_no_lost_wakeup:
  assumes "lock_reachable s"
  shows "(pcs s t = RWait \<longrightarrow> use_state s = -1 \<or> use_state s = MAX_READERS) \<and>
    (pcs s t = WWait \<longrightarrow> use_state s \<noteq> 0)"
  using reachable_lock_inv [OF assms]
  by (auto simp: lock_inv_def lock_bodies split: if_splits)

theorem rwlock_no_lost_wakeup_witness:
  "pcs demo_lock_state 1 = RWait \<and> use_state demo_lock_state = -1"
  using rwlock_no_lost_wakeup [OF demo_lock_reachable, of 1]
  by (simp add: demo_lock_state_def)

end
