(* ===== verification/MsgQueue.thy ===== *)
theory MsgQueue
  imports Prelude
begin

text \<open>
  \<open>inet/message.c\<close>: messages and the queue of messages, a singly linked list with \<open>first\<close> and
  \<open>last\<close> pointers. The elements live in an explicit store, so a dangling \<open>last\<close> pointer or a
  lost element would show. The abstraction is the list of queued messages.
\<close>

section \<open>The code\<close>

record message =
  m_length :: u64
  m_seq_num :: u64
  m_message :: bytes

type_synonym addr = nat

record queue_element =
  qe_m :: message
  qe_next :: "addr option"

record message_queue =
  q_size :: u64
  q_first :: "addr option"
  q_last :: "addr option"
  q_heap :: "addr \<rightharpoonup> queue_element"

definition EMPTY_MESSAGE_QUEUE :: message_queue where
  "EMPTY_MESSAGE_QUEUE = \<lparr>q_size = 0, q_first = None, q_last = None, q_heap = Map.empty\<rparr>"

text \<open>Following a pointer: null or dangling is undefined behaviour.\<close>

definition deref :: "(addr \<rightharpoonup> queue_element) \<Rightarrow> addr option \<Rightarrow> queue_element exec" where
  "deref h p = (case p of None \<Rightarrow> UB | Some a \<Rightarrow> (case h a of None \<Rightarrow> UB | Some e \<Rightarrow> Done e))"

definition message_queue_top :: "message_queue \<Rightarrow> message option exec" where
  "message_queue_top q =
     (if q_size q = 0 then Done None
      else exec_bind (deref (q_heap q) (q_first q)) (\<lambda>e. Done (Some (qe_m e))))"

definition message_queue_pop :: "message_queue \<Rightarrow> (message option \<times> message_queue) exec" where
  "message_queue_pop q =
     (if q_size q = 0 then Done (None, q)
      else exec_bind (deref (q_heap q) (q_first q)) (\<lambda>e.
        let q1 = q\<lparr>q_heap := (q_heap q)(the (q_first q) := None),
                   q_first := qe_next e, q_size := q_size q - 1\<rparr>
        in Done (Some (qe_m e),
             if q_size q1 = 0 then q1\<lparr>q_first := None, q_last := None\<rparr> else q1)))"

text \<open>\<open>cell\<close> is the result of \<open>malloc\<close>: \<open>None\<close>, or a fresh address.\<close>

definition message_queue_push ::
    "addr option \<Rightarrow> message_queue \<Rightarrow> message \<Rightarrow> (int \<times> message_queue) exec" where
  "message_queue_push cell q m =
     (case cell of None \<Rightarrow> Done (-1, q)
      | Some a \<Rightarrow>
          let h = (q_heap q)(a \<mapsto> \<lparr>qe_m = m, qe_next = None\<rparr>)
          in if q_size q \<noteq> 0
             then exec_bind (deref h (q_last q)) (\<lambda>e.
               Done (0, q\<lparr>q_heap := h(the (q_last q) \<mapsto> e\<lparr>qe_next := Some a\<rparr>),
                          q_last := Some a, q_size := q_size q + 1\<rparr>))
             else Done (0, q\<lparr>q_heap := h, q_first := Some a, q_last := Some a,
                             q_size := q_size q + 1\<rparr>))"

text \<open>\<open>alloc_message\<close> makes two allocations, the struct (24 bytes) and the body.\<close>

definition alloc_message :: "heap_oracle \<Rightarrow> u64 \<Rightarrow> bool" where
  "alloc_message mem sz \<longleftrightarrow> mem 0 24 \<and> mem 1 sz"

section \<open>The abstraction\<close>

fun chain :: "(addr \<rightharpoonup> queue_element) \<Rightarrow> addr option \<Rightarrow> addr list \<Rightarrow> bool" where
  "chain h p [] \<longleftrightarrow> p = None"
| "chain h p (a # as) \<longleftrightarrow> p = Some a \<and> (\<exists>e. h a = Some e \<and> chain h (qe_next e) as)"

fun walk :: "(addr \<rightharpoonup> queue_element) \<Rightarrow> addr option \<Rightarrow> nat \<Rightarrow> message list" where
  "walk h p 0 = []"
| "walk h p (Suc n) = (case p of None \<Rightarrow> []
     | Some a \<Rightarrow> (case h a of None \<Rightarrow> [] | Some e \<Rightarrow> qe_m e # walk h (qe_next e) n))"

definition mq_abs :: "message_queue \<Rightarrow> message list" where
  "mq_abs q = walk (q_heap q) (q_first q) (unat (q_size q))"

definition mq_rep :: "message_queue \<Rightarrow> addr list \<Rightarrow> bool" where
  "mq_rep q as \<longleftrightarrow> distinct as \<and> chain (q_heap q) (q_first q) as \<and>
     q_last q = (if as = [] then None else Some (last as)) \<and>
     length as < 2 ^ 64 \<and> q_size q = of_nat (length as) \<and> dom (q_heap q) = set as"

definition mq_inv :: "message_queue \<Rightarrow> bool" where
  "mq_inv q \<longleftrightarrow> (\<exists>as. mq_rep q as)"

lemma chain_cong: "(\<And>a. a \<in> set as \<Longrightarrow> h a = h' a) \<Longrightarrow> chain h p as = chain h' p as"
  by (induction as arbitrary: p) auto

lemma walk_cong:
  "chain h p as \<Longrightarrow> (\<And>a. a \<in> set as \<Longrightarrow> h a = h' a) \<Longrightarrow> n = length as \<Longrightarrow> walk h p n = walk h' p n"
  by (induction as arbitrary: p n) auto

lemma chain_dom: "chain h p as \<Longrightarrow> set as \<subseteq> dom h"
  by (induction as arbitrary: p) auto

lemma walk_chain: "chain h p as \<Longrightarrow> walk h p (length as) = map (\<lambda>a. qe_m (the (h a))) as"
  by (induction as arbitrary: p) auto

lemma mq_abs_rep: "mq_rep q as \<Longrightarrow> mq_abs q = map (\<lambda>a. qe_m (the (q_heap q a))) as"
  using walk_chain [of "q_heap q" "q_first q" as]
  by (simp add: mq_abs_def mq_rep_def unat_of_nat_small)

lemma mq_size_zero: "mq_rep q as \<Longrightarrow> q_size q = 0 \<longleftrightarrow> as = []"
proof -
  assume r: "mq_rep q as"
  then have "unat (q_size q) = length as"
    by (simp add: mq_rep_def unat_of_nat_small)
  then show ?thesis by (metis length_0_conv unat_eq_zero)
qed

lemma chain_append_last:
  "chain h p as \<Longrightarrow> as \<noteq> [] \<Longrightarrow> distinct as \<Longrightarrow> a \<notin> set as \<Longrightarrow> h a = Some \<lparr>qe_m = m, qe_next = None\<rparr> \<Longrightarrow>
   h (last as) = Some e \<Longrightarrow> chain (h(last as \<mapsto> e\<lparr>qe_next := Some a\<rparr>)) p (as @ [a])"
proof (induction as arbitrary: p)
  case Nil
  then show ?case by simp
next
  case (Cons b as)
  show ?case
  proof (cases "as = []")
    case True
    with Cons.prems show ?thesis by auto
  next
    case False
    with Cons.prems obtain e' where e': "h b = Some e'" "chain h (qe_next e') as" by auto
    have "b \<noteq> last as" using Cons.prems(3) False by auto
    with False e' Cons.IH [OF e'(2)] Cons.prems show ?thesis by auto
  qed
qed

section \<open>The three operations refine a list\<close>

lemma mq_top_rep:
  assumes "mq_rep q as"
  shows "message_queue_top q = Done (case mq_abs q of [] \<Rightarrow> None | m # _ \<Rightarrow> Some m)"
proof (cases as)
  case Nil
  with assms show ?thesis
    using mq_size_zero [OF assms] by (simp add: message_queue_top_def mq_abs_rep)
next
  case (Cons a as')
  with assms show ?thesis
    using mq_size_zero [OF assms]
    using mq_abs_rep [OF assms] by (auto simp: message_queue_top_def deref_def mq_rep_def)
qed

lemma mq_pop_empty: "mq_rep q [] \<Longrightarrow> message_queue_pop q = Done (None, q)"
  using mq_size_zero [of q "[]"] by (simp add: message_queue_pop_def)

lemma mq_pop_rep:
  assumes r: "mq_rep q (a # as)"
  shows "\<exists>q'. message_queue_pop q = Done (Some (qe_m (the (q_heap q a))), q') \<and> mq_rep q' as \<and>
     (\<forall>b \<in> set as. q_heap q' b = q_heap q b)"
proof -
  from r obtain e where e: "q_heap q a = Some e" "chain (q_heap q) (qe_next e) as"
    and p: "q_first q = Some a" and d: "a \<notin> set as" "distinct as"
    and sz: "q_size q = of_nat (Suc (length as))" "Suc (length as) < 2 ^ 64"
    by (auto simp: mq_rep_def)
  let ?q1 = "q\<lparr>q_heap := (q_heap q)(a := None), q_first := qe_next e, q_size := q_size q - 1\<rparr>"
  let ?q2 = "if q_size ?q1 = 0 then ?q1\<lparr>q_first := None, q_last := None\<rparr> else ?q1"
  have nz: "q_size q \<noteq> 0" using mq_size_zero [OF r] by simp
  have sz1: "q_size q - 1 = of_nat (length as)" using sz by simp
  have z: "q_size q - 1 = 0 \<longleftrightarrow> as = []"
    using sz(2) by (simp add: sz1 of_nat64_eq_0)
  have ch: "chain ((q_heap q)(a := None)) (qe_next e) as"
    using e(2) d by (subst chain_cong [of as _ "q_heap q"]) auto
  have "mq_rep ?q2 as"
    using r ch d sz sz1 z by (auto simp: mq_rep_def)
  moreover have "message_queue_pop q = Done (Some (qe_m e), ?q2)"
    using nz p e by (simp add: message_queue_pop_def deref_def Let_def)
  ultimately show ?thesis using d e(1) by auto
qed

lemma mq_push_rep:
  assumes r: "mq_rep q as" and fresh: "a \<notin> dom (q_heap q)" and room: "Suc (length as) < 2 ^ 64"
  shows "\<exists>q'. message_queue_push (Some a) q m = Done (0, q') \<and> mq_rep q' (as @ [a]) \<and>
     q_heap q' a = Some \<lparr>qe_m = m, qe_next = None\<rparr> \<and>
     (\<forall>b \<in> set as. map_option qe_m (q_heap q' b) = map_option qe_m (q_heap q b))"
proof (cases "as = []")
  case True
  with r fresh show ?thesis
    using mq_size_zero [OF r]
    by (auto simp: message_queue_push_def mq_rep_def Let_def)
next
  case False
  let ?h = "(q_heap q)(a \<mapsto> \<lparr>qe_m = m, qe_next = None\<rparr>)"
  have la: "last as \<in> set as" and nas: "a \<notin> set as" and dist: "distinct as"
    using False r fresh by (auto simp: mq_rep_def)
  obtain e where e: "q_heap q (last as) = Some e"
    using la r by (auto simp: mq_rep_def)
  have ne: "last as \<noteq> a" using la nas by auto
  have ch: "chain ?h (q_first q) as"
    using r nas by (subst chain_cong [of as _ "q_heap q"]) (auto simp: mq_rep_def)
  have ch': "chain (?h(last as \<mapsto> e\<lparr>qe_next := Some a\<rparr>)) (q_first q) (as @ [a])"
    by (rule chain_append_last [OF ch False dist nas]) (use e ne in auto)
  have "message_queue_push (Some a) q m = Done (0, q\<lparr>q_heap := ?h(last as \<mapsto> e\<lparr>qe_next := Some a\<rparr>),
      q_last := Some a, q_size := q_size q + 1\<rparr>)"
    using r False mq_size_zero [OF r] e ne
    by (auto simp: message_queue_push_def mq_rep_def deref_def)
  moreover have "mq_rep (q\<lparr>q_heap := ?h(last as \<mapsto> e\<lparr>qe_next := Some a\<rparr>),
      q_last := Some a, q_size := q_size q + 1\<rparr>) (as @ [a])"
    using r ch' room nas la by (auto simp: mq_rep_def)
  ultimately show ?thesis using e ne nas by auto
qed

section \<open>The queue interface\<close>

text \<open>
  What the connection handler needs of its queues: a list of items, pushed at the end when the
  allocation \<open>c\<close> gives a cell, popped at the front. \<open>drain\<close> pops until the queue is empty.
\<close>

fun drain :: "('q \<Rightarrow> ('a option \<times> 'q) exec) \<Rightarrow> nat \<Rightarrow> 'q \<Rightarrow> ('a list \<times> 'q) exec" where
  "drain pop 0 q = Done ([], q)"
| "drain pop (Suc n) q = exec_bind (pop q) (\<lambda>(r, q').
     case r of None \<Rightarrow> Done ([], q')
     | Some x \<Rightarrow> exec_bind (drain pop n q') (\<lambda>(xs, q''). Done (x # xs, q'')))"

locale fifo =
  fixes inv :: "'q \<Rightarrow> bool"
    and items :: "'q \<Rightarrow> 'a list"
    and fits :: "'c \<Rightarrow> 'q \<Rightarrow> bool"
    and push :: "'c \<Rightarrow> 'q \<Rightarrow> 'a \<Rightarrow> (int \<times> 'q) exec"
    and pop :: "'q \<Rightarrow> ('a option \<times> 'q) exec"
  assumes push_items: "inv q \<Longrightarrow> fits c q \<Longrightarrow>
      \<exists>q'. push c q x = Done (0, q') \<and> inv q' \<and> items q' = items q @ [x]"
    and pop_items: "inv q \<Longrightarrow>
      \<exists>q'. pop q = Done (case items q of [] \<Rightarrow> None | x # _ \<Rightarrow> Some x, q') \<and>
           inv q' \<and> items q' = tl (items q)"
begin

lemma drain_items:
  "inv q \<Longrightarrow> \<exists>q'. drain pop (length (items q)) q = Done (items q, q') \<and> inv q' \<and> items q' = []"
proof (induction "items q" arbitrary: q)
  case Nil
  from Nil(1) [symmetric] Nil(2) show ?case by simp
next
  case (Cons x xs)
  from pop_items [OF Cons.prems] Cons.hyps(2) obtain q1 where
    q1: "pop q = Done (Some x, q1)" "inv q1" "items q1 = xs"
    by (metis list.sel(3) list.simps(5))
  from Cons.hyps(1) [of q1] q1 obtain q2 where
    "drain pop (length xs) q1 = Done (xs, q2)" "inv q2" "items q2 = []" by auto
  with q1 Cons.hyps(2) [symmetric] show ?case by auto
qed

lemma push_drain:
  assumes "inv q" "fits c q"
  shows "\<exists>q1 q2. push c q x = Done (0, q1) \<and> inv q1 \<and> items q1 = items q @ [x] \<and>
    drain pop (length (items q1)) q1 = Done (items q @ [x], q2) \<and> inv q2 \<and> items q2 = []"
  using push_items [OF assms, of x] drain_items by fastforce

end

definition mq_fits :: "addr option \<Rightarrow> message_queue \<Rightarrow> bool" where
  "mq_fits c q \<longleftrightarrow> (\<exists>a. c = Some a \<and> a \<notin> dom (q_heap q)) \<and> Suc (length (mq_abs q)) < 2 ^ 64"

interpretation mq: fifo mq_inv mq_abs mq_fits message_queue_push message_queue_pop
proof unfold_locales
  fix q c x
  assume "mq_inv q" "mq_fits c q"
  then obtain as a where r: "mq_rep q as" and c: "c = Some a" "a \<notin> dom (q_heap q)"
    and "Suc (length (mq_abs q)) < 2 ^ 64"
    unfolding mq_inv_def mq_fits_def by blast
  then have room: "Suc (length as) < 2 ^ 64" by (simp add: mq_abs_rep [OF r])
  from mq_push_rep [OF r c(2) room, of x] obtain q' where
    q': "message_queue_push c q x = Done (0, q')" "mq_rep q' (as @ [a])"
      "q_heap q' a = Some \<lparr>qe_m = x, qe_next = None\<rparr>"
      "\<forall>b \<in> set as. map_option qe_m (q_heap q' b) = map_option qe_m (q_heap q b)"
    using c(1) by auto
  have "qe_m (the (q_heap q' b)) = qe_m (the (q_heap q b))" if b: "b \<in> set as" for b
  proof -
    have "b \<in> dom (q_heap q)" "b \<in> dom (q_heap q')"
      using b r q'(2) by (auto simp: mq_rep_def)
    with q'(4) b show ?thesis by force
  qed
  then show "\<exists>q'. message_queue_push c q x = Done (0, q') \<and> mq_inv q' \<and> mq_abs q' = mq_abs q @ [x]"
    using q' r by (auto simp: mq_inv_def mq_abs_rep)
next
  fix q
  assume "mq_inv q"
  then obtain as where r: "mq_rep q as" by (auto simp: mq_inv_def)
  show "\<exists>q'. message_queue_pop q = Done (case mq_abs q of [] \<Rightarrow> None | x # _ \<Rightarrow> Some x, q') \<and>
      mq_inv q' \<and> mq_abs q' = tl (mq_abs q)"
  proof (cases as)
    case Nil
    with r show ?thesis by (auto simp: mq_inv_def mq_abs_rep mq_pop_empty)
  next
    case (Cons a as')
    with r mq_pop_rep [of q a as'] show ?thesis
      by (force simp: mq_inv_def mq_abs_rep)
  qed
qed

lemma mq_inv_empty [simp]: "mq_inv EMPTY_MESSAGE_QUEUE" "mq_abs EMPTY_MESSAGE_QUEUE = []"
  by (auto simp: mq_inv_def mq_rep_def EMPTY_MESSAGE_QUEUE_def mq_abs_def intro!: exI [of _ "[]"])

section \<open>Properties\<close>

text \<open>
  C29: The linked-list message queue behaves as a first-in first-out list: a push appends one message
  and leaves the earlier ones in place, and popping until the queue is empty returns every message
  exactly once in the order of the pushes, never following a null or dangling pointer.
\<close>
theorem message_queue_fifo:
  assumes "mq_inv q" and "a \<notin> dom (q_heap q)" and "Suc (length (mq_abs q)) < 2 ^ 64"
  shows "\<exists>q1 q2. message_queue_push (Some a) q m = Done (0, q1) \<and> mq_inv q1 \<and>
    mq_abs q1 = mq_abs q @ [m] \<and>
    drain message_queue_pop (length (mq_abs q1)) q1 = Done (mq_abs q @ [m], q2) \<and>
    mq_inv q2 \<and> mq_abs q2 = []"
  using mq.push_drain [OF assms(1), of "Some a" m] assms(2,3) by (simp add: mq_fits_def)

theorem message_queue_fifo_witness:
  "\<exists>q1 q2. message_queue_push (Some 7) EMPTY_MESSAGE_QUEUE \<lparr>m_length = 1, m_seq_num = 5, m_message = [9]\<rparr>
      = Done (0, q1) \<and> drain message_queue_pop 1 q1 =
      Done ([\<lparr>m_length = 1, m_seq_num = 5, m_message = [9]\<rparr>], q2)"
  using message_queue_fifo [OF mq_inv_empty(1), of 7 "\<lparr>m_length = 1, m_seq_num = 5, m_message = [9]\<rparr>"]
  by (auto simp: EMPTY_MESSAGE_QUEUE_def mq_abs_def)

end
