(* ===== verification/Libs.thy ===== *)
theory Libs
  imports Prelude
begin

text \<open>
  The two libraries the program links, libibur (endian, hex, constant-time compare) and ibcrypt
  (sha256, hmac, chacha, scrypt, pbkdf2, RSA, Diffie-Hellman), are git submodules: their code is
  not part of this repository. They are a record of functions that every definition using them
  takes as its first argument. The predicates below state what the code relies on, and
  \<open>demo_lib\<close> is a concrete library that satisfies them, used to evaluate definitions on inputs.
\<close>

section \<open>The interface\<close>

text \<open>\<open>RSA_PUBLIC_KEY\<close> and \<open>RSA_KEY\<close>: the fields the program reads, big numbers as \<open>nat\<close>.\<close>

record rsa_public_key =
  pk_bits :: u64
  pk_e :: u64
  pk_n :: nat

record rsa_key =
  sk_bits :: u64
  sk_e :: u64
  sk_n :: nat
  sk_d :: nat

record ibc =
  \<comment> \<open>libibur\<close>
  encbe32 :: "u32 \<Rightarrow> bytes"
  decbe32 :: "bytes \<Rightarrow> u32"
  encbe64 :: "u64 \<Rightarrow> bytes"
  decbe64 :: "bytes \<Rightarrow> u64"
  memcmp_ct :: "bytes \<Rightarrow> bytes \<Rightarrow> byte"
  to_hex :: "bytes \<Rightarrow> bytes"
  from_hex :: "bytes \<Rightarrow> bytes"
  \<comment> \<open>ibcrypt, symmetric\<close>
  sha256 :: "bytes \<Rightarrow> bytes"
  hmac_sha256 :: "bytes \<Rightarrow> bytes \<Rightarrow> bytes"
  chacha_enc :: "bytes \<Rightarrow> u64 \<Rightarrow> bytes \<Rightarrow> bytes"
  chacha_dec :: "bytes \<Rightarrow> u64 \<Rightarrow> bytes \<Rightarrow> bytes"
  chacha_stream :: "bytes \<Rightarrow> u64 \<Rightarrow> nat \<Rightarrow> bytes \<Rightarrow> bytes"
  pbkdf2 :: "bytes \<Rightarrow> nat \<Rightarrow> bytes"
  scrypt :: "bytes \<Rightarrow> bytes \<Rightarrow> nat \<Rightarrow> bytes option"
  \<comment> \<open>ibcrypt, RSA\<close>
  rsa_pubkey_bufsize :: "u64 \<Rightarrow> u64"
  rsa_prikey_bufsize :: "u64 \<Rightarrow> u64"
  rsa_pub_key :: "rsa_key \<Rightarrow> rsa_public_key option"
  rsa_pubkey2wire :: "rsa_public_key \<Rightarrow> bytes option"
  rsa_wire2pubkey :: "bytes \<Rightarrow> rsa_public_key option"
  rsa_prikey2wire :: "rsa_key \<Rightarrow> bytes option"
  rsa_wire2prikey :: "bytes \<Rightarrow> rsa_key option"
  rsa_wire_prikey2pubkey :: "bytes \<Rightarrow> bytes option"
  rsa_pss_sign :: "rsa_key \<Rightarrow> bytes \<Rightarrow> bytes option"
  rsa_pss_verify :: "rsa_public_key \<Rightarrow> bytes \<Rightarrow> bytes \<Rightarrow> bool option"
  rsa_oaep_encrypt :: "rsa_public_key \<Rightarrow> bytes \<Rightarrow> bytes option"
  rsa_oaep_decrypt :: "rsa_key \<Rightarrow> bytes \<Rightarrow> nat \<Rightarrow> bytes option"
  \<comment> \<open>ibcrypt, Diffie-Hellman over the fixed group 14\<close>
  dh_gen_pub :: "nat \<Rightarrow> nat option"
  dh_range_check :: "nat \<Rightarrow> int"
  dh_compute_secret :: "nat \<Rightarrow> nat \<Rightarrow> nat option"
  dh_val2wire :: "nat \<Rightarrow> bytes option"
  dh_wire2val :: "bytes \<Rightarrow> nat option"
  dh_valwire_bufsize :: "nat \<Rightarrow> u64"

section \<open>What the code relies on\<close>

definition endian_ok :: "ibc \<Rightarrow> bool" where
  "endian_ok L \<longleftrightarrow>
     (\<forall>x. length (encbe32 L x) = 4 \<and> decbe32 L (encbe32 L x) = x) \<and>
     (\<forall>x. length (encbe64 L x) = 8 \<and> decbe64 L (encbe64 L x) = x) \<and>
     (\<forall>b. length b = 8 \<longrightarrow> encbe64 L (decbe64 L b) = b)"

definition cmp_ok :: "ibc \<Rightarrow> bool" where
  "cmp_ok L \<longleftrightarrow> (\<forall>a b. length a = length b \<longrightarrow> (memcmp_ct L a b = 0 \<longleftrightarrow> a = b))"

definition digest_ok :: "ibc \<Rightarrow> bool" where
  "digest_ok L \<longleftrightarrow> (\<forall>m. length (sha256 L m) = 32) \<and> (\<forall>k m. length (hmac_sha256 L k m) = 32)"

text \<open>chacha is a stream cipher: decryption undoes encryption, and the keystream is an involution.\<close>

definition cipher_ok :: "ibc \<Rightarrow> bool" where
  "cipher_ok L \<longleftrightarrow>
     (\<forall>k n m. length (chacha_enc L k n m) = length m \<and> length (chacha_dec L k n m) = length m \<and>
        chacha_dec L k n (chacha_enc L k n m) = m) \<and>
     (\<forall>k n i m. length (chacha_stream L k n i m) = length m \<and>
        chacha_stream L k n i (chacha_stream L k n i m) = m)"

definition kdf_ok :: "ibc \<Rightarrow> bool" where
  "kdf_ok L \<longleftrightarrow> (\<forall>s n. length (pbkdf2 L s n) = n) \<and>
     (\<forall>p s n k. scrypt L p s n = Some k \<longrightarrow> length k = n)"

text \<open>Two parties that raise each other's public value to their own exponent get one secret.\<close>

definition dh_ok :: "ibc \<Rightarrow> bool" where
  "dh_ok L \<longleftrightarrow>
     (\<forall>a b A B s t. dh_gen_pub L a = Some A \<longrightarrow> dh_gen_pub L b = Some B \<longrightarrow>
        dh_compute_secret L a B = Some s \<longrightarrow> dh_compute_secret L b A = Some t \<longrightarrow> s = t) \<and>
     (\<forall>v w. dh_val2wire L v = Some w \<longrightarrow>
        length w = unat (dh_valwire_bufsize L v) \<and> dh_wire2val L w = Some v)"

definition rsa_ok :: "ibc \<Rightarrow> bool" where
  "rsa_ok L \<longleftrightarrow>
     (\<forall>pk w. rsa_pubkey2wire L pk = Some w \<longrightarrow>
        rsa_wire2pubkey L w = Some pk \<and> length w = unat (rsa_pubkey_bufsize L (pk_bits pk)) \<and>
        8 \<le> length w \<and> take 8 w = encbe64 L (pk_bits pk)) \<and>
     (\<forall>k w. rsa_prikey2wire L k = Some w \<longrightarrow>
        rsa_wire2prikey L w = Some k \<and> length w = unat (rsa_prikey_bufsize L (sk_bits k)) \<and>
        8 \<le> length w \<and> take 8 w = encbe64 L (sk_bits k) \<and>
        rsa_wire_prikey2pubkey L w = Option.bind (rsa_pub_key L k) (rsa_pubkey2wire L)) \<and>
     (\<forall>k pk. rsa_pub_key L k = Some pk \<longrightarrow> pk_bits pk = sk_bits k) \<and>
     (\<forall>k pk m s. rsa_pub_key L k = Some pk \<longrightarrow> rsa_pss_sign L k m = Some s \<longrightarrow>
        rsa_pss_verify L pk s m = Some True \<and> length s = unat ((sk_bits k + 7) div 8)) \<and>
     (\<forall>k pk m c. rsa_pub_key L k = Some pk \<longrightarrow> rsa_oaep_encrypt L pk m = Some c \<longrightarrow>
        length c = unat ((pk_bits pk + 7) div 8) \<and> rsa_oaep_decrypt L k c (length m) = Some m)"

text \<open>\<open>to_hex\<close> writes two of the characters 0-9, a-f per byte, and \<open>from_hex\<close> reads them back.\<close>

definition hex_char :: "byte \<Rightarrow> bool" where
  "hex_char c \<longleftrightarrow> 48 \<le> c \<and> c \<le> 57 \<or> 97 \<le> c \<and> c \<le> 102"

definition hex_ok :: "ibc \<Rightarrow> bool" where
  "hex_ok L \<longleftrightarrow> (\<forall>bs. length (to_hex L bs) = 2 * length bs \<and> list_all hex_char (to_hex L bs) \<and>
     from_hex L (to_hex L bs) = bs)"

definition lib_ok :: "ibc \<Rightarrow> bool" where
  "lib_ok L \<longleftrightarrow> endian_ok L \<and> cmp_ok L \<and> digest_ok L \<and> cipher_ok L \<and> kdf_ok L \<and> dh_ok L \<and> rsa_ok L"

section \<open>A concrete library\<close>

text \<open>
  Big-endian numbers are the real encoding; the cryptographic functions are small stand-ins that
  keep the algebraic facts above (a keystream xor, a one-byte checksum in 32 bytes, ...). They are
  used only to evaluate definitions on concrete inputs, never in a general theorem.
\<close>

fun be_enc :: "nat \<Rightarrow> nat \<Rightarrow> bytes" where
  "be_enc 0 n = []"
| "be_enc (Suc k) n = be_enc k (n div 256) @ [of_nat (n mod 256)]"

definition be_dec :: "bytes \<Rightarrow> nat" where
  "be_dec bs = foldl (\<lambda>a b. a * 256 + unat b) 0 bs"

lemma length_be_enc [simp]: "length (be_enc k n) = k"
  by (induction k arbitrary: n) auto

lemma be_dec_enc [simp]: "be_dec (be_enc k n) = n mod 256 ^ k"
proof (induction k arbitrary: n)
  case 0
  then show ?case by (simp add: be_dec_def)
next
  case (Suc k)
  have u: "unat (of_nat (n mod 256) :: byte) = n mod 256"
    by (simp add: unat_of_nat take_bit_eq_mod)
  have "be_dec (be_enc (Suc k) n) = be_dec (be_enc k (n div 256)) * 256 + n mod 256"
    using u by (simp add: be_dec_def)
  also have "\<dots> = (n div 256) mod 256 ^ k * 256 + n mod 256"
    by (simp add: Suc.IH)
  also have "\<dots> = n mod 256 ^ Suc k"
    by (metis add.commute mod_mult2_eq mult.commute power_Suc)
  finally show ?case .
qed

definition mix :: "bytes \<Rightarrow> byte" where
  "mix bs = foldl (\<lambda>a b. a * 31 + b) 7 bs"

definition pad_to :: "nat \<Rightarrow> bytes \<Rightarrow> bytes" where
  "pad_to n bs = take n (bs @ replicate n 0)"

definition demo_stream :: "bytes \<Rightarrow> u64 \<Rightarrow> nat \<Rightarrow> bytes \<Rightarrow> bytes" where
  "demo_stream k n i m = map (\<lambda>b. xor b (mix k + ucast n + of_nat i)) m"

definition hex_digit :: "nat \<Rightarrow> byte" where
  "hex_digit n = (if n < 10 then of_nat (48 + n) else of_nat (87 + n))"

definition hex_val :: "byte \<Rightarrow> nat" where
  "hex_val b = (if unat b < 58 then unat b - 48 else unat b - 87)"

fun demo_from_hex :: "bytes \<Rightarrow> bytes" where
  "demo_from_hex (a # b # bs) = of_nat (hex_val a * 16 + hex_val b) # demo_from_hex bs"
| "demo_from_hex bs = []"

definition demo_lib :: ibc where
  "demo_lib =
     \<lparr>encbe32 = (\<lambda>x. be_enc 4 (unat x)), decbe32 = (\<lambda>bs. of_nat (be_dec bs)),
      encbe64 = (\<lambda>x. be_enc 8 (unat x)), decbe64 = (\<lambda>bs. of_nat (be_dec bs)),
      memcmp_ct = (\<lambda>a b. if a = b then 0 else 1),
      to_hex = (\<lambda>bs. concat (map (\<lambda>b. [hex_digit (unat b div 16), hex_digit (unat b mod 16)]) bs)),
      from_hex = demo_from_hex,
      sha256 = (\<lambda>m. mix m # replicate 31 0),
      hmac_sha256 = (\<lambda>k m. mix (k @ m) # replicate 31 0),
      chacha_enc = (\<lambda>k n m. demo_stream k n 0 m), chacha_dec = (\<lambda>k n m. demo_stream k n 0 m),
      chacha_stream = demo_stream,
      pbkdf2 = (\<lambda>s n. map (\<lambda>i. mix s + of_nat i) [0..<n]),
      scrypt = (\<lambda>p s n. Some (map (\<lambda>i. mix (p @ s) + of_nat i) [0..<n])),
      rsa_pubkey_bufsize = (\<lambda>_. 24), rsa_prikey_bufsize = (\<lambda>_. 32),
      rsa_pub_key = (\<lambda>k. Some \<lparr>pk_bits = sk_bits k, pk_e = sk_e k, pk_n = sk_n k\<rparr>),
      rsa_pubkey2wire = (\<lambda>pk. if pk_n pk < 2 ^ 64
         then Some (be_enc 8 (unat (pk_bits pk)) @ be_enc 8 (unat (pk_e pk)) @ be_enc 8 (pk_n pk)) else None),
      rsa_wire2pubkey = (\<lambda>w. if length w = 24
         then Some \<lparr>pk_bits = of_nat (be_dec (slice 0 8 w)), pk_e = of_nat (be_dec (slice 8 8 w)),
                    pk_n = be_dec (slice 16 8 w)\<rparr> else None),
      rsa_prikey2wire = (\<lambda>k. if sk_n k < 2 ^ 64 \<and> sk_d k < 2 ^ 64
         then Some (be_enc 8 (unat (sk_bits k)) @ be_enc 8 (unat (sk_e k)) @ be_enc 8 (sk_n k) @ be_enc 8 (sk_d k))
         else None),
      rsa_wire2prikey = (\<lambda>w. if length w = 32
         then Some \<lparr>sk_bits = of_nat (be_dec (slice 0 8 w)), sk_e = of_nat (be_dec (slice 8 8 w)),
                    sk_n = be_dec (slice 16 8 w), sk_d = be_dec (slice 24 8 w)\<rparr> else None),
      rsa_wire_prikey2pubkey = (\<lambda>w. if length w = 32 then Some (take 24 w) else None),
      rsa_pss_sign = (\<lambda>k m. Some (pad_to (unat ((sk_bits k + 7) div 8)) [mix m + of_nat (sk_n k)])),
      rsa_pss_verify = (\<lambda>pk s m. Some (s = pad_to (unat ((pk_bits pk + 7) div 8)) [mix m + of_nat (pk_n pk)])),
      rsa_oaep_encrypt = (\<lambda>pk m. if length m \<le> unat ((pk_bits pk + 7) div 8)
         then Some (pad_to (unat ((pk_bits pk + 7) div 8)) m) else None),
      rsa_oaep_decrypt = (\<lambda>k c n. if n \<le> length c then Some (take n c) else None),
      dh_gen_pub = (\<lambda>a. Some (7 * a mod 251)),
      dh_range_check = (\<lambda>v. if 1 < v \<and> v < 250 then 1 else 0),
      dh_compute_secret = (\<lambda>a v. Some (a * v mod 251)),
      dh_val2wire = (\<lambda>v. if v < 2 ^ 64 then Some (be_enc 8 v) else None),
      dh_wire2val = (\<lambda>w. if length w = 8 then Some (be_dec w) else None),
      dh_valwire_bufsize = (\<lambda>_. 8)\<rparr>"

lemma length_pad_to [simp]: "length (pad_to n bs) = n"
  by (simp add: pad_to_def)

lemma length_demo_stream [simp]: "length (demo_stream k n i m) = length m"
  by (simp add: demo_stream_def)

lemma demo_stream_involution [simp]: "demo_stream k n i (demo_stream k n i m) = m"
  by (simp add: demo_stream_def o_def xor.assoc)

lemma unat64_mod [simp]: "unat (x :: u64) mod 18446744073709551616 = unat x"
proof -
  have "unat x < 2 ^ LENGTH(64)"
    by (rule unsigned_less)
  then show ?thesis by simp
qed

lemma unat32_mod [simp]: "unat (x :: u32) mod 4294967296 = unat x"
proof -
  have "unat x < 2 ^ LENGTH(32)"
    by (rule unsigned_less)
  then show ?thesis by simp
qed

lemma be_dec_snoc: "be_dec (bs @ [b]) = be_dec bs * 256 + unat b"
  by (simp add: be_dec_def)

lemma unat8_less: "unat (b :: byte) < 256"
proof -
  have "unat b < 2 ^ LENGTH(8)" by (rule unsigned_less)
  then show ?thesis by simp
qed

lemma be_enc_dec: "be_enc (length bs) (be_dec bs) = bs \<and> be_dec bs < 256 ^ length bs"
proof (induction bs rule: rev_induct)
  case Nil
  then show ?case by (simp add: be_dec_def)
next
  case (snoc b bs)
  have "be_dec bs * 256 + unat b < 256 ^ length bs * 256"
    using snoc unat8_less [of b] by (simp add: mult.commute)
  moreover have "(be_dec bs * 256 + unat b) div 256 = be_dec bs" "(be_dec bs * 256 + unat b) mod 256 = unat b"
    using unat8_less [of b] by simp_all
  ultimately show ?case
    using snoc by (simp add: be_dec_snoc mult.commute)
qed

lemma demo_enc_dec:
  assumes "length bs = 8"
  shows "be_enc 8 (unat (of_nat (be_dec bs) :: u64)) = bs"
proof -
  have "be_dec bs < 2 ^ 64" using be_enc_dec [of bs] assms by simp
  then have "unat (of_nat (be_dec bs) :: u64) = be_dec bs" by (rule unat_of_nat_small)
  then show ?thesis using be_enc_dec [of bs] assms by simp
qed

lemma demo_endian_ok: "endian_ok demo_lib"
proof -
  have sel: "encbe32 demo_lib = (\<lambda>x. be_enc 4 (unat x))" "decbe32 demo_lib = (\<lambda>bs. of_nat (be_dec bs))"
    "encbe64 demo_lib = (\<lambda>x. be_enc 8 (unat x))" "decbe64 demo_lib = (\<lambda>bs. of_nat (be_dec bs))"
    by (simp_all only: demo_lib_def ibc.select_convs)
  show ?thesis unfolding endian_ok_def sel by (simp add: demo_enc_dec)
qed

lemma demo_dh_comm: "a * (7 * b mod 251) mod 251 = b * (7 * a mod 251) mod (251 :: nat)"
proof -
  have "a * (7 * b mod 251) mod 251 = a * (7 * b) mod 251"
    by (rule mod_mult_right_eq)
  also have "\<dots> = b * (7 * a) mod 251"
    by (simp only: mult.left_commute mult.commute)
  also have "\<dots> = b * (7 * a mod 251) mod 251"
    by (rule mod_mult_right_eq [symmetric])
  finally show ?thesis .
qed

lemma demo_dh_ok: "dh_ok demo_lib"
proof -
  have sel: "dh_gen_pub demo_lib = (\<lambda>a. Some (7 * a mod 251))"
    "dh_compute_secret demo_lib = (\<lambda>a v. Some (a * v mod 251))"
    "dh_val2wire demo_lib = (\<lambda>v. if v < 2 ^ 64 then Some (be_enc 8 v) else None)"
    "dh_wire2val demo_lib = (\<lambda>w. if length w = 8 then Some (be_dec w) else None)"
    "dh_valwire_bufsize demo_lib = (\<lambda>_. 8)"
    by (simp_all only: demo_lib_def ibc.select_convs)
  have "s = t" if "Some (7 * a mod 251) = Some A" "Some (7 * b mod 251) = Some B"
    "Some (a * B mod 251) = Some s" "Some (b * A mod 251) = Some t" for a b A B s t :: nat
    using that demo_dh_comm [of a b] by simp
  moreover have "length w = unat (8 :: u64) \<and> (if length w = 8 then Some (be_dec w) else None) = Some v"
    if "(if v < 2 ^ 64 then Some (be_enc 8 v) else None) = Some w" for v w
  proof -
    from that have v: "v < 2 ^ 64" and w: "w = be_enc 8 v"
      by (auto split: if_splits)
    have "v mod 256 ^ 8 = v" using v by simp
    with w show ?thesis by simp
  qed
  ultimately show ?thesis
    unfolding dh_ok_def sel by blast
qed

lemma demo_rsa_ok: "rsa_ok demo_lib"
  by (auto simp: rsa_ok_def demo_lib_def slice_def pad_to_def)

lemma demo_hex_ok [simp]: "hex_ok demo_lib"
proof -
  have sel: "to_hex demo_lib = (\<lambda>bs. concat (map (\<lambda>b. [hex_digit (unat b div 16), hex_digit (unat b mod 16)]) bs))"
    "from_hex demo_lib = demo_from_hex"
    by (simp_all only: demo_lib_def ibc.select_convs)
  have d: "hex_char (hex_digit n) \<and> hex_val (hex_digit n) = n" if "n < 16" for n
  proof -
    have "\<forall>n \<in> set [0..<16]. hex_char (hex_digit n) \<and> hex_val (hex_digit n) = n"
      by (simp add: upt_rec hex_char_def hex_digit_def hex_val_def)
    then show ?thesis using that by simp
  qed
  have lt: "unat (b :: byte) div 16 < 16" for b
  proof -
    have "unat b < 2 ^ LENGTH(8)" by (rule unsigned_less)
    then show ?thesis by simp
  qed
  have "length (to_hex demo_lib bs) = 2 * length bs \<and> list_all hex_char (to_hex demo_lib bs) \<and>
      from_hex demo_lib (to_hex demo_lib bs) = bs" for bs
    unfolding sel by (induction bs) (simp_all add: d lt)
  then show ?thesis by (simp add: hex_ok_def)
qed

lemma demo_lib_ok [simp]: "lib_ok demo_lib"
  using demo_endian_ok demo_dh_ok demo_rsa_ok
  by (auto simp: lib_ok_def cmp_ok_def digest_ok_def cipher_ok_def kdf_ok_def demo_lib_def)

section \<open>The laws as rewrite rules\<close>

lemma lib_ok_parts:
  assumes "lib_ok L"
  shows "endian_ok L" "cmp_ok L" "digest_ok L" "cipher_ok L" "kdf_ok L" "dh_ok L" "rsa_ok L"
  using assms by (simp_all add: lib_ok_def)

lemma endian_simps [wire_simps]:
  assumes "endian_ok L"
  shows "length (encbe32 L x) = 4" "decbe32 L (encbe32 L x) = x"
    "length (encbe64 L y) = 8" "decbe64 L (encbe64 L y) = y" "length b = 8 \<Longrightarrow> encbe64 L (decbe64 L b) = b"
  using assms by (auto simp: endian_ok_def)

lemma hex_simps [wire_simps]:
  assumes "hex_ok L"
  shows "length (to_hex L bs) = 2 * length bs" "list_all hex_char (to_hex L bs)" "from_hex L (to_hex L bs) = bs"
  using assms by (auto simp: hex_ok_def)

lemma memcmp_ct_iff: "cmp_ok L \<Longrightarrow> length a = length b \<Longrightarrow> memcmp_ct L a b = 0 \<longleftrightarrow> a = b"
  by (simp add: cmp_ok_def)

lemma memcmp_ct_same [wire_simps]: "cmp_ok L \<Longrightarrow> memcmp_ct L a a = 0"
  by (simp add: cmp_ok_def)

lemma digest_simps [wire_simps]:
  assumes "digest_ok L"
  shows "length (sha256 L m) = 32" "length (hmac_sha256 L k m) = 32"
  using assms by (auto simp: digest_ok_def)

lemma cipher_simps [wire_simps]:
  assumes "cipher_ok L"
  shows "length (chacha_enc L k n m) = length m" "length (chacha_dec L k n m) = length m"
    "chacha_dec L k n (chacha_enc L k n m) = m"
    "length (chacha_stream L k n i m) = length m"
    "chacha_stream L k n i (chacha_stream L k n i m) = m"
  using assms by (auto simp: cipher_ok_def)

lemma kdf_simps [wire_simps]:
  assumes "kdf_ok L"
  shows "length (pbkdf2 L s n) = n"
  using assms by (auto simp: kdf_ok_def)

lemma scryptD: "kdf_ok L \<Longrightarrow> scrypt L p s n = Some k \<Longrightarrow> length k = n"
  by (simp add: kdf_ok_def)

lemma dh_agree:
  "dh_ok L \<Longrightarrow> dh_gen_pub L a = Some A \<Longrightarrow> dh_gen_pub L b = Some B \<Longrightarrow>
   dh_compute_secret L a B = Some s \<Longrightarrow> dh_compute_secret L b A = Some t \<Longrightarrow> s = t"
  unfolding dh_ok_def by blast

lemma dh_wireD:
  "dh_ok L \<Longrightarrow> dh_val2wire L v = Some w \<Longrightarrow>
   length w = unat (dh_valwire_bufsize L v) \<and> dh_wire2val L w = Some v"
  unfolding dh_ok_def by blast

lemma rsa_pubkey_wireD:
  "rsa_ok L \<Longrightarrow> rsa_pubkey2wire L pk = Some w \<Longrightarrow>
   rsa_wire2pubkey L w = Some pk \<and> length w = unat (rsa_pubkey_bufsize L (pk_bits pk)) \<and>
   8 \<le> length w \<and> take 8 w = encbe64 L (pk_bits pk)"
  unfolding rsa_ok_def by blast

lemma rsa_prikey_wireD:
  "rsa_ok L \<Longrightarrow> rsa_prikey2wire L k = Some w \<Longrightarrow>
   rsa_wire2prikey L w = Some k \<and> length w = unat (rsa_prikey_bufsize L (sk_bits k)) \<and>
   8 \<le> length w \<and> take 8 w = encbe64 L (sk_bits k) \<and>
   rsa_wire_prikey2pubkey L w = Option.bind (rsa_pub_key L k) (rsa_pubkey2wire L)"
  unfolding rsa_ok_def by blast

lemma rsa_bitsD: "rsa_ok L \<Longrightarrow> rsa_pub_key L k = Some pk \<Longrightarrow> pk_bits pk = sk_bits k"
  unfolding rsa_ok_def by blast

lemma rsa_signD:
  "rsa_ok L \<Longrightarrow> rsa_pub_key L k = Some pk \<Longrightarrow> rsa_pss_sign L k m = Some s \<Longrightarrow>
   rsa_pss_verify L pk s m = Some True \<and> length s = unat ((sk_bits k + 7) div 8)"
  unfolding rsa_ok_def by blast

lemma rsa_oaepD:
  "rsa_ok L \<Longrightarrow> rsa_pub_key L k = Some pk \<Longrightarrow> rsa_oaep_encrypt L pk m = Some c \<Longrightarrow>
   length c = unat ((pk_bits pk + 7) div 8) \<and> rsa_oaep_decrypt L k c (length m) = Some m"
  unfolding rsa_ok_def by blast

end
