(* ===== verification/Wire.thy ===== *)
theory Wire
  imports Libs MsgQueue "HOL-Library.Multiset"
begin

text \<open>
  \<open>inet/protocol.c\<close>, the bytes on the socket: the timed transfer loops, the frames (acknowledge,
  message, keep-alive), the table of messages waiting for an acknowledge, and the two functions
  that move frames between the socket and the queues. A queue is the list it was shown to be in
  \<open>MsgQueue\<close>.
\<close>

section \<open>Time\<close>

record timeval =
  tv_sec :: u64
  tv_usec :: u64

definition utime :: "timeval \<Rightarrow> u64" where
  "utime tv = tv_sec tv * 1000000 + tv_usec tv"

definition tvtime :: "u64 \<Rightarrow> timeval" where
  "tvtime ut = \<lparr>tv_sec = ut div 1000000, tv_usec = ut mod 1000000\<rparr>"

definition WAIT_TIMEOUT :: u64 where "WAIT_TIMEOUT = 10000000"
definition ACK_WAITTIME :: u64 where "ACK_WAITTIME = 100000000"
definition READWRITE_WAIT :: u64 where "READWRITE_WAIT = 1000000"

lemmas time_consts = WAIT_TIMEOUT_def ACK_WAITTIME_def READWRITE_WAIT_def

text \<open>
  The timeout \<open>read_message\<close> and \<open>write_messages\<close> give to their next transfer: an unsigned
  difference between the deadline of the frame and the present time.
\<close>

definition time_left :: "u64 \<Rightarrow> u64 \<Rightarrow> u64" where
  "time_left start now = (READWRITE_WAIT + start) - now"

section \<open>The transfer loops\<close>

text \<open>
  One turn of the loop of \<open>send_bytes\<close> and \<open>read_bytes\<close>: whether \<open>select\<close> succeeded, what the
  system call did (moved some bytes; failed with EINTR, EAGAIN or EWOULDBLOCK; failed otherwise),
  and the time since the start that the loop reads at its end. The kernel never moves more than it
  was asked to. \<open>None\<close>: the loop is still running after these turns.
\<close>

datatype io_event = Moved nat | Retry | IoError

record io_turn =
  it_select :: bool
  it_io :: io_event
  it_elapsed :: u64

fun xfer_loop :: "u64 \<Rightarrow> nat \<Rightarrow> nat \<Rightarrow> io_turn list \<Rightarrow> (int \<times> nat) option" where
  "xfer_loop timeout len got [] = None"
| "xfer_loop timeout len got (t # ts) =
     (if \<not> it_select t then Some (-1, got)
      else case it_io t of
        IoError \<Rightarrow> Some (-1, got)
      | ev \<Rightarrow>
          let got' = got + (case ev of Moved k \<Rightarrow> min k (len - got) | _ \<Rightarrow> 0)
          in if it_elapsed t < timeout \<and> got' < len then xfer_loop timeout len got' ts
             else Some (int got', got'))"

text \<open>The value returned, and the bytes that reached the socket.\<close>

definition send_bytes :: "bytes \<Rightarrow> u64 \<Rightarrow> io_turn list \<Rightarrow> (int \<times> bytes) option" where
  "send_bytes buf timeout ts =
     map_option (\<lambda>(r, n). (r, take n buf)) (xfer_loop timeout (length buf) 0 ts)"

text \<open>
  The same turns for \<open>recv\<close>, over the incoming stream: what it delivers are the next bytes of the
  stream, and it cannot deliver more than the stream still holds (at its end it moves 0 bytes, and
  the loop goes on until the timeout).
\<close>

fun recv_loop :: "u64 \<Rightarrow> nat \<Rightarrow> bytes \<Rightarrow> bytes \<Rightarrow> io_turn list \<Rightarrow> (int \<times> bytes \<times> bytes) option" where
  "recv_loop timeout len got inp [] = None"
| "recv_loop timeout len got inp (t # ts) =
     (if \<not> it_select t then Some (-1, got, inp)
      else case it_io t of
        IoError \<Rightarrow> Some (-1, got, inp)
      | ev \<Rightarrow>
          let chunk = (case ev of Moved k \<Rightarrow> take (min k (len - length got)) inp | _ \<Rightarrow> []);
              got' = got @ chunk;
              inp' = drop (length chunk) inp
          in if it_elapsed t < timeout \<and> length got' < len then recv_loop timeout len got' inp' ts
             else Some (int (length got'), got', inp'))"

text \<open>The value returned, the bytes read and what is left of the incoming stream.\<close>

definition read_bytes :: "nat \<Rightarrow> bytes \<Rightarrow> u64 \<Rightarrow> io_turn list \<Rightarrow> (int \<times> bytes \<times> bytes) option" where
  "read_bytes len inp timeout ts = recv_loop timeout len [] inp ts"

section \<open>Messages waiting for an acknowledge\<close>

record ack_map_el =
  ack_seq_num :: u64
  ack_time :: u64

type_synonym ack_map = "ack_map_el list list"

definition ACK_MAP_MASK :: u64 where "ACK_MAP_MASK = 0xf"

definition empty_ack_map :: ack_map where
  "empty_ack_map = replicate (unat (ACK_MAP_MASK + 1)) []"

definition ack_bucket :: "u64 \<Rightarrow> nat" where
  "ack_bucket seq = unat (and seq ACK_MAP_MASK)"

definition ack_map_add :: "heap_oracle \<Rightarrow> ack_map \<Rightarrow> u64 \<Rightarrow> u64 \<Rightarrow> int \<times> ack_map" where
  "ack_map_add mem mp seq time =
     (if \<not> mem 0 24 then (-1, mp)
      else (0, mp[ack_bucket seq := mp ! ack_bucket seq @ [\<lparr>ack_seq_num = seq, ack_time = time\<rparr>]]))"

fun ack_list_rm :: "u64 \<Rightarrow> ack_map_el list \<Rightarrow> ack_map_el list option" where
  "ack_list_rm seq [] = None"
| "ack_list_rm seq (e # es) =
     (if ack_seq_num e = seq then Some es else map_option (Cons e) (ack_list_rm seq es))"

definition ack_map_rm :: "ack_map \<Rightarrow> u64 \<Rightarrow> int \<times> ack_map" where
  "ack_map_rm mp seq =
     (case ack_list_rm seq (mp ! ack_bucket seq) of
        None \<Rightarrow> (-1, mp) | Some l \<Rightarrow> (0, mp[ack_bucket seq := l]))"

section \<open>Frames\<close>

text \<open>
  A connection handle as far as its thread reads and writes it: both queues, the time of the last
  keep-alive, the kill flag, the number of unread bytes in the pipe that wakes the thread, and
  whether a write to that pipe succeeds (\<open>pipe\<close> may have failed, and \<open>write\<close> may fail at any time).
\<close>

record con_handle =
  in_queue :: "message list"
  out_queue :: "message list"
  ka_last_recv :: u64
  kill :: int
  out_cond :: nat
  out_pipe :: bool

text \<open>The fields of a message frame, one per call of \<open>send_bytes\<close>.\<close>

definition frame_fields :: "ibc \<Rightarrow> message \<Rightarrow> bytes list" where
  "frame_fields L m = [encbe32 L 2, encbe64 L (m_seq_num m), encbe64 L (m_length m),
     m_message m, sha256 L (m_message m)]"

definition ack_fields :: "ibc \<Rightarrow> u64 \<Rightarrow> bytes list" where
  "ack_fields L seq = [encbe32 L 1, encbe64 L seq]"

definition write_keepalive :: "ibc \<Rightarrow> (nat \<Rightarrow> nat option) \<Rightarrow> int \<times> bytes" where
  "write_keepalive L tx =
     (case send_fields tx [encbe32 L 3] of (ok, w) \<Rightarrow> (if ok then 0 else -1, w))"

definition write_acknowledge :: "ibc \<Rightarrow> (nat \<Rightarrow> nat option) \<Rightarrow> u64 \<Rightarrow> int \<times> bytes" where
  "write_acknowledge L tx seq =
     (case send_fields tx (ack_fields L seq) of (ok, w) \<Rightarrow> (if ok then 0 else -1, w))"

text \<open>
  The environment of one call of \<open>write_messages\<close>: for its i-th message, the outcomes of the five
  sends, the allocation of the acknowledge entry, the time recorded in it and the time read at the
  end of the loop body.
\<close>

record write_env =
  we_tx :: "nat \<Rightarrow> nat \<Rightarrow> nat option"
  we_mem :: "nat \<Rightarrow> heap_oracle"
  we_ack :: "nat \<Rightarrow> u64"
  we_clock :: "nat \<Rightarrow> u64"

fun write_loop :: "ibc \<Rightarrow> write_env \<Rightarrow> nat \<Rightarrow> u64 \<Rightarrow> u64 \<Rightarrow> message list \<Rightarrow> ack_map \<Rightarrow>
    int \<times> message list \<times> ack_map \<times> bytes" where
  "write_loop L env i start now [] mp = (0, [], mp, [])"
| "write_loop L env i start now (m # q) mp =
     (if \<not> now - start < ACK_WAITTIME div 2 then (0, m # q, mp, [])
      else case send_fields (we_tx env i) (frame_fields L m) of
        (False, w) \<Rightarrow> (-1, m # q, mp, w)
      | (True, w) \<Rightarrow>
          (case ack_map_add (we_mem env i) mp (m_seq_num m) (we_ack env i) of (r, mp') \<Rightarrow>
             if r = -1 then (-1, m # q, mp', w)
             else (case write_loop L env (Suc i) start (we_clock env i) q mp' of
                (r', q', mp'', w') \<Rightarrow> (r', q', mp'', w @ w'))))"

definition write_messages :: "ibc \<Rightarrow> write_env \<Rightarrow> u64 \<Rightarrow> con_handle \<Rightarrow> ack_map \<Rightarrow>
    int \<times> con_handle \<times> ack_map \<times> bytes" where
  "write_messages L env now con mp =
     (case write_loop L env 0 now now (out_queue con) mp of
        (r, q, mp', w) \<Rightarrow> (r, con\<lparr>out_queue := q\<rparr>, mp', w))"

text \<open>
  The environment of one call of \<open>read_message\<close>: the allocations, the time read for a keep-alive,
  the outcomes of the two sends of the acknowledge. The input is what arrives on the socket before
  the deadline: a \<open>read_bytes\<close> that finds fewer bytes fails its \<open>IO_CHECK\<close>.
\<close>

record read_env =
  re_mem :: heap_oracle
  re_now :: u64
  re_tx :: "nat \<Rightarrow> nat option"

type_synonym read_result = "int \<times> con_handle \<times> ack_map \<times> bytes \<times> bytes"

text \<open>The three kinds of frame: result, handle, table, input left, bytes sent back.\<close>

definition read_ack :: "ibc \<Rightarrow> con_handle \<Rightarrow> ack_map \<Rightarrow> bytes \<Rightarrow> read_result" where
  "read_ack L con mp inp =
     (case rd 8 inp of None \<Rightarrow> (-1, con, mp, [], [])
      | Some (buf, rest) \<Rightarrow>
          (case ack_map_rm mp (decbe64 L buf) of (r, mp') \<Rightarrow>
             if r = -1 then (-1, con, mp', rest, []) else (0, con, mp', rest, [])))"

definition read_keepalive :: "read_env \<Rightarrow> con_handle \<Rightarrow> ack_map \<Rightarrow> bytes \<Rightarrow> read_result" where
  "read_keepalive env con mp inp = (0, con\<lparr>ka_last_recv := re_now env\<rparr>, mp, inp, [])"

definition read_new_message :: "ibc \<Rightarrow> read_env \<Rightarrow> con_handle \<Rightarrow> ack_map \<Rightarrow> bytes \<Rightarrow> read_result" where
  "read_new_message L env con mp inp =
     (case rd 8 inp of None \<Rightarrow> (-1, con, mp, [], [])
      | Some (sbuf, i1) \<Rightarrow>
     (case rd 8 i1 of None \<Rightarrow> (-1, con, mp, [], [])
      | Some (lbuf, i2) \<Rightarrow>
     (let seq = decbe64 L sbuf; len = decbe64 L lbuf in
      if \<not> alloc_message (re_mem env) len then (-1, con, mp, i2, [])
      else (case rd (unat len) i2 of None \<Rightarrow> (-1, con, mp, [], [])
      | Some (body, i3) \<Rightarrow>
     (case rd 32 i3 of None \<Rightarrow> (-1, con, mp, [], [])
      | Some (hash1, i4) \<Rightarrow>
      if hash1 \<noteq> sha256 L body then (-1, con, mp, i4, [])
      else if \<not> re_mem env 2 16 then (-1, con, mp, i4, [])
      else (let con' = con\<lparr>in_queue := in_queue con @
                  [\<lparr>m_length = len, m_seq_num = seq, m_message = body\<rparr>]\<rparr>
            in case write_acknowledge L (re_tx env) seq of (r, w) \<Rightarrow>
               if r = -1 then (-1, con', mp, i4, w) else (0, con', mp, i4, w)))))))"

definition read_message :: "ibc \<Rightarrow> read_env \<Rightarrow> con_handle \<Rightarrow> ack_map \<Rightarrow> bytes \<Rightarrow> read_result" where
  "read_message L env con mp inp =
     (case rd 4 inp of None \<Rightarrow> (-1, con, mp, [], [])
      | Some (buf, rest) \<Rightarrow>
          (let type = decbe32 L buf in
           if type = 1 then read_ack L con mp rest
           else if type = 3 then read_keepalive env con mp rest
           else if type = 2 then read_new_message L env con mp rest
           else (-1, con, mp, rest, [])))"

text \<open>Several frames in a row, stopping at the first error.\<close>

fun read_messages :: "ibc \<Rightarrow> (nat \<Rightarrow> read_env) \<Rightarrow> nat \<Rightarrow> con_handle \<Rightarrow> ack_map \<Rightarrow> bytes \<Rightarrow> read_result" where
  "read_messages L env 0 con mp inp = (0, con, mp, inp, [])"
| "read_messages L env (Suc n) con mp inp =
     (case read_message L (env 0) con mp inp of (r, con', mp', rest, w) \<Rightarrow>
        if r = -1 then (-1, con', mp', rest, w)
        else (case read_messages L (\<lambda>i. env (Suc i)) n con' mp' rest of
          (r', con'', mp'', rest', w') \<Rightarrow> (r', con'', mp'', rest', w @ w')))"

section \<open>The transfer loops: results and termination\<close>

lemma xfer_loop_range:
  "got \<le> len \<Longrightarrow> xfer_loop timeout len got ts = Some (r, n) \<Longrightarrow>
   got \<le> n \<and> n \<le> len \<and> (r = -1 \<or> r = int n)"
proof (induction ts arbitrary: got)
  case Nil
  then show ?case by simp
next
  case (Cons t ts)
  show ?case
  proof (cases "it_io t")
    case (Moved k)
    let ?g = "got + min k (len - got)"
    have "?g \<le> len" using Cons.prems(1) by simp
    with Cons.IH [of ?g] Cons.prems Moved show ?thesis
      by (auto simp: Let_def split: if_splits)
  next
    case Retry
    with Cons.IH [of got] Cons.prems show ?thesis by (auto simp: Let_def split: if_splits)
  next
    case IoError
    with Cons.prems show ?thesis by (auto split: if_splits)
  qed
qed

text \<open>A short count is only returned once the timeout has passed.\<close>

lemma xfer_loop_short:
  "got \<le> len \<Longrightarrow> xfer_loop timeout len got ts = Some (int n, n) \<Longrightarrow> n < len \<Longrightarrow>
   \<exists>t \<in> set ts. timeout \<le> it_elapsed t"
proof (induction ts arbitrary: got)
  case Nil
  then show ?case by simp
next
  case (Cons t ts)
  show ?case
  proof (cases "it_io t")
    case (Moved k)
    let ?g = "got + min k (len - got)"
    have "?g \<le> len" using Cons.prems(1) by simp
    with Cons.IH [of ?g] Cons.prems Moved show ?thesis
      by (auto simp: Let_def not_less split: if_splits)
  next
    case Retry
    with Cons.IH [of got] Cons.prems show ?thesis
      by (auto simp: Let_def not_less split: if_splits)
  next
    case IoError
    with Cons.prems show ?thesis by (auto split: if_splits)
  qed
qed

lemma xfer_loop_stops:
  "t \<in> set ts \<Longrightarrow> timeout \<le> it_elapsed t \<Longrightarrow> xfer_loop timeout len got ts \<noteq> None"
proof (induction ts arbitrary: got)
  case Nil
  then show ?case by simp
next
  case (Cons u ts)
  then show ?case
    by (cases "it_io u") (auto simp: Let_def not_less [symmetric])
qed

text \<open>An error is only returned by a turn that met one.\<close>

definition turn_fails :: "io_turn \<Rightarrow> bool" where
  "turn_fails t \<longleftrightarrow> \<not> it_select t \<or> it_io t = IoError"

lemma xfer_loop_error:
  "xfer_loop timeout len got ts = Some (-1, n) \<Longrightarrow> \<exists>t \<in> set ts. turn_fails t"
proof (induction ts arbitrary: got)
  case Nil
  then show ?case by simp
next
  case (Cons t ts)
  then show ?case
    by (cases "it_io t") (auto simp: Let_def turn_fails_def split: if_splits)
qed

text \<open>The count that \<open>read_bytes\<close> returns is the number of bytes taken from the stream.\<close>

lemma recv_loop_result:
  "length got0 \<le> len \<Longrightarrow> recv_loop timeout len got0 inp ts = Some (r, got, rest) \<Longrightarrow>
   got @ rest = got0 @ inp \<and> length got \<le> len \<and>
   (r = -1 \<and> (\<exists>t \<in> set ts. turn_fails t) \<or>
    r = int (length got) \<and> (length got = len \<or> (\<exists>t \<in> set ts. timeout \<le> it_elapsed t)))"
proof (induction ts arbitrary: got0 inp)
  case Nil
  then show ?case by simp
next
  case (Cons t ts)
  show ?case
  proof (cases "it_io t")
    case (Moved k)
    let ?c = "take (min k (len - length got0)) inp"
    have l: "length (got0 @ ?c) \<le> len" using Cons.prems(1) by simp
    note ih = Cons.IH [OF l, of "drop (length ?c) inp"]
    have d: "?c @ drop (length ?c) inp = inp" by (metis append_take_drop_id length_take take_all_iff linear min_def)
    show ?thesis
      using ih Cons.prems Moved l d
      by (auto simp: Let_def turn_fails_def not_less split: if_split_asm)
  next
    case Retry
    with Cons.IH [of got0 inp] Cons.prems show ?thesis
      by (auto simp: Let_def turn_fails_def not_less split: if_split_asm)
  next
    case IoError
    with Cons.prems show ?thesis by (auto simp: turn_fails_def split: if_split_asm)
  qed
qed

lemma recv_loop_stops:
  "t \<in> set ts \<Longrightarrow> timeout \<le> it_elapsed t \<Longrightarrow> recv_loop timeout len got inp ts \<noteq> None"
proof (induction ts arbitrary: got inp)
  case Nil
  then show ?case by simp
next
  case (Cons u ts)
  then show ?case
    by (cases "it_io u") (auto simp: Let_def not_less [symmetric])
qed

section \<open>The acknowledge table is a bag of sequence numbers\<close>

definition ack_inv :: "ack_map \<Rightarrow> bool" where
  "ack_inv mp \<longleftrightarrow> length mp = 16 \<and> (\<forall>i < 16. \<forall>e \<in> set (mp ! i). ack_bucket (ack_seq_num e) = i)"

definition outstanding :: "ack_map \<Rightarrow> u64 multiset" where
  "outstanding mp = mset (map ack_seq_num (concat mp))"

lemma ack_bucket_less: "ack_bucket seq < 16"
proof -
  have "and seq ACK_MAP_MASK \<le> ACK_MAP_MASK" by (rule word_and_le1)
  then have "unat (and seq ACK_MAP_MASK) \<le> unat ACK_MAP_MASK" by (simp add: word_le_nat_alt)
  then show ?thesis by (simp add: ack_bucket_def ACK_MAP_MASK_def)
qed

lemma ack_inv_empty: "ack_inv empty_ack_map" "outstanding empty_ack_map = {#}"
  by (auto simp: ack_inv_def outstanding_def empty_ack_map_def ACK_MAP_MASK_def)

lemma concat_update:
  "i < length xss \<Longrightarrow> mset (concat (xss[i := ys])) + mset (xss ! i) = mset (concat xss) + mset ys"
proof (induction xss arbitrary: i)
  case Nil
  then show ?case by simp
next
  case (Cons xs xss)
  then show ?case by (cases i) (auto simp: ac_simps)
qed

lemma outstanding_update:
  assumes "i < length mp"
  shows "outstanding (mp[i := l]) + mset (map ack_seq_num (mp ! i)) =
    outstanding mp + mset (map ack_seq_num l)"
  using arg_cong [OF concat_update [OF assms, of l], of "image_mset ack_seq_num"]
  by (simp add: outstanding_def)

lemma ack_list_rm_Some:
  "ack_list_rm seq es = Some l \<Longrightarrow>
   mset (map ack_seq_num es) = add_mset seq (mset (map ack_seq_num l)) \<and> set l \<subseteq> set es"
  by (induction es arbitrary: l) (auto split: if_splits)

lemma ack_list_rm_None: "ack_list_rm seq es = None \<longleftrightarrow> seq \<notin> ack_seq_num ` set es"
  by (induction es) auto

lemma outstanding_bucket:
  assumes "ack_inv mp"
  shows "seq \<in># outstanding mp \<longleftrightarrow> seq \<in> ack_seq_num ` set (mp ! ack_bucket seq)"
proof
  assume "seq \<in># outstanding mp"
  then obtain i e where "i < length mp" "e \<in> set (mp ! i)" "ack_seq_num e = seq"
    by (auto simp: outstanding_def in_set_conv_nth [of _ mp])
  with assms show "seq \<in> ack_seq_num ` set (mp ! ack_bucket seq)"
    by (auto simp: ack_inv_def)
next
  assume "seq \<in> ack_seq_num ` set (mp ! ack_bucket seq)"
  then obtain e where e: "e \<in> set (mp ! ack_bucket seq)" "ack_seq_num e = seq" by auto
  have "mp ! ack_bucket seq \<in> set mp"
    using assms ack_bucket_less [of seq] by (simp add: ack_inv_def)
  with e show "seq \<in># outstanding mp" by (auto simp: outstanding_def)
qed

lemma ack_inv_update:
  assumes "ack_inv mp" "\<And>e. e \<in> set l \<Longrightarrow> ack_bucket (ack_seq_num e) = i"
  shows "ack_inv (mp[i := l])"
  unfolding ack_inv_def
proof (intro conjI allI impI ballI)
  show "length (mp[i := l]) = 16" using assms(1) by (simp add: ack_inv_def)
next
  fix j e
  assume "j < 16" "e \<in> set (mp[i := l] ! j)"
  with assms show "ack_bucket (ack_seq_num e) = j"
    by (cases "j = i") (auto simp: ack_inv_def)
qed

lemma ack_inv_bucket:
  "ack_inv mp \<Longrightarrow> e \<in> set (mp ! ack_bucket seq) \<Longrightarrow> ack_bucket (ack_seq_num e) = ack_bucket seq"
  using ack_bucket_less [of seq] by (auto simp: ack_inv_def)

lemma ack_map_add_ok:
  assumes "ack_inv mp" "mem 0 24"
  shows "\<exists>mp'. ack_map_add mem mp seq time = (0, mp') \<and> ack_inv mp' \<and>
    outstanding mp' = add_mset seq (outstanding mp)"
proof -
  let ?mp = "mp[ack_bucket seq := mp ! ack_bucket seq @ [\<lparr>ack_seq_num = seq, ack_time = time\<rparr>]]"
  have b: "ack_bucket seq < length mp" using assms(1) ack_bucket_less by (simp add: ack_inv_def)
  have "ack_inv ?mp"
    by (rule ack_inv_update [OF assms(1)]) (auto dest: ack_inv_bucket [OF assms(1)])
  moreover have "outstanding ?mp = add_mset seq (outstanding mp)"
    using outstanding_update [OF b, of "mp ! ack_bucket seq @ [\<lparr>ack_seq_num = seq, ack_time = time\<rparr>]"]
    by simp
  ultimately show ?thesis using assms(2) by (simp add: ack_map_add_def)
qed

lemma ack_map_rm_ok:
  assumes inv: "ack_inv mp"
  shows "\<exists>mp'. ack_map_rm mp seq = (if seq \<in># outstanding mp then 0 else -1, mp') \<and> ack_inv mp' \<and>
    outstanding mp' = outstanding mp - {#seq#}"
proof (cases "ack_list_rm seq (mp ! ack_bucket seq)")
  case None
  then have "seq \<notin># outstanding mp"
    using outstanding_bucket [OF inv] by (simp add: ack_list_rm_None)
  with None inv show ?thesis by (simp add: ack_map_rm_def)
next
  case (Some l)
  then have "seq \<in># outstanding mp"
    using outstanding_bucket [OF inv, of seq] ack_list_rm_None [of seq "mp ! ack_bucket seq"] by auto
  moreover have "ack_bucket seq < length mp" using inv ack_bucket_less by (simp add: ack_inv_def)
  moreover have "ack_inv (mp[ack_bucket seq := l])"
    by (rule ack_inv_update [OF inv])
      (use ack_list_rm_Some [OF Some] ack_inv_bucket [OF inv] in blast)
  moreover have "outstanding mp = add_mset seq (outstanding (mp[ack_bucket seq := l]))"
    using calculation ack_list_rm_Some [OF Some] outstanding_update [of "ack_bucket seq" mp l]
    by simp
  ultimately show ?thesis using Some by (simp add: ack_map_rm_def)
qed

text \<open>
  The interface the handler uses: an entry per message sent, removed by its acknowledge. Whatever
  the order in which the acknowledges of a set of messages come back, each is accepted and the
  table ends as it began.
\<close>

locale ack_table =
  fixes inv :: "'t \<Rightarrow> bool"
    and pending :: "'t \<Rightarrow> 'k multiset"
    and rm :: "'t \<Rightarrow> 'k \<Rightarrow> int \<times> 't"
  assumes rm_pending: "inv t \<Longrightarrow> \<exists>t'. rm t k = (if k \<in># pending t then 0 else -1, t') \<and>
      inv t' \<and> pending t' = pending t - {#k#}"
begin

lemma rm_all:
  "inv t \<Longrightarrow> mset ks \<subseteq># pending t \<Longrightarrow>
   \<exists>t'. foldl (\<lambda>(r, t) k. case rm t k of (r', t') \<Rightarrow> (if r = 0 then r' else r, t')) (0, t) ks = (0, t') \<and>
     inv t' \<and> pending t' = pending t - mset ks"
proof (induction ks arbitrary: t)
  case Nil
  then show ?case by simp
next
  case (Cons k ks)
  have "k \<in># pending t"
    using Cons.prems(2) by (simp add: insert_subset_eq_iff)
  with rm_pending [OF Cons.prems(1), of k] obtain t1 where
    t1: "rm t k = (0, t1)" "inv t1" "pending t1 = pending t - {#k#}"
    by auto
  have "mset ks \<subseteq># pending t1"
    using Cons.prems(2) t1(3) by (simp add: insert_subset_eq_iff)
  from Cons.IH [OF t1(2) this] t1 show ?case by auto
qed

end

interpretation ack: ack_table ack_inv outstanding ack_map_rm
  by unfold_locales (rule ack_map_rm_ok)

section \<open>Frames are read back as they were written\<close>

definition message_ok :: "message \<Rightarrow> bool" where
  "message_ok m \<longleftrightarrow> m_length m = of_nat (length (m_message m)) \<and> length (m_message m) < 2 ^ 64"

definition read_env_ok :: "read_env \<Rightarrow> bool" where
  "read_env_ok env \<longleftrightarrow> (\<forall>k n. re_mem env k n) \<and> (\<forall>j. re_tx env j = None)"

definition write_env_ok :: "write_env \<Rightarrow> u64 \<Rightarrow> bool" where
  "write_env_ok env now \<longleftrightarrow> (\<forall>i j. we_tx env i j = None) \<and> (\<forall>i k n. we_mem env i k n) \<and>
     (\<forall>i. we_clock env i - now < ACK_WAITTIME div 2)"

lemma message_ok_length: "message_ok m \<Longrightarrow> unat (m_length m) = length (m_message m)"
  by (simp add: message_ok_def unat_of_nat_small)

lemma read_frame:
  assumes "lib_ok L" "message_ok m" "read_env_ok env"
  shows "read_message L env con mp (concat (frame_fields L m) @ rest) =
    (0, con\<lparr>in_queue := in_queue con @ [m]\<rparr>, mp, rest, concat (ack_fields L (m_seq_num m)))"
proof -
  note ok = lib_ok_parts [OF assms(1)]
  have tx: "send_fields (re_tx env) bs = (True, concat bs)" for bs
    by (rule send_fields_all) (use assms(3) in \<open>simp add: read_env_ok_def\<close>)
  show ?thesis
    using assms(3) ok message_ok_length [OF assms(2)]
    by (simp add: read_message_def read_new_message_def frame_fields_def ack_fields_def wire_simps
        write_acknowledge_def alloc_message_def read_env_ok_def tx Let_def)
qed

lemma read_ack_frame:
  assumes "lib_ok L" "ack_inv mp" "seq \<in># outstanding mp"
  shows "\<exists>mp'. read_message L env con mp (concat (ack_fields L seq) @ rest) = (0, con, mp', rest, []) \<and>
    ack_inv mp' \<and> outstanding mp' = outstanding mp - {#seq#}"
  using ack_map_rm_ok [OF assms(2), of seq] assms(3) lib_ok_parts [OF assms(1)]
  by (auto simp: read_message_def read_ack_def ack_fields_def wire_simps)

lemma read_keepalive_frame:
  assumes "lib_ok L"
  shows "read_message L env con mp (encbe32 L 3 @ rest) = (0, con\<lparr>ka_last_recv := re_now env\<rparr>, mp, rest, [])"
  using lib_ok_parts [OF assms] by (simp add: read_message_def read_keepalive_def wire_simps)

definition frames :: "ibc \<Rightarrow> message list \<Rightarrow> bytes" where
  "frames L q = concat (map (\<lambda>m. concat (frame_fields L m)) q)"

definition acks :: "ibc \<Rightarrow> message list \<Rightarrow> bytes" where
  "acks L q = concat (map (\<lambda>m. concat (ack_fields L (m_seq_num m))) q)"

lemma read_frames:
  assumes "lib_ok L"
  shows "\<forall>m \<in> set q. message_ok m \<Longrightarrow> \<forall>i. read_env_ok (env i) \<Longrightarrow>
    read_messages L env (length q) con mp (frames L q @ rest) =
      (0, con\<lparr>in_queue := in_queue con @ q\<rparr>, mp, rest, acks L q)"
proof (induction q arbitrary: con env)
  case Nil
  then show ?case by (simp add: frames_def acks_def)
next
  case (Cons m q)
  have step: "read_message L (env 0) con mp (frames L (m # q) @ rest) =
      (0, con\<lparr>in_queue := in_queue con @ [m]\<rparr>, mp, frames L q @ rest, concat (ack_fields L (m_seq_num m)))"
    using read_frame [OF assms, of m "env 0" con mp "frames L q @ rest"] Cons.prems
    by (simp add: frames_def)
  have "read_messages L (\<lambda>i. env (Suc i)) (length q) (con\<lparr>in_queue := in_queue con @ [m]\<rparr>) mp
      (frames L q @ rest) = (0, con\<lparr>in_queue := in_queue con @ m # q\<rparr>, mp, rest, acks L q)"
    using Cons.IH [of "\<lambda>i. env (Suc i)" "con\<lparr>in_queue := in_queue con @ [m]\<rparr>"] Cons.prems by simp
  with step show ?case by (simp add: acks_def)
qed

lemma read_acks:
  assumes "lib_ok L"
  shows "ack_inv mp \<Longrightarrow> mset (map m_seq_num q) \<subseteq># outstanding mp \<Longrightarrow>
    \<exists>mp'. read_messages L env (length q) con mp (acks L q @ rest) = (0, con, mp', rest, []) \<and>
      ack_inv mp' \<and> outstanding mp' = outstanding mp - mset (map m_seq_num q)"
proof (induction q arbitrary: mp env)
  case Nil
  then show ?case by (simp add: acks_def)
next
  case (Cons m q)
  have mem: "m_seq_num m \<in># outstanding mp"
    and sub: "mset (map m_seq_num q) \<subseteq># outstanding mp - {#m_seq_num m#}"
    using Cons.prems(2) by (simp_all add: insert_subset_eq_iff)
  from read_ack_frame [OF assms Cons.prems(1) mem, of "env 0" con "acks L q @ rest"] obtain mp1 where
    mp1: "read_message L (env 0) con mp (acks L (m # q) @ rest) = (0, con, mp1, acks L q @ rest, [])"
      "ack_inv mp1" "outstanding mp1 = outstanding mp - {#m_seq_num m#}"
    by (auto simp: acks_def)
  from Cons.IH [OF mp1(2), of "\<lambda>i. env (Suc i)"] sub mp1(3) obtain mp2 where
    "read_messages L (\<lambda>i. env (Suc i)) (length q) con mp1 (acks L q @ rest) = (0, con, mp2, rest, [])"
    "ack_inv mp2" "outstanding mp2 = outstanding mp1 - mset (map m_seq_num q)" by auto
  with mp1 show ?case by simp
qed

lemma write_loop_all:
  assumes "write_env_ok env start"
  shows "ack_inv mp \<Longrightarrow> now - start < ACK_WAITTIME div 2 \<Longrightarrow>
    \<exists>mp'. write_loop L env i start now q mp = (0, [], mp', frames L q) \<and> ack_inv mp' \<and>
      outstanding mp' = outstanding mp + mset (map m_seq_num q)"
proof (induction q arbitrary: mp now i)
  case Nil
  then show ?case by (simp add: frames_def)
next
  case (Cons m q)
  have tx: "send_fields (we_tx env i) bs = (True, concat bs)" for bs
    by (rule send_fields_all) (use assms in \<open>simp add: write_env_ok_def\<close>)
  have mem: "we_mem env i 0 24" and clk: "we_clock env i - start < ACK_WAITTIME div 2"
    using assms by (simp_all add: write_env_ok_def)
  from ack_map_add_ok [where mem = "we_mem env i", OF Cons.prems(1) mem] obtain mp1 where
    mp1: "ack_map_add (we_mem env i) mp (m_seq_num m) (we_ack env i) = (0, mp1)"
      "ack_inv mp1" "outstanding mp1 = add_mset (m_seq_num m) (outstanding mp)" by blast
  from Cons.IH [OF mp1(2) clk, of "Suc i"] obtain mp2 where
    "write_loop L env (Suc i) start (we_clock env i) q mp1 = (0, [], mp2, frames L q)"
    "ack_inv mp2" "outstanding mp2 = outstanding mp1 + mset (map m_seq_num q)" by blast
  with mp1 Cons.prems(2) show ?case by (simp add: tx frames_def)
qed

section \<open>Properties\<close>

lemma utime_tvtime: "utime (tvtime ut) = ut"
  using div_mult_mod_eq [of ut 1000000] by (simp add: utime_def tvtime_def)

text \<open>
  C7: End to end, with no failure on the way: one side writes its whole outgoing queue, the other
  reads exactly those messages in the same order and answers one acknowledge each, and reading the
  acknowledges back empties the sender's table of everything it had just sent.
\<close>
theorem wire_delivery:
  assumes "lib_ok L" and "ack_inv mp" and "\<forall>m \<in> set (out_queue a). message_ok m"
    and "write_env_ok wenv now" and "\<forall>i. read_env_ok (renv i)"
  shows "\<exists>mp1 mp2 w back. write_messages L wenv now a mp = (0, a\<lparr>out_queue := []\<rparr>, mp1, w) \<and>
    outstanding mp1 = outstanding mp + mset (map m_seq_num (out_queue a)) \<and>
    read_messages L renv (length (out_queue a)) b mpb w =
      (0, b\<lparr>in_queue := in_queue b @ out_queue a\<rparr>, mpb, [], back) \<and>
    read_messages L renv' (length (out_queue a)) (a\<lparr>out_queue := []\<rparr>) mp1 back =
      (0, a\<lparr>out_queue := []\<rparr>, mp2, [], []) \<and> outstanding mp2 = outstanding mp"
proof -
  let ?q = "out_queue a"
  have "now - now < ACK_WAITTIME div 2" by (simp add: ACK_WAITTIME_def)
  from write_loop_all [OF assms(4,2) this, of L 0 ?q] obtain mp1 where
    w: "write_loop L wenv 0 now now ?q mp = (0, [], mp1, frames L ?q)" and inv: "ack_inv mp1"
    and out: "outstanding mp1 = outstanding mp + mset (map m_seq_num ?q)" by blast
  have r: "read_messages L renv (length ?q) b mpb (frames L ?q) =
      (0, b\<lparr>in_queue := in_queue b @ ?q\<rparr>, mpb, [], acks L ?q)"
    using read_frames [OF assms(1,3,5), of b mpb "[]"] by simp
  have "mset (map m_seq_num ?q) \<subseteq># outstanding mp1" by (simp add: out)
  from read_acks [OF assms(1) inv this, of renv' "a\<lparr>out_queue := []\<rparr>" "[]"] obtain mp2 where
    "read_messages L renv' (length ?q) (a\<lparr>out_queue := []\<rparr>) mp1 (acks L ?q) =
      (0, a\<lparr>out_queue := []\<rparr>, mp2, [], [])" "outstanding mp2 = outstanding mp"
    by (auto simp: out)
  with w r out show ?thesis by (auto simp: write_messages_def)
qed

definition demo_con :: con_handle where
  "demo_con = \<lparr>in_queue = [], out_queue = [], ka_last_recv = 0, kill = 0, out_cond = 0, out_pipe = True\<rparr>"

definition demo_write_env :: write_env where
  "demo_write_env = \<lparr>we_tx = (\<lambda>_ _. None), we_mem = (\<lambda>_ _ _. True), we_ack = (\<lambda>_. 5), we_clock = (\<lambda>_. 5)\<rparr>"

definition demo_read_env :: read_env where
  "demo_read_env = \<lparr>re_mem = (\<lambda>_ _. True), re_now = 7, re_tx = (\<lambda>_. None)\<rparr>"

lemma demo_envs_ok: "read_env_ok demo_read_env" "write_env_ok demo_write_env 5"
  by (simp_all add: read_env_ok_def demo_read_env_def write_env_ok_def demo_write_env_def ACK_WAITTIME_def)

theorem wire_delivery_witness:
  "\<exists>mp1 w back. write_messages demo_lib demo_write_env 5
       (demo_con\<lparr>out_queue := [\<lparr>m_length = 2, m_seq_num = 3, m_message = [1, 2]\<rparr>]\<rparr>) empty_ack_map =
         (0, demo_con, mp1, w) \<and>
     read_messages demo_lib (\<lambda>_. demo_read_env) 1 demo_con empty_ack_map w =
       (0, demo_con\<lparr>in_queue := [\<lparr>m_length = 2, m_seq_num = 3, m_message = [1, 2]\<rparr>]\<rparr>, empty_ack_map, [], back)"
  using wire_delivery [OF demo_lib_ok ack_inv_empty(1), of
      "demo_con\<lparr>out_queue := [\<lparr>m_length = 2, m_seq_num = 3, m_message = [1, 2]\<rparr>]\<rparr>" demo_write_env 5
      "\<lambda>_. demo_read_env" demo_con empty_ack_map "\<lambda>_. demo_read_env"] demo_envs_ok
  by (auto simp: message_ok_def demo_con_def)

text \<open>
  C28: \<open>read_message\<close> never queues bytes that do not match their hash: whatever arrives and whatever
  fails, the incoming queue is unchanged or has gained exactly one message, which is the body of a
  type 2 frame whose trailing 32 bytes are the sha256 of that body.
\<close>
theorem read_message_integrity:
  assumes "read_message L env con mp inp = (r, con', mp', rest, w)"
    and "in_queue con' \<noteq> in_queue con"
  shows "\<exists>m. in_queue con' = in_queue con @ [m] \<and> decbe32 L (take 4 inp) = 2 \<and>
    m_seq_num m = decbe64 L (slice 4 8 inp) \<and> m_length m = decbe64 L (slice 12 8 inp) \<and>
    m_message m = slice 20 (unat (m_length m)) inp \<and>
    slice (20 + unat (m_length m)) 32 inp = sha256 L (m_message m)"
  using assms
  by (auto simp: read_message_def read_ack_def read_keepalive_def read_new_message_def rd_def
      slice_def Let_def add.commute split: if_splits option.splits prod.splits)

theorem read_message_integrity_witness:
  "\<exists>m. in_queue (fst (snd (read_message demo_lib demo_read_env demo_con empty_ack_map
       (concat (frame_fields demo_lib \<lparr>m_length = 2, m_seq_num = 3, m_message = [1, 2]\<rparr>))))) = [m] \<and>
     m_message m = [1, 2]"
proof -
  let ?m = "\<lparr>m_length = 2, m_seq_num = 3, m_message = [1, 2]\<rparr>"
  have ok: "message_ok ?m" by (simp add: message_ok_def)
  note r = read_frame [OF demo_lib_ok ok demo_envs_ok(1), of demo_con empty_ack_map "[]"]
  have "\<exists>m. in_queue (demo_con\<lparr>in_queue := in_queue demo_con @ [?m]\<rparr>) = in_queue demo_con @ [m]"
    using read_message_integrity [OF r] by auto
  with r show ?thesis by (simp add: demo_con_def)
qed

text \<open>
  C37: The transfer loops. \<open>send_bytes\<close> puts a prefix of its buffer on the socket and \<open>read_bytes\<close> takes a
  prefix off the incoming stream, never more than asked for; the value returned is the number of
  bytes moved, or -1 and then a turn met an error. Fewer than asked for is returned only once the
  timeout has passed, so that a full count means that the frame reader got exactly its field; and
  the loop has ended by the first turn whose clock has reached the timeout.
\<close>
theorem transfer_contract:
  shows "(send_bytes buf timeout ts = Some (r, w) \<longrightarrow>
      (\<exists>n \<le> length buf. w = take n buf) \<and>
      (r = -1 \<and> (\<exists>t \<in> set ts. turn_fails t) \<or>
       r = int (length w) \<and> (w = buf \<or> (\<exists>t \<in> set ts. timeout \<le> it_elapsed t)))) \<and>
    (read_bytes len inp timeout ts = Some (r', got, rest) \<longrightarrow>
      got @ rest = inp \<and> length got \<le> len \<and>
      (r' = -1 \<and> (\<exists>t \<in> set ts. turn_fails t) \<or>
       r' = int (length got) \<and> (length got = len \<or> (\<exists>t \<in> set ts. timeout \<le> it_elapsed t))) \<and>
      (r' = int len \<longrightarrow> rd len inp = Some (got, rest))) \<and>
    ((\<exists>t \<in> set ts. timeout \<le> it_elapsed t) \<longrightarrow>
      send_bytes buf timeout ts \<noteq> None \<and> read_bytes len inp timeout ts \<noteq> None)"
proof (intro conjI impI)
  assume "send_bytes buf timeout ts = Some (r, w)"
  then obtain n where x: "xfer_loop timeout (length buf) 0 ts = Some (r, n)" and w: "w = take n buf"
    by (auto simp: send_bytes_def)
  from xfer_loop_range [OF _ x] have n: "n \<le> length buf" "r = -1 \<or> r = int n" by auto
  show "\<exists>n \<le> length buf. w = take n buf" using n w by auto
  show "r = -1 \<and> (\<exists>t \<in> set ts. turn_fails t) \<or>
       r = int (length w) \<and> (w = buf \<or> (\<exists>t \<in> set ts. timeout \<le> it_elapsed t))"
    using xfer_loop_short [of 0 "length buf" timeout ts n] xfer_loop_error [of timeout "length buf" 0 ts n] x n w
    by (cases "n = length buf") auto
next
  assume "read_bytes len inp timeout ts = Some (r', got, rest)"
  note r = recv_loop_result [OF _ this [unfolded read_bytes_def], simplified]
  then show "got @ rest = inp" "length got \<le> len"
    "r' = -1 \<and> (\<exists>t \<in> set ts. turn_fails t) \<or>
      r' = int (length got) \<and> (length got = len \<or> (\<exists>t \<in> set ts. timeout \<le> it_elapsed t))"
    by blast+
  show "rd len inp = Some (got, rest)" if "r' = int len" using r that by (auto simp: rd_def)
next
  assume "\<exists>t \<in> set ts. timeout \<le> it_elapsed t"
  then show "send_bytes buf timeout ts \<noteq> None" "read_bytes len inp timeout ts \<noteq> None"
    using xfer_loop_stops [of _ ts timeout "length buf" 0] recv_loop_stops [of _ ts timeout len "[]" inp]
    by (fastforce simp: send_bytes_def read_bytes_def)+
qed

theorem transfer_contract_witness:
  "read_bytes 4 [1, 2, 3, 4, 5] 10
     [\<lparr>it_select = True, it_io = Moved 2, it_elapsed = 4\<rparr>, \<lparr>it_select = True, it_io = Moved 9, it_elapsed = 11\<rparr>]
     = Some (4, [1, 2, 3, 4], [5]) \<and> rd 4 [1, 2, 3, 4, 5 :: byte] = Some ([1, 2, 3, 4], [5])"
proof -
  let ?ts = "[\<lparr>it_select = True, it_io = Moved 2, it_elapsed = 4\<rparr>,
    \<lparr>it_select = True, it_io = Moved 9, it_elapsed = 11 :: u64\<rparr>]"
  have r: "read_bytes 4 [1, 2, 3, 4, 5] 10 ?ts = Some (4, [1, 2, 3, 4], [5])"
    by (simp add: read_bytes_def)
  with transfer_contract [of "[]" 10 ?ts 0 "[]" 4 "[1, 2, 3, 4, 5]" 4 "[1, 2, 3, 4]" "[5]"]
  show ?thesis by simp
qed

text \<open>
  The one-second budget of a frame is not enforced once it is over: with the deadline \<open>d\<close>
  microseconds in the past, the timeout given to the next transfer is \<open>2^64 - d\<close>, so the transfer
  may wait practically for ever instead of failing.
\<close>
theorem deadline_underflow:
  assumes "unat start + unat READWRITE_WAIT < 2 ^ 64" and "0 < d" and "d < 2 ^ 63"
    and "unat now = unat start + unat READWRITE_WAIT + d"
  shows "unat (time_left start now) = 2 ^ 64 - d \<and> 2 ^ 63 < unat (time_left start now)"
proof -
  have e: "unat (READWRITE_WAIT + start) = unat start + unat READWRITE_WAIT"
    using assms(1) by (simp add: unat_word_ariths)
  then have "unat (time_left start now) = 2 ^ 64 - d"
    using assms unsigned_less [of now] by (simp add: time_left_def unat_sub_if_size word_size)
  with assms show ?thesis by simp
qed

theorem deadline_underflow_witness:
  "unat (time_left 0 1000001) = 2 ^ 64 - 1"
  using deadline_underflow [of 0 1 1000001] by (simp add: READWRITE_WAIT_def)

end
