(* ===== verification/Connection.thy ===== *)
theory Connection
  imports Wire
begin

text \<open>
  \<open>inet/protocol.c\<close>, the connection thread and the calls other threads make on its handle:
  \<open>add_message\<close>, \<open>get_message\<close>, \<open>end_handler\<close>, \<open>handler_status\<close>, and one turn of the loop of
  \<open>handle_connection\<close>, split into its three parts (read a frame, write the queue, check the times).
\<close>

section \<open>Calls on the handle\<close>

text \<open>Whether \<open>pipe\<close> succeeded; \<open>init_handler\<close> reports a failure on the log and goes on.\<close>

definition init_handler :: "bool \<Rightarrow> con_handle" where
  "init_handler pipe_ok =
     \<lparr>in_queue = [], out_queue = [], ka_last_recv = 0, kill = 0, out_cond = 0, out_pipe = pipe_ok\<rparr>"

definition end_handler :: "con_handle \<Rightarrow> con_handle" where
  "end_handler con = con\<lparr>kill := 1\<rparr>"

definition handler_status :: "con_handle \<Rightarrow> int" where
  "handler_status con = kill con"

text \<open>
  The result of the push is not looked at: with no memory for the queue element the message is
  dropped, and the byte that wakes the thread is written all the same. A write to the pipe is
  repeated after EINTR only; any other failure leaves the loop, and no byte is added.
\<close>

definition add_message :: "heap_oracle \<Rightarrow> con_handle \<Rightarrow> message \<Rightarrow> con_handle" where
  "add_message mem con m =
     con\<lparr>out_queue := (if mem 0 16 then out_queue con @ [m] else out_queue con),
         out_cond := (if out_pipe con then out_cond con + 1 else out_cond con)\<rparr>"

text \<open>
  One turn of the waiting loop of \<open>get_message\<close>: the kill flag and the elapsed time that the loop
  condition reads, and the incoming queue found under the mutex. \<open>None\<close>: still waiting.
\<close>

record get_turn =
  gt_kill :: int
  gt_elapsed :: u64
  gt_queue :: "message list"

datatype get_result = Got message "message list" | Etime | Epipe

fun get_message :: "u64 \<Rightarrow> get_turn list \<Rightarrow> get_result option" where
  "get_message timeout [] = None"
| "get_message timeout (t # ts) =
     (if gt_kill t = 0 \<and> (timeout = 0 \<or> gt_elapsed t < timeout)
      then (case gt_queue t of m # q \<Rightarrow> Some (Got m q) | [] \<Rightarrow> get_message timeout ts)
      else if \<not> (timeout = 0 \<or> gt_elapsed t < timeout) then Some Etime else Some Epipe)"

section \<open>The connection thread\<close>

record hc_state =
  hs_con :: con_handle
  hs_map :: ack_map
  hs_ka_sent :: u64

datatype select_result = SelOk | SelIntr | SelErr
datatype lock_result = Locked | Busy | LockErr
datatype hc_exit = HcError | HcKilled | HcBlocked

text \<open>What one turn of the loop meets: the results of the system calls it makes, in order.\<close>

record hc_env =
  hv_select :: select_result
  hv_sock :: bool
  hv_trylock :: lock_result
  hv_read :: read_env
  hv_input :: bytes
  hv_pipe :: bool
  hv_lock :: lock_result
  hv_wnow :: u64
  hv_write :: write_env
  hv_now :: u64
  hv_ka_tx :: "nat \<Rightarrow> nat option"

type_synonym hc_result = "hc_exit option \<times> hc_state \<times> bytes"

definition hc_read :: "ibc \<Rightarrow> hc_env \<Rightarrow> hc_state \<Rightarrow> hc_result" where
  "hc_read L env st =
     (if \<not> hv_sock env then (None, st, [])
      else case hv_trylock env of
        LockErr \<Rightarrow> (Some HcError, st, [])
      | Busy \<Rightarrow> (None, st, [])
      | Locked \<Rightarrow>
          (case read_message L (hv_read env) (hs_con st) (hs_map st) (hv_input env) of
             (r, con, mp, rest, w) \<Rightarrow>
               (if r \<noteq> 0 then Some HcError else None, st\<lparr>hs_con := con, hs_map := mp\<rparr>, w)))"

text \<open>Reading the pipe blocks when it is empty.\<close>

definition hc_write :: "ibc \<Rightarrow> hc_env \<Rightarrow> hc_state \<Rightarrow> hc_result" where
  "hc_write L env st =
     (if \<not> hv_pipe env then (None, st, [])
      else if out_cond (hs_con st) = 0 then (Some HcBlocked, st, [])
      else let con = (hs_con st)\<lparr>out_cond := out_cond (hs_con st) - 1\<rparr> in
        if hv_lock env = LockErr then (Some HcError, st\<lparr>hs_con := con\<rparr>, [])
        else if out_queue con = [] then (None, st\<lparr>hs_con := con\<rparr>, [])
        else case write_messages L (hv_write env) (hv_wnow env) con (hs_map st) of
          (r, con', mp, w) \<Rightarrow>
            (if r \<noteq> 0 then Some HcError else None, st\<lparr>hs_con := con', hs_map := mp\<rparr>, w))"

definition ack_overdue :: "ack_map \<Rightarrow> u64 \<Rightarrow> bool" where
  "ack_overdue mp earliest \<longleftrightarrow> list_ex (list_ex (\<lambda>e. ack_time e < earliest)) mp"

definition hc_check :: "ibc \<Rightarrow> hc_env \<Rightarrow> hc_state \<Rightarrow> hc_result" where
  "hc_check L env st =
     (let now = hv_now env in
      if ack_overdue (hs_map st) (now - ACK_WAITTIME) then (Some HcError, st, [])
      else if now - ACK_WAITTIME > ka_last_recv (hs_con st) then (Some HcError, st, [])
      else (case (if now - ACK_WAITTIME div 2 > hs_ka_sent st
                  then (case write_keepalive L (hv_ka_tx env) of
                          (r, w) \<Rightarrow> (if r = -1 then Some HcError else None,
                                    if r = -1 then st else st\<lparr>hs_ka_sent := now\<rparr>, w))
                  else (None, st, [])) of
        (Some e, st', w) \<Rightarrow> (Some e, st', w)
      | (None, st', w) \<Rightarrow> (if handler_status (hs_con st') \<noteq> 0 then Some HcKilled else None, st', w)))"

text \<open>One turn of the loop: the parts in order, the first exit ends it.\<close>

definition hc_then :: "hc_result \<Rightarrow> (hc_state \<Rightarrow> hc_result) \<Rightarrow> hc_result" where
  "hc_then r f = (case r of
     (Some e, st, w) \<Rightarrow> (Some e, st, w)
   | (None, st, w) \<Rightarrow> (case f st of (x, st', w') \<Rightarrow> (x, st', w @ w')))"

definition hc_turn :: "ibc \<Rightarrow> hc_env \<Rightarrow> hc_state \<Rightarrow> hc_result" where
  "hc_turn L env st =
     (if hv_select env = SelErr then (Some HcError, st, [])
      else hc_then (hc_then (hc_read L env st) (hc_write L env)) (hc_check L env))"

text \<open>The start and the whole run; leaving the loop runs \<open>handler_cleanup\<close>, which sets the kill flag.\<close>

definition hc_start :: "con_handle \<Rightarrow> u64 \<Rightarrow> hc_state" where
  "hc_start con now =
     \<lparr>hs_con = con\<lparr>ka_last_recv := now\<rparr>, hs_map = empty_ack_map, hs_ka_sent = now\<rparr>"

text \<open>
  Between two turns other threads use the handle: \<open>Add\<close> is \<open>add_message\<close>, \<open>Take\<close> is the pop in
  \<open>get_message\<close>, \<open>Kill\<close> is \<open>end_handler\<close>.
\<close>

datatype hc_event = Turn hc_env | Add heap_oracle message | Take | Kill

fun hc_other :: "hc_event \<Rightarrow> con_handle \<Rightarrow> con_handle" where
  "hc_other (Add mem m) con = add_message mem con m"
| "hc_other Take con = con\<lparr>in_queue := tl (in_queue con)\<rparr>"
| "hc_other Kill con = end_handler con"
| "hc_other (Turn env) con = con"

fun hc_run :: "ibc \<Rightarrow> hc_event list \<Rightarrow> hc_state \<Rightarrow> hc_result" where
  "hc_run L [] st = (None, st, [])"
| "hc_run L (Turn env # evs) st = (case hc_turn L env st of
     (Some e, st', w) \<Rightarrow> (Some e, st'\<lparr>hs_con := end_handler (hs_con st')\<rparr>, w)
   | (None, st', w) \<Rightarrow> (case hc_run L evs st' of (x, st'', w') \<Rightarrow> (x, st'', w @ w')))"
| "hc_run L (ev # evs) st = hc_run L evs (st\<lparr>hs_con := hc_other ev (hs_con st)\<rparr>)"

section \<open>The acknowledge table stays well formed\<close>

lemma write_loop_inv:
  "ack_inv mp \<Longrightarrow> write_loop L env i start now q mp = (r, q', mp', w) \<Longrightarrow>
   ack_inv mp' \<and> length q' \<le> length q"
proof (induction q arbitrary: i now mp r q' mp' w)
  case Nil
  then show ?case by simp
next
  case (Cons m q)
  show ?case
  proof (cases "now - start < ACK_WAITTIME div 2 \<and> fst (send_fields (we_tx env i) (frame_fields L m)) \<and>
      we_mem env i 0 24")
    case True
    then obtain w1 where w1: "send_fields (we_tx env i) (frame_fields L m) = (True, w1)"
      by (cases "send_fields (we_tx env i) (frame_fields L m)") auto
    from True ack_map_add_ok [where mem = "we_mem env i", OF Cons.prems(1)] obtain mp1 where
      mp1: "ack_map_add (we_mem env i) mp (m_seq_num m) (we_ack env i) = (0, mp1)" "ack_inv mp1"
      by blast
    obtain r2 q2 mp2 w2 where rest:
      "write_loop L env (Suc i) start (we_clock env i) q mp1 = (r2, q2, mp2, w2)"
      by (metis surj_pair)
    from Cons.IH [OF mp1(2) rest] Cons.prems(2) True w1 mp1(1) rest show ?thesis by auto
  next
    case False
    with Cons.prems show ?thesis
      by (auto simp: ack_map_add_def split: if_splits prod.splits bool.splits)
  qed
qed

lemma write_messages_inv:
  "ack_inv mp \<Longrightarrow> write_messages L env now con mp = (r, con', mp', w) \<Longrightarrow> ack_inv mp'"
  by (auto simp: write_messages_def dest: write_loop_inv split: prod.splits)

lemma ack_map_rm_inv: "ack_inv mp \<Longrightarrow> ack_map_rm mp seq = (r, mp') \<Longrightarrow> ack_inv mp'"
  using ack_map_rm_ok [of mp seq] by auto

lemma read_message_inv:
  "ack_inv mp \<Longrightarrow> read_message L env con mp inp = (r, con', mp', rest, w) \<Longrightarrow> ack_inv mp'"
  by (auto simp: read_message_def read_ack_def read_keepalive_def read_new_message_def Let_def
      dest: ack_map_rm_inv split: if_splits option.splits prod.splits)

lemma hc_read_inv: "ack_inv (hs_map st) \<Longrightarrow> hc_read L env st = (x, st', w) \<Longrightarrow> ack_inv (hs_map st')"
  by (auto simp: hc_read_def dest: read_message_inv split: if_splits lock_result.splits prod.splits)

lemma hc_write_inv: "ack_inv (hs_map st) \<Longrightarrow> hc_write L env st = (x, st', w) \<Longrightarrow> ack_inv (hs_map st')"
  by (auto simp: hc_write_def Let_def dest: write_messages_inv split: if_splits prod.splits)

lemma hc_check_inv: "ack_inv (hs_map st) \<Longrightarrow> hc_check L env st = (x, st', w) \<Longrightarrow> ack_inv (hs_map st')"
  by (auto simp: hc_check_def Let_def split: if_splits prod.splits option.splits)

lemma hc_then_cases:
  "hc_then r f = (x, st', w) \<Longrightarrow>
   (\<And>e. r = (Some e, st', w) \<Longrightarrow> x = Some e \<Longrightarrow> P) \<Longrightarrow>
   (\<And>st1 w1 w2. r = (None, st1, w1) \<Longrightarrow> f st1 = (x, st', w2) \<Longrightarrow> w = w1 @ w2 \<Longrightarrow> P) \<Longrightarrow> P"
  by (auto simp: hc_then_def split: prod.splits option.splits)

lemma hc_turn_inv: "ack_inv (hs_map st) \<Longrightarrow> hc_turn L env st = (x, st', w) \<Longrightarrow> ack_inv (hs_map st')"
  by (auto simp: hc_turn_def elim!: hc_then_cases split: if_splits;
      meson hc_read_inv hc_write_inv hc_check_inv)

lemma hc_check_continues:
  assumes "hc_check L env st = (None, st', w)" "ACK_WAITTIME \<le> hv_now env"
  shows "\<not> ack_overdue (hs_map st') (hv_now env - ACK_WAITTIME) \<and>
    hv_now env - ACK_WAITTIME \<le> ka_last_recv (hs_con st') \<and>
    hv_now env - ACK_WAITTIME div 2 \<le> hs_ka_sent st' \<and> kill (hs_con st') = 0"
proof -
  have "hv_now env - ACK_WAITTIME div 2 \<le> hv_now env"
    using assms(2) by (simp add: ACK_WAITTIME_def word_le_nat_alt unat_sub_if_size)
  with assms(1) show ?thesis
    by (auto simp: hc_check_def Let_def handler_status_def split: if_splits prod.splits option.splits)
qed

lemma hc_turn_continues:
  assumes "hc_turn L env st = (None, st', w)"
  shows "\<exists>st1 w1. hc_check L env st1 = (None, st', w1)"
  using assms by (auto simp: hc_turn_def elim!: hc_then_cases split: if_splits)

section \<open>The wake-up pipe\<close>

text \<open>
  The queue and the pipe as other threads see them: \<open>add_message\<close> pushes and writes a byte under
  the queue's mutex; the connection thread first reads one byte (\<open>took\<close>) and only then takes the
  mutex and writes messages, so additions may fall in between. Writes to the pipe may start and stop
  failing at any time; the last component counts the calls of \<open>add_message\<close> whose write failed.
\<close>

inductive wake_step :: "ibc \<Rightarrow> con_handle \<times> bool \<times> nat \<Rightarrow> con_handle \<times> bool \<times> nat \<Rightarrow> bool" for L where
  wake_add: "wake_step L (con, took, lost)
     (add_message mem con m, took, if out_pipe con then lost else Suc lost)"
| wake_take: "out_cond con > 0 \<Longrightarrow>
     wake_step L (con, False, lost) (con\<lparr>out_cond := out_cond con - 1\<rparr>, True, lost)"
| wake_write: "write_messages L env now con mp = (0, con', mp', w) \<Longrightarrow>
     wake_step L (con, True, lost) (con', False, lost)"
| wake_in: "wake_step L (con, took, lost) (con\<lparr>in_queue := q, ka_last_recv := t, kill := k\<rparr>, took, lost)"
| wake_pipe: "wake_step L (con, took, lost) (con\<lparr>out_pipe := b\<rparr>, took, lost)"

inductive wake_reachable :: "ibc \<Rightarrow> con_handle \<times> bool \<times> nat \<Rightarrow> bool" for L where
  wake_init: "wake_reachable L (init_handler pipe_ok, False, 0)"
| wake_next: "wake_reachable L s \<Longrightarrow> wake_step L s s' \<Longrightarrow> wake_reachable L s'"

fun wake_inv :: "con_handle \<times> bool \<times> nat \<Rightarrow> bool" where
  "wake_inv (con, took, lost) \<longleftrightarrow> length (out_queue con) \<le> out_cond con + of_bool took + lost"

text \<open>A successful call of \<open>write_messages\<close> on a non-empty queue sends at least its first message.\<close>

lemma write_loop_progress:
  assumes "write_loop L env i now now (m # q) mp = (0, q', mp', w)"
  shows "length q' \<le> length q"
proof -
  have shrink: "length q2 \<le> length q1"
    if "write_loop L env j start t q1 mp1 = (r, q2, mp2, w2)" for j start t q1 mp1 r q2 mp2 w2
    using that
    by (induction L env j start t q1 mp1 arbitrary: r q2 mp2 w2 rule: write_loop.induct)
      (fastforce split: if_splits prod.splits bool.splits)+
  have "now - now < ACK_WAITTIME div 2" by (simp add: ACK_WAITTIME_def)
  with assms show ?thesis
    by (auto dest: shrink split: if_splits prod.splits bool.splits)
qed

lemma wake_step_inv: "wake_step L s s' \<Longrightarrow> wake_inv s \<Longrightarrow> wake_inv s'"
proof (induction rule: wake_step.induct)
  case (wake_write env now con mp con' mp' w lost)
  show ?case
  proof (cases "out_queue con")
    case Nil
    with wake_write show ?thesis by (auto simp: write_messages_def)
  next
    case (Cons m q)
    from wake_write(1) obtain q' where
      q': "write_loop L env 0 now now (out_queue con) mp = (0, q', mp', w)" "con' = con\<lparr>out_queue := q'\<rparr>"
      by (auto simp: write_messages_def split: prod.splits)
    have "length q' \<le> length q"
      using write_loop_progress q'(1) by (simp add: Cons)
    with Cons q' wake_write(2) show ?thesis by simp
  qed
qed (auto simp: add_message_def)

lemma wake_reachable_inv: "wake_reachable L s \<Longrightarrow> wake_inv s"
proof (induction rule: wake_reachable.induct)
  case (wake_init pipe_ok)
  show ?case by (simp add: init_handler_def)
next
  case (wake_next s s')
  then show ?case by (blast intro: wake_step_inv)
qed

text \<open>The byte is the only thing that makes the thread look at the outgoing queue.\<close>

lemma hc_write_without_byte:
  "out_cond (hs_con st) = 0 \<Longrightarrow> \<exists>x. hc_write L env st = (x, st, [])"
  by (simp add: hc_write_def)

section \<open>Properties\<close>

text \<open>
  C30: A message is stranded only by a failed write to the pipe: in every reachable state of the queue
  and the pipe, under any interleaving of \<open>add_message\<close> with the connection thread and with writes
  to the pipe failing at any time, the messages in the outgoing queue are at most the bytes in the
  pipe, plus the one the thread has already taken, plus the writes that failed. With no failed
  write, a non-empty queue means that the thread has taken a byte or that one is waiting.
\<close>
theorem no_stranded_message:
  assumes "wake_reachable L (con, took, lost)"
  shows "length (out_queue con) \<le> out_cond con + of_bool took + lost \<and>
    (lost = 0 \<and> out_queue con \<noteq> [] \<longrightarrow> took \<or> 0 < out_cond con)"
  using wake_reachable_inv [OF assms] by (cases took; cases "out_queue con") auto

theorem no_stranded_message_witness:
  "0 < out_cond (add_message (\<lambda>_ _. True) (init_handler True) \<lparr>m_length = 0, m_seq_num = 1, m_message = []\<rparr>)"
proof -
  let ?m = "\<lparr>m_length = 0, m_seq_num = 1, m_message = []\<rparr>"
  let ?con = "add_message (\<lambda>_ _. True) (init_handler True) ?m"
  have "wake_step demo_lib (init_handler True, False, 0) (?con, False, 0)"
    using wake_step.wake_add [of demo_lib "init_handler True" False 0 "\<lambda>_ _. True" ?m]
    by (simp add: init_handler_def)
  with wake_reachable.wake_init have "wake_reachable demo_lib (?con, False, 0)"
    by (rule wake_reachable.wake_next)
  from no_stranded_message [OF this] show ?thesis by (simp add: add_message_def)
qed

text \<open>
  A failed write does strand its message: the state in which the queue holds the message and the
  pipe is empty is reachable, and there the connection thread writes nothing, whatever its turn
  meets. The comment in \<open>handle_connection\<close> says that the code cannot rely on the pipe for this
  reason, but the lines that would make it look at the queue in every turn are not compiled.
\<close>
theorem failed_write_strands:
  "\<exists>con. wake_reachable L (con, False, 1) \<and> out_queue con = [m] \<and>
     (\<forall>env st. hs_con st = con \<longrightarrow> (\<exists>x. hc_write L env st = (x, st, [])))"
proof -
  let ?con = "add_message (\<lambda>_ _. True) (init_handler False) m"
  have "wake_step L (init_handler False, False, 0) (?con, False, 1)"
    using wake_step.wake_add [of L "init_handler False" False 0 "\<lambda>_ _. True" m]
    by (simp add: init_handler_def)
  with wake_reachable.wake_init have "wake_reachable L (?con, False, 1)"
    by (rule wake_reachable.wake_next)
  moreover have "out_queue ?con = [m]" "out_cond ?con = 0"
    by (simp_all add: add_message_def init_handler_def)
  ultimately show ?thesis
    by (intro exI [of _ ?con] conjI allI impI hc_write_without_byte) auto
qed

text \<open>
  C36: After every turn of \<open>handle_connection\<close> that does not leave the loop, no message sent has waited
  more than \<open>ACK_WAITTIME\<close> for its acknowledge, a keep-alive came within \<open>ACK_WAITTIME\<close>, the last one
  sent is at most half of that old, the kill flag is clear and the acknowledge table is well formed.
\<close>
theorem handler_turn_keeps_deadlines:
  assumes "hc_turn L env st = (None, st', w)" and "ack_inv (hs_map st)"
    and "ACK_WAITTIME \<le> hv_now env"
  shows "ack_inv (hs_map st') \<and>
    (\<forall>e \<in> set (concat (hs_map st')). hv_now env - ACK_WAITTIME \<le> ack_time e) \<and>
    hv_now env - ACK_WAITTIME \<le> ka_last_recv (hs_con st') \<and>
    hv_now env - ACK_WAITTIME div 2 \<le> hs_ka_sent st' \<and> kill (hs_con st') = 0"
proof -
  obtain st1 w1 where "hc_check L env st1 = (None, st', w1)"
    using hc_turn_continues [OF assms(1)] by blast
  from hc_check_continues [OF this assms(3)] hc_turn_inv [OF assms(2,1)] show ?thesis
    by (fastforce simp: ack_overdue_def list_ex_iff not_less)
qed

definition demo_env :: "bytes \<Rightarrow> hc_env" where
  "demo_env inp = \<lparr>hv_select = SelOk, hv_sock = (inp \<noteq> []), hv_trylock = Locked, hv_read = demo_read_env,
     hv_input = inp, hv_pipe = False, hv_lock = Locked, hv_wnow = 0, hv_write = demo_write_env,
     hv_now = 200000000, hv_ka_tx = (\<lambda>_. None)\<rparr>"

theorem handler_turn_keeps_deadlines_witness:
  "\<exists>st' w. hc_turn demo_lib (demo_env []) (hc_start demo_con 140000000) = (None, st', w) \<and>
     kill (hs_con st') = 0 \<and> ka_last_recv (hs_con st') = 140000000"
proof -
  have t: "hc_turn demo_lib (demo_env []) (hc_start demo_con 140000000) =
      (None, hc_start demo_con 140000000 \<lparr>hs_ka_sent := 200000000\<rparr>, encbe32 demo_lib 3)"
    by (simp add: hc_turn_def hc_then_def hc_read_def hc_write_def hc_check_def demo_env_def hc_start_def
        Let_def ACK_WAITTIME_def ack_overdue_def list_ex_iff empty_ack_map_def ACK_MAP_MASK_def write_keepalive_def
        handler_status_def demo_con_def)
  have "ack_inv (hs_map (hc_start demo_con 140000000))"
    by (simp add: hc_start_def ack_inv_empty)
  from handler_turn_keeps_deadlines [OF t this] t show ?thesis
    by (simp add: demo_env_def ACK_WAITTIME_def hc_start_def demo_con_def)
qed

text \<open>
  A message can be acknowledged and never delivered: if the thread reads and acknowledges a
  message and then leaves its loop, the message stays in the incoming queue and every later
  \<open>get_message\<close> reports \<open>EPIPE\<close>, because the kill flag is looked at before the queue.
\<close>
theorem acknowledged_but_lost:
  assumes "lib_ok L" and "message_ok m" and "read_env_ok (hv_read e1)"
    and "hv_select e1 \<noteq> SelErr" and "hv_sock e1" and "hv_trylock e1 = Locked"
    and "hv_input e1 = concat (frame_fields L m)" and "\<not> hv_pipe e1"
    and "hc_check L e1 (st\<lparr>hs_con := (hs_con st)\<lparr>in_queue := in_queue (hs_con st) @ [m]\<rparr>\<rparr>) = (None, st1, wk)"
    and "hv_select e2 = SelErr" and "0 < timeout"
  shows "\<exists>st' w. hc_run L [Turn e1, Turn e2] st = (Some HcError, st', concat (ack_fields L (m_seq_num m)) @ w) \<and>
    m \<in> set (in_queue (hs_con st')) \<and>
    get_message timeout [\<lparr>gt_kill = kill (hs_con st'), gt_elapsed = 0, gt_queue = in_queue (hs_con st')\<rparr>]
      = Some Epipe"
proof -
  have r: "hc_read L e1 st = (None, st\<lparr>hs_con := (hs_con st)\<lparr>in_queue := in_queue (hs_con st) @ [m]\<rparr>\<rparr>,
      concat (ack_fields L (m_seq_num m)))"
    using read_frame [OF assms(1-3), of "hs_con st" "hs_map st" "[]"] assms(5-7)
    by (simp add: hc_read_def)
  have q: "in_queue (hs_con st1) = in_queue (hs_con st) @ [m]"
    using assms(9) by (auto simp: hc_check_def Let_def split: if_splits prod.splits option.splits)
  have "hc_turn L e1 st = (None, st1, concat (ack_fields L (m_seq_num m)) @ wk)"
    using assms(4,8,9) by (simp add: hc_turn_def hc_then_def r hc_write_def)
  then show ?thesis
    using q assms(10,11) by (simp add: hc_turn_def end_handler_def word_gt_0)
qed

theorem acknowledged_but_lost_witness:
  "\<exists>e1 e2 st' w m. hc_run demo_lib [Turn e1, Turn e2] (hc_start demo_con 200000000) = (Some HcError, st', w) \<and>
     m \<in> set (in_queue (hs_con st')) \<and>
     get_message 9 [\<lparr>gt_kill = kill (hs_con st'), gt_elapsed = 0, gt_queue = in_queue (hs_con st')\<rparr>] = Some Epipe"
proof -
  let ?m = "\<lparr>m_length = 2, m_seq_num = 3, m_message = [1, 2]\<rparr>"
  let ?st = "hc_start demo_con 200000000"
  let ?e1 = "(demo_env (concat (frame_fields demo_lib ?m)))\<lparr>hv_sock := True\<rparr>"
  let ?e2 = "(demo_env [])\<lparr>hv_select := SelErr\<rparr>"
  let ?st1 = "?st\<lparr>hs_con := (hs_con ?st)\<lparr>in_queue := in_queue (hs_con ?st) @ [?m]\<rparr>\<rparr>"
  have m: "message_ok ?m" by (simp add: message_ok_def)
  have e: "read_env_ok (hv_read ?e1)" "hv_select ?e1 \<noteq> SelErr" "hv_sock ?e1" "hv_trylock ?e1 = Locked"
    "hv_input ?e1 = concat (frame_fields demo_lib ?m)" "\<not> hv_pipe ?e1" "hv_select ?e2 = SelErr"
    using demo_envs_ok by (simp_all add: demo_env_def)
  have c: "hc_check demo_lib ?e1 ?st1 = (None, ?st1, [])"
    by (simp add: hc_check_def demo_env_def hc_start_def Let_def ACK_WAITTIME_def ack_overdue_def
        list_ex_iff empty_ack_map_def ACK_MAP_MASK_def handler_status_def demo_con_def)
  have "(0 :: u64) < 9" by simp
  from acknowledged_but_lost [OF demo_lib_ok m e(1-6) c e(7) this] show ?thesis by blast
qed

end
