(* ===== verification/CryptoLayer.thy ===== *)
theory CryptoLayer
  imports Connection "HOL-Library.Sublist"
begin

text \<open>
  \<open>crypto/crypto_layer.c\<close>: messages encrypted and authenticated under a pair of mirrored key sets.
  A sealed message is an 8-byte nonce, the ciphertext and a 32-byte MAC over both.
\<close>

section \<open>The code\<close>

record keyset =
  k_nonce :: u64
  send_symm_key :: bytes
  recv_symm_key :: bytes
  send_hmac_key :: bytes
  recv_hmac_key :: bytes

text \<open>
  The length \<open>8 + plen + 32\<close> is computed in 64 bits: if it wraps, the buffer is too small for what
  is written to it. \<open>None\<close> is the null pointer returned when the allocation fails.
\<close>

definition encrypt_message :: "ibc \<Rightarrow> heap_oracle \<Rightarrow> keyset \<Rightarrow> bytes \<Rightarrow> u64 \<Rightarrow> message option exec" where
  "encrypt_message L mem keys ptext plen =
     (let len = 8 + plen + 32 in
      if \<not> alloc_message mem len then Done None
      else if unat len < 40 + unat plen then UB
      else exec_bind (read_at ptext 0 (unat plen)) (\<lambda>pt.
        let body = encbe64 L (k_nonce keys) @ chacha_enc L (send_symm_key keys) (k_nonce keys) pt
        in Done (Some \<lparr>m_length = len, m_seq_num = k_nonce keys,
             m_message = body @ hmac_sha256 L (send_hmac_key keys) body\<rparr>)))"

text \<open>The result and what is written to the output buffer, of which the caller says it has \<open>outlen\<close> bytes.\<close>

definition decrypt_message :: "ibc \<Rightarrow> keyset \<Rightarrow> message \<Rightarrow> u64 \<Rightarrow> (int \<times> bytes) exec" where
  "decrypt_message L keys m outlen =
     (if m_length m < 40 \<or> m_length m > outlen + 40 then Done (-1, [])
      else let plen = m_length m - 40 in
        exec_bind (read_at (m_message m) 0 (unat (8 + plen))) (\<lambda>body.
        exec_bind (read_at (m_message m) (unat (8 + plen)) 32) (\<lambda>mac.
          if memcmp_ct L (hmac_sha256 L (recv_hmac_key keys) body) mac \<noteq> 0 then Done (-1, [])
          else exec_bind (read_at (m_message m) 8 (unat plen)) (\<lambda>ct.
            Done (0, chacha_dec L (recv_symm_key keys) (decbe64 L (take 8 body)) ct)))))"

text \<open>\<open>send_message\<close>: two allocations for the message, then the one of the queue element.\<close>

definition send_message :: "ibc \<Rightarrow> heap_oracle \<Rightarrow> con_handle \<Rightarrow> keyset \<Rightarrow> bytes \<Rightarrow> u64 \<Rightarrow>
    (int \<times> con_handle \<times> keyset) exec" where
  "send_message L mem con keys ptext plen =
     exec_bind (encrypt_message L mem keys ptext plen) (\<lambda>r. case r of
       None \<Rightarrow> Done (-1, con, keys)
     | Some m \<Rightarrow> Done (0, add_message (\<lambda>k. mem (k + 2)) con m, keys\<lparr>k_nonce := k_nonce keys + 1\<rparr>))"

text \<open>
  \<open>recv_message\<close> on what \<open>get_message\<close> returned. The result is the new message's content; its
  \<open>length\<close> field is the size it was allocated with, its \<open>seq_num\<close> is not set.
\<close>

definition recv_message :: "ibc \<Rightarrow> heap_oracle \<Rightarrow> keyset \<Rightarrow> get_result \<Rightarrow> bytes option exec" where
  "recv_message L mem keys res = (case res of
     Got m q \<Rightarrow>
       if \<not> alloc_message mem (m_length m - 40) then Done None
       else exec_bind (decrypt_message L keys m (m_length m - 40)) (\<lambda>(r, pt).
         Done (if r \<noteq> 0 then None else Some pt))
   | _ \<Rightarrow> Done None)"

text \<open>\<open>type\<close> is 0 for the client and 1 for the server; anything else leaves the keys as they are.\<close>

definition expand_keyset :: "bytes \<Rightarrow> int \<Rightarrow> keyset \<Rightarrow> keyset" where
  "expand_keyset keybuf type keys =
     (if type = 0
      then keys\<lparr>send_symm_key := slice 0 0x20 keybuf, recv_symm_key := slice 0x20 0x20 keybuf,
                send_hmac_key := slice 0x40 0x20 keybuf, recv_hmac_key := slice 0x60 0x20 keybuf\<rparr>
      else if type = 1
      then keys\<lparr>recv_symm_key := slice 0 0x20 keybuf, send_symm_key := slice 0x20 0x20 keybuf,
                recv_hmac_key := slice 0x40 0x20 keybuf, send_hmac_key := slice 0x60 0x20 keybuf\<rparr>
      else keys)"

section \<open>Key sets that belong together\<close>

text \<open>What one side sends with is what the other receives with.\<close>

definition key_linked :: "keyset \<Rightarrow> keyset \<Rightarrow> bool" where
  "key_linked s r \<longleftrightarrow> send_symm_key s = recv_symm_key r \<and> send_hmac_key s = recv_hmac_key r"

lemma expand_keyset_linked:
  "key_linked (expand_keyset kb 0 k) (expand_keyset kb 1 k')"
  "key_linked (expand_keyset kb 1 k') (expand_keyset kb 0 k)"
  by (simp_all add: key_linked_def expand_keyset_def)

lemma key_linked_nonce [simp]:
  "key_linked (s\<lparr>k_nonce := n\<rparr>) r = key_linked s r" "key_linked s (r\<lparr>k_nonce := n\<rparr>) = key_linked s r"
  by (simp_all add: key_linked_def)

section \<open>Sealing and opening\<close>

lemma sealed_length:
  assumes "unat (len :: u64) = n" "n + 40 < 2 ^ 64"
  shows "unat (8 + len + 32) = n + 40" "8 + len + 32 - 40 = len"
proof -
  have "unat (8 + len) = 8 + n"
    using assms unat_plus_small [of 8 len] by simp
  then show "unat (8 + len + 32) = n + 40"
    using assms unat_plus_small [of "8 + len" 32] by simp
  show "8 + len + 32 - 40 = len" by (simp add: algebra_simps)
qed

lemma encrypt_message_ok:
  assumes "lib_ok L" "alloc_message mem (8 + of_nat (length pt) + 32)" "length pt + 40 < 2 ^ 64"
  shows "\<exists>m. encrypt_message L mem keys pt (of_nat (length pt)) = Done (Some m) \<and> message_ok m \<and>
    m_seq_num m = k_nonce keys \<and> m_length m = 8 + of_nat (length pt) + 32 \<and>
    m_message m = encbe64 L (k_nonce keys) @ chacha_enc L (send_symm_key keys) (k_nonce keys) pt @
      hmac_sha256 L (send_hmac_key keys) (encbe64 L (k_nonce keys) @
        chacha_enc L (send_symm_key keys) (k_nonce keys) pt)"
proof -
  have u: "unat (of_nat (length pt) :: u64) = length pt"
    using assms(3) by (intro unat_of_nat_small) simp
  have len: "unat (8 + of_nat (length pt) + 32 :: u64) = length pt + 40"
    using sealed_length(1) [OF u assms(3)] .
  have of: "(8 + of_nat (length pt) + 32 :: u64) = of_nat (length pt + 40)"
    by simp
  have "message_ok \<lparr>m_length = 8 + of_nat (length pt) + 32, m_seq_num = k_nonce keys,
      m_message = encbe64 L (k_nonce keys) @ chacha_enc L (send_symm_key keys) (k_nonce keys) pt @
      hmac_sha256 L (send_hmac_key keys) (encbe64 L (k_nonce keys) @
        chacha_enc L (send_symm_key keys) (k_nonce keys) pt)\<rparr>"
    using assms(3) lib_ok_parts [OF assms(1)] by (simp add: message_ok_def wire_simps add.commute)
  then show ?thesis
    using assms(2) u len by (simp add: encrypt_message_def Let_def read_at_def)
qed

text \<open>What \<open>decrypt_message\<close> makes of a message whose length field is right.\<close>

lemma decrypt_message_eq:
  assumes "message_ok m"
  shows "decrypt_message L keys m outlen =
    (if m_length m < 40 \<or> m_length m > outlen + 40 then Done (-1, [])
     else let n = length (m_message m) - 40; body = take (8 + n) (m_message m) in
       if memcmp_ct L (hmac_sha256 L (recv_hmac_key keys) body) (drop (8 + n) (m_message m)) \<noteq> 0
       then Done (-1, [])
       else Done (0, chacha_dec L (recv_symm_key keys) (decbe64 L (take 8 body)) (slice 8 n (m_message m))))"
proof (cases "m_length m < 40")
  case False
  have u: "unat (m_length m) = length (m_message m)" using message_ok_length [OF assms] .
  with False have n: "40 \<le> length (m_message m)" by (simp add: not_less word_le_nat_alt)
  have p: "unat (m_length m - 40) = length (m_message m) - 40"
    using u n by (simp add: unat_sub word_le_nat_alt)
  have q: "unat (8 + (m_length m - 40)) = 8 + (length (m_message m) - 40)"
  proof -
    have "unat (8 :: u64) + unat (m_length m - 40) < 2 ^ 64"
      using p u n unat64_less [of "m_length m"] by simp
    from unat_plus_small [OF this] p show ?thesis by simp
  qed
  have r1: "read_at (m_message m) 0 (8 + (length (m_message m) - 40)) =
      Done (take (8 + (length (m_message m) - 40)) (m_message m))"
    using n by (simp add: read_at_def slice_def)
  have r2: "read_at (m_message m) (8 + (length (m_message m) - 40)) 32 =
      Done (drop (8 + (length (m_message m) - 40)) (m_message m))"
    using n by (simp add: read_at_def slice_def)
  have r3: "read_at (m_message m) 8 (length (m_message m) - 40) =
      Done (slice 8 (length (m_message m) - 40) (m_message m))"
    using n by (simp add: read_at_def)
  show ?thesis
    using False unfolding decrypt_message_def Let_def p q r1 r2 by (simp add: r3)
qed (simp add: decrypt_message_def)

lemma decrypt_encrypt:
  assumes "lib_ok L" "key_linked s r" "encrypt_message L mem s pt (of_nat (length pt)) = Done (Some m)"
    "length pt + 40 < 2 ^ 64" "length pt \<le> unat outlen" "unat outlen + 40 < 2 ^ 64"
  shows "decrypt_message L r m outlen = Done (0, pt)"
proof -
  note ok = lib_ok_parts [OF assms(1)]
  have al: "alloc_message mem (8 + of_nat (length pt) + 32)"
    using assms(3) by (auto simp: encrypt_message_def Let_def split: if_splits)
  from encrypt_message_ok [OF assms(1) al assms(4), of s] assms(3) have m:
    "message_ok m" "m_length m = 8 + of_nat (length pt) + 32"
    "m_message m = (encbe64 L (k_nonce s) @ chacha_enc L (send_symm_key s) (k_nonce s) pt) @
      hmac_sha256 L (send_hmac_key s) (encbe64 L (k_nonce s) @ chacha_enc L (send_symm_key s) (k_nonce s) pt)"
    by simp_all
  have len: "length (m_message m) = length pt + 40"
    using ok by (simp add: m(3) wire_simps)
  have u: "unat (m_length m) = length pt + 40"
    using message_ok_length [OF m(1)] len by simp
  have o: "unat (outlen + 40) = unat outlen + 40"
    using unat_plus_small [of outlen 40] assms(6) by simp
  have c: "\<not> (m_length m < 40 \<or> m_length m > outlen + 40)"
    using u o assms(5) by (simp add: word_less_nat_alt)
  have s: "slice 8 (length pt) (m_message m) = chacha_enc L (send_symm_key s) (k_nonce s) pt"
    unfolding m(3) append_assoc using ok by (intro slice_at) (simp_all add: wire_simps)
  have b: "take (8 + length pt) (m_message m) =
      encbe64 L (k_nonce s) @ chacha_enc L (send_symm_key s) (k_nonce s) pt"
    unfolding m(3) using ok by (intro take_length_append) (simp add: wire_simps)
  have d: "drop (8 + length pt) (m_message m) =
      hmac_sha256 L (send_hmac_key s) (encbe64 L (k_nonce s) @ chacha_enc L (send_symm_key s) (k_nonce s) pt)"
    unfolding m(3) using ok by (intro drop_length_append) (simp add: wire_simps)
  have n: "length (m_message m) - 40 = length pt" by (simp add: len)
  show ?thesis
    unfolding decrypt_message_eq [OF m(1)] n Let_def b d s
    using c ok assms(2) by (simp add: wire_simps key_linked_def)
qed

section \<open>A channel\<close>

text \<open>
  The contract the rest of the program has with this layer: a value sealed by one end is what the
  other end opens, and sealing keeps the two ends linked, so a conversation of any length goes
  through.
\<close>

locale channel =
  fixes linked :: "'s \<Rightarrow> 'r \<Rightarrow> bool"
    and seal :: "'s \<Rightarrow> 'p \<Rightarrow> ('s \<times> 'c) option"
    and unseal :: "'r \<Rightarrow> 'c \<Rightarrow> 'p option"
  assumes unseal_seal: "linked s r \<Longrightarrow> seal s p = Some (s', c) \<Longrightarrow> unseal r c = Some p \<and> linked s' r"
begin

fun seal_all :: "'s \<Rightarrow> 'p list \<Rightarrow> ('s \<times> 'c list) option" where
  "seal_all s [] = Some (s, [])"
| "seal_all s (p # ps) = (case seal s p of None \<Rightarrow> None
     | Some (s', c) \<Rightarrow> (case seal_all s' ps of None \<Rightarrow> None | Some (s'', cs) \<Rightarrow> Some (s'', c # cs)))"

lemma unseal_all:
  "linked s r \<Longrightarrow> seal_all s ps = Some (s', cs) \<Longrightarrow> map (unseal r) cs = map Some ps \<and> linked s' r"
proof (induction ps arbitrary: s cs)
  case Nil
  then show ?case by simp
next
  case (Cons p ps)
  from Cons.prems(2) obtain s1 c cs1 where
    "seal s p = Some (s1, c)" "seal_all s1 ps = Some (s', cs1)" "cs = c # cs1"
    by (auto split: option.splits)
  with Cons.IH [of s1 cs1] unseal_seal [OF Cons.prems(1)] show ?case by fastforce
qed

end

text \<open>The program's own ends: a sender is a key set (with a library that keeps its laws).\<close>

definition cl_linked :: "ibc \<Rightarrow> keyset \<Rightarrow> keyset \<Rightarrow> bool" where
  "cl_linked L s r \<longleftrightarrow> lib_ok L \<and> key_linked s r"

definition cl_seal :: "ibc \<Rightarrow> keyset \<Rightarrow> bytes \<Rightarrow> (keyset \<times> message) option" where
  "cl_seal L s pt =
     (if length pt + 80 < 2 ^ 64
      then (case send_message L (\<lambda>_ _. True) (init_handler True) s pt (of_nat (length pt)) of
        Done (r, con, s') \<Rightarrow> (case (r = 0, out_queue con) of (True, [m]) \<Rightarrow> Some (s', m) | _ \<Rightarrow> None)
      | _ \<Rightarrow> None)
      else None)"

definition cl_open :: "ibc \<Rightarrow> keyset \<Rightarrow> message \<Rightarrow> bytes option" where
  "cl_open L r m = (case recv_message L (\<lambda>_ _. True) r (Got m []) of Done x \<Rightarrow> x | UB \<Rightarrow> None)"

lemma recv_sealed:
  assumes "lib_ok L" "key_linked s r" "encrypt_message L mem s pt (of_nat (length pt)) = Done (Some m)"
    "length pt + 80 < 2 ^ 64" "alloc_message mem' (of_nat (length pt))"
  shows "recv_message L mem' r (Got m q) = Done (Some pt)"
proof -
  have u: "unat (of_nat (length pt) :: u64) = length pt"
    using assms(4) by (intro unat_of_nat_small) simp
  have l: "m_length m = 8 + of_nat (length pt) + 32"
    using assms(3) by (auto simp: encrypt_message_def Let_def exec_bind_Done_iff split: if_splits)
  then have "m_length m - 40 = of_nat (length pt)" by (simp add: algebra_simps)
  moreover have "decrypt_message L r m (of_nat (length pt)) = Done (0, pt)"
    using assms u by (intro decrypt_encrypt [OF assms(1-3)]) auto
  ultimately show ?thesis using assms(5) by (simp add: recv_message_def)
qed

lemma cl_unseal_seal:
  assumes "cl_linked L s r" "cl_seal L s pt = Some (s', m)"
  shows "cl_open L r m = Some pt \<and> cl_linked L s' r"
proof -
  have len: "length pt + 80 < 2 ^ 64"
    using assms(2) by (simp add: cl_seal_def split: if_splits)
  have al: "alloc_message (\<lambda>_ _. True) x" for x by (simp add: alloc_message_def)
  have ok: "lib_ok L" "key_linked s r" using assms(1) by (simp_all add: cl_linked_def)
  obtain m1 where m1: "encrypt_message L (\<lambda>_ _. True) s pt (of_nat (length pt)) = Done (Some m1)"
    using encrypt_message_ok [OF ok(1) al, of pt s] len by auto
  then have "m1 = m" "s' = s\<lparr>k_nonce := k_nonce s + 1\<rparr>"
    using assms(2) len
    by (auto simp: cl_seal_def send_message_def add_message_def init_handler_def)
  with recv_sealed [OF ok m1 len al] ok show ?thesis
    by (simp add: cl_open_def cl_linked_def)
qed

interpretation sealed: channel "cl_linked L" "cl_seal L" "cl_open L" for L
  by unfold_locales (rule cl_unseal_seal)

section \<open>Properties\<close>

text \<open>Successive calls of \<open>send_message\<close> on one connection, each with its own allocation outcomes.\<close>

fun send_all :: "ibc \<Rightarrow> (nat \<Rightarrow> heap_oracle) \<Rightarrow> con_handle \<Rightarrow> keyset \<Rightarrow> bytes list \<Rightarrow>
    (con_handle \<times> keyset) exec" where
  "send_all L mem con keys [] = Done (con, keys)"
| "send_all L mem con keys (p # ps) =
     exec_bind (send_message L (mem (length ps)) con keys p (of_nat (length p)))
       (\<lambda>(r, con', keys'). send_all L mem con' keys' ps)"

text \<open>
  The exact form of a message sealed under a nonce: the nonce, the plaintext encrypted under that same
  nonce, and the MAC over both.
\<close>

definition sealed_message :: "ibc \<Rightarrow> keyset \<Rightarrow> u64 \<Rightarrow> bytes \<Rightarrow> message" where
  "sealed_message L keys n pt =
     \<lparr>m_length = 8 + of_nat (length pt) + 32, m_seq_num = n,
      m_message = encbe64 L n @ chacha_enc L (send_symm_key keys) n pt @
        hmac_sha256 L (send_hmac_key keys) (encbe64 L n @ chacha_enc L (send_symm_key keys) n pt)\<rparr>"

lemma sealed_message_nonce [simp]: "sealed_message L (keys\<lparr>k_nonce := k\<rparr>) = sealed_message L keys"
  by (simp add: sealed_message_def fun_eq_iff)

lemma encrypt_message_sealed:
  assumes "lib_ok L" "alloc_message mem (8 + of_nat (length pt) + 32)" "length pt + 40 < 2 ^ 64"
  shows "encrypt_message L mem keys pt (of_nat (length pt)) = Done (Some (sealed_message L keys (k_nonce keys) pt))"
  using encrypt_message_ok [OF assms, of keys] by (auto simp: sealed_message_def)

lemma send_message_cases:
  assumes "lib_ok L" "send_message L mem con keys pt (of_nat (length pt)) = Done (r, con', keys')"
    "length pt + 40 < 2 ^ 64"
  shows "(con' = con \<and> keys' = keys) \<or>
    keys' = keys\<lparr>k_nonce := k_nonce keys + 1\<rparr> \<and> out_queue con' = out_queue con \<or>
    keys' = keys\<lparr>k_nonce := k_nonce keys + 1\<rparr> \<and>
      out_queue con' = out_queue con @ [sealed_message L keys (k_nonce keys) pt]"
proof (cases "alloc_message mem (8 + of_nat (length pt) + 32)")
  case True
  from encrypt_message_sealed [OF assms(1) True assms(3), of keys] assms(2)
  show ?thesis by (auto simp: send_message_def add_message_def split: if_splits)
next
  case False
  with assms(2) show ?thesis by (simp add: send_message_def encrypt_message_def Let_def)
qed

text \<open>What a run of sends leaves in the queue: a subsequence of the plaintexts under increasing nonces.\<close>

lemma send_all_nonces:
  assumes "lib_ok L"
  shows "send_all L mem con keys pts = Done (con', keys') \<Longrightarrow> \<forall>p \<in> set pts. length p + 40 < 2 ^ 64 \<Longrightarrow>
    \<exists>is ps. length is = length ps \<and> subseq ps pts \<and> sorted_wrt (<) is \<and> (\<forall>i \<in> set is. i < length pts) \<and>
      out_queue con' = out_queue con @ map2 (\<lambda>i. sealed_message L keys (k_nonce keys + of_nat i)) is ps"
proof (induction pts arbitrary: con keys)
  case Nil
  then show ?case by (intro exI [of _ "[]"]) simp
next
  case (Cons p pts)
  from Cons.prems(1) obtain r con1 keys1 where
    s1: "send_message L (mem (length pts)) con keys p (of_nat (length p)) = Done (r, con1, keys1)" and
    s2: "send_all L mem con1 keys1 pts = Done (con', keys')"
    by (auto simp: exec_bind_Done_iff)
  have lp: "length p + 40 < 2 ^ 64" and lps: "\<forall>p \<in> set pts. length p + 40 < 2 ^ 64"
    using Cons.prems(2) by simp_all
  from Cons.IH [OF s2 lps] obtain "is" ps where ih: "length is = length ps" "subseq ps pts"
    "sorted_wrt (<) is" "\<forall>i \<in> set is. i < length pts"
    "out_queue con' = out_queue con1 @ map2 (\<lambda>i. sealed_message L keys1 (k_nonce keys1 + of_nat i)) is ps"
    by blast
  have shift: "map2 (\<lambda>i. sealed_message L keys (k_nonce keys + 1 + of_nat i)) is ps =
      map2 (\<lambda>i. sealed_message L keys (k_nonce keys + of_nat i)) (map Suc is) ps"
    by (simp add: zip_map1 add.assoc split_def)
  have srt: "sorted_wrt (<) (map Suc is)" "sorted_wrt (<) (0 # map Suc is)"
    using ih(3) by (simp_all add: sorted_wrt_map)
  from send_message_cases [OF assms s1 lp] consider
      (none) "con1 = con" "keys1 = keys"
    | (drop) "keys1 = keys\<lparr>k_nonce := k_nonce keys + 1\<rparr>" "out_queue con1 = out_queue con"
    | (sent) "keys1 = keys\<lparr>k_nonce := k_nonce keys + 1\<rparr>"
        "out_queue con1 = out_queue con @ [sealed_message L keys (k_nonce keys) p]"
    by blast
  then show ?case
  proof cases
    case none
    with ih show ?thesis by (intro exI [of _ "is"] exI [of _ ps]) fastforce
  next
    case drop
    with ih shift srt show ?thesis
      by (intro exI [of _ "map Suc is"] exI [of _ ps]) (simp add: list_emb_Cons)
  next
    case sent
    with ih shift srt show ?thesis
      by (intro exI [of _ "0 # map Suc is"] exI [of _ "p # ps"]) simp
  qed
qed

text \<open>
  C33: No nonce is used twice under one key: whatever a program sends on a connection and whichever
  allocations fail, each message that \<open>send_message\<close> queues is one of the plaintexts \<open>p\<close> sent, in
  order, sealed under a nonce \<open>n\<close>: it is exactly the nonce, \<open>p\<close> encrypted by chacha under the same
  \<open>n\<close>, and the MAC over both; and these nonces are pairwise different.
\<close>
theorem nonce_unique:
  assumes "lib_ok L" and "send_all L mem con keys pts = Done (con', keys')"
    and "\<forall>p \<in> set pts. length p + 40 < 2 ^ 64" and "length pts < 2 ^ 64"
  shows "\<exists>ns ps. length ns = length ps \<and> subseq ps pts \<and> distinct ns \<and>
    out_queue con' = out_queue con @ map2 (sealed_message L keys) ns ps \<and>
    (\<forall>n p. m_seq_num (sealed_message L keys n p) = n \<and>
       m_message (sealed_message L keys n p) =
         encbe64 L n @ chacha_enc L (send_symm_key keys) n p @
         hmac_sha256 L (send_hmac_key keys) (encbe64 L n @ chacha_enc L (send_symm_key keys) n p))"
proof -
  from send_all_nonces [OF assms(1-3)] obtain "is" ps where
    m: "length is = length ps" "subseq ps pts" "sorted_wrt (<) is" "\<forall>i \<in> set is. i < length pts"
    "out_queue con' = out_queue con @ map2 (\<lambda>i. sealed_message L keys (k_nonce keys + of_nat i)) is ps"
    by blast
  let ?ns = "map (\<lambda>i. k_nonce keys + of_nat i) is"
  have "inj_on (\<lambda>i. k_nonce keys + of_nat i) (set is)"
  proof (rule inj_onI)
    fix i j
    assume "i \<in> set is" "j \<in> set is" "k_nonce keys + of_nat i = k_nonce keys + of_nat j"
    then have "(of_nat i :: u64) = of_nat j" "i < 2 ^ 64" "j < 2 ^ 64"
      using m(4) assms(4) by (auto intro: less_trans)
    then show "i = j" using unat_of_nat_small by metis
  qed
  then have "distinct ?ns"
    using m(3) strict_sorted_iff [of "is"] by (simp add: distinct_map)
  moreover have "out_queue con' = out_queue con @ map2 (sealed_message L keys) ?ns ps"
    using m(5) by (simp add: zip_map1 split_def)
  ultimately show ?thesis
    using m(1,2) by (intro exI [of _ ?ns] exI [of _ ps]) (simp add: sealed_message_def)
qed

definition demo_keys :: keyset where
  "demo_keys = \<lparr>k_nonce = 1, send_symm_key = [1], recv_symm_key = [2], send_hmac_key = [3], recv_hmac_key = [4]\<rparr>"

definition demo_peer :: keyset where
  "demo_peer = \<lparr>k_nonce = 2, send_symm_key = [2], recv_symm_key = [1], send_hmac_key = [4], recv_hmac_key = [3]\<rparr>"

theorem nonce_unique_witness:
  "\<exists>con' keys' n1 n2. send_all demo_lib (\<lambda>_ _ _. True) (init_handler True) demo_keys [[7], [8]] = Done (con', keys') \<and>
     out_queue con' = [sealed_message demo_lib demo_keys n1 [7], sealed_message demo_lib demo_keys n2 [8]] \<and> n1 \<noteq> n2"
proof -
  obtain con' keys' where s: "send_all demo_lib (\<lambda>_ _ _. True) (init_handler True) demo_keys [[7], [8]] = Done (con', keys')"
    and l: "length (out_queue con') = 2"
    by (auto simp: send_message_def encrypt_message_def alloc_message_def read_at_def add_message_def init_handler_def)
  from nonce_unique [OF demo_lib_ok s] obtain ns ps where n: "length ns = length ps" "subseq ps [[7], [8]]"
    "distinct ns" "out_queue con' = map2 (sealed_message demo_lib demo_keys) ns ps"
    by (auto simp: init_handler_def)
  then have "length ps = length [[7], [8 :: byte]]" using l by simp
  then have ps: "ps = [[7], [8]]" using n(2) by (metis subseq_same_length)
  with n(1) obtain n1 n2 where ns: "ns = [n1, n2]" by (cases ns; cases "tl ns") auto
  show ?thesis using s n ps ns by (intro exI [of _ con'] exI [of _ keys'] exI [of _ n1] exI [of _ n2]) simp
qed

lemma send_all_sealed:
  assumes "lib_ok L"
  shows "key_linked s r \<Longrightarrow> \<forall>p \<in> set pts. length p + 80 < 2 ^ 64 \<Longrightarrow>
    \<exists>con' s' ms. send_all L (\<lambda>_ _ _. True) con s pts = Done (con', s') \<and>
      out_queue con' = out_queue con @ ms \<and> channel.seal_all (cl_seal L) s pts = Some (s', ms)"
proof (induction pts arbitrary: s con)
  case Nil
  then show ?case by simp
next
  case (Cons p pts)
  have al: "alloc_message (\<lambda>_ _. True) x" for x by (simp add: alloc_message_def)
  have lp: "length p + 80 < 2 ^ 64" "length p + 40 < 2 ^ 64" using Cons.prems(2) by simp_all
  obtain m where m: "encrypt_message L (\<lambda>_ _. True) s p (of_nat (length p)) = Done (Some m)"
    using encrypt_message_ok [OF assms al lp(2)] by blast
  let ?s = "s\<lparr>k_nonce := k_nonce s + 1\<rparr>"
  have "cl_seal L s p = Some (?s, m)"
    using m lp by (simp add: cl_seal_def send_message_def add_message_def init_handler_def)
  moreover have "key_linked ?s r" using Cons.prems(1) by simp
  moreover have "send_message L (\<lambda>_ _. True) con s p (of_nat (length p)) =
      Done (0, add_message (\<lambda>_. \<lambda>_. True) con m, ?s)"
    using m by (simp add: send_message_def)
  ultimately show ?case
    using Cons.IH [of ?s "add_message (\<lambda>_ _. True) con m"] Cons.prems(2)
    by (fastforce simp: add_message_def)
qed

text \<open>
  C13: The two ends of a session understand each other: with key sets expanded from one key buffer for
  the two roles, everything one end sends with \<open>send_message\<close> is put on its queue and comes out of
  the other end's \<open>recv_message\<close> unchanged and in order, in both directions.
\<close>
theorem session_roundtrip:
  assumes "lib_ok L" and "\<forall>p \<in> set pts. length p + 80 < 2 ^ 64" and "t = 0 \<or> t = 1"
  shows "\<exists>con' s' ms. send_all L (\<lambda>_ _ _. True) con (expand_keyset kb t k) pts = Done (con', s') \<and>
    out_queue con' = out_queue con @ ms \<and>
    map (\<lambda>m. recv_message L (\<lambda>_ _. True) (expand_keyset kb (1 - t) k') (Got m q)) ms =
      map (\<lambda>p. Done (Some p)) pts"
proof -
  let ?s = "expand_keyset kb t k" and ?r = "expand_keyset kb (1 - t) k'"
  have l: "key_linked ?s ?r" using assms(3) by (auto simp: expand_keyset_linked)
  from send_all_sealed [OF assms(1) l assms(2)] obtain con' s' ms where
    s: "send_all L (\<lambda>_ _ _. True) con ?s pts = Done (con', s')" "out_queue con' = out_queue con @ ms"
    "channel.seal_all (cl_seal L) ?s pts = Some (s', ms)" by blast
  have "map (cl_open L ?r) ms = map Some pts"
    using sealed.unseal_all [OF _ s(3)] l assms(1) by (simp add: cl_linked_def)
  moreover have "recv_message L (\<lambda>_ _. True) ?r (Got m q) = Done (Some p)"
    if "cl_open L ?r m = Some p" for m p
    using that by (simp add: cl_open_def recv_message_def alloc_message_def split: exec.splits)
  ultimately have "map (\<lambda>m. recv_message L (\<lambda>_ _. True) ?r (Got m q)) ms = map (\<lambda>p. Done (Some p)) pts"
    by (auto simp: list_eq_iff_nth_eq)
  with s show ?thesis by blast
qed

theorem session_roundtrip_witness:
  "\<exists>con' s' m. send_all demo_lib (\<lambda>_ _ _. True) (init_handler True) (expand_keyset (replicate 128 5) 0 demo_keys) [[7, 9]]
     = Done (con', s') \<and> out_queue con' = [m] \<and>
     recv_message demo_lib (\<lambda>_ _. True) (expand_keyset (replicate 128 5) 1 demo_keys) (Got m []) = Done (Some [7, 9])"
  using session_roundtrip [OF demo_lib_ok, of "[[7, 9]]" 0 "init_handler True" "replicate 128 5" demo_keys demo_keys "[]"]
  by (auto simp: init_handler_def)

text \<open>
  C16: What \<open>recv_message\<close> hands on is authentic: for any message whatsoever (with a true length
  field), including ones too short for a MAC, the result is defined, and it is a plaintext exactly
  when the last 32 bytes are the MAC of everything before them under the receiving key; the
  plaintext never exceeds the buffer allocated for it.
\<close>
theorem recv_message_authentic:
  assumes "lib_ok L" and "message_ok m"
  shows "recv_message L mem keys (Got m q) = Done
    (if 40 \<le> length (m_message m) \<and> alloc_message mem (m_length m - 40) \<and>
        drop (length (m_message m) - 32) (m_message m) =
          hmac_sha256 L (recv_hmac_key keys) (take (length (m_message m) - 32) (m_message m))
     then Some (chacha_dec L (recv_symm_key keys) (decbe64 L (take 8 (m_message m)))
                  (slice 8 (length (m_message m) - 40) (m_message m)))
     else None) \<and>
    (\<forall>pt. recv_message L mem keys (Got m q) = Done (Some pt) \<longrightarrow> length pt = unat (m_length m - 40))"
proof (intro conjI allI impI)
  note ok = lib_ok_parts [OF assms(1)]
  have u: "unat (m_length m) = length (m_message m)" using message_ok_length [OF assms(2)] .
  have lt: "m_length m < 40 \<longleftrightarrow> \<not> 40 \<le> length (m_message m)"
    using u by (simp add: word_less_nat_alt not_le)
  have gt: "\<not> m_length m > (m_length m - 40) + 40" by simp
  have n: "8 + (length (m_message m) - 40) = length (m_message m) - 32" if "40 \<le> length (m_message m)"
    using that by simp
  have t8: "take 8 (take (length (m_message m) - 32) (m_message m)) = take 8 (m_message m)"
    if "40 \<le> length (m_message m)" using that by (simp add: min_absorb1)
  show r: "recv_message L mem keys (Got m q) = Done
    (if 40 \<le> length (m_message m) \<and> alloc_message mem (m_length m - 40) \<and>
        drop (length (m_message m) - 32) (m_message m) =
          hmac_sha256 L (recv_hmac_key keys) (take (length (m_message m) - 32) (m_message m))
     then Some (chacha_dec L (recv_symm_key keys) (decbe64 L (take 8 (m_message m)))
                  (slice 8 (length (m_message m) - 40) (m_message m)))
     else None)"
    using gt ok
    by (auto simp: recv_message_def decrypt_message_eq [OF assms(2)] lt Let_def n t8 memcmp_ct_iff wire_simps)
  fix pt
  assume "recv_message L mem keys (Got m q) = Done (Some pt)"
  then show "length pt = unat (m_length m - 40)"
    using ok u by (auto simp: r wire_simps unat_sub word_le_nat_alt split: if_splits)
qed

theorem recv_message_authentic_witness:
  "recv_message demo_lib (\<lambda>_ _. True) demo_peer (Got \<lparr>m_length = 3, m_seq_num = 0, m_message = [1, 2, 3]\<rparr> []) = Done None"
  using recv_message_authentic [OF demo_lib_ok, of "\<lparr>m_length = 3, m_seq_num = 0, m_message = [1, 2, 3]\<rparr>"]
  by (simp add: message_ok_def)

end
