(* ===== verification/Handshake.thy ===== *)
theory Handshake
  imports CryptoLayer
begin

text \<open>
  \<open>crypto/handshake.c\<close>: a Diffie-Hellman exchange in which the server signs its public value, a hash
  of the key buffer and its RSA public key. Each side is a function from what it receives and from
  the outcomes of its library calls to its result, the messages it hands to \<open>add_message\<close> and its
  key set.
\<close>

section \<open>The code\<close>

definition INVALID_SIG :: int where "INVALID_SIG = 1"
definition INVALID_DH_KEY :: int where "INVALID_DH_KEY = 2"
definition INVALID_KEY_HASH :: int where "INVALID_KEY_HASH = 3"
definition INVALID_INIT :: int where "INVALID_INIT = 4"

lemmas hs_codes = INVALID_SIG_def INVALID_DH_KEY_def INVALID_KEY_HASH_def INVALID_INIT_def

text \<open>The string \<open>initiate\<close> with its terminating zero.\<close>

definition hs_init :: bytes where
  "hs_init = [105, 110, 105, 116, 105, 97, 116, 101, 0]"

definition init_message :: "heap_oracle \<Rightarrow> message option" where
  "init_message mem =
     (if alloc_message mem 9 then Some \<lparr>m_length = 9, m_seq_num = 0, m_message = hs_init\<rparr> else None)"

text \<open>The key buffer both sides derive from the shared secret; the wire form is allocated first.\<close>

definition session_keybuf :: "ibc \<Rightarrow> heap_oracle \<Rightarrow> nat \<Rightarrow> bytes option" where
  "session_keybuf L mem secret =
     (if \<not> mem 0 (dh_valwire_bufsize L secret) then None
      else map_option (\<lambda>w. pbkdf2 L w 128) (dh_val2wire L secret))"

text \<open>
  What the server meets: whether \<open>dh_init_ctx\<close> works, the exponent drawn, the client's message (none
  in time: \<open>None\<close>), the allocations, and the disjunction of the results of the final clean-up.
\<close>

record server_env =
  sv_init :: heap_oracle
  sv_ctx :: bool
  sv_exp :: "nat option"
  sv_client :: "message option"
  sv_secret :: heap_oracle
  sv_reply :: heap_oracle
  sv_free :: int

text \<open>The response: the signature covers everything before it. Its sequence number is set to 0 again.\<close>

definition server_reply :: "ibc \<Rightarrow> heap_oracle \<Rightarrow> rsa_key \<Rightarrow> rsa_public_key \<Rightarrow> nat \<Rightarrow> bytes \<Rightarrow> message option" where
  "server_reply L mem key pk A keybuf =
     (let rsa_key_size = 8 + rsa_pubkey_bufsize L (pk_bits pk);
          dh_key_size = 8 + dh_valwire_bufsize L A;
          sig_size = (pk_bits pk + 7) div 8;
          response_size = rsa_key_size + dh_key_size + 32 + sig_size
      in if \<not> alloc_message mem response_size then None
         else Option.bind (rsa_pubkey2wire L pk) (\<lambda>rw.
              Option.bind (dh_val2wire L A) (\<lambda>dw.
              let response = encbe64 L (rsa_key_size - 8) @ rw @ encbe64 L (dh_key_size - 8) @ dw @ sha256 L keybuf
              in Option.bind (rsa_pss_sign L key response) (\<lambda>sg.
              Some \<lparr>m_length = response_size, m_seq_num = 0, m_message = response @ sg\<rparr>))))"

text \<open>From the client's value on.\<close>

definition server_answer :: "ibc \<Rightarrow> server_env \<Rightarrow> rsa_key \<Rightarrow> rsa_public_key \<Rightarrow> nat \<Rightarrow> nat \<Rightarrow> message \<Rightarrow> keyset \<Rightarrow>
    int \<times> message list \<times> keyset" where
  "server_answer L env key pk a A cm keys = (case dh_wire2val L (m_message cm) of
     None \<Rightarrow> (-1, [], keys)
   | Some B \<Rightarrow>
       if dh_range_check L B = -1 then (-1, [], keys)
       else if dh_range_check L B = 0 then (INVALID_DH_KEY, [], keys)
       else (case Option.bind (dh_compute_secret L a B) (session_keybuf L (sv_secret env)) of
         None \<Rightarrow> (-1, [], keys)
       | Some kb \<Rightarrow>
           let keys' = (expand_keyset kb 1 keys)\<lparr>k_nonce := 2\<rparr>
           in (case server_reply L (sv_reply env) key pk A kb of
             None \<Rightarrow> (-1, [], keys')
           | Some sm \<Rightarrow> (if sv_free env \<noteq> 0 then -1 else 0, [sm], keys'))))"

definition server_handshake :: "ibc \<Rightarrow> server_env \<Rightarrow> rsa_key \<Rightarrow> keyset \<Rightarrow> int \<times> message list \<times> keyset" where
  "server_handshake L env key keys = (case init_message (sv_init env) of
     None \<Rightarrow> (-1, [], keys)
   | Some im \<Rightarrow>
       (case (rsa_pub_key L key, if sv_ctx env then sv_exp env else None) of
          (Some pk, Some a) \<Rightarrow>
            (case (dh_gen_pub L a, sv_client env) of
               (Some A, Some cm) \<Rightarrow>
                 (case server_answer L env key pk a A cm keys of (r, ms, keys') \<Rightarrow> (r, im # ms, keys'))
             | _ \<Rightarrow> (-1, [im], keys))
        | _ \<Rightarrow> (-1, [im], keys)))"

text \<open>
  What the client meets. The result also has the value stored through \<open>res\<close> and the server's public
  key, if it was set. \<open>cv_bits\<close> is the size of the group, \<open>dh_ctx.bits\<close>.
\<close>

record client_env =
  cv_init :: "message option"
  cv_ctx :: bool
  cv_bits :: u64
  cv_exp :: "nat option"
  cv_mem :: heap_oracle
  cv_server :: "message option"
  cv_secret :: heap_oracle
  cv_free :: int

type_synonym client_result = "int \<times> int \<times> message list \<times> keyset \<times> rsa_public_key option"

text \<open>
  The server's response. Lengths are read from the message and added up in 64 bits, before each is
  compared with the length of the message; a read past the end of the buffer is undefined.
\<close>

definition client_check :: "ibc \<Rightarrow> client_env \<Rightarrow> message \<Rightarrow> u64 \<Rightarrow> u64 \<Rightarrow> bytes \<Rightarrow> keyset \<Rightarrow>
    (int \<times> int \<times> keyset \<times> rsa_public_key option) exec" where
  "client_check L env m rs ds kb keys =
     (if 8 + rs + 8 + ds + 32 > m_length m then Done (-1, 0, keys, None)
      else exec_bind (read_at (m_message m) (unat (8 + rs + 8 + ds)) 32) (\<lambda>h.
        if memcmp_ct L (sha256 L kb) h \<noteq> 0 then Done (1, INVALID_KEY_HASH, keys, None)
        else if rs > 16384 div 8 then Done (-1, 0, keys, None)
        else exec_bind (read_at (m_message m) 8 (unat rs)) (\<lambda>rw. case rsa_wire2pubkey L rw of
          None \<Rightarrow> Done (-1, 0, keys, None)
        | Some pk \<Rightarrow>
            let so = 8 + rs + 8 + ds + 32 in
            exec_bind (read_at (m_message m) (unat so) (unat (m_length m - so))) (\<lambda>sg.
            exec_bind (read_at (m_message m) 0 (unat so)) (\<lambda>signed. case rsa_pss_verify L pk sg signed of
              None \<Rightarrow> Done (-1, 0, keys, Some pk)
            | Some ok \<Rightarrow>
                let res = if ok then 0 else INVALID_SIG
                in Done (if cv_free env \<noteq> 0 then -1 else if res \<noteq> 0 then 1 else 0, res, keys, Some pk))))))"

text \<open>The key buffer from the server's value, or the pair of the result and what is stored in \<open>res\<close>.\<close>

definition client_keybuf :: "ibc \<Rightarrow> client_env \<Rightarrow> nat \<Rightarrow> bytes \<Rightarrow> int \<times> int + bytes" where
  "client_keybuf L env b dw = (case dh_wire2val L dw of
     None \<Rightarrow> Inl (-1, 0)
   | Some A \<Rightarrow>
       if dh_range_check L A = -1 then Inl (-1, 0)
       else if dh_range_check L A = 0 then Inl (1, INVALID_DH_KEY)
       else (case Option.bind (dh_compute_secret L b A) (session_keybuf L (cv_secret env)) of
         None \<Rightarrow> Inl (-1, 0)
       | Some kb \<Rightarrow> Inr kb))"

definition client_finish :: "ibc \<Rightarrow> client_env \<Rightarrow> nat \<Rightarrow> message \<Rightarrow> keyset \<Rightarrow>
    (int \<times> int \<times> keyset \<times> rsa_public_key option) exec" where
  "client_finish L env b m keys =
     exec_bind (read_at (m_message m) 0 8) (\<lambda>rbuf. let rs = decbe64 L rbuf in
       if 8 + rs + 8 > m_length m then Done (-1, 0, keys, None)
       else exec_bind (read_at (m_message m) (unat (8 + rs)) 8) (\<lambda>dbuf. let ds = decbe64 L dbuf in
         if 8 + rs + 8 + ds > m_length m then Done (-1, 0, keys, None)
         else if ds > (cv_bits env + 7) div 8 + 8 then Done (1, INVALID_DH_KEY, keys, None)
         else exec_bind (read_at (m_message m) (unat (16 + rs)) (unat ds)) (\<lambda>dw.
           case client_keybuf L env b dw of
             Inl (r, res) \<Rightarrow> Done (r, res, keys, None)
           | Inr kb \<Rightarrow> client_check L env m rs ds kb ((expand_keyset kb 0 keys)\<lparr>k_nonce := 1\<rparr>))))"

text \<open>The message with the client's public value.\<close>

definition client_hello :: "ibc \<Rightarrow> client_env \<Rightarrow> nat \<Rightarrow> message option" where
  "client_hello L env b = Option.bind (dh_gen_pub L b) (\<lambda>B.
     if \<not> alloc_message (cv_mem env) (dh_valwire_bufsize L B) then None
     else map_option (\<lambda>w. \<lparr>m_length = dh_valwire_bufsize L B, m_seq_num = 0, m_message = w\<rparr>) (dh_val2wire L B))"

definition client_handshake :: "ibc \<Rightarrow> client_env \<Rightarrow> keyset \<Rightarrow> client_result exec" where
  "client_handshake L env keys = (case cv_init env of
     None \<Rightarrow> Done (-1, 0, [], keys, None)
   | Some im \<Rightarrow> exec_bind (read_at (m_message im) 0 9) (\<lambda>text.
       if text \<noteq> hs_init then Done (INVALID_INIT, 0, [], keys, None)
       else (case (if cv_ctx env then cv_exp env else None) of
         None \<Rightarrow> Done (-1, 0, [], keys, None)
       | Some b \<Rightarrow> (case client_hello L env b of
           None \<Rightarrow> Done (-1, 0, [], keys, None)
         | Some cm \<Rightarrow> (case cv_server env of
             None \<Rightarrow> Done (-1, 0, [cm], keys, None)
           | Some sm \<Rightarrow> exec_bind (client_finish L env b sm keys) (\<lambda>(r, res, keys', pk).
               Done (r, res, [cm], keys', pk)))))))"

section \<open>Inversion of the two sides\<close>

lemma server_handshake_success:
  assumes "server_handshake L env key keys = (0, ms, keys')"
  obtains im pk a A cm B s kb sm where
    "init_message (sv_init env) = Some im" "rsa_pub_key L key = Some pk" "sv_exp env = Some a"
    "dh_gen_pub L a = Some A" "sv_client env = Some cm" "dh_wire2val L (m_message cm) = Some B"
    "dh_compute_secret L a B = Some s" "session_keybuf L (sv_secret env) s = Some kb"
    "keys' = (expand_keyset kb 1 keys)\<lparr>k_nonce := 2\<rparr>"
    "server_reply L (sv_reply env) key pk A kb = Some sm" "ms = [im, sm]"
  using assms
  by (auto simp: server_handshake_def server_answer_def Let_def hs_codes bind_eq_Some_conv
      split: option.splits prod.splits if_splits)

lemma client_keybuf_Inr:
  "client_keybuf L env b dw = Inr kb \<longleftrightarrow> (\<exists>A s. dh_wire2val L dw = Some A \<and> dh_range_check L A \<notin> {-1, 0} \<and>
     dh_compute_secret L b A = Some s \<and> session_keybuf L (cv_secret env) s = Some kb)"
  by (auto simp: client_keybuf_def bind_eq_Some_conv split: option.splits)

lemma case_sum_eq:
  "case_sum f g s = y \<longleftrightarrow> (\<exists>x. s = Inl x \<and> f x = y) \<or> (\<exists>x. s = Inr x \<and> g x = y)"
  by (cases s) auto

lemma client_keybuf_Inl: "client_keybuf L env b dw = Inl (r, res) \<Longrightarrow> r \<noteq> 0"
  by (auto simp: client_keybuf_def split: option.splits if_splits)

lemma session_keybuf_val:
  "session_keybuf L mem s = Some kb \<longleftrightarrow>
   mem 0 (dh_valwire_bufsize L s) \<and> (\<exists>w. dh_val2wire L s = Some w \<and> kb = pbkdf2 L w 128)"
  by (auto simp: session_keybuf_def)

lemma server_reply_Some:
  assumes "lib_ok L" "rsa_pub_key L key = Some pk" "server_reply L mem key pk A kb = Some sm"
  obtains rw dw sg where
    "rsa_pubkey2wire L pk = Some rw" "unat (rsa_pubkey_bufsize L (pk_bits pk)) = length rw"
    "rsa_wire2pubkey L rw = Some pk" "dh_val2wire L A = Some dw" "dh_wire2val L dw = Some A"
    "unat (dh_valwire_bufsize L A) = length dw" "unat ((pk_bits pk + 7) div 8) = length sg"
    "m_message sm = encbe64 L (rsa_pubkey_bufsize L (pk_bits pk)) @ rw @
       encbe64 L (dh_valwire_bufsize L A) @ dw @ sha256 L kb @ sg"
    "rsa_pss_verify L pk sg (encbe64 L (rsa_pubkey_bufsize L (pk_bits pk)) @ rw @
       encbe64 L (dh_valwire_bufsize L A) @ dw @ sha256 L kb) = Some True"
    "m_length sm = 8 + rsa_pubkey_bufsize L (pk_bits pk) + (8 + dh_valwire_bufsize L A) + 32 + (pk_bits pk + 7) div 8"
proof -
  note ok = lib_ok_parts [OF assms(1)]
  from assms(3) obtain rw dw sg where
    w: "rsa_pubkey2wire L pk = Some rw" "dh_val2wire L A = Some dw"
    and sg: "rsa_pss_sign L key (encbe64 L (rsa_pubkey_bufsize L (pk_bits pk)) @ rw @
       encbe64 L (dh_valwire_bufsize L A) @ dw @ sha256 L kb) = Some sg"
    and sm: "m_message sm = encbe64 L (rsa_pubkey_bufsize L (pk_bits pk)) @ rw @
       encbe64 L (dh_valwire_bufsize L A) @ dw @ sha256 L kb @ sg"
    "m_length sm = 8 + rsa_pubkey_bufsize L (pk_bits pk) + (8 + dh_valwire_bufsize L A) + 32 + (pk_bits pk + 7) div 8"
    by (auto simp: server_reply_def Let_def bind_eq_Some_conv split: if_splits)
  show ?thesis
    using that [OF w(1) _ _ w(2) _ _ _ sm(1) _ sm(2)] rsa_pubkey_wireD [OF ok(7) w(1)]
      dh_wireD [OF ok(6) w(2)] rsa_signD [OF ok(7) assms(2) sg] rsa_bitsD [OF ok(7) assms(2)] by simp
qed

section \<open>Properties\<close>

text \<open>Sums of small words do not wrap.\<close>

lemma hs_sums:
  assumes "unat (rs :: u64) = r" "unat (ds :: u64) = d" "r \<le> 2048" "d \<le> 65536"
  shows "unat (8 + rs) = 8 + r" "unat (16 + rs) = 16 + r" "unat (8 + rs + 8) = 16 + r"
    "unat (8 + rs + 8 + ds) = 16 + r + d" "unat (8 + rs + 8 + ds + 32) = 48 + r + d"
proof -
  show 1: "unat (8 + rs) = 8 + r" "unat (16 + rs) = 16 + r"
    using assms by (simp_all add: unat_plus_small)
  then show 2: "unat (8 + rs + 8) = 16 + r"
    using assms unat_plus_small [of "8 + rs" 8] by simp
  then show 3: "unat (8 + rs + 8 + ds) = 16 + r + d"
    using assms unat_plus_small [of "8 + rs + 8" ds] by simp
  then show "unat (8 + rs + 8 + ds + 32) = 48 + r + d"
    using assms unat_plus_small [of "8 + rs + 8 + ds" 32] by simp
qed

lemma client_finish_honest:
  assumes "lib_ok L" "unat rs = length rw" "unat ds = length dw" "length rw \<le> 2048" "length dw \<le> 65536"
    and m: "m_message m = encbe64 L rs @ rw @ encbe64 L ds @ dw @ sha256 L kb @ sg"
    "m_length m = 8 + rs + (8 + ds) + 32 + of_nat (length sg)" "length sg < 2 ^ 62"
    and "ds \<le> (cv_bits env + 7) div 8 + 8" "dh_wire2val L dw = Some A" "dh_range_check L A = 1"
    "dh_compute_secret L b A = Some s" "session_keybuf L (cv_secret env) s = Some kb"
    "rsa_wire2pubkey L rw = Some pk"
    "rsa_pss_verify L pk sg (encbe64 L rs @ rw @ encbe64 L ds @ dw @ sha256 L kb) = Some True"
    "cv_free env = 0"
  shows "client_finish L env b m keys = Done (0, 0, (expand_keyset kb 0 keys)\<lparr>k_nonce := 1\<rparr>, Some pk)"
proof -
  note ok = lib_ok_parts [OF assms(1)]
  note u = hs_sums [OF assms(2-5)]
  have assoc: "m_length m = (8 + rs + 8 + ds + 32) + of_nat (length sg)"
    using m(2) by (simp add: algebra_simps)
  have usg: "unat (of_nat (length sg) :: u64) = length sg"
    using m(3) by (intro unat_of_nat_small) simp
  have len: "unat (m_length m) = 48 + length rw + length dw + length sg"
    unfolding assoc using unat_plus_small [of "8 + rs + 8 + ds + 32" "of_nat (length sg)"] u usg m(3) assms(4,5)
    by simp
  have r1: "read_at (m_message m) 0 8 = Done (encbe64 L rs)"
    using ok read_at_append [of "[]" 0 "encbe64 L rs" 8] by (simp add: m(1) wire_simps)
  have r2: "read_at (m_message m) (8 + length rw) 8 = Done (encbe64 L ds)"
    using ok read_at_append [of "encbe64 L rs @ rw" "8 + length rw" "encbe64 L ds" 8] by (simp add: m(1) wire_simps)
  have r3: "read_at (m_message m) (16 + length rw) (length dw) = Done dw"
    using ok read_at_append [of "encbe64 L rs @ rw @ encbe64 L ds" "16 + length rw" dw "length dw"]
    by (simp add: m(1) wire_simps)
  have r4: "read_at (m_message m) (16 + length rw + length dw) 32 = Done (sha256 L kb)"
    using ok read_at_append [of "encbe64 L rs @ rw @ encbe64 L ds @ dw" "16 + length rw + length dw" "sha256 L kb" 32]
    by (simp add: m(1) wire_simps)
  have r5: "read_at (m_message m) 8 (length rw) = Done rw"
    using ok read_at_append [of "encbe64 L rs" 8 rw "length rw"] by (simp add: m(1) wire_simps)
  have r6: "read_at (m_message m) (48 + length rw + length dw) (length sg) = Done sg"
    using ok read_at_append [of "encbe64 L rs @ rw @ encbe64 L ds @ dw @ sha256 L kb"
        "48 + length rw + length dw" sg "length sg" "[]"] by (simp add: m(1) wire_simps)
  have r7: "read_at (m_message m) 0 (48 + length rw + length dw) =
      Done (encbe64 L rs @ rw @ encbe64 L ds @ dw @ sha256 L kb)"
    using ok read_at_append [of "[]" 0 "encbe64 L rs @ rw @ encbe64 L ds @ dw @ sha256 L kb"
        "48 + length rw + length dw" sg] by (simp add: m(1) wire_simps)
  have c: "\<not> 8 + rs + 8 > m_length m" "\<not> 8 + rs + 8 + ds > m_length m" "\<not> 8 + rs + 8 + ds + 32 > m_length m"
    "\<not> rs > 16384 div 8"
    using u len assms(2,4) by (simp_all add: word_less_nat_alt)
  have sub: "m_length m - (8 + rs + 8 + ds + 32) = of_nat (length sg)"
    unfolding assoc by simp
  have "client_check L env m rs ds kb ((expand_keyset kb 0 keys)\<lparr>k_nonce := 1\<rparr>) =
      Done (0, 0, (expand_keyset kb 0 keys)\<lparr>k_nonce := 1\<rparr>, Some pk)"
    unfolding client_check_def Let_def sub using c u assms(2,3,14-16) ok
    by (simp only: usg r4 r5 r6 r7) (simp add: wire_simps)
  moreover have "client_keybuf L env b dw = Inr kb"
    unfolding client_keybuf_Inr using assms(10-13) by auto
  ultimately show ?thesis
    unfolding client_finish_def r1 using c u assms(2,3,9) ok
    by (simp add: wire_simps Let_def r2 r3)
qed

lemma handshake_agrees:
  assumes "lib_ok L" and "server_handshake L sv key ks = (0, [im, sm], ks')"
    and "cv_init cv = Some im" and "cv_server cv = Some sm" and "sv_client sv = Some cm"
    and "cv_ctx cv" and "cv_exp cv = Some b" and "client_hello L cv b = Some cm"
    and "Option.bind (sv_exp sv) (dh_gen_pub L) = Some A" and "dh_range_check L A = 1"
    and "dh_compute_secret L b A = Some s" and "dh_valwire_bufsize L A \<le> (cv_bits cv + 7) div 8 + 8"
    and "cv_bits cv \<le> 2 ^ 16" and "rsa_pubkey_bufsize L (sk_bits key) \<le> 2048" and "\<forall>k n. cv_secret cv k n"
    and "cv_free cv = 0"
  shows "\<exists>kc' pk. client_handshake L cv kc = Done (0, 0, [cm], kc', Some pk) \<and> rsa_pub_key L key = Some pk \<and>
    key_linked kc' ks' \<and> key_linked ks' kc' \<and> k_nonce kc' = 1 \<and> k_nonce ks' = 2"
proof -
  note ok = lib_ok_parts [OF assms(1)]
  from server_handshake_success [OF assms(2)] assms(5) obtain pk a A' B s' kb where
    sv: "init_message (sv_init sv) = Some im" "rsa_pub_key L key = Some pk" "dh_gen_pub L a = Some A'" "sv_exp sv = Some a"
    "dh_wire2val L (m_message cm) = Some B" "dh_compute_secret L a B = Some s'"
    "session_keybuf L (sv_secret sv) s' = Some kb" "ks' = (expand_keyset kb 1 ks)\<lparr>k_nonce := 2\<rparr>"
    "server_reply L (sv_reply sv) key pk A' kb = Some sm"
    by (metis list.inject option.inject)
  have A: "A' = A" using assms(9) sv(3,4) by simp
  note sv = sv [unfolded A]
  from server_reply_Some [OF assms(1) sv(2,9)] obtain rw dw sg where
    rep: "rsa_pubkey2wire L pk = Some rw" "unat (rsa_pubkey_bufsize L (pk_bits pk)) = length rw"
    "rsa_wire2pubkey L rw = Some pk" "dh_wire2val L dw = Some A"
    "unat (dh_valwire_bufsize L A) = length dw" "unat ((pk_bits pk + 7) div 8) = length sg"
    "m_message sm = encbe64 L (rsa_pubkey_bufsize L (pk_bits pk)) @ rw @
       encbe64 L (dh_valwire_bufsize L A) @ dw @ sha256 L kb @ sg"
    "rsa_pss_verify L pk sg (encbe64 L (rsa_pubkey_bufsize L (pk_bits pk)) @ rw @
       encbe64 L (dh_valwire_bufsize L A) @ dw @ sha256 L kb) = Some True"
    "m_length sm = 8 + rsa_pubkey_bufsize L (pk_bits pk) + (8 + dh_valwire_bufsize L A) + 32 + (pk_bits pk + 7) div 8"
    by blast
  have B: "dh_gen_pub L b = Some B"
    using assms(8) sv(5) dh_wireD [OF ok(6)]
    by (auto simp: client_hello_def bind_eq_Some_conv split: if_splits)
  from dh_agree [OF ok(6) sv(3) B sv(6) assms(11)] have s: "s' = s" .
  have kb: "session_keybuf L (cv_secret cv) s = Some kb"
    using sv(7) assms(15) by (simp add: s session_keybuf_def split: if_splits)
  have im: "m_message im = hs_init"
    using sv(1) by (auto simp: init_message_def split: if_splits)
  have rw: "length rw \<le> 2048"
    using assms(14) rep(2) rsa_bitsD [OF ok(7) sv(2)] by (simp add: word_le_nat_alt)
  have "unat ((cv_bits cv + 7) div 8 + 8) \<le> 65536"
    using assms(13) by (simp add: word_le_nat_alt unat_div unat_plus_small)
  then have dw: "length dw \<le> 65536" using rep(5) assms(12) by (simp add: word_le_nat_alt)
  have "length sg = unat (pk_bits pk + 7) div 8" using rep(6) by (simp add: unat_div)
  then have sg: "length sg < 2 ^ 62" using unat64_less [of "pk_bits pk + 7"] by simp
  have len: "m_length sm = 8 + rsa_pubkey_bufsize L (pk_bits pk) + (8 + dh_valwire_bufsize L A) + 32 + of_nat (length sg)"
    using rep(9) by (simp add: rep(6) [symmetric])
  note fin = client_finish_honest [OF assms(1) rep(2,5) rw dw rep(7) len sg assms(12) rep(4) assms(10,11) kb rep(3,8) assms(16)]
  have "read_at hs_init 0 9 = Done hs_init" by (simp add: read_at_def hs_init_def)
  then have "client_handshake L cv kc = Done (0, 0, [cm], (expand_keyset kb 0 kc)\<lparr>k_nonce := 1\<rparr>, Some pk)"
    using assms(3,4,6-8) im by (simp add: client_handshake_def fin)
  with sv(2,8) show ?thesis by (simp add: expand_keyset_linked)
qed

text \<open>The server's half: with its library and its memory working it answers the client's value.\<close>

lemma server_reply_ok:
  assumes "rsa_pubkey2wire L pk \<noteq> None" "\<forall>m. rsa_pss_sign L key m \<noteq> None" "dh_val2wire L A \<noteq> None"
    "\<forall>k n. mem k n"
  shows "server_reply L mem key pk A kb \<noteq> None"
  using assms by (simp add: server_reply_def Let_def alloc_message_def bind_eq_None_conv)

lemma server_handshake_ok:
  assumes "lib_ok L" "rsa_pub_key L key = Some pk" "rsa_pubkey2wire L pk \<noteq> None"
    "\<forall>m. rsa_pss_sign L key m \<noteq> None" "sv_ctx sv" "sv_exp sv = Some a" "dh_gen_pub L a = Some A"
    "dh_val2wire L A \<noteq> None" "sv_client sv = Some cm" "dh_wire2val L (m_message cm) = Some B"
    "dh_range_check L B = 1" "dh_compute_secret L a B = Some s" "dh_val2wire L s \<noteq> None"
    "\<forall>k n. sv_init sv k n \<and> sv_secret sv k n \<and> sv_reply sv k n" "sv_free sv = 0"
  shows "\<exists>im sm ks'. server_handshake L sv key ks = (0, [im, sm], ks')"
proof -
  obtain kb where kb: "session_keybuf L (sv_secret sv) s = Some kb"
    using assms(13,14) by (auto simp: session_keybuf_def)
  obtain sm where sm: "server_reply L (sv_reply sv) key pk A kb = Some sm"
    using server_reply_ok [of L pk key A "sv_reply sv" kb] assms(3,4,8,14) by auto
  show ?thesis
    using assms(2,5-7,9-12,14,15)
    by (simp add: server_handshake_def server_answer_def init_message_def alloc_message_def kb sm)
qed

lemma client_hello_ok:
  assumes "lib_ok L" "dh_gen_pub L b = Some B" "dh_val2wire L B \<noteq> None" "\<forall>k n. cv_mem cv k n"
  shows "\<exists>cm. client_hello L cv b = Some cm \<and> dh_wire2val L (m_message cm) = Some B"
  using assms dh_wireD [of L B] lib_ok_parts [OF assms(1)]
  by (auto simp: client_hello_def alloc_message_def)

lemma client_hello_cong [simp]:
  "client_hello L (cv\<lparr>cv_init := i\<rparr>) b = client_hello L cv b"
  "client_hello L (cv\<lparr>cv_server := r\<rparr>) b = client_hello L cv b"
  by (simp_all add: client_hello_def)

text \<open>
  C1: The handshake agrees: when an honest server and an honest client run it with each other, each
  answering what the other sent, and no allocation or library call fails (the hypotheses are only
  about the libraries, the memory and the values drawn), both return 0, the client ends with the
  server's public key, each side sends under exactly the keys with which the other receives, and
  the nonces start above the numbers the handshake itself used.
\<close>
theorem handshake_agreement:
  assumes "lib_ok L" and "rsa_pub_key L key = Some pk" and "rsa_pubkey2wire L pk \<noteq> None"
    and "\<forall>m. rsa_pss_sign L key m \<noteq> None" and "rsa_pubkey_bufsize L (sk_bits key) \<le> 2048"
    and "sv_ctx sv" and "sv_exp sv = Some a" and "dh_gen_pub L a = Some A" and "dh_val2wire L A \<noteq> None"
    and "dh_range_check L A = 1" and "dh_valwire_bufsize L A \<le> (cv_bits cv + 7) div 8 + 8"
    and "cv_ctx cv" and "cv_exp cv = Some b" and "dh_gen_pub L b = Some B" and "dh_val2wire L B \<noteq> None"
    and "dh_range_check L B = 1" and "cv_bits cv \<le> 2 ^ 16"
    and "dh_compute_secret L a B = Some s" and "dh_compute_secret L b A \<noteq> None" and "dh_val2wire L s \<noteq> None"
    and "\<forall>k n. sv_init sv k n \<and> sv_secret sv k n \<and> sv_reply sv k n \<and> cv_mem cv k n \<and> cv_secret cv k n"
    and "sv_free sv = 0" and "cv_free cv = 0"
  shows "\<exists>im cm sm ks' kc'. client_hello L cv b = Some cm \<and>
    server_handshake L (sv\<lparr>sv_client := Some cm\<rparr>) key ks = (0, [im, sm], ks') \<and>
    client_handshake L (cv\<lparr>cv_init := Some im, cv_server := Some sm\<rparr>) kc = Done (0, 0, [cm], kc', Some pk) \<and>
    key_linked kc' ks' \<and> key_linked ks' kc' \<and> k_nonce kc' = 1 \<and> k_nonce ks' = 2"
proof -
  obtain cm where cm: "client_hello L cv b = Some cm" "dh_wire2val L (m_message cm) = Some B"
    using client_hello_ok assms(1,14,15,21) by blast
  have "\<exists>im sm ks'. server_handshake L (sv\<lparr>sv_client := Some cm\<rparr>) key ks = (0, [im, sm], ks')"
    by (rule server_handshake_ok [OF assms(1-4) _ _ assms(8,9) _ cm(2) assms(16,18,20)])
      (use assms(6,7,21,22) in simp_all)
  then obtain im sm ks' where
    sv: "server_handshake L (sv\<lparr>sv_client := Some cm\<rparr>) key ks = (0, [im, sm], ks')" by blast
  from assms(19) obtain s' where s': "dh_compute_secret L b A = Some s'" by blast
  have "\<exists>kc' pk. client_handshake L (cv\<lparr>cv_init := Some im, cv_server := Some sm\<rparr>) kc = Done (0, 0, [cm], kc', Some pk) \<and>
      rsa_pub_key L key = Some pk \<and> key_linked kc' ks' \<and> key_linked ks' kc' \<and> k_nonce kc' = 1 \<and> k_nonce ks' = 2"
    by (rule handshake_agrees [OF assms(1) sv, where b = b and A = A and s = s'])
      (use assms(5,7,8,10-13,17,21,23) cm s' in simp_all)
  then show ?thesis using assms(2) cm sv by (metis option.inject)
qed

definition demo_key :: rsa_key where
  "demo_key = \<lparr>sk_bits = 16, sk_e = 3, sk_n = 77, sk_d = 5\<rparr>"

definition demo_server :: "message option \<Rightarrow> server_env" where
  "demo_server cm = \<lparr>sv_init = (\<lambda>_ _. True), sv_ctx = True, sv_exp = Some 2, sv_client = cm,
     sv_secret = (\<lambda>_ _. True), sv_reply = (\<lambda>_ _. True), sv_free = 0\<rparr>"

definition demo_client :: "message option \<Rightarrow> message option \<Rightarrow> client_env" where
  "demo_client im sm = \<lparr>cv_init = im, cv_ctx = True, cv_bits = 2048, cv_exp = Some 3, cv_mem = (\<lambda>_ _. True),
     cv_server = sm, cv_secret = (\<lambda>_ _. True), cv_free = 0\<rparr>"

definition demo_hello :: message where
  "demo_hello = \<lparr>m_length = 8, m_seq_num = 0, m_message = be_enc 8 21\<rparr>"

lemma demo_client_hello: "client_hello demo_lib (demo_client im sm) 3 = Some demo_hello"
  by (simp add: client_hello_def demo_lib_def demo_client_def demo_hello_def alloc_message_def)

lemma demo_server_handshake:
  "\<exists>im sm ks'. server_handshake demo_lib (demo_server (Some demo_hello)) demo_key demo_peer = (0, [im, sm], ks') \<and>
     message_ok sm"
  by (simp add: server_handshake_def server_answer_def init_message_def alloc_message_def demo_server_def
      demo_lib_def demo_key_def demo_hello_def session_keybuf_def server_reply_def Let_def message_ok_def)

lemma demo_client_handshake:
  "\<exists>sm kc' pk. cv_server (demo_client im sm) = sm \<and> client_handshake demo_lib (demo_client im sm) demo_keys =
     Done (0, 0, [demo_hello], kc', Some pk) \<and> (\<forall>m. sm = Some m \<longrightarrow> message_ok m)" if "im = init_message (\<lambda>_ _. True)"
proof -
  obtain im' m ks' where s:
    "server_handshake demo_lib (demo_server (Some demo_hello)) demo_key demo_peer = (0, [im', m], ks')" "message_ok m"
    using demo_server_handshake by blast
  have im': "im = Some im'"
    by (rule server_handshake_success [OF s(1)]) (use that in \<open>simp_all add: demo_server_def\<close>)
  have "\<exists>kc' pk. client_handshake demo_lib (demo_client im (Some m)) demo_keys =
      Done (0, 0, [demo_hello], kc', Some pk) \<and> rsa_pub_key demo_lib demo_key = Some pk \<and>
      key_linked kc' ks' \<and> key_linked ks' kc' \<and> k_nonce kc' = 1 \<and> k_nonce ks' = 2"
    by (rule handshake_agrees [OF demo_lib_ok s(1), where b = 3 and A = 14 and s = 42])
      (simp_all add: demo_client_hello im', simp_all add: demo_client_def demo_server_def demo_lib_def)
  with s(2) show ?thesis by (intro exI [of _ "Some m"]) (auto simp: demo_client_def)
qed

theorem handshake_agreement_witness:
  "\<exists>im cm sm ks' kc' pk. client_hello demo_lib (demo_client None None) 3 = Some cm \<and>
     server_handshake demo_lib (demo_server (Some cm)) demo_key demo_peer = (0, [im, sm], ks') \<and>
     client_handshake demo_lib (demo_client (Some im) (Some sm)) demo_keys = Done (0, 0, [cm], kc', Some pk) \<and>
     key_linked kc' ks'"
proof -
  have r: "(demo_client None None)\<lparr>cv_init := i, cv_server := r\<rparr> = demo_client i r"
    "(demo_server None)\<lparr>sv_client := c\<rparr> = demo_server c" for i r c
    by (simp_all add: demo_client_def demo_server_def)
  have "\<exists>im cm sm ks' kc'. client_hello demo_lib (demo_client None None) 3 = Some cm \<and>
    server_handshake demo_lib ((demo_server None)\<lparr>sv_client := Some cm\<rparr>) demo_key demo_peer = (0, [im, sm], ks') \<and>
    client_handshake demo_lib ((demo_client None None)\<lparr>cv_init := Some im, cv_server := Some sm\<rparr>) demo_keys =
      Done (0, 0, [cm], kc', Some \<lparr>pk_bits = 16, pk_e = 3, pk_n = 77\<rparr>) \<and>
    key_linked kc' ks' \<and> key_linked ks' kc' \<and> k_nonce kc' = 1 \<and> k_nonce ks' = 2"
    by (rule handshake_agreement [OF demo_lib_ok, where a = 2 and A = 14 and B = 21 and s = 42])
      (simp_all add: demo_lib_def demo_key_def demo_server_def demo_client_def)
  then show ?thesis unfolding r by blast
qed

text \<open>
  C6: A client that accepts a server has checked it: whenever \<open>client_handshake\<close> returns 0, the keys
  it ends with are the expansion of a buffer derived from its own exponent and the received value,
  the message carries the hash of exactly that buffer, and the RSA key that came with the message
  verifies the signature over everything in the message before the signature.
\<close>
theorem client_accepts_signed:
  assumes "lib_ok L" and "client_handshake L env keys = Done (0, res, ms, keys', pko)"
    and "\<forall>m. cv_server env = Some m \<longrightarrow> message_ok m"
  shows "res = 0 \<and> (\<exists>sm b A s kb pk rs so.
    cv_server env = Some sm \<and> cv_exp env = Some b \<and> dh_range_check L A \<notin> {-1, 0} \<and>
    dh_compute_secret L b A = Some s \<and> session_keybuf L (cv_secret env) s = Some kb \<and>
    keys' = (expand_keyset kb 0 keys)\<lparr>k_nonce := 1\<rparr> \<and> pko = Some pk \<and>
    rsa_wire2pubkey L (slice 8 rs (m_message sm)) = Some pk \<and>
    slice so 32 (m_message sm) = sha256 L kb \<and>
    rsa_pss_verify L pk (slice (so + 32) (unat (m_length sm - of_nat (so + 32))) (m_message sm))
      (take (so + 32) (m_message sm)) = Some True)"
proof -
  note ok = lib_ok_parts [OF assms(1)]
  from assms(2) obtain b sm where 1: "cv_exp env = Some b" "cv_server env = Some sm"
    "client_finish L env b sm keys = Done (0, res, keys', pko)"
    by (auto simp: client_handshake_def exec_bind_Done_iff INVALID_INIT_def split: option.splits if_splits)
  from 1(3) obtain rs ds dw kb where kb: "client_keybuf L env b dw = Inr kb"
    "client_check L env sm rs ds kb ((expand_keyset kb 0 keys)\<lparr>k_nonce := 1\<rparr>) = Done (0, res, keys', pko)"
    by (auto simp: client_finish_def exec_bind_Done_iff Let_def case_sum_eq dest: client_keybuf_Inl
        split: if_split_asm)
  then obtain A s where 2: "dh_range_check L A \<notin> {-1, 0}" "dh_compute_secret L b A = Some s"
    "session_keybuf L (cv_secret env) s = Some kb"
    "client_check L env sm rs ds kb ((expand_keyset kb 0 keys)\<lparr>k_nonce := 1\<rparr>) = Done (0, res, keys', pko)"
    unfolding client_keybuf_Inr by blast
  let ?h = "8 + rs + 8 + ds" and ?M = "m_message sm"
  from 2(4) obtain h rw sg sd pk where 3: "read_at ?M (unat ?h) 32 = Done h" "memcmp_ct L (sha256 L kb) h = 0"
    "read_at ?M 8 (unat rs) = Done rw" "rsa_wire2pubkey L rw = Some pk"
    "read_at ?M (unat (?h + 32)) (unat (m_length sm - (?h + 32))) = Done sg"
    "read_at ?M 0 (unat (?h + 32)) = Done sd" "rsa_pss_verify L pk sg sd = Some True"
    "res = 0" "keys' = (expand_keyset kb 0 keys)\<lparr>k_nonce := 1\<rparr>" "pko = Some pk"
    by (auto simp: client_check_def exec_bind_Done_iff Let_def hs_codes split: option.splits if_splits)
  have "unat (m_length sm) = length ?M" using assms(3) 1(2) message_ok_length by blast
  moreover have b: "unat ?h + 32 \<le> length ?M" and h: "h = slice (unat ?h) 32 ?M"
    using 3(1) by (simp_all add: read_at_def split: if_splits)
  ultimately have u: "unat (?h + 32) = unat ?h + 32"
    using unat_plus_small [of ?h 32] unat64_less [of "m_length sm"] by simp
  have w: "of_nat (unat ?h + 32) = ?h + 32" by simp
  have hh: "slice (unat ?h) 32 ?M = sha256 L kb"
    using 3(2) b ok by (subst (asm) memcmp_ct_iff) (simp_all add: wire_simps h)
  have sg: "sg = slice (unat ?h + 32) (unat (m_length sm - (?h + 32))) ?M" and sd: "sd = take (unat ?h + 32) ?M"
    and rw: "rw = slice 8 (unat rs) ?M"
    using 3(3) 3(5,6) [unfolded u] unfolding read_at_Done by (simp_all add: slice_def)
  have v: "rsa_pss_verify L pk (slice (unat ?h + 32) (unat (m_length sm - of_nat (unat ?h + 32))) ?M)
      (take (unat ?h + 32) ?M) = Some True"
    using 3(7) unfolding w sg sd .
  have "res = 0 \<and> (cv_server env = Some sm \<and> cv_exp env = Some b \<and> dh_range_check L A \<notin> {-1, 0} \<and>
    dh_compute_secret L b A = Some s \<and> session_keybuf L (cv_secret env) s = Some kb \<and>
    keys' = (expand_keyset kb 0 keys)\<lparr>k_nonce := 1\<rparr> \<and> pko = Some pk \<and>
    rsa_wire2pubkey L (slice 8 (unat rs) ?M) = Some pk \<and> slice (unat ?h) 32 ?M = sha256 L kb \<and>
    rsa_pss_verify L pk (slice (unat ?h + 32) (unat (m_length sm - of_nat (unat ?h + 32))) ?M)
      (take (unat ?h + 32) ?M) = Some True)"
    using 1(1,2) 2(1-3) 3(4,8-10) hh v by (simp add: rw)
  then show ?thesis by blast
qed

theorem client_accepts_signed_witness:
  "\<exists>(sm :: message) so pk. rsa_pss_verify demo_lib pk (slice (so + 32) (unat (m_length sm - of_nat (so + 32))) (m_message sm))
     (take (so + 32) (m_message sm)) = Some True"
proof -
  obtain sm kc' pk where s: "cv_server (demo_client (init_message (\<lambda>_ _. True)) sm) = sm"
    "client_handshake demo_lib (demo_client (init_message (\<lambda>_ _. True)) sm) demo_keys = Done (0, 0, [demo_hello], kc', Some pk)"
    "\<forall>m. sm = Some m \<longrightarrow> message_ok m"
    using demo_client_handshake by blast
  from client_accepts_signed [OF demo_lib_ok s(2)] s(1,3) show ?thesis by auto
qed

text \<open>
  The client's length checks can be bypassed: a server message that announces a public key of
  2^64 - 16 bytes passes the check \<open>8 + rsa_sk_size + 8 > length\<close>, because the sum wraps to 0, and
  the next length is then read outside the message.
\<close>
theorem client_handshake_overread:
  assumes "lib_ok L" and "cv_init env = Some im" and "take 9 (m_message im) = hs_init"
    and "cv_ctx env" and "cv_exp env = Some b" and "client_hello L env b = Some cm"
    and "cv_server env = Some sm" and "message_ok sm" and "8 \<le> length (m_message sm)"
    and "take 8 (m_message sm) = encbe64 L (-16)"
  shows "client_handshake L env keys = UB"
proof -
  note ok = lib_ok_parts [OF assms(1)]
  have im: "read_at (m_message im) 0 9 = Done hs_init"
  proof -
    have "length (take 9 (m_message im)) = 9" unfolding assms(3) by (simp add: hs_init_def)
    then have "9 \<le> length (m_message im)" by simp
    with assms(3) show ?thesis by (simp add: read_at_def slice_def)
  qed
  have r1: "read_at (m_message sm) 0 8 = Done (encbe64 L (-16))"
    using assms(9,10) by (simp add: read_at_def slice_def)
  have "length (m_message sm) < 2 ^ 64" using assms(8) by (simp add: message_ok_def)
  then have r2: "read_at (m_message sm) (unat (8 + -16 :: u64)) 8 = UB"
    by (simp add: read_at_def)
  have c: "\<not> m_length sm < 8 + (-16 :: u64) + 8" by simp
  have "client_finish L env b sm keys = UB"
    unfolding client_finish_def r1 using ok c by (simp only: exec_bind.simps wire_simps Let_def r2 if_False)
  then show ?thesis
    using assms(2,4-7) by (simp add: client_handshake_def im)
qed

theorem client_handshake_overread_witness:
  "client_handshake demo_lib (demo_client (init_message (\<lambda>_ _. True))
     (Some \<lparr>m_length = 10, m_seq_num = 0, m_message = encbe64 demo_lib (-16) @ [0, 0]\<rparr>)) demo_keys = UB"
  by (rule client_handshake_overread [OF demo_lib_ok, where b = 3 and cm = demo_hello and
      im = "\<lparr>m_length = 9, m_seq_num = 0, m_message = hs_init\<rparr>" and
      sm = "\<lparr>m_length = 10, m_seq_num = 0, m_message = encbe64 demo_lib (-16) @ [0, 0]\<rparr>"])
    (simp_all add: demo_client_hello, simp_all add: demo_client_def init_message_def alloc_message_def hs_init_def
      message_ok_def demo_lib_def)

text \<open>The two messages of the server have the same sequence number.\<close>

lemma server_handshake_seq:
  "server_handshake L env key keys = (0, ms, keys') \<Longrightarrow> map m_seq_num ms = [0, 0]"
  by (erule server_handshake_success)
    (auto simp: init_message_def server_reply_def Let_def bind_eq_Some_conv split: if_splits)

end
