(* ===== verification/Keyfile.thy ===== *)
theory Keyfile
  imports Libs
begin

text \<open>
  \<open>crypto/keyfile.c\<close>: RSA keys in files, the private ones in the clear or encrypted under a
  password. A writer yields its result and the content of the file if one was created; a reader
  takes the content (\<open>None\<close>: the file cannot be opened). \<open>fclose(NULL)\<close> is undefined.
\<close>

section \<open>The code\<close>

definition MEM_FAIL :: int where "MEM_FAIL = -1"
definition CRYPTOGRAPHY_FAIL :: int where "CRYPTOGRAPHY_FAIL = 1"
definition OPEN_FAIL :: int where "OPEN_FAIL = 2"
definition WRITE_FAIL :: int where "WRITE_FAIL = 3"
definition READ_FAIL :: int where "READ_FAIL = 4"
definition INVALID_FILE :: int where "INVALID_FILE = 5"
definition INVALID_MAC :: int where "INVALID_MAC = 6"
definition NO_PASSWORD :: int where "NO_PASSWORD = 7"

lemmas kf_codes = MEM_FAIL_def CRYPTOGRAPHY_FAIL_def OPEN_FAIL_def WRITE_FAIL_def READ_FAIL_def
  INVALID_FILE_def INVALID_MAC_def NO_PASSWORD_def

text \<open>\<open>ibrsakey\<close>, without its terminating zero.\<close>

definition kf_magic :: bytes where
  "kf_magic = [105, 98, 114, 115, 97, 107, 101, 121]"

lemma length_kf_magic [simp]: "length kf_magic = 8"
  by (simp add: kf_magic_def)

declare send_fields.simps [simp del]

definition write_result :: "bool \<times> bytes \<Rightarrow> int \<times> bytes" where
  "write_result r = (case r of (ok, w) \<Rightarrow> (if ok then 0 else WRITE_FAIL, w))"

text \<open>What a writer meets: the allocation, \<open>fopen\<close>, the \<open>fwrite\<close> calls in order and the salt drawn.\<close>

record kf_env =
  kf_mem :: bool
  kf_open :: bool
  kf_tx :: "nat \<Rightarrow> nat option"
  kf_salt :: "bytes option"

definition write_pri_key_password :: "ibc \<Rightarrow> kf_env \<Rightarrow> bytes \<Rightarrow> bytes \<Rightarrow> int \<times> bytes" where
  "write_pri_key_password L env key password = (case kf_salt env of
     None \<Rightarrow> (CRYPTOGRAPHY_FAIL, [])
   | Some salt \<Rightarrow> (case scrypt L password salt 64 of
       None \<Rightarrow> (CRYPTOGRAPHY_FAIL, [])
     | Some keybuf \<Rightarrow>
         let ct = chacha_enc L (take 32 keybuf) 0 key; mac = hmac_sha256 L (drop 32 keybuf) ct
         in write_result (send_fields (\<lambda>j. kf_tx env (j + 3)) [encbe64 L (of_nat (length key)), salt, ct, mac])))"

definition write_pri_key :: "ibc \<Rightarrow> kf_env \<Rightarrow> rsa_key \<Rightarrow> bytes option \<Rightarrow> (int \<times> bytes option) exec" where
  "write_pri_key L env key password =
     (if \<not> kf_mem env then Done (MEM_FAIL, None)
      else case rsa_prikey2wire L key of None \<Rightarrow> UB
      | Some buf \<Rightarrow>
          if \<not> kf_open env then UB
          else case send_fields (kf_tx env)
                 [kf_magic, encbe64 L 2, encbe64 L (if password \<noteq> None then 2 else 1)] of
            (False, w) \<Rightarrow> Done (WRITE_FAIL, Some w)
          | (True, w) \<Rightarrow>
              (case (case password of
                   Some pw \<Rightarrow> write_pri_key_password L env buf pw
                 | None \<Rightarrow> write_result (send_fields (\<lambda>j. kf_tx env (j + 3)) [buf])) of
                 (r, w') \<Rightarrow> Done (r, Some (w @ w'))))"

definition write_pub_key :: "ibc \<Rightarrow> kf_env \<Rightarrow> rsa_public_key \<Rightarrow> (int \<times> bytes option) exec" where
  "write_pub_key L env key =
     (if \<not> kf_mem env then Done (MEM_FAIL, None)
      else case rsa_pubkey2wire L key of None \<Rightarrow> UB
      | Some buf \<Rightarrow>
          if \<not> kf_open env then UB
          else (case write_result (send_fields (kf_tx env) [kf_magic, encbe64 L 1, buf]) of
            (r, w) \<Rightarrow> Done (r, Some w)))"

text \<open>
  The wire form of a key begins with its size in bits, so the first eight bytes read tell how much
  to read. Eight bytes are copied into the new buffer, whatever its size.
\<close>

definition read_sized :: "(u64 \<Rightarrow> bool) \<Rightarrow> (u64 \<Rightarrow> u64) \<Rightarrow> ibc \<Rightarrow> bytes \<Rightarrow> (int + bytes) exec" where
  "read_sized mem bufsize L inp = (case rd 8 inp of
     None \<Rightarrow> Done (Inl READ_FAIL)
   | Some (size_buf, i1) \<Rightarrow>
       let size = bufsize (decbe64 L size_buf) in
       if \<not> mem size then Done (Inl MEM_FAIL)
       else if size < 8 then UB
       else (case rd (unat (size - 8)) i1 of
         None \<Rightarrow> Done (Inl READ_FAIL)
       | Some (rest, i2) \<Rightarrow> Done (Inr (size_buf @ rest))))"

definition read_pri_key_nopassword :: "ibc \<Rightarrow> (u64 \<Rightarrow> bool) \<Rightarrow> bytes \<Rightarrow> (int + bytes) exec" where
  "read_pri_key_nopassword L mem inp = read_sized mem (rsa_prikey_bufsize L) L inp"

definition read_pri_key_password :: "ibc \<Rightarrow> (u64 \<Rightarrow> bool) \<Rightarrow> bytes \<Rightarrow> bytes option \<Rightarrow> int + bytes" where
  "read_pri_key_password L mem inp password = (case password of
     None \<Rightarrow> Inl NO_PASSWORD
   | Some pw \<Rightarrow> (case rd 8 inp of
       None \<Rightarrow> Inl READ_FAIL
     | Some (sizebuf, i1) \<Rightarrow> (case rd 32 i1 of
         None \<Rightarrow> Inl READ_FAIL
       | Some (salt, i2) \<Rightarrow>
           if \<not> mem (decbe64 L sizebuf) then Inl MEM_FAIL
           else (case scrypt L pw salt 64 of
             None \<Rightarrow> Inl CRYPTOGRAPHY_FAIL
           | Some keybuf \<Rightarrow> (case rd (unat (decbe64 L sizebuf)) i2 of
               None \<Rightarrow> Inl READ_FAIL
             | Some (ct, i3) \<Rightarrow> (case rd 32 i3 of
                 None \<Rightarrow> Inl READ_FAIL
               | Some (mac, i4) \<Rightarrow>
                   if memcmp_ct L mac (hmac_sha256 L (drop 32 keybuf) ct) \<noteq> 0 then Inl INVALID_MAC
                   else Inr (chacha_dec L (take 32 keybuf) 0 ct)))))))"

text \<open>The part the readers share: the magic number and the kind of the file.\<close>

definition read_header :: "ibc \<Rightarrow> u64 \<Rightarrow> bytes \<Rightarrow> int + bytes" where
  "read_header L kind inp = (case rd 8 inp of
     None \<Rightarrow> Inl READ_FAIL
   | Some (magic_buf, i1) \<Rightarrow>
       if magic_buf \<noteq> kf_magic then Inl INVALID_FILE
       else (case rd 8 i1 of
         None \<Rightarrow> Inl READ_FAIL
       | Some (num_buf, i2) \<Rightarrow> if decbe64 L num_buf \<noteq> kind then Inl INVALID_FILE else Inr i2))"

definition parse_key :: "(bytes \<Rightarrow> 'k option) \<Rightarrow> (int + bytes) \<Rightarrow> int \<times> 'k option" where
  "parse_key wire r = (case r of
     Inl e \<Rightarrow> (e, None)
   | Inr buf \<Rightarrow> (case wire buf of None \<Rightarrow> (CRYPTOGRAPHY_FAIL, None) | Some k \<Rightarrow> (0, Some k)))"

definition read_pri_key :: "ibc \<Rightarrow> (u64 \<Rightarrow> bool) \<Rightarrow> bytes option \<Rightarrow> bytes option \<Rightarrow>
    (int \<times> rsa_key option) exec" where
  "read_pri_key L mem file password = (case file of
     None \<Rightarrow> Done (OPEN_FAIL, None)
   | Some inp \<Rightarrow> (case read_header L 2 inp of
       Inl e \<Rightarrow> Done (e, None)
     | Inr i2 \<Rightarrow> (case rd 8 i2 of
         None \<Rightarrow> Done (READ_FAIL, None)
       | Some (num_buf, i3) \<Rightarrow>
           let type = decbe64 L num_buf in
           if type = 1 then exec_bind (read_pri_key_nopassword L mem i3)
             (\<lambda>r. Done (parse_key (rsa_wire2prikey L) r))
           else if type = 2 then Done (parse_key (rsa_wire2prikey L) (read_pri_key_password L mem i3 password))
           else Done (INVALID_FILE, None))))"

definition read_pub_key :: "ibc \<Rightarrow> (u64 \<Rightarrow> bool) \<Rightarrow> bytes option \<Rightarrow> (int \<times> rsa_public_key option) exec" where
  "read_pub_key L mem file = (case file of
     None \<Rightarrow> Done (OPEN_FAIL, None)
   | Some inp \<Rightarrow> (case read_header L 1 inp of
       Inl e \<Rightarrow> Done (e, None)
     | Inr i2 \<Rightarrow> exec_bind (read_sized mem (rsa_pubkey_bufsize L) L i2)
         (\<lambda>r. Done (parse_key (rsa_wire2pubkey L) r))))"

section \<open>What a successful writer has written\<close>

lemma read_header_ok:
  "endian_ok L \<Longrightarrow> read_header L kind (kf_magic @ encbe64 L kind @ rest) = Inr rest"
  by (simp add: read_header_def wire_simps)

lemma write_result_ok: "write_result (send_fields tx bs) = (0, w) \<Longrightarrow> w = concat bs"
  by (auto simp: write_result_def kf_codes split: prod.splits if_splits dest: send_fields_True)

lemma write_pri_key_password_ok:
  assumes "write_pri_key_password L env key pw = (0, w)"
  obtains salt keybuf where "kf_salt env = Some salt" "scrypt L pw salt 64 = Some keybuf"
    "w = encbe64 L (of_nat (length key)) @ salt @ chacha_enc L (take 32 keybuf) 0 key @
       hmac_sha256 L (drop 32 keybuf) (chacha_enc L (take 32 keybuf) 0 key)"
  using assms
  by (auto simp: write_pri_key_password_def Let_def kf_codes split: option.splits dest!: write_result_ok)

lemma write_pri_key_ok:
  assumes "write_pri_key L env key pwo = Done (0, fo)"
  obtains buf w where "rsa_prikey2wire L key = Some buf"
    "fo = Some (kf_magic @ encbe64 L 2 @ encbe64 L (if pwo \<noteq> None then 2 else 1) @ w)"
    "(case pwo of Some pw \<Rightarrow> write_pri_key_password L env buf pw = (0, w) | None \<Rightarrow> w = buf)"
  using assms
  by (auto simp: write_pri_key_def kf_codes split: option.splits prod.splits bool.splits if_splits
      dest!: send_fields_True write_result_ok)

lemma read_sized_ok:
  assumes "endian_ok L" "take 8 w = encbe64 L bits" "8 \<le> length w" "length w = unat (bufsize bits)" "mem (bufsize bits)"
  shows "read_sized mem bufsize L w = Done (Inr w)"
proof -
  have w: "w = encbe64 L bits @ drop 8 w" using assms(2) by (metis append_take_drop_id)
  have n: "unat (bufsize bits - 8) = length (drop 8 w)"
    using assms(3,4) by (simp add: unat_sub word_le_nat_alt)
  have c: "\<not> bufsize bits < 8" using assms(3,4) by (simp add: word_less_nat_alt)
  have "rd 8 w = Some (encbe64 L bits, drop 8 w)"
    using assms(2,3) by (simp add: rd_def)
  moreover have "rd (length (drop 8 w)) (drop 8 w) = Some (drop 8 w, [])"
    by (simp add: rd_def)
  ultimately show ?thesis
    using assms(1,5) c n w by (simp add: read_sized_def wire_simps Let_def)
qed

lemma read_pri_key_password_ok:
  assumes "lib_ok L" "kf_salt env = Some salt" "length salt = 32" "length key < 2 ^ 64"
    "write_pri_key_password L env key pw = (0, w)" "mem (of_nat (length key))"
  shows "read_pri_key_password L mem w (Some pw) = Inr key"
proof -
  note ok = lib_ok_parts [OF assms(1)]
  have u: "unat (of_nat (length key) :: u64) = length key"
    using assms(4) by (rule unat_of_nat_small)
  from write_pri_key_password_ok [OF assms(5)] assms(2) obtain keybuf where
    "scrypt L pw salt 64 = Some keybuf"
    "w = encbe64 L (of_nat (length key)) @ salt @ chacha_enc L (take 32 keybuf) 0 key @
       hmac_sha256 L (drop 32 keybuf) (chacha_enc L (take 32 keybuf) 0 key)"
    by (metis option.inject)
  moreover have "rd 32 (hmac_sha256 L k m) = Some (hmac_sha256 L k m, [])" for k m
    using ok by (simp add: rd_def wire_simps)
  ultimately show ?thesis
    using assms(3,6) u ok by (simp add: read_pri_key_password_def wire_simps)
qed

lemma read_written_pri_key:
  assumes "lib_ok L" and "write_pri_key L env key pwo = Done (0, fo)"
    and "\<forall>salt. kf_salt env = Some salt \<longrightarrow> length salt = 32" and "\<forall>n. mem n"
  shows "read_pri_key L mem fo pwo = Done (0, Some key) \<and>
    (pwo \<noteq> None \<longrightarrow> read_pri_key L mem fo None = Done (NO_PASSWORD, None))"
proof -
  note ok = lib_ok_parts [OF assms(1)]
  from write_pri_key_ok [OF assms(2)] obtain buf w where w: "rsa_prikey2wire L key = Some buf"
    "fo = Some (kf_magic @ encbe64 L 2 @ encbe64 L (if pwo \<noteq> None then 2 else 1) @ w)"
    "(case pwo of Some pw \<Rightarrow> write_pri_key_password L env buf pw = (0, w) | None \<Rightarrow> w = buf)" by blast
  have buf: "rsa_wire2prikey L buf = Some key" "length buf = unat (rsa_prikey_bufsize L (sk_bits key))"
    "8 \<le> length buf" "take 8 buf = encbe64 L (sk_bits key)"
    using rsa_prikey_wireD [OF ok(7) w(1)] by auto
  have h: "read_header L 2 (kf_magic @ encbe64 L 2 @ rest) = Inr rest" for rest
    using read_header_ok ok(1) .
  show ?thesis
  proof (cases pwo)
    case None
    have "read_sized mem (rsa_prikey_bufsize L) L buf = Done (Inr buf)"
      using buf assms(4) ok(1) by (intro read_sized_ok) auto
    with None w buf ok h show ?thesis
      by (simp add: read_pri_key_def read_pri_key_nopassword_def parse_key_def wire_simps)
  next
    case (Some pw)
    with w(3) have p: "write_pri_key_password L env buf pw = (0, w)" by simp
    then obtain salt where s: "kf_salt env = Some salt" "length salt = 32"
      using assms(3) by (auto elim: write_pri_key_password_ok)
    have "length buf < 2 ^ 64" using buf(2) unat64_less by simp
    from read_pri_key_password_ok [OF assms(1) s this p] assms(4)
    have "read_pri_key_password L mem w (Some pw) = Inr buf" by simp
    with Some w buf ok h show ?thesis
      by (simp add: read_pri_key_def parse_key_def wire_simps) (simp add: read_pri_key_password_def)
  qed
qed

section \<open>Properties\<close>

text \<open>
  A private key survives its file: what \<open>write_pri_key\<close> writes successfully, with or without a
  password, \<open>read_pri_key\<close> reads back as the same key given the same password, and a protected file
  read without a password is refused with \<open>NO_PASSWORD\<close>.
\<close>
theorem prikey_file_roundtrip:
  assumes "lib_ok L" and "write_pri_key L env key pwo = Done (0, fo)"
    and "\<forall>salt. kf_salt env = Some salt \<longrightarrow> length salt = 32" and "\<forall>n. mem n"
  shows "read_pri_key L mem fo pwo = Done (0, Some key) \<and>
    (pwo \<noteq> None \<longrightarrow> read_pri_key L mem fo None = Done (NO_PASSWORD, None))"
  by (rule read_written_pri_key [OF assms])

definition demo_kf_env :: kf_env where
  "demo_kf_env = \<lparr>kf_mem = True, kf_open = True, kf_tx = (\<lambda>_. None), kf_salt = Some (replicate 32 9)\<rparr>"

definition demo_pri_key :: rsa_key where
  "demo_pri_key = \<lparr>sk_bits = 16, sk_e = 3, sk_n = 77, sk_d = 5\<rparr>"

lemma demo_write_pri_key:
  "\<exists>f. write_pri_key demo_lib demo_kf_env demo_pri_key (Some [1, 2]) = Done (0, Some f)"
  by (simp add: write_pri_key_def write_pri_key_password_def demo_kf_env_def demo_pri_key_def write_result_def
      demo_lib_def Let_def send_fields.simps)

theorem prikey_file_roundtrip_witness:
  "\<exists>f. write_pri_key demo_lib demo_kf_env demo_pri_key (Some [1, 2]) = Done (0, f) \<and>
     read_pri_key demo_lib (\<lambda>_. True) f (Some [1, 2]) = Done (0, Some demo_pri_key)"
proof -
  obtain f where "write_pri_key demo_lib demo_kf_env demo_pri_key (Some [1, 2]) = Done (0, Some f)"
    using demo_write_pri_key by blast
  with prikey_file_roundtrip [OF demo_lib_ok this] show ?thesis
    by (auto simp: demo_kf_env_def)
qed

text \<open>
  A public key survives its file: what \<open>write_pub_key\<close> writes successfully, \<open>read_pub_key\<close> reads
  back as the same key, and \<open>read_pri_key\<close> refuses it as \<open>INVALID_FILE\<close>.
\<close>
theorem pubkey_file_roundtrip:
  assumes "lib_ok L" and "write_pub_key L env key = Done (0, fo)" and "\<forall>n. mem n"
  shows "read_pub_key L mem fo = Done (0, Some key) \<and> read_pri_key L mem fo pwo = Done (INVALID_FILE, None)"
proof -
  note ok = lib_ok_parts [OF assms(1)]
  from assms(2) obtain buf where w: "rsa_pubkey2wire L key = Some buf"
    "fo = Some (kf_magic @ encbe64 L 1 @ buf)"
    by (auto simp: write_pub_key_def kf_codes split: option.splits prod.splits if_splits dest!: write_result_ok)
  have "read_sized mem (rsa_pubkey_bufsize L) L buf = Done (Inr buf)"
    using rsa_pubkey_wireD [OF ok(7) w(1)] assms(3) ok(1) by (intro read_sized_ok) auto
  moreover have "read_header L 1 (kf_magic @ encbe64 L 1 @ rest) = Inr rest" for rest
    using read_header_ok ok(1) .
  ultimately show ?thesis
    using w rsa_pubkey_wireD [OF ok(7) w(1)] ok
    by (simp add: read_pub_key_def parse_key_def read_pri_key_def read_header_def wire_simps)
qed

theorem pubkey_file_roundtrip_witness:
  "\<exists>f. write_pub_key demo_lib demo_kf_env \<lparr>pk_bits = 16, pk_e = 3, pk_n = 77\<rparr> = Done (0, f) \<and>
     read_pub_key demo_lib (\<lambda>_. True) f = Done (0, Some \<lparr>pk_bits = 16, pk_e = 3, pk_n = 77\<rparr>)"
proof -
  have "\<exists>f. write_pub_key demo_lib demo_kf_env \<lparr>pk_bits = 16, pk_e = 3, pk_n = 77\<rparr> = Done (0, f)"
    by (simp add: write_pub_key_def demo_kf_env_def write_result_def demo_lib_def send_fields.simps)
  then obtain f where "write_pub_key demo_lib demo_kf_env \<lparr>pk_bits = 16, pk_e = 3, pk_n = 77\<rparr> = Done (0, f)"
    by blast
  with pubkey_file_roundtrip [OF demo_lib_ok this] show ?thesis by auto
qed

text \<open>
  A protected file is authenticated before it is decrypted: if \<open>read_pri_key\<close> yields a key from a
  file of type 2, then the file holds a ciphertext followed by its MAC under the key derived from
  the given password and the salt in the file, and the key is the parse of its decryption.
\<close>
theorem prikey_file_authentic:
  assumes "lib_ok L" and "read_pri_key L mem (Some inp) pwo = Done (0, Some key)"
    and "decbe64 L (slice 16 8 inp) = 2"
  shows "\<exists>pw size salt keybuf ct mac rest. pwo = Some pw \<and>
    inp = take 24 inp @ size @ salt @ ct @ mac @ rest \<and> length size = 8 \<and> length salt = 32 \<and>
    length ct = unat (decbe64 L size) \<and> scrypt L pw salt 64 = Some keybuf \<and>
    mac = hmac_sha256 L (drop 32 keybuf) ct \<and>
    rsa_wire2prikey L (chacha_dec L (take 32 keybuf) 0 ct) = Some key"
proof -
  note ok = lib_ok_parts [OF assms(1)]
  from assms(2) obtain i2 num i3 where a: "read_header L 2 inp = Inr i2" "rd 8 i2 = Some (num, i3)"
    by (auto simp: read_pri_key_def split: sum.splits option.splits)
  then obtain mb nb where inp: "inp = mb @ nb @ num @ i3" "length mb = 8" "length nb = 8" "length num = 8"
    by (auto simp: read_header_def rd_Some split: option.splits if_splits)
  have num: "slice 16 8 inp = num"
    using inp by (simp add: slice_def)
  have p: "parse_key (rsa_wire2prikey L) (read_pri_key_password L mem i3 pwo) = (0, Some key)"
    using assms(2,3) a num by (simp add: read_pri_key_def)
  then obtain buf where buf: "read_pri_key_password L mem i3 pwo = Inr buf" "rsa_wire2prikey L buf = Some key"
    by (auto simp: parse_key_def split: sum.splits option.splits)
  then obtain pw size i4 salt i5 keybuf ct i6 mac rest where
    b: "pwo = Some pw" "rd 8 i3 = Some (size, i4)" "rd 32 i4 = Some (salt, i5)" "scrypt L pw salt 64 = Some keybuf"
    "rd (unat (decbe64 L size)) i5 = Some (ct, i6)" "rd 32 i6 = Some (mac, rest)"
    "memcmp_ct L mac (hmac_sha256 L (drop 32 keybuf) ct) = 0" "buf = chacha_dec L (take 32 keybuf) 0 ct"
    by (auto simp: read_pri_key_password_def split: option.splits if_splits)
  then have "mac = hmac_sha256 L (drop 32 keybuf) ct"
    using ok by (simp add: memcmp_ct_iff rd_Some wire_simps)
  moreover have "inp = take 24 inp @ size @ salt @ ct @ mac @ rest" "length size = 8" "length salt = 32"
    "length ct = unat (decbe64 L size)"
    using b(2,3,5,6) inp by (simp_all add: rd_Some)
  moreover have "rsa_wire2prikey L (chacha_dec L (take 32 keybuf) 0 ct) = Some key"
    using b(8) buf(2) by simp
  ultimately show ?thesis using b(1,4) by blast
qed

theorem prikey_file_authentic_witness:
  "\<exists>f. write_pri_key demo_lib demo_kf_env demo_pri_key (Some [1, 2]) = Done (0, Some f) \<and>
     (\<exists>ct keybuf rest. drop 64 f = ct @ hmac_sha256 demo_lib (drop 32 keybuf) ct @ rest)"
proof -
  obtain f where f: "write_pri_key demo_lib demo_kf_env demo_pri_key (Some [1, 2]) = Done (0, Some f)"
    using demo_write_pri_key by blast
  have r: "read_pri_key demo_lib (\<lambda>_. True) (Some f) (Some [1, 2]) = Done (0, Some demo_pri_key)"
    using read_written_pri_key [OF demo_lib_ok f] by (simp add: demo_kf_env_def)
  from write_pri_key_ok [OF f] obtain w where
    "f = (kf_magic @ encbe64 demo_lib 2) @ encbe64 demo_lib 2 @ w" by auto
  moreover from this have len: "24 \<le> length f" using demo_endian_ok by (simp add: wire_simps)
  ultimately have "slice 16 8 f = encbe64 demo_lib 2"
    using demo_endian_ok by (simp only:) (rule slice_at, simp_all add: wire_simps)
  then have k: "decbe64 demo_lib (slice 16 8 f) = 2" using demo_endian_ok by (simp add: wire_simps)
  from prikey_file_authentic [OF demo_lib_ok r k] obtain size salt keybuf ct mac rest where
    a: "f = take 24 f @ size @ salt @ ct @ mac @ rest" "length size = 8" "length salt = 32"
    "mac = hmac_sha256 demo_lib (drop 32 keybuf) ct" by blast
  have "drop 64 f = drop 64 (take 24 f @ size @ salt @ ct @ mac @ rest)"
    using arg_cong [OF a(1), of "drop 64"] .
  also have "\<dots> = ct @ mac @ rest"
    using a(2,3) len by simp
  finally show ?thesis using a(4) f by blast
qed

text \<open>
  If the file cannot be opened, both writers close a null stream.
\<close>

lemma writers_close_null:
  "kf_mem env \<Longrightarrow> \<not> kf_open env \<Longrightarrow> write_pri_key L env key pwo = UB \<and> write_pub_key L env pk = UB"
  by (auto simp: write_pri_key_def write_pub_key_def split: option.splits)

end
