(* ===== verification/HandlerTable.thy ===== *)
theory HandlerTable
  imports Libs "HOL-Library.Multiset"
begin

text \<open>
  The handler table of \<open>server/client_handler.c\<close>: a hash table with chaining that grows and shrinks,
  from user ids to the handlers of connected users. It refines a finite map; the laws of such a map
  are a locale, and sequences of operations are compared with a map once, inside it.
\<close>

section \<open>The code\<close>

record client_handler =
  ch_id :: bytes
  ch_fd :: int
  ch_stop :: int

record handler_table =
  ht_buckets :: "client_handler list list"
  ht_size :: u64
  ht_elements :: u64

definition MAX_SIZE :: u64 where "MAX_SIZE = push_bit 20 1"
definition MIN_SIZE :: u64 where "MIN_SIZE = 16"

text \<open>
  The load factors are 0.75 and 0.25. The products with a table size (a power of two between 16 and
  2^20) are exact in a double.
\<close>

definition top_load :: "u64 \<Rightarrow> u64" where "top_load sz = sz * 3 div 4"
definition bot_load :: "u64 \<Rightarrow> u64" where "bot_load sz = sz div 4"

definition hash_id :: "ibc \<Rightarrow> bytes \<Rightarrow> u64" where
  "hash_id L uid =
     (let shasum = sha256 L uid in
      xor (xor (xor (decbe64 L (slice 0 8 shasum)) (decbe64 L (slice 8 8 shasum)))
        (decbe64 L (slice 16 8 shasum))) (decbe64 L (slice 24 8 shasum)))"

definition bucket_index :: "ibc \<Rightarrow> u64 \<Rightarrow> bytes \<Rightarrow> nat" where
  "bucket_index L sz uid = unat (hash_id L uid mod sz)"

text \<open>Each handler is put in front of its new bucket, bucket after bucket.\<close>

fun rehash :: "ibc \<Rightarrow> u64 \<Rightarrow> client_handler list \<Rightarrow> client_handler list list \<Rightarrow> client_handler list list" where
  "rehash L nsize [] nb = nb"
| "rehash L nsize (cur # rest) nb =
     (let i = bucket_index L nsize (ch_id cur) in rehash L nsize rest (nb[i := cur # nb ! i]))"

definition resize_handler_table :: "ibc \<Rightarrow> heap_oracle \<Rightarrow> u64 \<Rightarrow> handler_table \<Rightarrow> int \<times> handler_table" where
  "resize_handler_table L mem nsize ht =
     (if nsize > MAX_SIZE \<or> nsize < MIN_SIZE then (0, ht)
      else if \<not> mem 0 (nsize * 8) then (-1, ht)
      else (0, ht\<lparr>ht_buckets := rehash L nsize (concat (ht_buckets ht)) (replicate (unat nsize) []),
                  ht_size := nsize\<rparr>))"

definition init_handler_table :: "heap_oracle \<Rightarrow> (int \<times> handler_table) option" where
  "init_handler_table mem =
     (if \<not> mem 0 (MIN_SIZE * 8) then None
      else Some (0, \<lparr>ht_buckets = replicate (unat MIN_SIZE) [], ht_size = MIN_SIZE, ht_elements = 0\<rparr>))"

definition end_handlers :: "handler_table \<Rightarrow> handler_table" where
  "end_handlers ht = ht\<lparr>ht_buckets := map (map (\<lambda>h. h\<lparr>ch_stop := 1\<rparr>)) (ht_buckets ht)\<rparr>"

fun find_handler :: "bytes \<Rightarrow> client_handler list \<Rightarrow> client_handler option" where
  "find_handler uid [] = None"
| "find_handler uid (cur # rest) = (if ch_id cur = uid then Some cur else find_handler uid rest)"

definition get_handler :: "ibc \<Rightarrow> handler_table \<Rightarrow> bytes \<Rightarrow> client_handler option" where
  "get_handler L ht uid = find_handler uid (ht_buckets ht ! bucket_index L (ht_size ht) uid)"

definition add_handler :: "ibc \<Rightarrow> heap_oracle \<Rightarrow> handler_table \<Rightarrow> client_handler \<Rightarrow> int \<times> handler_table" where
  "add_handler L mem ht h =
     (let i = bucket_index L (ht_size ht) (ch_id h) in
      if find_handler (ch_id h) (ht_buckets ht ! i) \<noteq> None then (1, ht)
      else let ht' = ht\<lparr>ht_buckets := (ht_buckets ht)[i := ht_buckets ht ! i @ [h]],
                       ht_elements := ht_elements ht + 1\<rparr>
           in if ht_elements ht' > top_load (ht_size ht')
              then resize_handler_table L mem (push_bit 1 (ht_size ht')) ht'
              else (0, ht'))"

fun unlink_handler :: "bytes \<Rightarrow> client_handler list \<Rightarrow> client_handler list" where
  "unlink_handler uid [] = []"
| "unlink_handler uid (cur # rest) = (if ch_id cur = uid then rest else cur # unlink_handler uid rest)"

definition rem_handler :: "ibc \<Rightarrow> heap_oracle \<Rightarrow> handler_table \<Rightarrow> bytes \<Rightarrow> int \<times> handler_table" where
  "rem_handler L mem ht uid =
     (let i = bucket_index L (ht_size ht) uid in
      if find_handler uid (ht_buckets ht ! i) = None then (1, ht)
      else let ht' = ht\<lparr>ht_buckets := (ht_buckets ht)[i := unlink_handler uid (ht_buckets ht ! i)],
                       ht_elements := ht_elements ht - 1\<rparr>
           in if ht_elements ht' < bot_load (ht_size ht')
              then resize_handler_table L mem (drop_bit 1 (ht_size ht')) ht'
              else (0, ht'))"

section \<open>Finite maps, and sequences of operations\<close>

datatype ('k, 'v) dict_op = DAdd heap_oracle 'v | DRem heap_oracle 'k | DGet 'k
datatype 'v dict_res = RInt int | RVal "'v option"

fun dict_run :: "(heap_oracle \<Rightarrow> 's \<Rightarrow> 'v \<Rightarrow> int \<times> 's) \<Rightarrow> (heap_oracle \<Rightarrow> 's \<Rightarrow> 'k \<Rightarrow> int \<times> 's) \<Rightarrow>
    ('s \<Rightarrow> 'k \<Rightarrow> 'v option) \<Rightarrow> ('k, 'v) dict_op list \<Rightarrow> 's \<Rightarrow> 'v dict_res list" where
  "dict_run add rem get [] s = []"
| "dict_run add rem get (DAdd mem v # ops) s =
     (case add mem s v of (r, s') \<Rightarrow> RInt r # dict_run add rem get ops s')"
| "dict_run add rem get (DRem mem k # ops) s =
     (case rem mem s k of (r, s') \<Rightarrow> RInt r # dict_run add rem get ops s')"
| "dict_run add rem get (DGet k # ops) s = RVal (get s k) # dict_run add rem get ops s"

text \<open>The same operations on a map.\<close>

fun map_run :: "('v \<Rightarrow> 'k) \<Rightarrow> ('k, 'v) dict_op list \<Rightarrow> ('k \<rightharpoonup> 'v) \<Rightarrow> 'v dict_res list" where
  "map_run key [] m = []"
| "map_run key (DAdd mem v # ops) m =
     (if m (key v) \<noteq> None then RInt 1 # map_run key ops m else RInt 0 # map_run key ops (m(key v \<mapsto> v)))"
| "map_run key (DRem mem k # ops) m =
     (if m k = None then RInt 1 # map_run key ops m else RInt 0 # map_run key ops (m(k := None)))"
| "map_run key (DGet k # ops) m = RVal (m k) # map_run key ops m"

text \<open>Results agree, except that -1 may stand for a success whose resizing failed.\<close>

definition res_agree :: "'v dict_res \<Rightarrow> 'v dict_res \<Rightarrow> bool" where
  "res_agree r s \<longleftrightarrow> r = s \<or> r = RInt (-1) \<and> s = RInt 0"

locale dict =
  fixes inv :: "'s \<Rightarrow> bool"
    and abs :: "'s \<Rightarrow> 'k \<rightharpoonup> 'v"
    and key :: "'v \<Rightarrow> 'k"
    and add :: "heap_oracle \<Rightarrow> 's \<Rightarrow> 'v \<Rightarrow> int \<times> 's"
    and rem :: "heap_oracle \<Rightarrow> 's \<Rightarrow> 'k \<Rightarrow> int \<times> 's"
    and get :: "'s \<Rightarrow> 'k \<Rightarrow> 'v option"
  assumes get_abs: "inv s \<Longrightarrow> get s k = abs s k"
    and add_dup: "inv s \<Longrightarrow> abs s (key v) \<noteq> None \<Longrightarrow> add mem s v = (1, s)"
    and add_new: "inv s \<Longrightarrow> abs s (key v) = None \<Longrightarrow>
      \<exists>r s'. add mem s v = (r, s') \<and> (r = 0 \<or> r = -1) \<and> inv s' \<and> abs s' = (abs s)(key v \<mapsto> v)"
    and rem_none: "inv s \<Longrightarrow> abs s k = None \<Longrightarrow> rem mem s k = (1, s)"
    and rem_some: "inv s \<Longrightarrow> abs s k \<noteq> None \<Longrightarrow>
      \<exists>r s'. rem mem s k = (r, s') \<and> (r = 0 \<or> r = -1) \<and> inv s' \<and> abs s' = (abs s)(k := None)"
begin

lemma run_agrees: "inv s \<Longrightarrow> list_all2 res_agree (dict_run add rem get ops s) (map_run key ops (abs s))"
proof (induction ops arbitrary: s)
  case Nil
  then show ?case by simp
next
  case (Cons op ops)
  show ?case
  proof (cases op)
    case (DAdd mem v)
    show ?thesis
    proof (cases "abs s (key v) = None")
      case True
      from add_new [OF Cons.prems this, of mem] obtain r s' where
        a: "add mem s v = (r, s')" "r = 0 \<or> r = -1" "inv s'" "abs s' = (abs s)(key v \<mapsto> v)" by blast
      have "map_run key (op # ops) (abs s) = RInt 0 # map_run key ops (abs s')"
        "dict_run add rem get (op # ops) s = RInt r # dict_run add rem get ops s'"
        using a(1) True by (simp_all add: DAdd a(4))
      with Cons.IH [OF a(3)] a(2) show ?thesis by (simp add: res_agree_def)
    next
      case False
      with add_dup [OF Cons.prems this] Cons DAdd show ?thesis by (auto simp: res_agree_def)
    qed
  next
    case (DRem mem k)
    show ?thesis
    proof (cases "abs s k = None")
      case True
      with rem_none [OF Cons.prems this] Cons DRem show ?thesis by (auto simp: res_agree_def)
    next
      case False
      from rem_some [OF Cons.prems this, of mem] obtain r s' where
        a: "rem mem s k = (r, s')" "r = 0 \<or> r = -1" "inv s'" "abs s' = (abs s)(k := None)" by blast
      have "map_run key (op # ops) (abs s) = RInt 0 # map_run key ops (abs s')"
        "dict_run add rem get (op # ops) s = RInt r # dict_run add rem get ops s'"
        using a(1) False by (simp_all add: DRem a(4))
      with Cons.IH [OF a(3)] a(2) show ?thesis by (simp add: res_agree_def)
    qed
  next
    case (DGet k)
    with Cons get_abs show ?thesis by (simp add: res_agree_def)
  qed
qed

end

section \<open>The table refines a map\<close>

definition ht_abs :: "handler_table \<Rightarrow> bytes \<rightharpoonup> client_handler" where
  "ht_abs ht uid = find_handler uid (concat (ht_buckets ht))"

text \<open>A bucket array of the given size in which every handler is where it is looked for.\<close>

definition placed :: "ibc \<Rightarrow> u64 \<Rightarrow> client_handler list list \<Rightarrow> bool" where
  "placed L sz bs \<longleftrightarrow> length bs = unat sz \<and>
     (\<forall>i < length bs. \<forall>h \<in> set (bs ! i). bucket_index L sz (ch_id h) = i)"

definition ht_inv :: "ibc \<Rightarrow> handler_table \<Rightarrow> bool" where
  "ht_inv L ht \<longleftrightarrow> MIN_SIZE \<le> ht_size ht \<and> ht_size ht \<le> MAX_SIZE \<and> placed L (ht_size ht) (ht_buckets ht) \<and>
     distinct (map ch_id (concat (ht_buckets ht))) \<and>
     ht_elements ht = of_nat (length (concat (ht_buckets ht)))"

lemma bucket_index_less: "0 < sz \<Longrightarrow> bucket_index L sz uid < unat sz"
  by (simp add: bucket_index_def word_less_nat_alt unat_mod)

lemma find_handler_None: "find_handler uid hs = None \<longleftrightarrow> uid \<notin> ch_id ` set hs"
  by (induction hs) auto

lemma find_handler_Some: "find_handler uid hs = Some h \<Longrightarrow> h \<in> set hs \<and> ch_id h = uid"
  by (induction hs) (auto split: if_splits)

lemma find_handler_unique:
  "distinct (map ch_id hs) \<Longrightarrow> h \<in> set hs \<Longrightarrow> ch_id h = uid \<Longrightarrow> find_handler uid hs = Some h"
  by (induction hs) (auto simp: rev_image_eqI)

text \<open>What \<open>find_handler\<close> finds depends on the handlers only, when their ids are distinct.\<close>

lemma find_handler_cong:
  assumes "distinct (map ch_id hs)" "distinct (map ch_id hs')" "set hs = set hs'"
  shows "find_handler uid hs = find_handler uid hs'"
proof (cases "find_handler uid hs")
  case None
  then show ?thesis using assms(3) find_handler_None [of uid hs] find_handler_None [of uid hs'] by simp
next
  case (Some h)
  then have "h \<in> set hs'" "ch_id h = uid" using assms(3) find_handler_Some [OF Some] by simp_all
  from find_handler_unique [OF assms(2) this] Some show ?thesis by simp
qed

lemma placed_find:
  assumes "placed L sz bs" "0 < sz" "distinct (map ch_id (concat bs))"
  shows "find_handler uid (bs ! bucket_index L sz uid) = find_handler uid (concat bs)"
proof (cases "find_handler uid (concat bs)")
  case None
  have "bs ! bucket_index L sz uid \<in> set bs"
    using assms(1) bucket_index_less [OF assms(2)] by (simp add: placed_def)
  then have "find_handler uid (bs ! bucket_index L sz uid) = None"
    using None unfolding find_handler_None by auto
  with None show ?thesis by simp
next
  case (Some h)
  then obtain i where i: "i < length bs" "h \<in> set (bs ! i)" "ch_id h = uid"
    using find_handler_Some [OF Some] by (auto simp: in_set_conv_nth [of _ bs])
  then have "bucket_index L sz uid = i" using assms(1) by (auto simp: placed_def)
  moreover have "distinct (map ch_id (bs ! i))"
    using assms(3) i(1) by (metis distinct_concat_iff map_concat nth_map nth_mem length_map)
  ultimately show ?thesis using find_handler_unique i Some by simp
qed

lemma mset_concat_update:
  "i < length bs \<Longrightarrow> mset (concat (bs[i := x])) + mset (bs ! i) = mset (concat bs) + mset x"
proof (induction bs arbitrary: i)
  case Nil
  then show ?case by simp
next
  case (Cons b bs)
  then show ?case by (cases i) (auto simp: ac_simps)
qed

lemma placed_update:
  assumes "placed L sz bs" "\<And>h. h \<in> set x \<Longrightarrow> bucket_index L sz (ch_id h) = i"
  shows "placed L sz (bs[i := x])"
  unfolding placed_def
proof (intro conjI allI impI ballI)
  show "length (bs[i := x]) = unat sz" using assms(1) by (simp add: placed_def)
next
  fix j h
  assume "j < length (bs[i := x])" "h \<in> set (bs[i := x] ! j)"
  with assms show "bucket_index L sz (ch_id h) = j"
    by (cases "j = i") (auto simp: placed_def)
qed

lemma rehash_ok:
  "placed L nsize nb \<Longrightarrow> 0 < nsize \<Longrightarrow>
   placed L nsize (rehash L nsize hs nb) \<and> mset (concat (rehash L nsize hs nb)) = mset (concat nb) + mset hs"
proof (induction hs arbitrary: nb)
  case Nil
  then show ?case by simp
next
  case (Cons h hs)
  let ?i = "bucket_index L nsize (ch_id h)"
  have i: "?i < length nb" using Cons.prems bucket_index_less [OF Cons.prems(2)] by (simp add: placed_def)
  have p: "placed L nsize (nb[?i := h # nb ! ?i])"
    by (rule placed_update [OF Cons.prems(1)]) (use Cons.prems(1) i in \<open>auto simp: placed_def\<close>)
  have "mset (concat (nb[?i := h # nb ! ?i])) = add_mset h (mset (concat nb))"
    using mset_concat_update [OF i, of "h # nb ! ?i"] by simp
  with Cons.IH [OF p Cons.prems(2)] show ?case by (simp add: Let_def)
qed

text \<open>The part of the invariant that does not mention the size, as a fact about a list of handlers.\<close>

lemma resize_ok:
  assumes "ht_inv L ht"
  shows "\<exists>r ht'. resize_handler_table L mem nsize ht = (r, ht') \<and> (r = 0 \<or> r = -1) \<and> ht_inv L ht' \<and>
    ht_abs ht' = ht_abs ht"
proof (cases "nsize > MAX_SIZE \<or> nsize < MIN_SIZE \<or> \<not> mem 0 (nsize * 8)")
  case True
  with assms show ?thesis by (auto simp: resize_handler_table_def)
next
  case False
  let ?hs = "concat (ht_buckets ht)" and ?nb = "replicate (unat nsize) [] :: client_handler list list"
  let ?bs = "rehash L nsize ?hs ?nb"
  have pos: "0 < nsize" using False by (auto simp: MIN_SIZE_def not_less word_le_nat_alt word_less_nat_alt)
  have "placed L nsize ?nb" by (simp add: placed_def)
  from rehash_ok [OF this pos, of ?hs] have r: "placed L nsize ?bs" "mset (concat ?bs) = mset ?hs"
    by simp_all
  have d: "distinct (map ch_id (concat ?bs))" and l: "length (concat ?bs) = length ?hs"
    and s: "set (concat ?bs) = set ?hs"
    using assms mset_eq_imp_distinct_iff [of "map ch_id (concat ?bs)" "map ch_id ?hs"] r(2)
      mset_eq_length [OF r(2)] mset_eq_setD [OF r(2)] by (simp_all add: ht_inv_def)
  have a: "find_handler uid (concat ?bs) = find_handler uid ?hs" for uid
    by (rule find_handler_cong [OF d _ s]) (use assms in \<open>simp add: ht_inv_def\<close>)
  let ?ht = "ht\<lparr>ht_buckets := ?bs, ht_size := nsize\<rparr>"
  have "ht_inv L ?ht" using assms False r(1) d l by (simp add: ht_inv_def not_less)
  moreover have "ht_abs ?ht = ht_abs ht" by (rule ext) (simp add: ht_abs_def a)
  ultimately show ?thesis using False by (simp add: resize_handler_table_def)
qed

lemma mset_list_props:
  assumes "mset xs = mset ys"
  shows "distinct (map ch_id xs) = distinct (map ch_id ys)" "length xs = length ys" "set xs = set ys"
  using mset_eq_imp_distinct_iff [of "map ch_id xs" "map ch_id ys"] mset_eq_length [OF assms]
    mset_eq_setD [OF assms] assms by simp_all

lemma add_new_ok:
  assumes inv: "ht_inv L ht" and new: "ht_abs ht (ch_id h) = None"
  shows "\<exists>r ht'. add_handler L mem ht h = (r, ht') \<and> (r = 0 \<or> r = -1) \<and> ht_inv L ht' \<and>
    ht_abs ht' = (ht_abs ht)(ch_id h \<mapsto> h)"
proof -
  let ?bs = "ht_buckets ht" and ?i = "bucket_index L (ht_size ht) (ch_id h)"
  let ?bs' = "?bs[?i := ?bs ! ?i @ [h]]"
  let ?ht = "ht\<lparr>ht_buckets := ?bs', ht_elements := ht_elements ht + 1\<rparr>"
  have pos: "0 < ht_size ht" and pl: "placed L (ht_size ht) ?bs" and d: "distinct (map ch_id (concat ?bs))"
    using inv by (auto simp: ht_inv_def MIN_SIZE_def word_le_nat_alt word_less_nat_alt)
  have i: "?i < length ?bs" using pl bucket_index_less [OF pos] by (simp add: placed_def)
  have "mset (concat ?bs') = mset (h # concat ?bs)"
    using mset_concat_update [OF i, of "?bs ! ?i @ [h]"] by simp
  note m = mset_list_props [OF this]
  have fresh: "ch_id h \<notin> ch_id ` set (concat ?bs)"
    using new by (simp only: ht_abs_def find_handler_None not_False_eq_True)
  then have d': "distinct (map ch_id (concat ?bs'))" "distinct (map ch_id (h # concat ?bs))"
    using d by (simp_all add: m)
  have "placed L (ht_size ht) ?bs'"
    by (rule placed_update [OF pl]) (use pl i in \<open>auto simp: placed_def\<close>)
  with inv d' m(2) have inv': "ht_inv L ?ht" by (simp add: ht_inv_def)
  have abs': "ht_abs ?ht = (ht_abs ht)(ch_id h \<mapsto> h)"
    using find_handler_cong [OF d' m(3)] by (auto simp: ht_abs_def)
  have "find_handler (ch_id h) (?bs ! ?i) = None"
    using placed_find [OF pl pos d] new by (simp add: ht_abs_def)
  then show ?thesis
    using resize_ok [OF inv', of mem "push_bit 1 (ht_size ?ht)"] inv' abs'
    by (auto simp: add_handler_def Let_def)
qed

lemma unlink_mset:
  "find_handler uid hs = Some h \<Longrightarrow> mset hs = add_mset h (mset (unlink_handler uid hs))"
  by (induction hs) (auto split: if_splits)

lemma find_handler_without:
  "distinct (map ch_id (h # hs)) \<Longrightarrow>
   find_handler uid hs = (if uid = ch_id h then None else find_handler uid (h # hs))"
  by (auto simp: find_handler_None)

lemma rem_some_ok:
  assumes inv: "ht_inv L ht" and ex: "ht_abs ht uid = Some h"
  shows "\<exists>r ht'. rem_handler L mem ht uid = (r, ht') \<and> (r = 0 \<or> r = -1) \<and> ht_inv L ht' \<and>
    ht_abs ht' = (ht_abs ht)(uid := None)"
proof -
  let ?bs = "ht_buckets ht" and ?i = "bucket_index L (ht_size ht) uid"
  let ?bs' = "?bs[?i := unlink_handler uid (?bs ! ?i)]"
  let ?ht = "ht\<lparr>ht_buckets := ?bs', ht_elements := ht_elements ht - 1\<rparr>"
  have pos: "0 < ht_size ht" and pl: "placed L (ht_size ht) ?bs" and d: "distinct (map ch_id (concat ?bs))"
    using inv by (auto simp: ht_inv_def MIN_SIZE_def word_le_nat_alt word_less_nat_alt)
  have i: "?i < length ?bs" using pl bucket_index_less [OF pos] by (simp add: placed_def)
  have f: "find_handler uid (?bs ! ?i) = Some h"
    using placed_find [OF pl pos d] ex by (simp add: ht_abs_def)
  have uid: "ch_id h = uid" using find_handler_Some [OF f] by simp
  note u = unlink_mset [OF f]
  have "mset (concat ?bs) = mset (h # concat ?bs')"
    using mset_concat_update [OF i, of "unlink_handler uid (?bs ! ?i)"] u by simp
  note m = mset_list_props [OF this]
  have d': "distinct (map ch_id (h # concat ?bs'))" using d by (simp only: m)
  have sub: "set (unlink_handler uid (?bs ! ?i)) \<subseteq> set (?bs ! ?i)"
    using mset_eq_setD [of "?bs ! ?i" "h # unlink_handler uid (?bs ! ?i)"] u by auto
  have "placed L (ht_size ht) ?bs'"
    by (rule placed_update [OF pl]) (use pl i sub in \<open>auto simp: placed_def\<close>)
  with inv d' m(2) have inv': "ht_inv L ?ht" by (simp add: ht_inv_def)
  have "find_handler k (concat ?bs') = (if k = uid then None else find_handler k (concat ?bs))" for k
    unfolding find_handler_cong [OF d d' m(3), of k]
    using find_handler_without [OF d', of k] unfolding uid .
  then have abs': "ht_abs ?ht = (ht_abs ht)(uid := None)"
    by (auto simp: ht_abs_def)
  show ?thesis
    using resize_ok [OF inv', of mem "drop_bit 1 (ht_size ?ht)"] inv' abs' f
    by (auto simp: rem_handler_def Let_def)
qed

lemma get_handler_abs: "ht_inv L ht \<Longrightarrow> get_handler L ht uid = ht_abs ht uid"
  using placed_find [of L "ht_size ht" "ht_buckets ht" uid]
  by (auto simp: get_handler_def ht_abs_def ht_inv_def MIN_SIZE_def word_le_nat_alt word_less_nat_alt)

lemma find_in_bucket:
  assumes "ht_inv L ht"
  shows "find_handler uid (ht_buckets ht ! bucket_index L (ht_size ht) uid) = ht_abs ht uid"
  using get_handler_abs [OF assms] by (simp add: get_handler_def)

interpretation handlers: dict "ht_inv L" ht_abs ch_id "add_handler L" "rem_handler L" "get_handler L" for L
proof (unfold_locales, goal_cases)
  case (1 s k)
  then show ?case by (rule get_handler_abs)
next
  case (2 s v mem)
  then show ?case by (simp add: add_handler_def find_in_bucket)
next
  case (3 s v mem)
  then show ?case by (rule add_new_ok)
next
  case (4 s k mem)
  then show ?case by (simp add: rem_handler_def find_in_bucket)
next
  case (5 s k mem)
  then show ?case using rem_some_ok by blast
qed

lemma init_handler_table_ok: "init_handler_table mem = Some (r, ht) \<Longrightarrow> ht_inv L ht \<and> ht_abs ht = Map.empty"
  by (auto simp: init_handler_table_def ht_inv_def MIN_SIZE_def MAX_SIZE_def placed_def ht_abs_def
      word_le_nat_alt split: if_splits)

section \<open>Properties\<close>

text \<open>
  C21: The handler table is a finite map from user ids to handlers: from \<open>init_handler_table\<close> on, any
  sequence of \<open>add_handler\<close>, \<open>rem_handler\<close> and \<open>get_handler\<close>, through every growth and shrinkage and
  whichever allocations fail, answers as a map does, except that -1 may be returned for an addition
  or a removal that was carried out.
\<close>
theorem handler_table_is_map:
  assumes "init_handler_table mem = Some (r, ht)"
  shows "list_all2 res_agree (dict_run (add_handler L) (rem_handler L) (get_handler L) ops ht)
    (map_run ch_id ops Map.empty)"
  using handlers.run_agrees [of L ht ops] init_handler_table_ok [OF assms, of L] by simp

theorem handler_table_is_map_witness:
  "\<exists>ht. init_handler_table (\<lambda>_ _. True) = Some (0, ht) \<and>
     list_all2 res_agree (dict_run (add_handler demo_lib) (rem_handler demo_lib) (get_handler demo_lib)
       [DAdd (\<lambda>_ _. True) \<lparr>ch_id = [1], ch_fd = 4, ch_stop = 0\<rparr>, DGet [1], DRem (\<lambda>_ _. True) [1], DGet [1]] ht)
       [RInt 0, RVal (Some \<lparr>ch_id = [1], ch_fd = 4, ch_stop = 0\<rparr>), RInt 0, RVal None]"
proof -
  have "\<exists>ht. init_handler_table (\<lambda>_ _. True) = Some (0, ht)" by (simp add: init_handler_table_def)
  then obtain ht where h: "init_handler_table (\<lambda>_ _. True) = Some (0, ht)" by blast
  from handler_table_is_map [OF h, of demo_lib
      "[DAdd (\<lambda>_ _. True) \<lparr>ch_id = [1], ch_fd = 4, ch_stop = 0\<rparr>, DGet [1], DRem (\<lambda>_ _. True) [1], DGet [1]]"] h
  show ?thesis by auto
qed

text \<open>
  \<open>end_handlers\<close> reaches every connected user: afterwards each handler that was in the table is
  still found under its id, unchanged except that its stop flag is set.
\<close>
theorem end_handlers_reaches_all:
  assumes "ht_inv L ht"
  shows "ht_inv L (end_handlers ht) \<and>
    get_handler L (end_handlers ht) uid = map_option (\<lambda>h. h\<lparr>ch_stop := 1\<rparr>) (get_handler L ht uid)"
proof -
  let ?f = "\<lambda>h :: client_handler. h\<lparr>ch_stop := 1\<rparr>" and ?bs = "ht_buckets ht"
  have c: "concat (map (map ?f) ?bs) = map ?f (concat ?bs)" by (simp add: map_concat)
  have "ch_id \<circ> ?f = ch_id" by (simp add: fun_eq_iff)
  then have inv: "ht_inv L (end_handlers ht)"
    using assms by (auto simp: ht_inv_def end_handlers_def placed_def c)
  moreover have "find_handler uid (map ?f hs) = map_option ?f (find_handler uid hs)" for hs
    by (induction hs) auto
  ultimately show ?thesis
    using get_handler_abs [OF inv] get_handler_abs [OF assms] by (simp add: ht_abs_def end_handlers_def c)
qed

theorem end_handlers_reaches_all_witness:
  "\<exists>ht. get_handler demo_lib (end_handlers ht) [1] = Some \<lparr>ch_id = [1], ch_fd = 4, ch_stop = 1\<rparr>"
proof -
  let ?h = "\<lparr>ch_id = [1], ch_fd = 4, ch_stop = 0\<rparr>"
  obtain ht where i: "init_handler_table (\<lambda>_ _. True) = Some (0, ht)" by (simp add: init_handler_table_def)
  from init_handler_table_ok [OF i] add_new_ok [of demo_lib ht ?h] obtain ht' where
    "ht_inv demo_lib ht'" "ht_abs ht' = Map.empty([1] \<mapsto> ?h)" by fastforce
  with end_handlers_reaches_all [of demo_lib ht' "[1]"] get_handler_abs [of demo_lib ht' "[1]"] show ?thesis
    by auto
qed

end
