(* ===== verification/UserDb.thy ===== *)
theory UserDb
  imports Libs "HOL-Library.Multiset"
begin

text \<open>
  \<open>server/user_db.c\<close>: the registered users, a hash table backed by one signed file per user. The
  user directory is a map from file names to contents, and \<open>readdir\<close> a list of names, which has more in it
  than user files. The table is correct up to twelve users; its
  resizing is not, and the thirteenth registration runs out of bounds.
\<close>

section \<open>The code\<close>

record user =
  u_pkey :: rsa_public_key
  u_uid :: bytes
  u_auth :: bytes

record user_db =
  db_buckets :: "user list list"
  db_size :: u64
  db_elements :: u64

definition DB_MAX_SIZE :: u64 where "DB_MAX_SIZE = push_bit 20 1"
definition DB_MIN_SIZE :: u64 where "DB_MIN_SIZE = 16"

definition udb_hash_id :: "ibc \<Rightarrow> bytes \<Rightarrow> u64" where
  "udb_hash_id L uid =
     (let shasum = sha256 L uid in
      xor (xor (xor (decbe64 L (slice 0 8 shasum)) (decbe64 L (slice 8 8 shasum)))
        (decbe64 L (slice 16 8 shasum))) (decbe64 L (slice 24 8 shasum)))"

definition udb_index :: "ibc \<Rightarrow> u64 \<Rightarrow> bytes \<Rightarrow> nat" where
  "udb_index L sz uid = unat (udb_hash_id L uid mod sz)"

definition init_user_db_st :: user_db where
  "init_user_db_st = \<lparr>db_buckets = replicate (unat DB_MIN_SIZE) [], db_size = DB_MIN_SIZE, db_elements = 0\<rparr>"

text \<open>
  \<open>resize\<close>: the old size is kept in \<open>nsize\<close> and the new one is stored in the table; the new array
  has the old size and the loop runs over the new one. The divisions by 0.75 and 0.25 are exact
  enough in a double for the rounded-down result to be the one below.
\<close>

fun udb_rehash :: "ibc \<Rightarrow> u64 \<Rightarrow> user list \<Rightarrow> user list list \<Rightarrow> user list list" where
  "udb_rehash L nsize [] nb = nb"
| "udb_rehash L nsize (u # us) nb =
     (let i = udb_index L nsize (u_uid u) in udb_rehash L nsize us (nb[i := u # nb ! i]))"

definition udb_resize :: "ibc \<Rightarrow> bool \<Rightarrow> user_db \<Rightarrow> (int \<times> user_db) exec" where
  "udb_resize L mem db =
     (let nsize = db_size db;
          s1 = (if nsize < DB_MAX_SIZE \<and> db_elements db * 4 div 3 > nsize then nsize * 2 else nsize);
          s2 = (if s1 > DB_MIN_SIZE \<and> db_elements db * 4 < s1 then s1 div 2 else s1)
      in if nsize = s2 then Done (0, db)
         else if \<not> mem then Done (1, db\<lparr>db_size := s2\<rparr>)
         else if unat s2 > length (db_buckets db) then UB
         else Done (0, db\<lparr>db_buckets := udb_rehash L nsize (concat (take (unat s2) (db_buckets db)))
                            (replicate (unat nsize) []), db_size := nsize\<rparr>))"

text \<open>\<open>user_db_add_no_write\<close>: whether the entry (and its mutex) and the array of a resize can be had.\<close>

definition user_db_add_no_write :: "ibc \<Rightarrow> bool \<Rightarrow> bool \<Rightarrow> user_db \<Rightarrow> user \<Rightarrow> (int \<times> user_db) exec" where
  "user_db_add_no_write L ent mem db u =
     (if \<not> ent then Done (1, db)
      else let i = udb_index L (db_size db) (u_uid u) in
        if \<not> i < length (db_buckets db) then UB
        else udb_resize L mem (db\<lparr>db_buckets := (db_buckets db)[i := u # db_buckets db ! i],
                                 db_elements := db_elements db + 1\<rparr>))"

fun find_user :: "ibc \<Rightarrow> bytes \<Rightarrow> user list \<Rightarrow> user option" where
  "find_user L uid [] = None"
| "find_user L uid (u # us) = (if memcmp_ct L (u_uid u) uid = 0 then Some u else find_user L uid us)"

definition user_db_get :: "ibc \<Rightarrow> user_db \<Rightarrow> bytes \<Rightarrow> user option exec" where
  "user_db_get L db uid =
     (let i = udb_index L (db_size db) uid in
      if i < length (db_buckets db) then Done (find_user L uid (db_buckets db ! i)) else UB)"

subsection \<open>User files\<close>

text \<open>\<open>userdb\<close> and two zeroes.\<close>

definition USER_FILE_MAGIC :: bytes where
  "USER_FILE_MAGIC = [117, 115, 101, 114, 100, 98, 0, 0]"

text \<open>\<open>fread(b, s, 1, f) != 1\<close> also fails when \<open>s\<close> is 0.\<close>

definition rd1 :: "nat \<Rightarrow> bytes \<Rightarrow> (bytes \<times> bytes) option" where
  "rd1 n inp = (if n = 0 then None else rd n inp)"

text \<open>\<open>None\<close> is the return value 1, with which every failure ends. \<open>mem k\<close>: the k-th allocation.\<close>

definition parse_user_file :: "ibc \<Rightarrow> rsa_public_key \<Rightarrow> (nat \<Rightarrow> bool) \<Rightarrow> bytes \<Rightarrow> bytes option \<Rightarrow> user option exec" where
  "parse_user_file L spk mem name file = (case file of
     None \<Rightarrow> Done None
   | Some inp \<Rightarrow> (case rd1 8 inp of
       None \<Rightarrow> Done None
     | Some (magic, i1) \<Rightarrow> if magic \<noteq> USER_FILE_MAGIC then Done None else (case rd1 0x20 i1 of
       None \<Rightarrow> Done None
     | Some (uid, i2) \<Rightarrow>
       if memcmp_ct L uid (from_hex L (drop (length name - 64) name)) \<noteq> 0 then Done None else (case rd1 0x20 i2 of
       None \<Rightarrow> Done None
     | Some (und, i3) \<Rightarrow> (case rd1 8 i3 of
       None \<Rightarrow> Done None
     | Some (sizebuf, i4) \<Rightarrow>
       let siglen = (pk_bits spk + 7) div 8; prefix = magic @ uid @ und @ sizebuf in
       if \<not> mem 0 then Done None else (case rd1 (unat siglen) i4 of
       None \<Rightarrow> Done None
     | Some (sig1, i5) \<Rightarrow>
       if rsa_pss_verify L spk sig1 prefix \<noteq> Some True then Done None
       else let pkey_size = decbe64 L sizebuf; total = 0x50 + siglen + pkey_size in
       if \<not> mem 1 then Done None
       else if unat total < 0x50 + unat siglen + unat pkey_size then UB
       else (case rd1 (unat pkey_size) i5 of
       None \<Rightarrow> Done None
     | Some (pkey_buf, i6) \<Rightarrow> (case rd1 (unat siglen) i6 of
       None \<Rightarrow> Done None
     | Some (sig2, i7) \<Rightarrow>
       if rsa_pss_verify L spk sig2 (prefix @ sig1 @ pkey_buf) \<noteq> Some True then Done None
       else Done (map_option (\<lambda>pk. \<lparr>u_pkey = pk, u_uid = uid, u_auth = und\<rparr>)
              (rsa_wire2pubkey L pkey_buf))))))))))"

text \<open>
  What writing a user file meets: the allocation of the path, \<open>fopen\<close>, the allocation of the buffer,
  how many bytes a short \<open>fwrite\<close> wrote, and what an unset public key field of the buffer holds
  (the result of \<open>rsa_pubkey2wire\<close> is not looked at). The result has the new content of the file,
  if the call opened it.
\<close>

record user_write_env =
  uw_path :: bool
  uw_open :: bool
  uw_buf :: bool
  uw_short :: "nat option"
  uw_junk :: bytes

definition user_file_prefix :: "ibc \<Rightarrow> user \<Rightarrow> bytes" where
  "user_file_prefix L u =
     USER_FILE_MAGIC @ u_uid u @ u_auth u @ encbe64 L (rsa_pubkey_bufsize L (pk_bits (u_pkey u)))"

definition write_user_file :: "ibc \<Rightarrow> rsa_key \<Rightarrow> user_write_env \<Rightarrow> user \<Rightarrow> int \<times> bytes option" where
  "write_user_file L sk env u =
     (if \<not> uw_path env then (1, None)
      else if \<not> uw_open env then (1, None)
      else if \<not> uw_buf env then (1, Some [])
      else case rsa_pss_sign L sk (user_file_prefix L u) of
        None \<Rightarrow> (1, Some [])
      | Some sig1 \<Rightarrow>
          let pkey = case_option (uw_junk env) (\<lambda>w. w) (rsa_pubkey2wire L (u_pkey u));
              signed = user_file_prefix L u @ sig1 @ pkey
          in (case rsa_pss_sign L sk signed of
            None \<Rightarrow> (1, Some [])
          | Some sig2 \<Rightarrow> (case uw_short env of
              Some k \<Rightarrow> (1, Some (take k (signed @ sig2)))
            | None \<Rightarrow> (0, Some (signed @ sig2)))))"

subsection \<open>The database\<close>

text \<open>\<open>user_db_add\<close>: the file is written before the table is changed.\<close>

definition user_db_add :: "ibc \<Rightarrow> rsa_key \<Rightarrow> user_write_env \<Rightarrow> bool \<Rightarrow> bool \<Rightarrow> user_db \<Rightarrow> (bytes \<rightharpoonup> bytes) \<Rightarrow> user \<Rightarrow>
    (int \<times> user_db \<times> (bytes \<rightharpoonup> bytes)) exec" where
  "user_db_add L sk env ent mem db fs u =
     exec_bind (user_db_get L db (u_uid u)) (\<lambda>old.
       if old \<noteq> None then Done (-1, db, fs)
       else (case write_user_file L sk env u of (r, f) \<Rightarrow>
         let fs' = (case f of None \<Rightarrow> fs | Some c \<Rightarrow> fs(to_hex L (u_uid u) \<mapsto> c)) in
         if r \<noteq> 0 then Done (1, db, fs')
         else exec_bind (user_db_add_no_write L ent mem db u) (\<lambda>(r', db').
           Done (if r' \<noteq> 0 then 1 else 0, db', fs'))))"

text \<open>
  \<open>load_user_files\<close>, on all the names \<open>readdir\<close> lists (\<open>.\<close> and \<open>..\<close> among them): names that begin with a
  dot or are not 64 hexadecimal digits, files that do not parse and users for which there is no
  memory are skipped. What each round finds: the allocations of \<open>parse_user_file\<close>, of the entry, and
  of a resize.
\<close>

record load_env =
  le_parse :: "nat \<Rightarrow> bool"
  le_ent :: bool
  le_mem :: bool

fun load_user_files :: "ibc \<Rightarrow> rsa_public_key \<Rightarrow> (nat \<Rightarrow> load_env) \<Rightarrow> (bytes \<rightharpoonup> bytes) \<Rightarrow> bytes list \<Rightarrow> user_db \<Rightarrow>
    user_db exec" where
  "load_user_files L spk env fs [] db = Done db"
| "load_user_files L spk env fs (name # names) db =
     (if take 1 name = [46] then load_user_files L spk (\<lambda>i. env (Suc i)) fs names db
      else if length name \<noteq> 64 then load_user_files L spk (\<lambda>i. env (Suc i)) fs names db
      else if \<not> list_all hex_char name then load_user_files L spk (\<lambda>i. env (Suc i)) fs names db
      else exec_bind (parse_user_file L spk (le_parse (env 0)) name (fs name)) (\<lambda>r. case r of
          None \<Rightarrow> load_user_files L spk (\<lambda>i. env (Suc i)) fs names db
        | Some u \<Rightarrow> exec_bind (user_db_add_no_write L (le_ent (env 0)) (le_mem (env 0)) db u)
            (\<lambda>(_, db'). load_user_files L spk (\<lambda>i. env (Suc i)) fs names db')))"

text \<open>
  \<open>user_init\<close>: the key of the undelivered file is drawn, that file is started, and the public key is
  copied (\<open>cpy\<close>: there is memory for its modulus).
\<close>

definition user_init :: "bytes option \<Rightarrow> (user \<Rightarrow> int) \<Rightarrow> bool \<Rightarrow> bytes \<Rightarrow> rsa_public_key \<Rightarrow> int \<times> user option" where
  "user_init rand init_file cpy uid pkey = (case rand of
     None \<Rightarrow> (1, None)
   | Some auth \<Rightarrow>
       let u = \<lparr>u_pkey = pkey, u_uid = uid, u_auth = auth\<rparr>
       in if init_file u \<noteq> 0 then (1, None) else if \<not> cpy then (1, None) else (0, Some u))"

section \<open>The table below thirteen users\<close>

definition db_placed :: "ibc \<Rightarrow> user list list \<Rightarrow> bool" where
  "db_placed L bs \<longleftrightarrow> length bs = 16 \<and>
     (\<forall>i < 16. \<forall>u \<in> set (bs ! i). udb_index L 16 (u_uid u) = i \<and> length (u_uid u) = 32)"

definition db_inv :: "ibc \<Rightarrow> user_db \<Rightarrow> bool" where
  "db_inv L db \<longleftrightarrow> db_size db = 16 \<and> db_placed L (db_buckets db) \<and>
     db_elements db = of_nat (length (concat (db_buckets db)))"

definition db_users :: "user_db \<Rightarrow> user multiset" where
  "db_users db = mset (concat (db_buckets db))"

lemma db_placedD:
  assumes "db_placed L bs"
  shows "length bs = 16" "i < 16 \<Longrightarrow> u \<in> set (bs ! i) \<Longrightarrow> udb_index L 16 (u_uid u) = i"
    "i < 16 \<Longrightarrow> u \<in> set (bs ! i) \<Longrightarrow> length (u_uid u) = 32"
  using assms by (auto simp: db_placed_def)

lemma db_invD:
  assumes "db_inv L db"
  shows "db_size db = 16" "db_placed L (db_buckets db)" "length (db_buckets db) = 16"
    "db_elements db = of_nat (length (concat (db_buckets db)))"
  using assms by (auto simp: db_inv_def db_placed_def)

lemma udb_index_less: "udb_index L 16 uid < 16"
  by (simp add: udb_index_def unat_mod)

lemma db_inv_init: "db_inv L init_user_db_st" "db_users init_user_db_st = {#}"
  by (simp_all add: db_inv_def init_user_db_st_def DB_MIN_SIZE_def db_users_def db_placed_def)

text \<open>The first two conditions of \<open>resize\<close> at size 16: nothing happens up to twelve users.\<close>

lemma udb_resize_small:
  assumes "db_size db = 16" "db_elements db = of_nat n" "n \<le> 12"
  shows "udb_resize L mem db = Done (0, db)"
proof -
  have "unat (db_elements db * 4) = n * 4"
    using assms(2,3) by (simp add: unat_word_ariths unat_of_nat_small)
  then have "\<not> db_elements db * 4 div 3 > 16"
    using assms(3) by (simp add: word_less_nat_alt unat_div)
  then show ?thesis
    using assms(1) by (simp add: udb_resize_def DB_MIN_SIZE_def)
qed

lemma udb_resize_thirteen:
  assumes "db_size db = 16" "length (db_buckets db) = 16" "db_elements db = 13"
  shows "udb_resize L mem db = (if mem then UB else Done (1, db\<lparr>db_size := 32\<rparr>))"
  using assms by (simp add: udb_resize_def DB_MIN_SIZE_def DB_MAX_SIZE_def Let_def)

lemma find_user_Some: "find_user L uid us = Some u \<Longrightarrow> u \<in> set us \<and> memcmp_ct L (u_uid u) uid = 0"
  by (induction us) (auto split: if_splits)

lemma find_user_None: "find_user L uid us = None \<longleftrightarrow> (\<forall>u \<in> set us. memcmp_ct L (u_uid u) uid \<noteq> 0)"
  by (induction us) auto

lemma db_users_bucket:
  assumes "db_inv L db"
  shows "u \<in># db_users db \<longleftrightarrow> u \<in> set (db_buckets db ! udb_index L 16 (u_uid u))"
proof
  assume "u \<in># db_users db"
  then obtain i where i: "i < length (db_buckets db)" "u \<in> set (db_buckets db ! i)"
    by (auto simp: db_users_def in_set_conv_nth [of _ "db_buckets db"])
  with db_placedD(2) [OF db_invD(2) [OF assms], of i u] db_invD(3) [OF assms]
  show "u \<in> set (db_buckets db ! udb_index L 16 (u_uid u))" by simp
next
  assume "u \<in> set (db_buckets db ! udb_index L 16 (u_uid u))"
  moreover have "db_buckets db ! udb_index L 16 (u_uid u) \<in> set (db_buckets db)"
    using db_invD(3) [OF assms] udb_index_less by simp
  ultimately show "u \<in># db_users db" by (auto simp: db_users_def)
qed

text \<open>\<open>user_db_get\<close> finds the one user with that id.\<close>

lemma user_db_get_spec:
  assumes "cmp_ok L" "db_inv L db" "length uid = 32"
  shows "\<exists>r. user_db_get L db uid = Done r \<and>
    (r = None \<longrightarrow> (\<forall>u \<in># db_users db. u_uid u \<noteq> uid)) \<and>
    (\<forall>u. r = Some u \<longrightarrow> u \<in># db_users db \<and> u_uid u = uid)"
proof -
  let ?b = "db_buckets db ! udb_index L 16 uid"
  have g: "user_db_get L db uid = Done (find_user L uid ?b)"
    using db_invD(1,3) [OF assms(2)] udb_index_less by (simp add: user_db_get_def Let_def)
  have len: "length (u_uid u) = 32" if "u \<in> set ?b" for u
    using db_placedD(3) [OF db_invD(2) [OF assms(2)] udb_index_less that] .
  have none: "\<forall>u \<in># db_users db. u_uid u \<noteq> uid" if "find_user L uid ?b = None"
  proof (intro ballI notI)
    fix u assume "u \<in># db_users db" "u_uid u = uid"
    then have "u \<in> set ?b" using db_users_bucket [OF assms(2), of u] by simp
    with that \<open>u_uid u = uid\<close> memcmp_ct_same [OF assms(1), of uid] show False
      by (auto simp: find_user_None)
  qed
  have some: "u \<in># db_users db \<and> u_uid u = uid" if "find_user L uid ?b = Some u" for u
  proof -
    from find_user_Some [OF that] len [of u] assms(1,3) have "u \<in> set ?b" "u_uid u = uid"
      by (auto simp: memcmp_ct_iff)
    with db_users_bucket [OF assms(2), of u] show ?thesis by simp
  qed
  show ?thesis
    by (rule exI [of _ "find_user L uid ?b"], rule conjI [OF g], rule conjI)
      (rule impI, erule none, rule allI, rule impI, erule some)
qed

lemma mset_bucket_cons:
  "i < length bs \<Longrightarrow> mset (concat (bs[i := x # bs ! i])) = add_mset x (mset (concat bs))"
proof (induction bs arbitrary: i)
  case Nil
  then show ?case by simp
next
  case (Cons b bs)
  then show ?case by (cases i) auto
qed

lemma add_no_write_ok:
  assumes "db_inv L db" "length (u_uid u) = 32" "size (db_users db) < 12"
  shows "\<exists>db'. user_db_add_no_write L True mem db u = Done (0, db') \<and> db_inv L db' \<and>
    db_users db' = add_mset u (db_users db)"
proof -
  let ?i = "udb_index L 16 (u_uid u)" and ?bs = "db_buckets db"
  let ?db = "db\<lparr>db_buckets := ?bs[?i := u # ?bs ! ?i], db_elements := db_elements db + 1\<rparr>"
  have i: "?i < length ?bs" using db_invD(3) [OF assms(1)] udb_index_less by simp
  have m: "mset (concat (?bs[?i := u # ?bs ! ?i])) = add_mset u (mset (concat ?bs))"
    by (rule mset_bucket_cons [OF i])
  then have len: "length (concat (?bs[?i := u # ?bs ! ?i])) = Suc (length (concat ?bs))"
    by (metis size_add_mset size_mset)
  have "db_placed L (?bs[?i := u # ?bs ! ?i])"
    unfolding db_placed_def
  proof (intro conjI allI ballI impI)
    show "length (?bs[?i := u # ?bs ! ?i]) = 16" using db_invD(3) [OF assms(1)] by simp
  next
    fix j v
    assume j: "j < 16" and v: "v \<in> set (?bs[?i := u # ?bs ! ?i] ! j)"
    note d = db_placedD(2,3) [OF db_invD(2) [OF assms(1)] j, of v]
    show "udb_index L 16 (u_uid v) = j"
      using d(1) v i by (cases "j = ?i") auto
    show "length (u_uid v) = 32"
      using d(2) v i assms(2) by (cases "j = ?i") auto
  qed
  then have inv: "db_inv L ?db"
    using db_invD(1,4) [OF assms(1)] len by (simp add: db_inv_def)
  have sz: "length (concat ?bs) < 12" using assms(3) by (simp add: db_users_def)
  have el: "db_elements ?db = of_nat (Suc (length (concat ?bs)))"
    using db_invD(4) [OF assms(1)] by simp
  have "udb_resize L mem ?db = Done (0, ?db)"
    by (rule udb_resize_small [OF _ el]) (use db_invD(1) [OF assms(1)] sz in simp_all)
  then have "user_db_add_no_write L True mem db u = Done (0, ?db)"
    using db_invD(1) [OF assms(1)] i by (simp add: user_db_add_no_write_def Let_def)
  with inv m show ?thesis by (auto simp: db_users_def)
qed

section \<open>User files are read back\<close>

lemma length_magic [simp]: "length USER_FILE_MAGIC = 8"
  by (simp add: USER_FILE_MAGIC_def)

lemma rd1_append [simp]: "length xs = n \<Longrightarrow> 0 < n \<Longrightarrow> rd1 n (xs @ ys) = Some (xs, ys)"
  by (simp add: rd1_def)

lemma rd1_all [simp]: "length xs = n \<Longrightarrow> 0 < n \<Longrightarrow> rd1 n xs = Some (xs, [])"
  by (simp add: rd1_def rd_def)

definition user_ok :: "ibc \<Rightarrow> user \<Rightarrow> bool" where
  "user_ok L u \<longleftrightarrow> length (u_uid u) = 32 \<and> length (u_auth u) = 32 \<and> rsa_pubkey2wire L (u_pkey u) \<noteq> None"

lemma write_user_file_ok:
  assumes "write_user_file L sk env u = (0, fo)" "user_ok L u"
  obtains sig1 sig2 pkey where "rsa_pubkey2wire L (u_pkey u) = Some pkey"
    "rsa_pss_sign L sk (user_file_prefix L u) = Some sig1"
    "rsa_pss_sign L sk (user_file_prefix L u @ sig1 @ pkey) = Some sig2"
    "fo = Some (user_file_prefix L u @ sig1 @ pkey @ sig2)"
  using assms by (auto simp: write_user_file_def user_ok_def Let_def split: if_splits option.splits)

lemma parse_written_user_file:
  assumes "lib_ok L" "hex_ok L" "rsa_pub_key L sk = Some spk" "user_ok L u"
    "write_user_file L sk env u = (0, fo)" "0 < (sk_bits sk + 7) div 8" "rsa_pubkey_bufsize L (pk_bits (u_pkey u)) \<le> 2 ^ 62"
  shows "parse_user_file L spk (\<lambda>_. True) (to_hex L (u_uid u)) fo = Done (Some u)"
proof -
  note ok = lib_ok_parts [OF assms(1)]
  from write_user_file_ok [OF assms(5,4)] obtain sig1 sig2 pkey where w:
    "rsa_pubkey2wire L (u_pkey u) = Some pkey" "rsa_pss_sign L sk (user_file_prefix L u) = Some sig1"
    "rsa_pss_sign L sk (user_file_prefix L u @ sig1 @ pkey) = Some sig2"
    "fo = Some (user_file_prefix L u @ sig1 @ pkey @ sig2)" by blast
  let ?sl = "(sk_bits sk + 7) div 8" and ?ps = "rsa_pubkey_bufsize L (pk_bits (u_pkey u))"
  have pk: "rsa_wire2pubkey L pkey = Some (u_pkey u)" "length pkey = unat ?ps" "8 \<le> length pkey"
    using rsa_pubkey_wireD [OF ok(7) w(1)] by simp_all
  have s1: "rsa_pss_verify L spk sig1 (user_file_prefix L u) = Some True" "length sig1 = unat ?sl"
    using rsa_signD [OF ok(7) assms(3) w(2)] by simp_all
  have s2: "rsa_pss_verify L spk sig2 (user_file_prefix L u @ sig1 @ pkey) = Some True" "length sig2 = unat ?sl"
    using rsa_signD [OF ok(7) assms(3) w(3)] by simp_all
  have bits: "pk_bits spk = sk_bits sk" using rsa_bitsD [OF ok(7) assms(3)] .
  have slp: "0 < unat ?sl" using assms(6) by (simp add: word_less_nat_alt)
  have slb: "unat ?sl < 2 ^ 62"
  proof -
    have "unat (sk_bits sk + 7) div 8 < 2 ^ 62" using unat64_less [of "sk_bits sk + 7"] by simp
    then show ?thesis by (simp add: unat_div)
  qed
  have psb: "unat ?ps \<le> 2 ^ 62" using assms(7) by (simp add: word_le_nat_alt)
  have t1: "unat (0x50 + ?sl) = 0x50 + unat ?sl"
    using slb unat_plus_small [of "0x50" ?sl] by simp
  then have tot: "unat (0x50 + ?sl + ?ps) = 0x50 + unat ?sl + unat ?ps"
    using slb psb unat_plus_small [of "0x50 + ?sl" ?ps] by simp
  have len: "length (u_uid u) = 32" "length (u_auth u) = 32" "length (to_hex L (u_uid u)) = 64"
    using assms(2,4) by (simp_all add: user_ok_def wire_simps)
  have pl: "0 < length pkey" using pk(3) by linarith
  let ?uid = "u_uid u" and ?und = "u_auth u" and ?sz = "encbe64 L (rsa_pubkey_bufsize L (pk_bits (u_pkey u)))"
  let ?pre = "USER_FILE_MAGIC @ ?uid @ ?und @ ?sz"
  have pre: "user_file_prefix L u = ?pre" by (simp add: user_file_prefix_def)
  have f: "fo = Some (USER_FILE_MAGIC @ ?uid @ ?und @ ?sz @ sig1 @ pkey @ sig2)" by (simp add: w(4) pre)
  have r: "rd1 8 (USER_FILE_MAGIC @ i) = Some (USER_FILE_MAGIC, i)" "rd1 0x20 (?uid @ i) = Some (?uid, i)"
    "rd1 0x20 (?und @ i) = Some (?und, i)" "rd1 8 (?sz @ i) = Some (?sz, i)"
    "rd1 (unat ?sl) (sig1 @ i) = Some (sig1, i)" "rd1 (unat ?ps) (pkey @ i) = Some (pkey, i)"
    "rd1 (unat ?sl) sig2 = Some (sig2, [])" for i
    using len ok(1) s1(2) s2(2) slp pk(2) pl by (simp_all add: endian_simps)
  have hex: "memcmp_ct L ?uid (from_hex L (drop (length (to_hex L ?uid) - 64) (to_hex L ?uid))) = 0"
    using len(3) assms(2) ok(2) by (simp add: hex_simps memcmp_ct_same)
  have dec: "decbe64 L ?sz = ?ps" using ok(1) by (simp add: endian_simps)
  have tot': "\<not> unat (0x50 + ?sl + ?ps) < 0x50 + unat ?sl + unat ?ps" using tot by linarith
  have v2: "rsa_pss_verify L spk sig2 (?pre @ sig1 @ pkey) = Some True" using s2(1) by (simp only: pre)
  have v1: "rsa_pss_verify L spk sig1 ?pre = Some True" using s1(1) by (simp only: pre)
  show ?thesis
    unfolding parse_user_file_def f option.case r prod.case Let_def hex dec bits
    using tot' v1 v2 by (simp only: not_True_eq_False if_False r option.case prod.case simp_thms pk(1)
        option.map append_assoc) (cases u, simp)
qed

section \<open>Registration and restart\<close>

definition uw_ok :: "user_write_env \<Rightarrow> bool" where
  "uw_ok env \<longleftrightarrow> uw_path env \<and> uw_open env \<and> uw_buf env \<and> uw_short env = None"

text \<open>A server that can sign, and whose signatures are not empty.\<close>

definition signer_ok :: "ibc \<Rightarrow> rsa_key \<Rightarrow> rsa_public_key \<Rightarrow> bool" where
  "signer_ok L sk spk \<longleftrightarrow> rsa_pub_key L sk = Some spk \<and> (\<forall>m. rsa_pss_sign L sk m \<noteq> None) \<and>
     0 < (sk_bits sk + 7) div 8"

definition reg_ok :: "ibc \<Rightarrow> user \<Rightarrow> bool" where
  "reg_ok L u \<longleftrightarrow> user_ok L u \<and> rsa_pubkey_bufsize L (pk_bits (u_pkey u)) \<le> 2 ^ 62"

lemma write_user_file_total:
  assumes "signer_ok L sk spk" "uw_ok env"
  shows "\<exists>f. write_user_file L sk env u = (0, Some f)"
proof -
  let ?pkey = "case_option (uw_junk env) (\<lambda>w. w) (rsa_pubkey2wire L (u_pkey u))"
  obtain sig1 where s1: "rsa_pss_sign L sk (user_file_prefix L u) = Some sig1"
    using assms(1) by (auto simp: signer_ok_def)
  obtain sig2 where s2: "rsa_pss_sign L sk (user_file_prefix L u @ sig1 @ ?pkey) = Some sig2"
    using assms(1) by (auto simp: signer_ok_def)
  show ?thesis using assms(2) s1 s2 by (simp add: write_user_file_def uw_ok_def Let_def)
qed

lemma user_db_add_ok:
  assumes "cmp_ok L" "signer_ok L sk spk" "uw_ok env" "db_inv L db" "length (u_uid u) = 32"
    "size (db_users db) < 12" "\<forall>v \<in># db_users db. u_uid v \<noteq> u_uid u"
  shows "\<exists>db' f. user_db_add L sk env True mem db fs u = Done (0, db', fs(to_hex L (u_uid u) \<mapsto> f)) \<and>
    write_user_file L sk env u = (0, Some f) \<and> db_inv L db' \<and> db_users db' = add_mset u (db_users db)"
proof -
  from user_db_get_spec [OF assms(1,4,5)] assms(7) have g: "user_db_get L db (u_uid u) = Done None"
    by (metis not_None_eq)
  from write_user_file_total [OF assms(2,3), of u] obtain f where f: "write_user_file L sk env u = (0, Some f)"
    by blast
  from add_no_write_ok [OF assms(4-6), of mem] obtain db' where
    "user_db_add_no_write L True mem db u = Done (0, db')" "db_inv L db'"
    "db_users db' = add_mset u (db_users db)" by blast
  with g f show ?thesis by (simp add: user_db_add_def)
qed

text \<open>Registering a list of users, one call after the other.\<close>

fun register_all :: "ibc \<Rightarrow> rsa_key \<Rightarrow> (nat \<Rightarrow> user_write_env) \<Rightarrow> user list \<Rightarrow> user_db \<Rightarrow> (bytes \<rightharpoonup> bytes) \<Rightarrow>
    (user_db \<times> (bytes \<rightharpoonup> bytes)) exec" where
  "register_all L sk env [] db fs = Done (db, fs)"
| "register_all L sk env (u # us) db fs =
     exec_bind (user_db_add L sk (env (length us)) True True db fs u)
       (\<lambda>(r, db', fs'). register_all L sk env us db' fs')"

lemma register_all_ok:
  assumes "lib_ok L" "hex_ok L" "signer_ok L sk spk" "\<forall>i. uw_ok (env i)"
  shows "db_inv L db \<Longrightarrow> \<forall>u \<in> set us. reg_ok L u \<Longrightarrow> distinct (map u_uid us) \<Longrightarrow>
    \<forall>u \<in> set us. \<forall>v \<in># db_users db. u_uid v \<noteq> u_uid u \<Longrightarrow> size (db_users db) + length us \<le> 12 \<Longrightarrow>
    \<exists>db' fs'. register_all L sk env us db fs = Done (db', fs') \<and> db_inv L db' \<and>
      db_users db' = db_users db + mset us \<and>
      dom fs' = dom fs \<union> (\<lambda>u. to_hex L (u_uid u)) ` set us \<and>
      (\<forall>u \<in> set us. parse_user_file L spk (\<lambda>_. True) (to_hex L (u_uid u)) (fs' (to_hex L (u_uid u))) = Done (Some u)) \<and>
      (\<forall>name. name \<notin> (\<lambda>u. to_hex L (u_uid u)) ` set us \<longrightarrow> fs' name = fs name)"
proof (induction us arbitrary: db fs)
  case Nil
  then show ?case by simp
next
  case (Cons u us)
  note ok = lib_ok_parts [OF assms(1)]
  have u: "reg_ok L u" "length (u_uid u) = 32" using Cons.prems(2) by (simp_all add: reg_ok_def user_ok_def)
  have envs: "uw_ok (env (length us))" using assms(4) by blast
  have fresh: "\<forall>v \<in># db_users db. u_uid v \<noteq> u_uid u" using Cons.prems(4) by simp
  have "size (db_users db) < 12" using Cons.prems(5) by simp
  from user_db_add_ok [OF ok(2) assms(3) envs Cons.prems(1) u(2) this fresh, of True fs] obtain db1 f where
    a: "user_db_add L sk (env (length us)) True True db fs u = Done (0, db1, fs(to_hex L (u_uid u) \<mapsto> f))"
    "write_user_file L sk (env (length us)) u = (0, Some f)" "db_inv L db1"
    "db_users db1 = add_mset u (db_users db)" by blast
  have "\<forall>w \<in> set us. \<forall>v \<in># db_users db1. u_uid v \<noteq> u_uid w"
    using Cons.prems(3,4) a(4) by auto
  moreover have "size (db_users db1) + length us \<le> 12" using Cons.prems(5) a(4) by simp
  moreover have "\<forall>u \<in> set us. reg_ok L u" "distinct (map u_uid us)" using Cons.prems(2,3) by simp_all
  ultimately obtain db2 fs2 where b:
    "register_all L sk env us db1 (fs(to_hex L (u_uid u) \<mapsto> f)) = Done (db2, fs2)" "db_inv L db2"
    "db_users db2 = db_users db1 + mset us"
    "dom fs2 = dom (fs(to_hex L (u_uid u) \<mapsto> f)) \<union> (\<lambda>u. to_hex L (u_uid u)) ` set us"
    "\<forall>w \<in> set us. parse_user_file L spk (\<lambda>_. True) (to_hex L (u_uid w)) (fs2 (to_hex L (u_uid w))) = Done (Some w)"
    "\<forall>name. name \<notin> (\<lambda>u. to_hex L (u_uid u)) ` set us \<longrightarrow> fs2 name = (fs(to_hex L (u_uid u) \<mapsto> f)) name"
    using Cons.IH [OF a(3), of "fs(to_hex L (u_uid u) \<mapsto> f)"] by blast
  have inj: "to_hex L (u_uid u) \<notin> (\<lambda>u. to_hex L (u_uid u)) ` set us"
    using Cons.prems(3) hex_simps(3) [OF assms(2)] by auto (metis image_eqI)
  have "parse_user_file L spk (\<lambda>_. True) (to_hex L (u_uid u)) (Some f) = Done (Some u)"
    using parse_written_user_file [OF assms(1,2) _ _ a(2)] assms(3) u(1)
    by (simp add: signer_ok_def reg_ok_def)
  with inj b(6) have p: "parse_user_file L spk (\<lambda>_. True) (to_hex L (u_uid u)) (fs2 (to_hex L (u_uid u))) = Done (Some u)"
    by simp
  show ?case
    by (rule exI [of _ db2], rule exI [of _ fs2])
      (use a b p in \<open>auto simp: dom_def split: if_splits\<close>)
qed

text \<open>The rounds of \<open>load_user_files\<close> that find all the memory they need (a resize may find none).\<close>

definition load_ok :: "(nat \<Rightarrow> load_env) \<Rightarrow> bool" where
  "load_ok env \<longleftrightarrow> (\<forall>i. le_parse (env i) = (\<lambda>_. True) \<and> le_ent (env i))"

lemma load_ok_Suc: "load_ok env \<Longrightarrow> load_ok (\<lambda>i. env (Suc i))"
  by (simp add: load_ok_def)

text \<open>A directory entry that is not the file of a user: by its name, or by what is in it.\<close>

definition no_user_file :: "ibc \<Rightarrow> rsa_public_key \<Rightarrow> (bytes \<rightharpoonup> bytes) \<Rightarrow> bytes \<Rightarrow> bool" where
  "no_user_file L spk fs name \<longleftrightarrow> take 1 name = [46] \<or> length name \<noteq> 64 \<or> \<not> list_all hex_char name \<or>
     parse_user_file L spk (\<lambda>_. True) name (fs name) = Done None"

lemma hex_name:
  assumes "hex_ok L" "length (u_uid u) = 32"
  shows "take 1 (to_hex L (u_uid u)) \<noteq> [46]" "length (to_hex L (u_uid u)) = 64" "list_all hex_char (to_hex L (u_uid u))"
proof -
  show n: "length (to_hex L (u_uid u)) = 64" "list_all hex_char (to_hex L (u_uid u))"
    using hex_simps [OF assms(1)] assms(2) by simp_all
  then show "take 1 (to_hex L (u_uid u)) \<noteq> [46]"
    by (cases "to_hex L (u_uid u)") (auto simp: hex_char_def word_le_nat_alt)
qed

text \<open>What is loaded are the users of the entries that are user files, whatever stands between them.\<close>

lemma load_user_files_ok:
  assumes "hex_ok L" "load_ok env"
    and "\<forall>n \<in> set names. no_user_file L spk fs n \<or> n \<in> (\<lambda>u. to_hex L (u_uid u)) ` U"
    and "\<forall>u \<in> U. length (u_uid u) = 32 \<and>
      parse_user_file L spk (\<lambda>_. True) (to_hex L (u_uid u)) (fs (to_hex L (u_uid u))) = Done (Some u)"
    and "db_inv L db" "size (db_users db) + length us \<le> 12"
    and "filter (\<lambda>n. \<not> no_user_file L spk fs n) names = map (\<lambda>u. to_hex L (u_uid u)) us" "set us \<subseteq> U"
  shows "\<exists>db'. load_user_files L spk env fs names db = Done db' \<and> db_inv L db' \<and>
      db_users db' = db_users db + mset us"
  using assms(2,3,5-)
proof (induction names arbitrary: env db us)
  case Nil
  then show ?case by simp
next
  case (Cons n names)
  note env = load_ok_Suc [OF Cons.prems(1)]
  have le: "le_parse (env 0) = (\<lambda>_. True)" "le_ent (env 0)" using Cons.prems(1) by (simp_all add: load_ok_def)
  have rest: "\<forall>n \<in> set names. no_user_file L spk fs n \<or> n \<in> (\<lambda>u. to_hex L (u_uid u)) ` U"
    using Cons.prems(2) by simp
  show ?case
  proof (cases "no_user_file L spk fs n")
    case True
    with Cons.prems(5) have "filter (\<lambda>n. \<not> no_user_file L spk fs n) names = map (\<lambda>u. to_hex L (u_uid u)) us" by simp
    from Cons.IH [OF env rest Cons.prems(3,4) this Cons.prems(6)] True show ?thesis
      by (auto simp: no_user_file_def le)
  next
    case False
    with Cons.prems(5) obtain u us' where us: "us = u # us'" "n = to_hex L (u_uid u)"
      "filter (\<lambda>n. \<not> no_user_file L spk fs n) names = map (\<lambda>u. to_hex L (u_uid u)) us'"
      by (auto simp: Cons_eq_map_conv)
    have u: "length (u_uid u) = 32" "parse_user_file L spk (\<lambda>_. True) n (fs n) = Done (Some u)"
      using Cons.prems(6) assms(4) us(1,2) by auto
    have "size (db_users db) < 12" using Cons.prems(4) us(1) by simp
    from add_no_write_ok [OF Cons.prems(3) u(1) this, of "le_mem (env 0)"] obtain db1 where
      a: "user_db_add_no_write L True (le_mem (env 0)) db u = Done (0, db1)" "db_inv L db1"
      "db_users db1 = add_mset u (db_users db)" by blast
    have sz: "size (db_users db1) + length us' \<le> 12" and sub: "set us' \<subseteq> U"
      using Cons.prems(4,6) a(3) us(1) by simp_all
    from Cons.IH [OF env rest a(2) sz us(3) sub] show ?thesis
      using u a le hex_name [OF assms(1) u(1)] us(1,2) by auto
  qed
qed

text \<open>With distinct ids, the users in the table decide every look-up.\<close>

lemma user_db_get_by_users:
  assumes "cmp_ok L" "db_inv L db" "db_inv L db'" "db_users db = db_users db'" "length uid = 32"
    "inj_on u_uid (set_mset (db_users db))"
  shows "user_db_get L db uid = user_db_get L db' uid"
proof -
  from user_db_get_spec [OF assms(1,2,5)] obtain r where
    r: "user_db_get L db uid = Done r" "r = None \<Longrightarrow> \<forall>u \<in># db_users db. u_uid u \<noteq> uid"
    "\<And>u. r = Some u \<Longrightarrow> u \<in># db_users db \<and> u_uid u = uid" by blast
  from user_db_get_spec [OF assms(1,3,5)] obtain r' where
    r': "user_db_get L db' uid = Done r'" "r' = None \<Longrightarrow> \<forall>u \<in># db_users db. u_uid u \<noteq> uid"
    "\<And>u. r' = Some u \<Longrightarrow> u \<in># db_users db \<and> u_uid u = uid"
    unfolding assms(4) by blast
  have "r = r'"
  proof (cases r)
    case None
    with r(2) r'(3) show ?thesis by (cases r') auto
  next
    case (Some u)
    with r(3) r'(2,3) assms(6) show ?thesis by (cases r') (auto dest: inj_onD)
  qed
  with r(1) r'(1) show ?thesis by simp
qed

text \<open>
  A listing of the user directory after \<open>fs\<close> was written: it names each of its files, each once, and
  whatever else is listed (\<open>.\<close> and \<open>..\<close>, other names, files that do not parse) is no user's file. The
  directory may hold more files than \<open>fs\<close>.
\<close>

definition listing_of :: "ibc \<Rightarrow> rsa_public_key \<Rightarrow> (bytes \<rightharpoonup> bytes) \<Rightarrow> (bytes \<rightharpoonup> bytes) \<Rightarrow> bytes list \<Rightarrow> bool" where
  "listing_of L spk fs dir names \<longleftrightarrow> distinct names \<and> fs \<subseteq>\<^sub>m dir \<and> dom fs \<subseteq> set names \<and>
     (\<forall>n \<in> set names - dom fs. no_user_file L spk dir n)"

lemma registered_users_reload:
  assumes "lib_ok L" and "hex_ok L" and "signer_ok L sk spk" and "\<forall>i. uw_ok (env i)"
    and "\<forall>u \<in> set us. reg_ok L u" and "distinct (map u_uid us)" and "length us \<le> 12"
  shows "\<exists>db fs. register_all L sk env us init_user_db_st Map.empty = Done (db, fs) \<and>
    (\<forall>dir names lenv. listing_of L spk fs dir names \<and> load_ok lenv \<longrightarrow>
      (\<exists>db'. load_user_files L spk lenv dir names init_user_db_st = Done db' \<and>
        (\<forall>uid. length uid = 32 \<longrightarrow> user_db_get L db' uid = user_db_get L db uid))) \<and>
    (\<forall>u \<in> set us. user_db_get L db (u_uid u) = Done (Some u)) \<and>
    dom fs = (\<lambda>u. to_hex L (u_uid u)) ` set us"
proof -
  note ok = lib_ok_parts [OF assms(1)] and init = db_inv_init
  from register_all_ok [OF assms(1-4) init(1) assms(5,6), where fs = Map.empty] init(2) assms(7) obtain db fs where
    a: "register_all L sk env us init_user_db_st Map.empty = Done (db, fs)" "db_inv L db" "db_users db = mset us"
    "dom fs = (\<lambda>u. to_hex L (u_uid u)) ` set us"
    "\<forall>u \<in> set us. parse_user_file L spk (\<lambda>_. True) (to_hex L (u_uid u)) (fs (to_hex L (u_uid u))) = Done (Some u)"
    by auto
  have len: "\<forall>u \<in> set us. length (u_uid u) = 32" using assms(5) by (simp add: reg_ok_def user_ok_def)
  have inj: "inj_on u_uid (set_mset (db_users db))" using assms(6) a(3) by (simp add: distinct_map)
  let ?hex = "\<lambda>u :: user. to_hex L (u_uid u)"
  have load: "\<exists>db'. load_user_files L spk lenv dir names init_user_db_st = Done db' \<and>
      (\<forall>uid. length uid = 32 \<longrightarrow> user_db_get L db' uid = user_db_get L db uid)"
    if l: "listing_of L spk fs dir names" and lenv: "load_ok lenv" for dir names lenv
  proof -
    have names: "distinct names" "fs \<subseteq>\<^sub>m dir" "dom fs \<subseteq> set names" "\<forall>n \<in> set names - dom fs. no_user_file L spk dir n"
      using l by (simp_all add: listing_of_def)
    have dir: "dir (?hex u) = fs (?hex u)" if "u \<in> set us" for u
      using names(2) a(4) that by (metis map_le_def imageI)
    have p: "\<forall>u \<in> set us. length (u_uid u) = 32 \<and>
        parse_user_file L spk (\<lambda>_. True) (to_hex L (u_uid u)) (dir (to_hex L (u_uid u))) = Done (Some u)"
      using len a(5) dir by simp
    have isfile: "\<not> no_user_file L spk dir (?hex u)" if "u \<in> set us" for u
      using p hex_name [OF assms(2), of u] that by (simp add: no_user_file_def)
    have cover: "\<forall>n \<in> set names. no_user_file L spk dir n \<or> n \<in> ?hex ` set us"
      using names(4) a(4) by blast
    let ?files = "filter (\<lambda>n. \<not> no_user_file L spk dir n) names"
    have hinj: "inj_on ?hex (set us)"
      by (rule inj_onI) (metis (no_types) assms(2,6) distinct_map hex_simps(3) inj_onD)
    then have dist: "distinct (map ?hex us)" using assms(6) by (simp add: distinct_map)
    have "set ?files = set (map ?hex us)" using cover names(3) a(4) isfile by auto
    with names(1) dist have "mset ?files = mset (map ?hex us)" by (metis set_eq_iff_mset_eq_distinct distinct_filter)
    then have m: "mset ?files = image_mset ?hex (mset us)" by simp
    let ?inv = "inv_into (set us) ?hex"
    let ?us = "map ?inv ?files"
    have nm: "?files = map ?hex ?us"
    proof -
      have "?hex (?inv n) = n" if "n \<in> set ?files" for n
        by (rule f_inv_into_f) (use that cover in auto)
      then show ?thesis unfolding map_map by (intro map_idI [symmetric]) simp
    qed
    have "mset ?us = image_mset (\<lambda>u. ?inv (?hex u)) (mset us)"
      by (simp only: mset_map m image_mset.compositionality o_def)
    also have "\<dots> = image_mset (\<lambda>u. u) (mset us)"
      by (rule image_mset_cong) (simp add: inv_into_f_f [OF hinj])
    finally have us: "mset ?us = mset us" by simp
    have "size (db_users init_user_db_st) + length ?us \<le> 12"
      using assms(7) mset_eq_length [OF us] by (simp only: init) simp
    from load_user_files_ok [OF assms(2) lenv cover p init(1) this nm] obtain db' where
      db': "load_user_files L spk lenv dir names init_user_db_st = Done db'" "db_inv L db'" "db_users db' = mset us"
      unfolding us init(2) using mset_eq_setD [OF us] by auto
    then show ?thesis using user_db_get_by_users [OF ok(2) db'(2) a(2)] a(3) inj by auto
  qed
  have found: "user_db_get L db (u_uid u) = Done (Some u)" if "u \<in> set us" for u
  proof -
    from user_db_get_spec [OF ok(2) a(2), of "u_uid u"] len that obtain r where
      r: "user_db_get L db (u_uid u) = Done r" "r = None \<Longrightarrow> \<forall>v \<in># db_users db. u_uid v \<noteq> u_uid u"
      "\<And>v. r = Some v \<Longrightarrow> v \<in># db_users db \<and> u_uid v = u_uid u" by blast
    with that a(3) inj show ?thesis by (cases r) (auto dest: inj_onD)
  qed
  from a(1,4) load found show ?thesis by blast
qed

section \<open>Properties\<close>

definition demo_user :: user where
  "demo_user = \<lparr>u_pkey = \<lparr>pk_bits = 16, pk_e = 3, pk_n = 77\<rparr>, u_uid = replicate 32 1, u_auth = replicate 32 2\<rparr>"

definition demo_uw_env :: user_write_env where
  "demo_uw_env = \<lparr>uw_path = True, uw_open = True, uw_buf = True, uw_short = None, uw_junk = []\<rparr>"

definition demo_server_key :: rsa_key where
  "demo_server_key = \<lparr>sk_bits = 16, sk_e = 3, sk_n = 77, sk_d = 5\<rparr>"

definition demo_server_pub :: rsa_public_key where
  "demo_server_pub = \<lparr>pk_bits = 16, pk_e = 3, pk_n = 77\<rparr>"

lemma demo_signer_ok: "signer_ok demo_lib demo_server_key demo_server_pub"
  by (simp add: signer_ok_def demo_lib_def demo_server_key_def demo_server_pub_def)

lemma demo_reg_ok: "reg_ok demo_lib demo_user"
  by (simp add: reg_ok_def user_ok_def demo_user_def demo_lib_def)

text \<open>
  The user table breaks at the thirteenth user: \<open>resize\<close> allocates an array of the old size and
  then walks the old array up to the new size, so the next insertion reads outside the buckets; if
  the allocation fails, the table is left with a size larger than its array.
\<close>
theorem thirteenth_user_out_of_bounds:
  assumes "db_inv L db" and "size (db_users db) = 12" and "length (u_uid u) = 32"
  shows "user_db_add_no_write L True True db u = UB \<and>
    (\<exists>db'. user_db_add_no_write L True False db u = Done (1, db') \<and>
      unat (db_size db') = 32 \<and> length (db_buckets db') = 16)"
proof -
  let ?i = "udb_index L 16 (u_uid u)" and ?bs = "db_buckets db"
  let ?db = "db\<lparr>db_buckets := ?bs[?i := u # ?bs ! ?i], db_elements := db_elements db + 1\<rparr>"
  have i: "?i < length ?bs" using db_invD(3) [OF assms(1)] udb_index_less by simp
  have "length (concat ?bs) = 12" using assms(2) by (simp add: db_users_def)
  then have el: "db_elements ?db = 13" using db_invD(4) [OF assms(1)] by simp
  have "udb_resize L mem ?db = (if mem then UB else Done (1, ?db\<lparr>db_size := 32\<rparr>))" for mem
    by (rule udb_resize_thirteen [OF _ _ el]) (use db_invD(1,3) [OF assms(1)] in simp_all)
  then show ?thesis
    using i db_invD(1,3) [OF assms(1)] by (simp add: user_db_add_no_write_def Let_def)
qed

lemma db_inv_fill:
  "n \<le> 12 \<Longrightarrow> \<exists>db. db_inv demo_lib db \<and> size (db_users db) = n"
proof (induction n)
  case 0
  show ?case using db_inv_init by (intro exI [of _ init_user_db_st]) simp
next
  case (Suc n)
  then obtain db where "db_inv demo_lib db" "size (db_users db) = n" by auto
  with add_no_write_ok [of demo_lib db demo_user True] Suc.prems show ?case
    by (fastforce simp: demo_user_def)
qed

theorem thirteenth_user_out_of_bounds_witness:
  "\<exists>db. db_inv demo_lib db \<and> size (db_users db) = 12 \<and>
     user_db_add_no_write demo_lib True True db demo_user = UB"
proof -
  obtain db where db: "db_inv demo_lib db" "size (db_users db) = 12" using db_inv_fill [of 12] by auto
  have "length (u_uid demo_user) = 32" by (simp add: demo_user_def)
  from thirteenth_user_out_of_bounds [OF db this] db show ?thesis by blast
qed

lemma case_opt_Done:
  "(case x of None \<Rightarrow> Done None | Some y \<Rightarrow> f y) = Done (Some u) \<longleftrightarrow> (\<exists>y. x = Some y \<and> f y = Done (Some u))"
  by (cases x) auto

lemma if_Done: "(if c then Done None else y) = Done (Some u) \<longleftrightarrow> \<not> c \<and> y = Done (Some u)"
  by auto

lemma if_UB: "(if c then UB else y) = Done (Some u) \<longleftrightarrow> \<not> c \<and> y = Done (Some u)"
  by auto

text \<open>What \<open>parse_user_file\<close> has checked when it accepts a file.\<close>

definition signed_user_file :: "ibc \<Rightarrow> rsa_public_key \<Rightarrow> bytes \<Rightarrow> user \<Rightarrow> bool" where
  "signed_user_file L spk inp u \<longleftrightarrow> (\<exists>sizebuf sig1 pkey sig2 rest.
    inp = USER_FILE_MAGIC @ u_uid u @ u_auth u @ sizebuf @ sig1 @ pkey @ sig2 @ rest \<and>
    rsa_wire2pubkey L pkey = Some (u_pkey u) \<and> length pkey = unat (decbe64 L sizebuf) \<and>
    rsa_pss_verify L spk sig1 (USER_FILE_MAGIC @ u_uid u @ u_auth u @ sizebuf) = Some True \<and>
    rsa_pss_verify L spk sig2 (USER_FILE_MAGIC @ u_uid u @ u_auth u @ sizebuf @ sig1 @ pkey) = Some True)"

lemma parse_user_file_signed:
  assumes "lib_ok L" and "parse_user_file L spk mem name (Some inp) = Done (Some u)"
    and "length (from_hex L (drop (length name - 64) name)) = 32"
  shows "u_uid u = from_hex L (drop (length name - 64) name) \<and> signed_user_file L spk inp u"
proof -
  note ok = lib_ok_parts [OF assms(1)]
  have rd1: "rd1 n i = Some (xs, r) \<Longrightarrow> i = xs @ r \<and> length xs = n" for n i xs r
    by (auto simp: rd1_def rd_Some split: if_splits)
  from assms(2) obtain i1 uid i2 und i3 sizebuf i4 sig1 i5 pkey i6 sig2 i7 where
    r: "rd1 8 inp = Some (USER_FILE_MAGIC, i1)" "rd1 0x20 i1 = Some (uid, i2)" "rd1 0x20 i2 = Some (und, i3)"
    "rd1 8 i3 = Some (sizebuf, i4)" "rd1 (unat ((pk_bits spk + 7) div 8)) i4 = Some (sig1, i5)"
    "rd1 (unat (decbe64 L sizebuf)) i5 = Some (pkey, i6)" "rd1 (unat ((pk_bits spk + 7) div 8)) i6 = Some (sig2, i7)" and
    c: "memcmp_ct L uid (from_hex L (drop (length name - 64) name)) = 0"
    "rsa_pss_verify L spk sig1 (USER_FILE_MAGIC @ uid @ und @ sizebuf) = Some True"
    "rsa_pss_verify L spk sig2 ((USER_FILE_MAGIC @ uid @ und @ sizebuf) @ sig1 @ pkey) = Some True"
    "map_option (\<lambda>pk. \<lparr>u_pkey = pk, u_uid = uid, u_auth = und\<rparr>) (rsa_wire2pubkey L pkey) = Some u"
    unfolding parse_user_file_def Let_def option.case case_opt_Done if_Done split_paired_Ex prod.case
      if_UB exec.inject by (elim exE conjE) blast
  then obtain pk where u: "rsa_wire2pubkey L pkey = Some pk" "u = \<lparr>u_pkey = pk, u_uid = uid, u_auth = und\<rparr>" by auto
  have "uid = from_hex L (drop (length name - 64) name)"
    using c(1) rd1 [OF r(2)] assms(3) ok by (simp add: memcmp_ct_iff)
  moreover have "inp = USER_FILE_MAGIC @ uid @ und @ sizebuf @ sig1 @ pkey @ sig2 @ i7"
    using r [THEN rd1] by simp
  moreover have "length pkey = unat (decbe64 L sizebuf)" using r(6) [THEN rd1] by simp
  ultimately show ?thesis
    unfolding signed_user_file_def
    using c(2,3) u by (intro conjI exI [of _ sizebuf] exI [of _ sig1] exI [of _ pkey] exI [of _ sig2] exI [of _ i7]) simp_all
qed

text \<open>Neither a resize nor an insertion puts anybody else into the table.\<close>

lemma udb_rehash_users:
  "set (concat (udb_rehash L n us nb)) \<subseteq> set us \<union> set (concat nb)"
proof (induction L n us nb rule: udb_rehash.induct)
  case (1 L nsize nb)
  then show ?case by simp
next
  case (2 L nsize u us nb)
  let ?i = "udb_index L nsize (u_uid u)"
  have "set (concat (nb[?i := u # nb ! ?i])) \<subseteq> insert u (set (concat nb))"
  proof (cases "?i < length nb")
    case True
    then show ?thesis using set_update_subset_insert [of nb ?i "u # nb ! ?i"] nth_mem [OF True] by fastforce
  qed (auto simp: list_update_beyond)
  with 2 show ?case by (auto simp: Let_def)
qed

lemma user_db_add_no_write_users:
  assumes "user_db_add_no_write L ent mem db u = Done (r, db')" "v \<in># db_users db'"
  shows "v = u \<or> v \<in># db_users db"
proof -
  let ?i = "udb_index L (db_size db) (u_uid u)"
  let ?bs = "(db_buckets db)[?i := u # db_buckets db ! ?i]"
  have new: "set (concat ?bs) \<subseteq> insert u (set (concat (db_buckets db)))" if "?i < length (db_buckets db)"
    using set_update_subset_insert [of "db_buckets db" ?i "u # db_buckets db ! ?i"] nth_mem [OF that] by fastforce
  have re: "set (concat (udb_rehash L n (concat (take k bs)) (replicate j []))) \<subseteq> set (concat bs)" for n k bs j
    using udb_rehash_users [of L n "concat (take k bs)" "replicate j []"] by (auto dest: in_set_takeD)
  show ?thesis
    using assms new re [of "db_size db" _ ?bs]
    by (fastforce simp: user_db_add_no_write_def udb_resize_def Let_def db_users_def split: if_split_asm)
qed

lemma load_user_files_signed:
  assumes "lib_ok L"
  shows "load_user_files L spk env fs names db0 = Done db \<Longrightarrow>
    \<forall>n \<in> set names. length n = 64 \<longrightarrow> length (from_hex L n) = 32 \<Longrightarrow>
    \<forall>u \<in># db_users db. u \<in># db_users db0 \<or> (\<exists>name \<in> set names. \<exists>inp. fs name = Some inp \<and> length name = 64 \<and>
      list_all hex_char name \<and> u_uid u = from_hex L name \<and> signed_user_file L spk inp u)"
proof (induction names arbitrary: env db0)
  case Nil
  then show ?case by simp
next
  case (Cons n names)
  from Cons.prems(1) consider
      (skip) "load_user_files L spk (\<lambda>i. env (Suc i)) fs names db0 = Done db"
    | (add) u r db1 where "length n = 64" "list_all hex_char n" "parse_user_file L spk (le_parse (env 0)) n (fs n) = Done (Some u)"
      "user_db_add_no_write L (le_ent (env 0)) (le_mem (env 0)) db0 u = Done (r, db1)"
      "load_user_files L spk (\<lambda>i. env (Suc i)) fs names db1 = Done db"
    by (auto simp: exec_bind_Done_iff split: if_split_asm option.split_asm)
  then show ?case
  proof cases
    case skip
    with Cons.IH Cons.prems(2) show ?thesis by fastforce
  next
    case add
    then obtain inp where inp: "fs n = Some inp" by (cases "fs n") (auto simp: parse_user_file_def)
    have "u_uid u = from_hex L n \<and> signed_user_file L spk inp u"
      using parse_user_file_signed [OF assms add(3) [unfolded inp]] add(1) Cons.prems(2) by simp
    moreover note user_db_add_no_write_users [OF add(4)]
    ultimately show ?thesis using Cons.IH [OF add(5)] Cons.prems(2) add(1,2) inp by fastforce
  qed
qed


lemma length_demo_from_hex: "length (demo_from_hex bs) = length bs div 2"
  by (induction bs rule: demo_from_hex.induct) simp_all

lemma demo_reload:
  assumes "names = [[46], to_hex demo_lib (u_uid demo_user), [46, 46], [120]]"
  shows "\<exists>db fs db'. register_all demo_lib demo_server_key (\<lambda>_. demo_uw_env) [demo_user] init_user_db_st Map.empty = Done (db, fs) \<and>
     listing_of demo_lib demo_server_pub fs fs names \<and>
     load_user_files demo_lib demo_server_pub (\<lambda>_. \<lparr>le_parse = \<lambda>_. True, le_ent = True, le_mem = False\<rparr>) fs names init_user_db_st = Done db' \<and>
     demo_user \<in># db_users db' \<and> db_inv demo_lib db'"
proof -
  let ?lenv = "\<lambda>_ :: nat. \<lparr>le_parse = \<lambda>_. True, le_ent = True, le_mem = False\<rparr> :: load_env"
  have env: "\<forall>i :: nat. uw_ok demo_uw_env" by (simp add: uw_ok_def demo_uw_env_def)
  have ok: "\<forall>u \<in> set [demo_user]. reg_ok demo_lib u" using demo_reg_ok by simp
  from register_all_ok [where env = "\<lambda>_. demo_uw_env", OF demo_lib_ok demo_hex_ok demo_signer_ok env db_inv_init(1) ok, where fs = Map.empty]
  obtain db fs where r: "register_all demo_lib demo_server_key (\<lambda>_. demo_uw_env) [demo_user] init_user_db_st Map.empty = Done (db, fs)"
    and d: "dom fs = {to_hex demo_lib (u_uid demo_user)}" and
    p: "parse_user_file demo_lib demo_server_pub (\<lambda>_. True) (to_hex demo_lib (u_uid demo_user)) (fs (to_hex demo_lib (u_uid demo_user))) = Done (Some demo_user)"
    by (auto simp: db_inv_init(2))
  have len: "length (u_uid demo_user) = 32" by (simp add: demo_user_def)
  note h = hex_name [OF demo_hex_ok len]
  have ne: "to_hex demo_lib (u_uid demo_user) \<notin> {[46], [46, 46], [120]}" using h(2) by auto
  have l: "listing_of demo_lib demo_server_pub fs fs names"
    using ne by (auto simp: listing_of_def assms d no_user_file_def)
  have f: "\<not> no_user_file demo_lib demo_server_pub fs (to_hex demo_lib (u_uid demo_user))"
    using h p by (simp add: no_user_file_def)
  have "\<exists>db'. load_user_files demo_lib demo_server_pub ?lenv fs names init_user_db_st = Done db' \<and> db_inv demo_lib db' \<and>
      db_users db' = db_users init_user_db_st + mset [demo_user]"
    by (rule load_user_files_ok [where U = "{demo_user}", OF demo_hex_ok _ _ _ db_inv_init(1)])
      (use f len p in \<open>auto simp: assms load_ok_def no_user_file_def db_inv_init(2)\<close>)
  then obtain db' where "load_user_files demo_lib demo_server_pub ?lenv fs names init_user_db_st = Done db'"
    "db_inv demo_lib db'" "demo_user \<in># db_users db'" by auto
  with r l show ?thesis by blast
qed


end
