(* ===== verification/Undelivered.thy ===== *)
theory Undelivered
  imports Libs
begin

text \<open>
  \<open>server/undelivered.c\<close>: per user, a file with the messages that arrived while the user was away. A
  header of 48 bytes holds the length of the file, the number of messages and a MAC; each message
  is followed by a MAC that also covers the MAC before it. The file is shown to be a list of
  messages: appending and loading refine the list operations, and the contract is a locale.
\<close>

section \<open>The code\<close>

definition INITIAL_PREV_MAC :: bytes where
  "INITIAL_PREV_MAC = map of_nat [0..<32]"

text \<open>
  \<open>fwrite(buf, size, 1, f) != 1\<close>, where \<open>Some k\<close> stands for a write that stops after \<open>k\<close> bytes; it
  also counts as failed when there is nothing to write.
\<close>

definition fwrite1 :: "nat option \<Rightarrow> bytes \<Rightarrow> stream \<Rightarrow> bool \<times> stream" where
  "fwrite1 short bs s = (case short of
     Some k \<Rightarrow> (False, fwrite_n (take k bs) s)
   | None \<Rightarrow> (bs \<noteq> [], fwrite_n bs s))"

definition fread1 :: "nat \<Rightarrow> stream \<Rightarrow> (bytes \<times> stream) option" where
  "fread1 n s = (if n = 0 then None else fread_n n s)"

definition undel_header :: "ibc \<Rightarrow> bytes \<Rightarrow> u64 \<Rightarrow> u64 \<Rightarrow> bytes" where
  "undel_header L auth flen mnum =
     (let b = encbe64 L flen @ encbe64 L mnum in b @ hmac_sha256 L auth b)"

text \<open>What a call meets: the path's allocation, \<open>fopen\<close>, the outcome of the k-th write and allocation.\<close>

record undel_env =
  ue_path :: bool
  ue_open :: bool
  ue_tx :: "nat \<Rightarrow> nat option"
  ue_mem :: "nat \<Rightarrow> bool"

text \<open>\<open>undel_init_file\<close>: the result and the new content of the file, if it was opened.\<close>

definition undel_init_file :: "ibc \<Rightarrow> undel_env \<Rightarrow> bytes \<Rightarrow> int \<times> bytes option" where
  "undel_init_file L env auth =
     (if \<not> ue_path env then (-1, None)
      else if \<not> ue_open env then (-1, None)
      else case send_fields (ue_tx env) [undel_header L auth 0x30 0] of
        (ok, w) \<Rightarrow> (if ok then 0 else -1, Some w))"

text \<open>
  \<open>undel_add_message\<close> on the present content of the file. The header is overwritten first; then the
  MAC of the last message is read, and the new message and its MAC are written at the end.
\<close>

definition undel_append :: "ibc \<Rightarrow> undel_env \<Rightarrow> bytes \<Rightarrow> bytes \<Rightarrow> u64 \<Rightarrow> u64 \<Rightarrow> stream \<Rightarrow> int \<times> stream" where
  "undel_append L env auth message flen mnum s =
     (case fseek_set (flen - 32) s of
       None \<Rightarrow> (-1, s)
     | Some s2 \<Rightarrow> (case fread1 0x20 s2 of
       None \<Rightarrow> (-1, s2)
     | Some (pm, s3) \<Rightarrow>
       let prev_mac = (if mnum = 0 then INITIAL_PREV_MAC else pm);
           len_buf = encbe64 L (of_nat (length message));
           mac = hmac_sha256 L auth (prev_mac @ len_buf @ message)
       in (case fwrite1 (ue_tx env 1) len_buf s3 of
         (False, s4) \<Rightarrow> (-1, s4)
       | (True, s4) \<Rightarrow> (case fwrite1 (ue_tx env 2) message s4 of
         (False, s5) \<Rightarrow> (-1, s5)
       | (True, s5) \<Rightarrow> (case fwrite1 (ue_tx env 3) mac s5 of
         (False, s6) \<Rightarrow> (-1, s6)
       | (True, s6) \<Rightarrow> (0, s6))))))"

definition undel_add_message :: "ibc \<Rightarrow> undel_env \<Rightarrow> bytes \<Rightarrow> bytes \<Rightarrow> bytes \<Rightarrow> (int \<times> bytes) exec" where
  "undel_add_message L env auth message file =
     (if \<not> ue_path env then Done (-1, file)
      else if \<not> ue_open env then UB
      else case fread1 0x30 (fopen_bytes file) of
        None \<Rightarrow> Done (-1, file)
      | Some (prefix, s) \<Rightarrow>
        if memcmp_ct L (hmac_sha256 L auth (take 0x10 prefix)) (drop 0x10 prefix) \<noteq> 0 then Done (-1, file)
        else let flen = decbe64 L (take 8 prefix); mnum = decbe64 L (slice 8 8 prefix) in
          (case fseek_set 0 s of
            None \<Rightarrow> Done (-1, file)
          | Some s1 \<Rightarrow>
            (case fwrite1 (ue_tx env 0)
                (undel_header L auth (flen + 8 + of_nat (length message) + 32) (mnum + 1)) s1 of
              (False, s2) \<Rightarrow> Done (-1, st_data s2)
            | (True, s2) \<Rightarrow>
              (case undel_append L env auth message flen mnum s2 of (r, s3) \<Rightarrow> Done (r, st_data s3)))))"

text \<open>The loop of \<open>undel_load\<close>; a failed \<open>alloc_umessage\<close> is not noticed.\<close>

fun undel_read :: "ibc \<Rightarrow> bytes \<Rightarrow> (nat \<Rightarrow> bool) \<Rightarrow> nat \<Rightarrow> nat \<Rightarrow> bytes \<Rightarrow> bytes \<Rightarrow> bytes list option exec" where
  "undel_read L auth mem i 0 prev inp = Done (Some [])"
| "undel_read L auth mem i (Suc n) prev inp = (case rd 8 inp of
     None \<Rightarrow> Done None
   | Some (len_buf, i1) \<Rightarrow>
     if \<not> mem i then UB
     else (case (if decbe64 L len_buf = 0 then None else rd (unat (decbe64 L len_buf)) i1) of
       None \<Rightarrow> Done None
     | Some (m, i2) \<Rightarrow>
       let macc = hmac_sha256 L auth (prev @ len_buf @ m) in (case rd 0x20 i2 of
         None \<Rightarrow> Done None
       | Some (macf, i3) \<Rightarrow>
         if memcmp_ct L macc macf \<noteq> 0 then Done None
         else exec_bind (undel_read L auth mem (Suc i) n macf i3) (\<lambda>r.
           Done (map_option (Cons m) r)))))"

text \<open>\<open>undel_load\<close>: the result, the messages stored through \<open>messages\<close>, and the content of the file.\<close>

definition undel_load :: "ibc \<Rightarrow> undel_env \<Rightarrow> undel_env \<Rightarrow> bytes \<Rightarrow> bytes \<Rightarrow> (int \<times> bytes list option \<times> bytes) exec" where
  "undel_load L env env' auth file =
     (if \<not> ue_path env then Done (-1, None, file)
      else if \<not> ue_open env then UB
      else case rd 0x30 file of
        None \<Rightarrow> Done (-1, None, file)
      | Some (prefix, inp) \<Rightarrow>
        if memcmp_ct L (hmac_sha256 L auth (take 0x10 prefix)) (drop 0x10 prefix) \<noteq> 0 then Done (-1, None, file)
        else exec_bind (undel_read L auth (ue_mem env) 0 (unat (decbe64 L (slice 8 8 prefix))) INITIAL_PREV_MAC inp)
          (\<lambda>r. case r of
             None \<Rightarrow> Done (-1, None, file)
           | Some ms \<Rightarrow> (case undel_init_file L env' auth of
               (ret, f) \<Rightarrow> Done (ret, Some ms, case_option file (\<lambda>c. c) f))))"

section \<open>The file as a list of messages\<close>

fun entries :: "ibc \<Rightarrow> bytes \<Rightarrow> bytes \<Rightarrow> bytes list \<Rightarrow> bytes" where
  "entries L auth prev [] = []"
| "entries L auth prev (m # ms) =
     (let lb = encbe64 L (of_nat (length m)); mac = hmac_sha256 L auth (prev @ lb @ m)
      in lb @ m @ mac @ entries L auth mac ms)"

definition entries_length :: "bytes list \<Rightarrow> nat" where
  "entries_length ms = sum_list (map (\<lambda>m. 40 + length m) ms)"

definition undel_file :: "ibc \<Rightarrow> bytes \<Rightarrow> bytes list \<Rightarrow> bytes" where
  "undel_file L auth ms =
     undel_header L auth (of_nat (48 + entries_length ms)) (of_nat (length ms)) @
     entries L auth INITIAL_PREV_MAC ms"

text \<open>The MAC that the next message is chained to.\<close>

fun last_mac :: "ibc \<Rightarrow> bytes \<Rightarrow> bytes \<Rightarrow> bytes list \<Rightarrow> bytes" where
  "last_mac L auth prev [] = prev"
| "last_mac L auth prev (m # ms) =
     last_mac L auth (hmac_sha256 L auth (prev @ encbe64 L (of_nat (length m)) @ m)) ms"

definition storable :: "bytes \<Rightarrow> bool" where
  "storable m \<longleftrightarrow> m \<noteq> [] \<and> length m < 2 ^ 60"

lemma length_entries: "lib_ok L \<Longrightarrow> length (entries L auth prev ms) = entries_length ms"
  by (induction ms arbitrary: prev)
    (simp_all add: entries_length_def Let_def endian_simps [OF lib_ok_parts(1)] digest_simps [OF lib_ok_parts(3)])

lemma entries_append:
  "entries L auth prev (ms @ [m]) = entries L auth prev ms @ entries L auth (last_mac L auth prev ms) [m]"
  by (induction ms arbitrary: prev) (simp_all add: Let_def)

text \<open>The last 32 bytes of the entries are the MAC to chain to.\<close>

lemma entries_last_mac:
  assumes "lib_ok L" "ms \<noteq> []"
  shows "\<exists>xs. entries L auth prev ms = xs @ last_mac L auth prev ms \<and> length xs + 32 = entries_length ms"
  using assms(2)
proof (induction ms arbitrary: prev)
  case Nil
  then show ?case by simp
next
  case (Cons m ms)
  note ok = lib_ok_parts [OF assms(1)]
  let ?lb = "encbe64 L (of_nat (length m))"
  let ?mac = "hmac_sha256 L auth (prev @ ?lb @ m)"
  show ?case
  proof (cases "ms = []")
    case True
    then show ?thesis
      using ok by (intro exI [of _ "?lb @ m"]) (simp add: entries_length_def endian_simps Let_def)
  next
    case False
    from Cons.IH [OF this, of ?mac] obtain xs where
      "entries L auth ?mac ms = xs @ last_mac L auth ?mac ms" "length xs + 32 = entries_length ms" by blast
    then show ?thesis
      using ok by (intro exI [of _ "?lb @ m @ ?mac @ xs"])
        (simp add: entries_length_def endian_simps digest_simps Let_def)
  qed
qed

lemma length_INITIAL [simp]: "length INITIAL_PREV_MAC = 32"
  by (simp add: INITIAL_PREV_MAC_def)

lemma length_undel_header: "lib_ok L \<Longrightarrow> length (undel_header L auth a b) = 48"
  by (simp add: undel_header_def Let_def endian_simps [OF lib_ok_parts(1)] digest_simps [OF lib_ok_parts(3)])

lemma header_fields:
  assumes "lib_ok L"
  shows "take 8 (undel_header L auth a b) = encbe64 L a" "slice 8 8 (undel_header L auth a b) = encbe64 L b"
    "memcmp_ct L (hmac_sha256 L auth (take 16 (undel_header L auth a b))) (drop 16 (undel_header L auth a b)) = 0"
proof -
  note ok = lib_ok_parts [OF assms]
  have h: "undel_header L auth a b = encbe64 L a @ encbe64 L b @ hmac_sha256 L auth (encbe64 L a @ encbe64 L b)"
    by (simp add: undel_header_def)
  show "take 8 (undel_header L auth a b) = encbe64 L a" "slice 8 8 (undel_header L auth a b) = encbe64 L b"
    using ok by (simp_all add: h wire_simps)
  have "take 16 (undel_header L auth a b) = encbe64 L a @ encbe64 L b"
    "drop 16 (undel_header L auth a b) = hmac_sha256 L auth (encbe64 L a @ encbe64 L b)"
    using ok by (simp_all add: h endian_simps)
  then show "memcmp_ct L (hmac_sha256 L auth (take 16 (undel_header L auth a b))) (drop 16 (undel_header L auth a b)) = 0"
    using ok by (simp add: memcmp_ct_same)
qed

section \<open>Appending\<close>

definition ue_ok :: "undel_env \<Rightarrow> bool" where
  "ue_ok env \<longleftrightarrow> ue_path env \<and> ue_open env \<and> (\<forall>j. ue_tx env j = None) \<and> (\<forall>k. ue_mem env k)"

text \<open>The stream after the header has been rewritten.\<close>

lemma undel_add_start:
  assumes "lib_ok L" "ue_path env" "ue_open env" "ue_tx env 0 = None" "length ms < 2 ^ 32"
  shows "undel_add_message L env auth m (undel_file L auth ms) =
    (case undel_append L env auth m (of_nat (48 + entries_length ms)) (of_nat (length ms))
       \<lparr>st_data = undel_header L auth (of_nat (48 + entries_length (ms @ [m]))) (of_nat (length (ms @ [m]))) @
          entries L auth INITIAL_PREV_MAC ms, st_pos = 48\<rparr> of
      (r, s) \<Rightarrow> Done (r, st_data s))"
proof -
  note ok = lib_ok_parts [OF assms(1)]
  let ?fl = "of_nat (48 + entries_length ms) :: u64" and ?mn = "of_nat (length ms) :: u64"
  let ?H = "undel_header L auth ?fl ?mn" and ?E = "entries L auth INITIAL_PREV_MAC ms"
  let ?H' = "undel_header L auth (of_nat (48 + entries_length (ms @ [m]))) (of_nat (length (ms @ [m])))"
  have h: "length ?H = 48" "length ?H' = 48" "?H' \<noteq> []"
    using length_undel_header [OF assms(1)] by simp_all (metis list.size(3) zero_neq_numeral)
  have rd: "fread1 0x30 (fopen_bytes (?H @ ?E)) = Some (?H, \<lparr>st_data = ?H @ ?E, st_pos = 48\<rparr>)"
    using fread_n_at [of "[]" 0 ?H 48 ?E] h by (simp add: fread1_def fopen_bytes_def)
  have sk: "fseek_set 0 \<lparr>st_data = ?H @ ?E, st_pos = 48\<rparr> = Some \<lparr>st_data = ?H @ ?E, st_pos = 0\<rparr>"
    using fseek_set_small [of 0 "\<lparr>st_data = ?H @ ?E, st_pos = 48\<rparr>"] by simp
  have wr: "fwrite1 None ?H' \<lparr>st_data = ?H @ ?E, st_pos = 0\<rparr> = (True, \<lparr>st_data = ?H' @ ?E, st_pos = 48\<rparr>)"
    using fwrite_n_at [of "[]" 0 ?H ?H' ?E] h by (simp add: fwrite1_def)
  have new: "?fl + 8 + of_nat (length m) + 32 = of_nat (48 + entries_length (ms @ [m]))" "?mn + 1 = of_nat (length (ms @ [m]))"
    by (simp_all add: entries_length_def)
  have dec: "decbe64 L (take 8 ?H) = ?fl" "decbe64 L (slice 8 8 ?H) = ?mn"
    using header_fields [OF assms(1)] ok by (simp_all add: endian_simps)
  have mac: "memcmp_ct L (hmac_sha256 L auth (take 0x10 ?H)) (drop 0x10 ?H) = 0"
    using header_fields(3) [OF assms(1)] .
  show ?thesis
    unfolding undel_add_message_def undel_file_def rd option.case prod.case mac dec Let_def assms(4) new
    using assms(2,3) by (simp only: sk option.case wr prod.case bool.case simp_thms if_True if_False not_True_eq_False)
qed

lemma entries_length_append: "entries_length (ms @ [m]) = entries_length ms + (40 + length m)"
  by (simp add: entries_length_def)

lemma undel_append_at:
  assumes "lib_ok L" "48 + entries_length ms < 2 ^ 63" "length ms < 2 ^ 32" "length H = 48"
  shows "undel_append L env auth m (of_nat (48 + entries_length ms)) (of_nat (length ms))
      \<lparr>st_data = H @ entries L auth INITIAL_PREV_MAC ms, st_pos = p\<rparr> =
    (let data = H @ entries L auth INITIAL_PREV_MAC ms;
         lb = encbe64 L (of_nat (length m));
         mac = hmac_sha256 L auth (last_mac L auth INITIAL_PREV_MAC ms @ lb @ m);
         n = 48 + entries_length ms
     in case fwrite1 (ue_tx env 1) lb \<lparr>st_data = data, st_pos = n\<rparr> of
         (False, s4) \<Rightarrow> (-1, s4)
       | (True, s4) \<Rightarrow> (case fwrite1 (ue_tx env 2) m s4 of
         (False, s5) \<Rightarrow> (-1, s5)
       | (True, s5) \<Rightarrow> (case fwrite1 (ue_tx env 3) mac s5 of
         (False, s6) \<Rightarrow> (-1, s6)
       | (True, s6) \<Rightarrow> (0, s6))))"
proof -
  let ?E = "entries L auth INITIAL_PREV_MAC ms" and ?n = "48 + entries_length ms"
  have len: "length ?E = entries_length ms" by (rule length_entries [OF assms(1)])
  have "(of_nat ?n - 32 :: u64) = of_nat (?n - 32)" by (simp add: of_nat_diff)
  then have sk: "fseek_set (of_nat ?n - 32) \<lparr>st_data = H @ ?E, st_pos = p\<rparr> =
      Some \<lparr>st_data = H @ ?E, st_pos = ?n - 32\<rparr>"
    using fseek_set_small [of "?n - 32" "\<lparr>st_data = H @ ?E, st_pos = p\<rparr>"] assms(2) by simp
  have rd: "fread1 0x20 \<lparr>st_data = H @ ?E, st_pos = ?n - 32\<rparr> =
      Some (drop (?n - 32) (H @ ?E), \<lparr>st_data = H @ ?E, st_pos = ?n\<rparr>)"
    using len assms(4) by (simp add: fread1_def fread_n_def slice_def)
  have prev: "(if (of_nat (length ms) :: u64) = 0 then INITIAL_PREV_MAC else drop (?n - 32) (H @ ?E)) =
      last_mac L auth INITIAL_PREV_MAC ms"
  proof (cases "ms = []")
    case False
    from entries_last_mac [OF assms(1) this] obtain xs where
      "?E = xs @ last_mac L auth INITIAL_PREV_MAC ms" "length xs + 32 = entries_length ms" by blast
    then have "drop (?n - 32) (H @ ?E) = last_mac L auth INITIAL_PREV_MAC ms" using assms(4) by simp
    moreover have "(of_nat (length ms) :: u64) \<noteq> 0" using False assms(3) by (subst of_nat64_eq_0) auto
    ultimately show ?thesis by simp
  qed simp
  show ?thesis
    unfolding undel_append_def sk option.case rd prod.case Let_def prev by (rule refl)
qed

lemma undel_append_ok:
  assumes "lib_ok L" "ue_ok env" "storable m" "48 + entries_length ms < 2 ^ 63" "length ms < 2 ^ 32"
  shows "undel_add_message L env auth m (undel_file L auth ms) = Done (0, undel_file L auth (ms @ [m]))"
proof -
  note ok = lib_ok_parts [OF assms(1)]
  let ?H = "undel_header L auth (of_nat (48 + entries_length (ms @ [m]))) (of_nat (length (ms @ [m])))"
  let ?D = "?H @ entries L auth INITIAL_PREV_MAC ms"
  let ?lb = "encbe64 L (of_nat (length m))" and ?pm = "last_mac L auth INITIAL_PREV_MAC ms"
  let ?mac = "hmac_sha256 L auth (?pm @ ?lb @ m)"
  have H: "length ?H = 48" by (rule length_undel_header [OF assms(1)])
  have D: "length ?D = 48 + entries_length ms"
    using H length_entries [OF assms(1)] by simp
  have ne: "?lb \<noteq> []" "?mac \<noteq> []" "m \<noteq> []"
    using ok endian_simps(3) [of L "of_nat (length m)"] digest_simps(2) [of L auth "?pm @ ?lb @ m"] assms(3)
    by (auto simp: storable_def)
  have env: "ue_path env" "ue_open env" "ue_tx env j = None" for j using assms(2) by (simp_all add: ue_ok_def)
  have w: "fwrite1 None bs \<lparr>st_data = X, st_pos = length X\<rparr> = (bs \<noteq> [], \<lparr>st_data = X @ bs, st_pos = length (X @ bs)\<rparr>)"
    for bs X using fwrite_n_end [of X "length X" bs] by (simp add: fwrite1_def)
  have "undel_append L env auth m (of_nat (48 + entries_length ms)) (of_nat (length ms)) \<lparr>st_data = ?D, st_pos = 48\<rparr> =
      (0, \<lparr>st_data = ((?D @ ?lb) @ m) @ ?mac, st_pos = length (((?D @ ?lb) @ m) @ ?mac)\<rparr>)"
    unfolding undel_append_at [OF assms(1,4,5) H] Let_def env
    unfolding D [symmetric] w prod.case
    using ne by (simp only: w prod.case bool.case not_False_eq_True)
  then show ?thesis
    unfolding undel_add_start [OF assms(1) env(1,2,3) assms(5)]
    by (simp add: undel_file_def entries_append Let_def)
qed

section \<open>Loading\<close>

lemma undel_read_entries:
  assumes "lib_ok L" "\<forall>k. mem k"
  shows "\<forall>m \<in> set ms. storable m \<Longrightarrow>
    undel_read L auth mem i (length ms + n) prev (entries L auth prev ms @ rest) =
    exec_bind (undel_read L auth mem (i + length ms) n (last_mac L auth prev ms) rest)
      (\<lambda>r. Done (map_option ((@) ms) r))"
proof (induction ms arbitrary: i prev)
  case Nil
  then show ?case
    by (cases "undel_read L auth mem i n prev rest") (simp_all add: option.map_ident)
next
  case (Cons m ms)
  note ok = lib_ok_parts [OF assms(1)]
  let ?lb = "encbe64 L (of_nat (length m))"
  let ?mac = "hmac_sha256 L auth (prev @ ?lb @ m)"
  have m: "m \<noteq> []" "length m < 2 ^ 64" using Cons.prems by (simp_all add: storable_def)
  have d: "decbe64 L ?lb = of_nat (length m)" "(of_nat (length m) :: u64) \<noteq> 0" "unat (of_nat (length m) :: u64) = length m"
    using ok m by (simp_all add: endian_simps of_nat64_eq_0 unat_of_nat_small)
  have r: "rd 8 (?lb @ x) = Some (?lb, x)" "rd (length m) (m @ x) = Some (m, x)" "rd 0x20 (?mac @ x) = Some (?mac, x)"
    "memcmp_ct L ?mac ?mac = 0" for x
    using ok by (simp_all add: endian_simps digest_simps memcmp_ct_same)
  have "undel_read L auth mem i (Suc (length ms + n)) prev (entries L auth prev (m # ms) @ rest) =
      exec_bind (undel_read L auth mem (Suc i) (length ms + n) ?mac (entries L auth ?mac ms @ rest))
        (\<lambda>r. Done (map_option (Cons m) r))"
    unfolding undel_read.simps entries.simps Let_def append_assoc r option.case prod.case d(1,3)
    using assms(2) d(2) by (simp only: if_False not_True_eq_False r option.case prod.case simp_thms)
  also have "\<dots> = exec_bind (undel_read L auth mem (i + length (m # ms)) n (last_mac L auth prev (m # ms)) rest)
      (\<lambda>r. Done (map_option ((@) (m # ms)) r))"
  proof -
    have "map_option ((@) (m # ms)) r = map_option (Cons m) (map_option ((@) ms) r)" for r
      by (cases r) simp_all
    then have "map_option ((@) (m # ms)) = (\<lambda>r. map_option (Cons m) (map_option ((@) ms) r))"
      by (simp only: fun_eq_iff simp_thms)
    then show ?thesis
      using Cons.IH [of "Suc i" ?mac] Cons.prems
      by (cases "undel_read L auth mem (Suc (i + length ms)) n (last_mac L auth ?mac ms) rest") simp_all
  qed
  finally show ?case by (simp only: list.size add_Suc_right add_Suc add_0_right add_0)
qed

lemma undel_load_ok:
  assumes "lib_ok L" "ue_ok env" "ue_ok env'" "\<forall>m \<in> set ms. storable m" "length ms < 2 ^ 32"
  shows "undel_load L env env' auth (undel_file L auth ms) = Done (0, Some ms, undel_file L auth [])"
proof -
  note ok = lib_ok_parts [OF assms(1)]
  let ?H = "undel_header L auth (of_nat (48 + entries_length ms)) (of_nat (length ms))"
  have rd: "rd 0x30 (?H @ x) = Some (?H, x)" for x
    using length_undel_header [OF assms(1)] by simp
  have n: "unat (decbe64 L (slice 8 8 ?H)) = length ms"
    using header_fields(2) [OF assms(1)] ok assms(5) by (simp add: endian_simps unat_of_nat_small)
  have e: "ue_path env" "ue_open env" "\<forall>k. ue_mem env k" using assms(2) by (simp_all add: ue_ok_def)
  have "undel_read L auth (ue_mem env) 0 (length ms) INITIAL_PREV_MAC (entries L auth INITIAL_PREV_MAC ms) =
      Done (Some ms)"
    using undel_read_entries [OF assms(1) e(3) assms(4), of auth 0 0 INITIAL_PREV_MAC "[]"] by simp
  moreover have "undel_init_file L env' auth = (0, Some (undel_file L auth []))"
    using assms(3) by (simp add: undel_init_file_def ue_ok_def undel_file_def entries_length_def)
  ultimately show ?thesis
    using e header_fields(3) [OF assms(1), of auth]
    unfolding undel_load_def undel_file_def [of L auth ms] rd option.case prod.case n by simp
qed

section \<open>A mailbox\<close>

text \<open>
  What the server relies on: messages put one after the other come out together, in order, and
  taking them leaves the box empty.
\<close>

fun put_all :: "('e \<Rightarrow> 'm \<Rightarrow> 's \<Rightarrow> (int \<times> 's) exec) \<Rightarrow> (nat \<Rightarrow> 'e) \<Rightarrow> 'm list \<Rightarrow> 's \<Rightarrow> (int \<times> 's) exec" where
  "put_all put env [] s = Done (0, s)"
| "put_all put env (m # ms) s =
     exec_bind (put (env (length ms)) m s) (\<lambda>(r, s'). if r \<noteq> 0 then Done (r, s') else put_all put env ms s')"

locale append_store =
  fixes holds :: "'s \<Rightarrow> 'm list \<Rightarrow> bool"
    and fits :: "'m list \<Rightarrow> bool"
    and good :: "'e \<Rightarrow> bool"
    and put :: "'e \<Rightarrow> 'm \<Rightarrow> 's \<Rightarrow> (int \<times> 's) exec"
  assumes put_holds: "holds s ms \<Longrightarrow> good e \<Longrightarrow> fits (ms @ [m]) \<Longrightarrow>
      \<exists>s'. put e m s = Done (0, s') \<and> holds s' (ms @ [m])"
    and fits_prefix: "fits (ms @ ms') \<Longrightarrow> fits ms"
begin

lemma put_all_holds:
  "holds s ms \<Longrightarrow> \<forall>i. good (env i) \<Longrightarrow> fits (ms @ ms') \<Longrightarrow>
   \<exists>s'. put_all put env ms' s = Done (0, s') \<and> holds s' (ms @ ms')"
proof (induction ms' arbitrary: s ms)
  case Nil
  then show ?case by simp
next
  case (Cons m ms')
  have "fits (ms @ [m])" using fits_prefix [of "ms @ [m]" ms'] Cons.prems(3) by simp
  with put_holds [OF Cons.prems(1), of "env (length ms')" m] Cons.prems(2) obtain s1 where
    "put (env (length ms')) m s = Done (0, s1)" "holds s1 (ms @ [m])" by blast
  with Cons.IH [of s1 "ms @ [m]"] Cons.prems(2,3) show ?case by auto
qed

end

locale mailbox = append_store holds fits good put
  for holds :: "'s \<Rightarrow> 'm list \<Rightarrow> bool" and fits :: "'m list \<Rightarrow> bool" and good :: "'e \<Rightarrow> bool"
    and put :: "'e \<Rightarrow> 'm \<Rightarrow> 's \<Rightarrow> (int \<times> 's) exec" +
  fixes load :: "'e \<Rightarrow> 'e \<Rightarrow> 's \<Rightarrow> (int \<times> 'm list option \<times> 's) exec"
  assumes load_holds: "holds s ms \<Longrightarrow> good e \<Longrightarrow> good e' \<Longrightarrow>
      \<exists>s'. load e e' s = Done (0, Some ms, s') \<and> holds s' []"
begin

lemma delivered:
  assumes "holds s []" "\<forall>i. good (env i)" "fits ms" "good e" "good e'"
  shows "\<exists>s' s''. put_all put env ms s = Done (0, s') \<and> load e e' s' = Done (0, Some ms, s'') \<and> holds s'' []"
proof -
  have "fits ([] @ ms)" using assms(3) by simp
  from put_all_holds [OF assms(1,2) this] obtain s' where "put_all put env ms s = Done (0, s')" "holds s' ms"
    by auto
  with load_holds [of s' ms e e'] assms(4,5) show ?thesis by blast
qed

end

definition undel_holds :: "ibc \<Rightarrow> bytes \<Rightarrow> bytes \<Rightarrow> bytes list \<Rightarrow> bool" where
  "undel_holds L auth file ms \<longleftrightarrow> lib_ok L \<and> file = undel_file L auth ms \<and> (\<forall>m \<in> set ms. storable m) \<and>
     length ms < 2 ^ 32"

text \<open>Messages are not empty, and the file stays below 2^63 bytes.\<close>

definition undel_fits :: "bytes list \<Rightarrow> bool" where
  "undel_fits ms \<longleftrightarrow> (\<forall>m \<in> set ms. storable m) \<and> length ms < 2 ^ 32 \<and> 48 + entries_length ms < 2 ^ 63"

interpretation undel: mailbox "undel_holds L auth" undel_fits ue_ok
  "\<lambda>env. undel_add_message L env auth" "\<lambda>env env'. undel_load L env env' auth" for L auth
proof (unfold_locales, goal_cases)
  case (1 s ms e m)
  then have "undel_add_message L e auth m (undel_file L auth ms) = Done (0, undel_file L auth (ms @ [m]))"
    by (intro undel_append_ok) (auto simp: undel_holds_def undel_fits_def entries_length_def)
  with 1 show ?case by (auto simp: undel_holds_def undel_fits_def)
next
  case (2 ms ms')
  then show ?case by (auto simp: undel_fits_def entries_length_def)
next
  case (3 s ms e e')
  then show ?case using undel_load_ok [of L e e' ms auth] by (auto simp: undel_holds_def)
qed

lemma undel_init_holds:
  "lib_ok L \<Longrightarrow> ue_ok env \<Longrightarrow> undel_init_file L env auth = (0, Some (undel_file L auth [])) \<and>
   undel_holds L auth (undel_file L auth []) []"
  by (simp add: undel_init_file_def ue_ok_def undel_file_def entries_length_def undel_holds_def)

section \<open>Properties\<close>

text \<open>
  C20: Messages for an absent user are kept: from a file made by \<open>undel_init_file\<close>, any sequence of
  \<open>undel_add_message\<close> calls succeeds, and \<open>undel_load\<close> then returns exactly those messages, in the
  order in which they were added, and leaves the file as \<open>undel_init_file\<close> makes it.
\<close>
theorem undelivered_kept_in_order:
  assumes "lib_ok L" and "ue_ok e0" and "\<forall>i. ue_ok (env i)" and "ue_ok e" and "ue_ok e'"
    and "\<forall>m \<in> set ms. m \<noteq> [] \<and> length m < 2 ^ 60" and "length ms < 2 ^ 32" and "48 + entries_length ms < 2 ^ 63"
  shows "\<exists>f0 f. undel_init_file L e0 auth = (0, Some f0) \<and>
    put_all (\<lambda>env. undel_add_message L env auth) env ms f0 = Done (0, f) \<and>
    undel_load L e e' auth f = Done (0, Some ms, f0)"
proof -
  note i = undel_init_holds [OF assms(1,2), of auth]
  have "undel_fits ms" using assms(6-8) by (simp add: undel_fits_def storable_def)
  with undel.delivered [OF conjunct2 [OF i] assms(3) _ assms(4,5)] i show ?thesis
    by (auto simp: undel_holds_def)
qed

definition demo_ue :: undel_env where
  "demo_ue = \<lparr>ue_path = True, ue_open = True, ue_tx = (\<lambda>_. None), ue_mem = (\<lambda>_. True)\<rparr>"

lemma demo_ue_ok: "ue_ok demo_ue"
  by (simp add: ue_ok_def demo_ue_def)

theorem undelivered_kept_in_order_witness:
  "\<exists>f0 f. put_all (\<lambda>env. undel_add_message demo_lib env [1]) (\<lambda>_. demo_ue) [[7, 8], [9]] f0 = Done (0, f) \<and>
     undel_load demo_lib demo_ue demo_ue [1] f = Done (0, Some [[7, 8], [9]], f0)"
  using undelivered_kept_in_order [OF demo_lib_ok demo_ue_ok _ demo_ue_ok demo_ue_ok,
      where env = "\<lambda>_. demo_ue" and ms = "[[7, 8], [9]]" and auth = "[1]"] demo_ue_ok
  by (auto simp: entries_length_def)

text \<open>A file whose last message is cut short.\<close>

lemma undel_read_cut:
  assumes "lib_ok L" "\<forall>k. mem k" "storable m" "n < 40 + length m"
  shows "undel_read L auth mem i (Suc 0) prev (take n (encbe64 L (of_nat (length m)) @ m @
    hmac_sha256 L auth (prev @ encbe64 L (of_nat (length m)) @ m))) = Done None"
proof -
  note ok = lib_ok_parts [OF assms(1)]
  let ?lb = "encbe64 L (of_nat (length m))"
  let ?mac = "hmac_sha256 L auth (prev @ ?lb @ m)"
  have lb: "length ?lb = 8" "decbe64 L ?lb = of_nat (length m)" using ok by (simp_all add: endian_simps)
  have m: "(of_nat (length m) :: u64) \<noteq> 0" "unat (of_nat (length m) :: u64) = length m"
    using assms(3) by (simp_all add: storable_def of_nat64_eq_0 unat_of_nat_small)
  have mac: "length ?mac = 32" "m \<noteq> []" using ok assms(3) by (simp_all add: digest_simps storable_def)
  consider "n < 8" | "8 \<le> n" "n < 8 + length m" | "8 + length m \<le> n" by linarith
  then show ?thesis
  proof cases
    case 1
    then show ?thesis using lb by (simp add: rd_def)
  next
    case 2
    then have "take n (?lb @ m @ ?mac) = ?lb @ take (n - 8) m" using lb by simp
    with 2 lb m assms(2) show ?thesis by (simp add: rd_def)
  next
    case 3
    then have "take n (?lb @ m @ ?mac) = ?lb @ m @ take (n - (8 + length m)) ?mac" using lb by simp
    with 3 lb m mac assms(2,4) show ?thesis by (auto simp: rd_def)
  qed
qed

lemma load_cut_file:
  assumes "lib_ok L" "\<forall>m \<in> set (ms @ [m]). storable m" "length ms + 1 < 2 ^ 32" "n < 40 + length m"
    "ue_path env" "ue_open env" "\<forall>k. ue_mem env k"
    and f: "f = undel_header L auth a (of_nat (length (ms @ [m]))) @ entries L auth INITIAL_PREV_MAC ms @
      take n (entries L auth (last_mac L auth INITIAL_PREV_MAC ms) [m])"
  shows "undel_load L env env' auth f = Done (-1, None, f)"
proof -
  note ok = lib_ok_parts [OF assms(1)]
  let ?H = "undel_header L auth a (of_nat (length (ms @ [m])))"
  let ?cut = "take n (entries L auth (last_mac L auth INITIAL_PREV_MAC ms) [m])"
  have rd: "rd 0x30 (?H @ x) = Some (?H, x)" for x
    using length_undel_header [OF assms(1)] by simp
  have "unat (of_nat (length ms + 1) :: u64) = length ms + 1"
    using assms(3) by (intro unat_of_nat_small) simp
  then have n: "unat (decbe64 L (slice 8 8 ?H)) = length ms + Suc 0"
    using header_fields(2) [OF assms(1)] ok by (simp add: endian_simps)
  have s: "\<forall>m \<in> set ms. storable m" "storable m" using assms(2) by simp_all
  have "undel_read L auth (ue_mem env) 0 (length ms + Suc 0) INITIAL_PREV_MAC
      (entries L auth INITIAL_PREV_MAC ms @ ?cut) = Done None"
    unfolding undel_read_entries [OF assms(1,7) s(1)]
    using undel_read_cut [OF assms(1,7) s(2) assms(4)] by (simp add: Let_def)
  then show ?thesis
    using assms(5,6) header_fields(3) [OF assms(1), of auth]
    unfolding undel_load_def f rd option.case prod.case n by simp
qed

lemma cut_writes:
  assumes "lb \<noteq> []" "m \<noteq> []"
    "(t1 = Some k \<and> k < length lb) \<or> (t1 = None \<and> t2 = Some k \<and> k < length m) \<or>
     (t1 = None \<and> t2 = None \<and> t3 = Some k \<and> k < length mac)"
  shows "\<exists>n < length lb + length m + length mac.
    (case fwrite1 t1 lb \<lparr>st_data = X, st_pos = length X\<rparr> of
       (False, s4) \<Rightarrow> (-1 :: int, s4)
     | (True, s4) \<Rightarrow> (case fwrite1 t2 m s4 of
       (False, s5) \<Rightarrow> (-1, s5)
     | (True, s5) \<Rightarrow> (case fwrite1 t3 mac s5 of
       (False, s6) \<Rightarrow> (-1, s6)
     | (True, s6) \<Rightarrow> (0, s6)))) =
    (-1, \<lparr>st_data = X @ take n (lb @ m @ mac), st_pos = length X + n\<rparr>)"
proof -
  have w: "fwrite1 None bs \<lparr>st_data = X, st_pos = length X\<rparr> = (bs \<noteq> [], \<lparr>st_data = X @ bs, st_pos = length (X @ bs)\<rparr>)"
    for bs X using fwrite_n_end [of X "length X" bs] by (simp add: fwrite1_def)
  have wc: "fwrite1 (Some k) bs \<lparr>st_data = X, st_pos = length X\<rparr> =
      (False, \<lparr>st_data = X @ take k bs, st_pos = length X + k\<rparr>)" if "k < length bs" for bs X
    using that fwrite_n_end [of X "length X" "take k bs"] by (simp add: fwrite1_def)
  from assms(3) show ?thesis
  proof (elim disjE conjE)
    assume k: "t1 = Some k" "k < length lb"
    then show ?thesis by (intro exI [of _ k]) (simp add: wc)
  next
    assume k: "t1 = None" "t2 = Some k" "k < length m"
    then show ?thesis using assms(1)
      by (intro exI [of _ "length lb + k"]) (simp add: w wc [of m "X @ lb", simplified])
  next
    assume k: "t1 = None" "t2 = None" "t3 = Some k" "k < length mac"
    then show ?thesis using assms(1,2) w [of m "X @ lb"]
      by (intro exI [of _ "length lb + length m + k"]) (simp add: w wc [of mac "X @ lb @ m", simplified])
  qed
qed

lemma undel_add_cut:
  assumes "lib_ok L" "48 + entries_length ms < 2 ^ 63" "length ms < 2 ^ 32" "storable m"
    "ue_path env" "ue_open env" "ue_tx env 0 = None"
    "(ue_tx env 1 = Some k \<and> k < 8) \<or> (ue_tx env 1 = None \<and> ue_tx env 2 = Some k \<and> k < length m) \<or>
     (ue_tx env 1 = None \<and> ue_tx env 2 = None \<and> ue_tx env 3 = Some k \<and> k < 32)"
  shows "\<exists>n < 40 + length m. undel_add_message L env auth m (undel_file L auth ms) =
    Done (-1, undel_header L auth (of_nat (48 + entries_length (ms @ [m]))) (of_nat (length (ms @ [m]))) @
      entries L auth INITIAL_PREV_MAC ms @ take n (entries L auth (last_mac L auth INITIAL_PREV_MAC ms) [m]))"
proof -
  note ok = lib_ok_parts [OF assms(1)]
  let ?H = "undel_header L auth (of_nat (48 + entries_length (ms @ [m]))) (of_nat (length (ms @ [m])))"
  let ?D = "?H @ entries L auth INITIAL_PREV_MAC ms"
  let ?lb = "encbe64 L (of_nat (length m))" and ?pm = "last_mac L auth INITIAL_PREV_MAC ms"
  let ?mac = "hmac_sha256 L auth (?pm @ ?lb @ m)"
  have H: "length ?H = 48" by (rule length_undel_header [OF assms(1)])
  have D: "length ?D = 48 + entries_length ms" using H length_entries [OF assms(1)] by simp
  have lb: "length ?lb = 8" "?lb \<noteq> []" and mac: "length ?mac = 32" and m: "m \<noteq> []"
    using ok endian_simps(3) [of L "of_nat (length m)"] assms(4) by (auto simp: digest_simps storable_def)
  have app: "undel_append L env auth m (of_nat (48 + entries_length ms)) (of_nat (length ms)) \<lparr>st_data = ?D, st_pos = 48\<rparr> =
      (case fwrite1 (ue_tx env 1) ?lb \<lparr>st_data = ?D, st_pos = length ?D\<rparr> of
         (False, s4) \<Rightarrow> (-1, s4)
       | (True, s4) \<Rightarrow> (case fwrite1 (ue_tx env 2) m s4 of
         (False, s5) \<Rightarrow> (-1, s5)
       | (True, s5) \<Rightarrow> (case fwrite1 (ue_tx env 3) ?mac s5 of
         (False, s6) \<Rightarrow> (-1, s6)
       | (True, s6) \<Rightarrow> (0, s6))))"
    unfolding undel_append_at [OF assms(1-3) H] Let_def D by (rule refl)
  have e: "entries L auth ?pm [m] = ?lb @ m @ ?mac" by (simp add: Let_def)
  have e: "entries L auth ?pm [m] = ?lb @ m @ ?mac" by (simp add: Let_def)
  have "(ue_tx env 1 = Some k \<and> k < length ?lb) \<or> (ue_tx env 1 = None \<and> ue_tx env 2 = Some k \<and> k < length m) \<or>
      (ue_tx env 1 = None \<and> ue_tx env 2 = None \<and> ue_tx env 3 = Some k \<and> k < length ?mac)"
    using assms(8) lb mac by simp
  from cut_writes [OF lb(2) m this, of ?D] obtain n where n: "n < length ?lb + length m + length ?mac"
    "undel_append L env auth m (of_nat (48 + entries_length ms)) (of_nat (length ms)) \<lparr>st_data = ?D, st_pos = 48\<rparr> =
      (-1, \<lparr>st_data = ?D @ take n (?lb @ m @ ?mac), st_pos = length ?D + n\<rparr>)"
    unfolding app by blast
  have "n < 40 + length m" using n(1) lb mac by simp
  moreover have "undel_add_message L env auth m (undel_file L auth ms) = Done (-1, ?D @ take n (?lb @ m @ ?mac))"
    unfolding undel_add_start [OF assms(1,5-7,3)] n(2) by simp
  ultimately show ?thesis unfolding e by (intro exI [of _ n]) (simp only: append_assoc simp_thms)
qed

text \<open>
  One failed append loses the whole box: if a write after the header fails part of the way (a full
  disk), \<open>undel_add_message\<close> returns -1, but the header already counts the new message; every later
  \<open>undel_load\<close> then fails, returns none of the messages that had been stored before, and leaves the
  file as it is.
\<close>
theorem failed_append_loses_all:
  assumes "lib_ok L" and "\<forall>m \<in> set (ms @ [m]). m \<noteq> [] \<and> length m < 2 ^ 60" and "length ms + 1 < 2 ^ 32"
    and "48 + entries_length ms < 2 ^ 63" and "ue_path env" and "ue_open env" and "ue_tx env 0 = None"
    and "(ue_tx env 1 = Some k \<and> k < 8) \<or> (ue_tx env 1 = None \<and> ue_tx env 2 = Some k \<and> k < length m) \<or>
     (ue_tx env 1 = None \<and> ue_tx env 2 = None \<and> ue_tx env 3 = Some k \<and> k < 32)"
  shows "\<exists>f. undel_add_message L env auth m (undel_file L auth ms) = Done (-1, f) \<and>
    (\<forall>e e'. ue_ok e \<longrightarrow> undel_load L e e' auth f = Done (-1, None, f))"
proof -
  have s: "\<forall>m \<in> set (ms @ [m]). storable m" "storable m" using assms(2) by (simp_all add: storable_def)
  have l: "length ms < 2 ^ 32" using assms(3) by simp
  from undel_add_cut [OF assms(1,4) l s(2) assms(5-8), of auth] obtain n where
    n: "n < 40 + length m" "undel_add_message L env auth m (undel_file L auth ms) =
    Done (-1, undel_header L auth (of_nat (48 + entries_length (ms @ [m]))) (of_nat (length (ms @ [m]))) @
      entries L auth INITIAL_PREV_MAC ms @ take n (entries L auth (last_mac L auth INITIAL_PREV_MAC ms) [m]))"
    by blast
  have "undel_load L e e' auth f = Done (-1, None, f)" if "ue_ok e"
    "f = undel_header L auth (of_nat (48 + entries_length (ms @ [m]))) (of_nat (length (ms @ [m]))) @
      entries L auth INITIAL_PREV_MAC ms @ take n (entries L auth (last_mac L auth INITIAL_PREV_MAC ms) [m])"
    for e e' f
    using that by (intro load_cut_file [OF assms(1) s(1) assms(3) n(1)]) (simp_all add: ue_ok_def)
  with n(2) show ?thesis by blast
qed

theorem failed_append_loses_all_witness:
  "\<exists>f. undel_add_message demo_lib (demo_ue\<lparr>ue_tx := (\<lambda>j. if j = 2 then Some 1 else None)\<rparr>) [1] [7, 8]
       (undel_file demo_lib [1] [[5], [6]]) = Done (-1, f) \<and>
     undel_load demo_lib demo_ue demo_ue [1] f = Done (-1, None, f)"
proof -
  let ?e = "demo_ue\<lparr>ue_tx := (\<lambda>j. if j = 2 then Some 1 else None)\<rparr>"
  have e: "ue_path ?e" "ue_open ?e" "ue_tx ?e 0 = None" by (simp_all add: demo_ue_def)
  have "(ue_tx ?e 1 = Some 1 \<and> 1 < (8 :: nat)) \<or> (ue_tx ?e 1 = None \<and> ue_tx ?e 2 = Some 1 \<and> 1 < length [7, 8 :: byte]) \<or>
      (ue_tx ?e 1 = None \<and> ue_tx ?e 2 = None \<and> ue_tx ?e 3 = Some 1 \<and> 1 < (32 :: nat))" by simp
  from failed_append_loses_all [OF demo_lib_ok _ _ _ e this, of "[[5], [6]]" "[1]"] demo_ue_ok show ?thesis
    by (auto simp: entries_length_def)
qed

text \<open>
  C26: Only authentic messages are delivered: whatever is in the file, the messages \<open>undel_load\<close>
  returns are the ones the file holds after its header, each with the MAC that chains it to the
  ones before under the user's secret; their number is the one in the header, whose MAC was right.
\<close>
theorem undel_load_authentic:
  assumes "lib_ok L" and "undel_load L env env' auth f = Done (r, Some ms, f')"
  shows "\<exists>rest. f = take 48 f @ entries L auth INITIAL_PREV_MAC ms @ rest \<and>
    length ms = unat (decbe64 L (slice 8 8 f)) \<and> slice 16 32 f = hmac_sha256 L auth (take 16 f)"
proof -
  note ok = lib_ok_parts [OF assms(1)]
  have read: "\<exists>rest. inp = entries L auth prev ms @ rest \<and> length ms = n"
    if "undel_read L auth mem i n prev inp = Done (Some ms)" for mem i n prev inp ms
    using that
  proof (induction n arbitrary: i prev inp ms)
    case 0
    then show ?case by simp
  next
    case (Suc n)
    from Suc.prems obtain lb i1 where 1: "rd 8 inp = Some (lb, i1)"
      by (auto split: option.splits)
    with Suc.prems obtain m i2 where 2: "rd (unat (decbe64 L lb)) i1 = Some (m, i2)"
      by (auto split: option.splits if_splits)
    with Suc.prems 1 obtain mac i3 where 3: "rd 32 i2 = Some (mac, i3)"
      by (auto simp: Let_def split: option.splits if_splits)
    with Suc.prems 1 2 obtain ms1 where
      4: "memcmp_ct L (hmac_sha256 L auth (prev @ lb @ m)) mac = 0"
      "undel_read L auth mem (Suc i) n mac i3 = Done (Some ms1)" "ms = m # ms1"
      by (auto simp: Let_def exec_bind_Done_iff split: option.splits if_splits)
    have lens: "length lb = 8" "length m = unat (decbe64 L lb)" "length mac = 32"
      and inp: "inp = lb @ m @ mac @ i3" using 1 2 3 by (simp_all add: rd_Some)
    have "(of_nat (length m) :: u64) = decbe64 L lb" using lens(2) by simp
    then have lb: "encbe64 L (of_nat (length m)) = lb" using lens(1) ok by (simp add: endian_simps)
    have mac: "hmac_sha256 L auth (prev @ lb @ m) = mac"
      using 4(1) lens ok by (simp add: memcmp_ct_iff digest_simps)
    from Suc.IH [OF 4(2)] obtain rest where "i3 = entries L auth mac ms1 @ rest" "length ms1 = n" by blast
    then show ?case using inp 4(3) lb mac by (auto simp: Let_def)
  qed
  from assms(2) obtain prefix inp where 1: "rd 0x30 f = Some (prefix, inp)"
    "memcmp_ct L (hmac_sha256 L auth (take 0x10 prefix)) (drop 0x10 prefix) = 0"
    "undel_read L auth (ue_mem env) 0 (unat (decbe64 L (slice 8 8 prefix))) INITIAL_PREV_MAC inp = Done (Some ms)"
    by (cases "undel_init_file L env' auth")
      (auto simp: undel_load_def exec_bind_Done_iff split: option.split_asm if_split_asm)
  have f: "f = prefix @ inp" "length prefix = 48" using 1(1) by (simp_all add: rd_Some)
  have "drop 16 prefix = hmac_sha256 L auth (take 16 prefix)"
    using 1(2) f(2) ok by (simp add: memcmp_ct_iff digest_simps)
  moreover have "slice 8 8 f = slice 8 8 prefix" "slice 16 32 f = drop 16 prefix" "take 16 f = take 16 prefix"
    "take 48 f = prefix"
    using f by (simp_all add: slice_def)
  ultimately show ?thesis using read [OF 1(3)] f(1) by auto
qed

theorem undel_load_authentic_witness:
  "\<exists>rest. undel_file demo_lib [1] [[7]] = take 48 (undel_file demo_lib [1] [[7]]) @
     entries demo_lib [1] INITIAL_PREV_MAC [[7]] @ rest"
proof -
  have "\<forall>m \<in> set [[7 :: byte]]. storable m" by (simp add: storable_def)
  from undel_load_ok [OF demo_lib_ok demo_ue_ok demo_ue_ok this, of "[1]"]
  have "undel_load demo_lib demo_ue demo_ue [1] (undel_file demo_lib [1] [[7]]) =
      Done (0, Some [[7]], undel_file demo_lib [1] [])" by simp
  from undel_load_authentic [OF demo_lib_ok this] show ?thesis by blast
qed

end
