(* ===== verification/ClientAuth.thy ===== *)
theory ClientAuth
  imports UserDb Undelivered HandlerTable CryptoLayer
begin

text \<open>
  \<open>server/client_auth.c\<close>: how a connected client proves who it is. The server sends 32 random
  bytes; the client answers with its id, its public key, the challenge and a signature over all
  three; a known id must come with the registered key, an unknown one may register. Messages are
  those that go through \<open>send_message\<close> and \<open>recv_message\<close> of the session.
\<close>

section \<open>The server's state\<close>

text \<open>
  The user table and its directory, the handler table, the undelivered files by user id, and for
  each connected handler (named by its descriptor) its connection and keys.
\<close>

record server_state =
  sv_db :: user_db
  sv_files :: "bytes \<rightharpoonup> bytes"
  sv_ht :: handler_table
  sv_undel :: "bytes \<rightharpoonup> bytes"
  sv_sess :: "int \<Rightarrow> con_handle \<times> keyset"

section \<open>The code\<close>

text \<open>\<open>check_user\<close>: 0 known and not logged in, 1 unknown, 2 already logged in, 3 another key.\<close>

definition check_user :: "ibc \<Rightarrow> server_state \<Rightarrow> bytes \<Rightarrow> rsa_public_key \<Rightarrow> int exec" where
  "check_user L st uid pkey = exec_bind (user_db_get L (sv_db st) uid) (\<lambda>r. case r of
     None \<Rightarrow> Done 1
   | Some u \<Rightarrow>
       if pk_bits pkey \<noteq> pk_bits (u_pkey u) \<or> pk_e pkey \<noteq> pk_e (u_pkey u) \<or> pk_n pkey \<noteq> pk_n (u_pkey u)
       then Done 3
       else if get_handler L (sv_ht st) uid \<noteq> None then Done 2 else Done 0)"

text \<open>The string \<open>register\<close>, and the seven bytes of \<open>cliauth\<close>.\<close>

definition register_text :: bytes where
  "register_text = [114, 101, 103, 105, 115, 116, 101, 114]"

definition cliauth_text :: bytes where
  "cliauth_text = [99, 108, 105, 97, 117, 116, 104]"

definition prompt_user_register :: "bytes option \<Rightarrow> int" where
  "prompt_user_register resp = (case resp of
     None \<Rightarrow> -1
   | Some m \<Rightarrow> if length m \<noteq> 8 \<or> m \<noteq> register_text then 1 else 0)"

text \<open>
  What a login meets: the challenge drawn, whether the two sends find memory, the client's two
  messages, and the environment of a registration (the secret drawn, the undelivered file, memory
  for a copy of the key, the user file, the table entry and the array of a resize).
\<close>

record auth_env =
  ae_rand :: "bytes option"
  ae_send1 :: bool
  ae_resp :: "bytes option"
  ae_send2 :: bool
  ae_reg :: "bytes option"
  ae_secret :: "bytes option"
  ae_undel :: undel_env
  ae_key :: bool
  ae_write :: user_write_env
  ae_ent :: bool
  ae_mem :: bool

definition user_register :: "ibc \<Rightarrow> rsa_key \<Rightarrow> auth_env \<Rightarrow> server_state \<Rightarrow> bytes \<Rightarrow> rsa_public_key \<Rightarrow>
    (int \<times> server_state) exec" where
  "user_register L sk env st uid pkey =
     (if prompt_user_register (ae_reg env) \<noteq> 0 then Done (prompt_user_register (ae_reg env), st)
      else let undel_file = Option.bind (ae_secret env) (\<lambda>auth. snd (undel_init_file L (ae_undel env) auth));
               st1 = st\<lparr>sv_undel := (case undel_file of None \<Rightarrow> sv_undel st | Some c \<Rightarrow> (sv_undel st)(uid \<mapsto> c))\<rparr>
        in (case user_init (ae_secret env) (\<lambda>u. fst (undel_init_file L (ae_undel env) (u_auth u))) (ae_key env) uid pkey of
          (r, None) \<Rightarrow> Done (-1, st1)
        | (r, Some u) \<Rightarrow>
            exec_bind (user_db_add L sk (ae_write env) (ae_ent env) (ae_mem env) (sv_db st1) (sv_files st1) u)
              (\<lambda>(r', db, fs). Done (if r' \<noteq> 0 then -1 else 0, st1\<lparr>sv_db := db, sv_files := fs\<rparr>))))"

text \<open>
  The client's answer. \<open>None\<close>: the login fails. The length of the key is taken from bytes 32 to 39 of
  the answer before the length of the answer is looked at.
\<close>

definition check_response :: "ibc \<Rightarrow> bytes \<Rightarrow> bytes \<Rightarrow> (bytes \<times> rsa_public_key) option exec" where
  "check_response L challenge resp =
     exec_bind (read_at resp 0x20 8) (\<lambda>bits.
       let keylen = rsa_pubkey_bufsize L (decbe64 L bits); len = of_nat (length resp) in
       if 0x20 + keylen + 0x20 + 0x08 \<ge> len then Done None
       else exec_bind (read_at resp (unat (0x20 + keylen)) 0x20) (\<lambda>chal.
         if memcmp_ct L challenge chal \<noteq> 0 then Done None
         else exec_bind (read_at resp (unat (0x20 + keylen + 0x20)) 8) (\<lambda>sl.
           let siglen = decbe64 L sl in
           if 0x20 + keylen + 0x20 + 0x08 + siglen \<noteq> len then Done None
           else exec_bind (read_at resp 0x20 (unat keylen)) (\<lambda>kb. case rsa_wire2pubkey L kb of
             None \<Rightarrow> Done None
           | Some pk \<Rightarrow>
               exec_bind (read_at resp (unat (0x20 + keylen + 0x20 + 0x08)) (unat siglen)) (\<lambda>sg.
               exec_bind (read_at resp 0 (unat (0x20 + keylen + 0x20 + 0x08))) (\<lambda>signed.
                 if rsa_pss_verify L pk sg signed \<noteq> Some True then Done None
                 else exec_bind (read_at resp 0 0x20) (\<lambda>uid. Done (Some (uid, pk)))))))))"

text \<open>\<open>auth_user\<close>: the result, the id (when it is 0), the messages sent, and the new state.\<close>

definition auth_user :: "ibc \<Rightarrow> rsa_key \<Rightarrow> auth_env \<Rightarrow> server_state \<Rightarrow>
    (int \<times> bytes \<times> bytes list \<times> server_state) exec" where
  "auth_user L sk env st = (case ae_rand env of
     None \<Rightarrow> Done (-1, [], [], st)
   | Some challenge \<Rightarrow>
       if \<not> ae_send1 env then Done (-1, [], [], st)
       else (case ae_resp env of
         None \<Rightarrow> Done (-1, [], [challenge], st)
       | Some resp \<Rightarrow> exec_bind (check_response L challenge resp) (\<lambda>c. case c of
           None \<Rightarrow> Done (-1, [], [challenge], st)
         | Some (uid, pk) \<Rightarrow> exec_bind (check_user L st uid pk) (\<lambda>ret.
             if \<not> ae_send2 env then Done (-1, [], [challenge], st)
             else let sent = [challenge, cliauth_text @ [of_int ret]] in
               if ret = 2 \<or> ret = 3 then Done (-1, [], sent, st)
               else if ret = 1 then exec_bind (user_register L sk env st uid pk) (\<lambda>(r, st').
                 if r \<noteq> 0 then Done (-1, [], sent, st') else Done (0, uid, sent, st'))
               else Done (0, uid, sent, st)))))"

section \<open>What an accepted answer looks like\<close>

lemma check_response_Some:
  assumes "lib_ok L" "check_response L challenge resp = Done (Some (uid, pk))" "length challenge = 32"
    "length resp < 2 ^ 64"
  shows "\<exists>key sl sg. resp = uid @ key @ challenge @ sl @ sg \<and> length uid = 32 \<and> length sl = 8 \<and>
    unat (decbe64 L sl) = length sg \<and> rsa_wire2pubkey L key = Some pk \<and>
    rsa_pss_verify L pk sg (uid @ key @ challenge @ sl) = Some True"
proof -
  note ok = lib_ok_parts [OF assms(1)]
  from assms(2) obtain bits chal sl where
    b: "read_at resp 0x20 8 = Done bits" and
    g: "\<not> 0x20 + rsa_pubkey_bufsize L (decbe64 L bits) + 0x20 + 0x08 \<ge> of_nat (length resp)" and
    c: "read_at resp (unat (0x20 + rsa_pubkey_bufsize L (decbe64 L bits))) 0x20 = Done chal" "memcmp_ct L challenge chal = 0" and
    s: "read_at resp (unat (0x20 + rsa_pubkey_bufsize L (decbe64 L bits) + 0x20)) 8 = Done sl"
    "0x20 + rsa_pubkey_bufsize L (decbe64 L bits) + 0x20 + 0x08 + decbe64 L sl = of_nat (length resp)"
    by (auto simp: check_response_def exec_bind_Done_iff Let_def split: if_splits)
  define kl where "kl = rsa_pubkey_bufsize L (decbe64 L bits)"
  note c = c [folded kl_def] and s = s [folded kl_def] and g = g [folded kl_def]
  from assms(2) b c s obtain kb sg signed where
    r: "read_at resp 0x20 (unat kl) = Done kb" "rsa_wire2pubkey L kb = Some pk"
    "read_at resp (unat (0x20 + kl + 0x20 + 0x08)) (unat (decbe64 L sl)) = Done sg"
    "read_at resp 0 (unat (0x20 + kl + 0x20 + 0x08)) = Done signed" "rsa_pss_verify L pk sg signed = Some True"
    "read_at resp 0 0x20 = Done uid"
    by (auto simp: check_response_def exec_bind_Done_iff Let_def kl_def split: if_splits option.splits)
  have lr: "unat (of_nat (length resp) :: u64) = length resp" using assms(4) by (rule unat_of_nat_small)
  note rr = r(1,3,4,6) [unfolded read_at_Done] and cc = c(1) [unfolded read_at_Done] and ss = s(1) [unfolded read_at_Done]
  have k1: "unat (0x20 + kl) = 0x20 + unat kl"
    using rr(1) assms(4) unat_plus_small [of "0x20" kl] by simp
  have k2: "unat (0x20 + kl + 0x20) = 0x40 + unat kl"
    using cc assms(4) k1 unat_plus_small [of "0x20 + kl" "0x20"] by simp
  have k3: "unat (0x20 + kl + 0x20 + 0x08) = 0x48 + unat kl"
    using ss assms(4) k2 unat_plus_small [of "0x20 + kl + 0x20" "0x08"] by simp
  have len: "0x48 + unat kl + unat (decbe64 L sl) = length resp"
  proof -
    have le: "unat (0x20 + kl + 0x20 + 0x08) + unat (decbe64 L sl) < 2 ^ 64"
      using rr(2) assms(4) by linarith
    show ?thesis using unat_plus_small [OF le] s(2) lr k3 by simp
  qed
  have "length chal = 32" using cc by (auto simp: min_def)
  then have chal: "chal = challenge"
    using memcmp_ct_iff [OF ok(2), of challenge chal] c(2) assms(3) by simp
  have parts: "uid = take 32 resp" "kb = take (unat kl) (drop 32 resp)" "chal = take 32 (drop (32 + unat kl) resp)"
    "sl = take 8 (drop (64 + unat kl) resp)" "sg = drop (72 + unat kl) resp" "signed = take (72 + unat kl) resp"
    using rr cc ss k1 k2 k3 len by (simp_all add: slice_def)
  have split: "take (a + b) xs = take a xs @ take b (drop a xs)" for a b and xs :: bytes
    by (rule take_add)
  have sd: "signed = uid @ kb @ challenge @ sl"
    using split [of 32 "unat kl + (32 + 8)" resp] split [of "unat kl" "32 + 8" "drop 32 resp"]
      split [of 32 8 "drop (32 + unat kl) resp"]
    by (simp add: parts chal [symmetric] add.commute)
  have "resp = signed @ sg" by (simp add: parts)
  moreover have "unat (decbe64 L sl) = length sg" using len by (simp add: parts)
  ultimately show ?thesis
    using r(2,5) sd read_at_length [OF r(6)] read_at_length [OF s(1)] by auto
qed

lemma check_user_zero:
  assumes "check_user L st uid pk = Done 0"
  obtains u where "user_db_get L (sv_db st) uid = Done (Some u)" "u_pkey u = pk" "get_handler L (sv_ht st) uid = None"
proof -
  from assms obtain u where u: "user_db_get L (sv_db st) uid = Done (Some u)"
    by (auto simp: check_user_def exec_bind_Done_iff split: option.splits)
  with assms have "u_pkey u = pk" "get_handler L (sv_ht st) uid = None"
    by (auto simp: check_user_def split: if_splits)
  with u show thesis using that by blast
qed

lemma check_user_one:
  assumes "check_user L st uid pk = Done 1"
  shows "user_db_get L (sv_db st) uid = Done None"
proof -
  from assms obtain r where r: "user_db_get L (sv_db st) uid = Done r"
    by (auto simp: check_user_def exec_bind_Done_iff)
  with assms show ?thesis by (cases r) (auto simp: check_user_def split: if_splits)
qed

text \<open>The answer of a client that holds the key is accepted.\<close>

lemma check_response_honest:
  assumes "lib_ok L" "rsa_pub_key L k = Some pk" "rsa_pubkey2wire L pk = Some w"
    "rsa_pss_sign L k (uid @ w @ challenge @ encbe64 L ((sk_bits k + 7) div 8)) = Some sg"
    "length uid = 32" "length challenge = 32" "length w < 2 ^ 60" "0 < (sk_bits k + 7) div 8"
  shows "check_response L challenge (uid @ w @ challenge @ encbe64 L ((sk_bits k + 7) div 8) @ sg) = Done (Some (uid, pk))"
proof -
  note ok = lib_ok_parts [OF assms(1)]
  let ?sl = "(sk_bits k + 7) div 8"
  let ?r = "uid @ w @ challenge @ encbe64 L ?sl @ sg"
  have w: "rsa_wire2pubkey L w = Some pk" "length w = unat (rsa_pubkey_bufsize L (pk_bits pk))" "8 \<le> length w"
    "take 8 w = encbe64 L (pk_bits pk)" using rsa_pubkey_wireD [OF ok(7) assms(3)] by auto
  have sg: "rsa_pss_verify L pk sg (uid @ w @ challenge @ encbe64 L ?sl) = Some True" "length sg = unat ?sl"
    using rsa_signD [OF ok(7) assms(2,4)] by auto
  define kl where "kl = rsa_pubkey_bufsize L (pk_bits pk)"
  have kl: "unat kl = length w" using w(2) by (simp add: kl_def)
  have slb: "unat ?sl < 2 ^ 61" using unat64_less [of "sk_bits k + 7"] by (simp add: unat_div)
  have u: "unat (0x20 + kl) = 0x20 + length w" using kl assms(7) unat_plus_small [of "0x20" kl] by simp
  then have u2: "unat (0x20 + kl + 0x20) = 0x40 + length w"
    using assms(7) unat_plus_small [of "0x20 + kl" "0x20"] by simp
  then have u3: "unat (0x20 + kl + 0x20 + 0x08) = 0x48 + length w"
    using assms(7) unat_plus_small [of "0x20 + kl + 0x20" "0x08"] by simp
  then have u4: "unat (0x20 + kl + 0x20 + 0x08 + ?sl) = 0x48 + length w + unat ?sl"
    using assms(7) slb unat_plus_small [of "0x20 + kl + 0x20 + 0x08" ?sl] by simp
  have len: "length ?r = 0x48 + length w + unat ?sl" using assms(5,6) sg(2) ok by (simp add: endian_simps)
  then have lr: "unat (of_nat (length ?r) :: u64) = 0x48 + length w + unat ?sl"
    using assms(7) slb by (subst unat_of_nat_small) simp_all
  have eq: "0x20 + kl + 0x20 + 0x08 + ?sl = of_nat (length ?r)"
    unfolding word_unat_eq_iff by (simp only: u4 lr)
  have pos: "0 < unat ?sl" using assms(8) by (simp add: word_less_nat_alt)
  have ge: "\<not> 0x20 + kl + 0x20 + 0x08 \<ge> of_nat (length ?r)"
    using pos by (simp only: not_le word_less_nat_alt u3 lr)
  have r1: "read_at ?r 0x20 8 = Done (encbe64 L (pk_bits pk))"
  proof -
    have "?r = uid @ encbe64 L (pk_bits pk) @ drop 8 w @ challenge @ encbe64 L ?sl @ sg"
      using w(4) by (metis append_take_drop_id append_assoc)
    then show ?thesis using ok assms(5) by (simp only:) (rule read_at_append, simp_all add: endian_simps)
  qed
  have r2: "read_at ?r (0x20 + length w) 0x20 = Done challenge"
    using read_at_append [of "uid @ w" "0x20 + length w" challenge 32] assms(5,6) by simp
  have r3: "read_at ?r (0x40 + length w) 8 = Done (encbe64 L ?sl)"
    using read_at_append [of "uid @ w @ challenge" "0x40 + length w" "encbe64 L ?sl" 8] assms(5,6) ok
    by (simp add: endian_simps)
  have r4: "read_at ?r 0x20 (length w) = Done w"
    using read_at_append [of uid "0x20" w "length w"] assms(5) by simp
  have r5: "read_at ?r (0x48 + length w) (unat ?sl) = Done sg"
    using read_at_append [of "uid @ w @ challenge @ encbe64 L ?sl" "0x48 + length w" sg "unat ?sl" "[]"] assms(5,6) ok sg(2)
    by (simp add: endian_simps)
  have r6: "read_at ?r 0 (0x48 + length w) = Done (uid @ w @ challenge @ encbe64 L ?sl)"
    using read_at_append [of "[]" 0 "uid @ w @ challenge @ encbe64 L ?sl" "0x48 + length w" sg] assms(5,6) ok
    by (simp add: endian_simps)
  have r7: "read_at ?r 0 0x20 = Done uid" using read_at_append [of "[]" 0 uid 32] assms(5) by simp
  have d: "decbe64 L (encbe64 L x) = x" for x using ok by (simp add: endian_simps)
  show ?thesis
    unfolding check_response_def r1 exec_bind.simps d Let_def kl_def [symmetric] u u2 u3 kl r2 r3 r4 r5 r6 r7 eq
      w(1) option.case sg(1)
    using ge memcmp_ct_same [OF ok(2), of challenge] by (simp only: if_False simp_thms)
qed

lemma check_user_cases:
  "check_user L st uid pk = Done ret \<Longrightarrow> ret = 0 \<or> ret = 1 \<or> ret = 2 \<or> ret = 3"
  by (auto simp: check_user_def exec_bind_Done_iff split: option.splits if_splits)

section \<open>Properties\<close>

lemma user_register_ok:
  assumes "user_register L sk env st uid pk = Done (0, st')"
  obtains u where "u_pkey u = pk" "u_uid u = uid"
    "\<exists>fs fs'. user_db_add L sk (ae_write env) (ae_ent env) (ae_mem env) (sv_db st) fs u = Done (0, sv_db st', fs')"
proof -
  from assms obtain u where i: "user_init (ae_secret env)
      (\<lambda>u. fst (undel_init_file L (ae_undel env) (u_auth u))) (ae_key env) uid pk = (0, Some u)"
    by (auto simp: user_register_def user_init_def Let_def split: option.splits if_splits prod.splits)
  then have u: "u_pkey u = pk" "u_uid u = uid"
    by (auto simp: user_init_def Let_def split: option.splits if_splits)
  from assms i have "\<exists>fs fs'. user_db_add L sk (ae_write env) (ae_ent env) (ae_mem env) (sv_db st) fs u = Done (0, sv_db st', fs')"
    by (auto simp: user_register_def Let_def exec_bind_Done_iff split: if_splits prod.splits) (metis)
  with u that show thesis by blast
qed

text \<open>A registration succeeds when the client asks for it and the server finds what it needs.\<close>

definition register_env_ok :: "auth_env \<Rightarrow> bool" where
  "register_env_ok env \<longleftrightarrow> ae_secret env \<noteq> None \<and> ue_ok (ae_undel env) \<and> ae_key env \<and> uw_ok (ae_write env) \<and> ae_ent env"

lemma user_register_succeeds:
  assumes "lib_ok L" "signer_ok L sk spk" "db_inv L (sv_db st)" "size (db_users (sv_db st)) < 12" "length uid = 32"
    "user_db_get L (sv_db st) uid = Done None" "ae_reg env = Some register_text" "register_env_ok env"
  obtains st' u where "user_register L sk env st uid pk = Done (0, st')" "db_inv L (sv_db st')"
    "user_db_get L (sv_db st') uid = Done (Some u)" "u_pkey u = pk" "u_uid u = uid"
proof -
  note ok = lib_ok_parts [OF assms(1)]
  from assms(8) obtain auth where e: "ae_secret env = Some auth" "ue_ok (ae_undel env)" "ae_key env" "uw_ok (ae_write env)" "ae_ent env"
    by (auto simp: register_env_ok_def)
  let ?u = "\<lparr>u_pkey = pk, u_uid = uid, u_auth = auth\<rparr>"
  let ?f = "undel_file L auth []"
  have un: "undel_init_file L (ae_undel env) auth = (0, Some ?f)"
    using undel_init_holds [OF assms(1) e(2)] by blast
  from user_db_get_spec [OF ok(2) assms(3,5)] assms(6) have fresh: "\<forall>v \<in># db_users (sv_db st). u_uid v \<noteq> u_uid ?u" by auto
  have len: "length (u_uid ?u) = 32" using assms(5) by simp
  from user_db_add_ok [OF ok(2) assms(2) e(4) assms(3) len assms(4) fresh, of "ae_mem env" "sv_files st"] obtain db f where
    a: "user_db_add L sk (ae_write env) True (ae_mem env) (sv_db st) (sv_files st) ?u = Done (0, db, (sv_files st)(to_hex L uid \<mapsto> f))"
    "db_inv L db" "db_users db = add_mset ?u (db_users (sv_db st))" by auto
  let ?st = "st\<lparr>sv_undel := (sv_undel st)(uid \<mapsto> ?f), sv_db := db, sv_files := (sv_files st)(to_hex L uid \<mapsto> f)\<rparr>"
  have "user_register L sk env st uid pk = Done (0, ?st)"
    using a(1) e un assms(7) by (simp add: user_register_def prompt_user_register_def user_init_def register_text_def)
  moreover from user_db_get_spec [OF ok(2) a(2) assms(5)] obtain r where
    r: "user_db_get L db uid = Done r" "r = None \<longrightarrow> (\<forall>v \<in># db_users db. u_uid v \<noteq> uid)"
    "\<forall>v. r = Some v \<longrightarrow> v \<in># db_users db \<and> u_uid v = uid" by blast
  have "r = Some ?u" using r(2,3) fresh by (cases r) (auto simp: a(3))
  ultimately show thesis using that [of ?st ?u] a(2) r(1) by simp
qed

lemma user_db_add_get:
  assumes "lib_ok L" "db_inv L db" "length (u_uid u) = 32" "size (db_users db) < 12"
    "user_db_add L sk env ent mem db fs u = Done (0, db', fs')" "inj_on u_uid (set_mset (db_users db))"
  shows "user_db_get L db' (u_uid u) = Done (Some u) \<and> db_inv L db'"
proof -
  note ok = lib_ok_parts [OF assms(1)]
  from user_db_get_spec [OF ok(2) assms(2,3)] obtain r where
    r: "user_db_get L db (u_uid u) = Done r" "r = None \<longrightarrow> (\<forall>v \<in># db_users db. u_uid v \<noteq> u_uid u)" by blast
  with assms(5) have "r = None" by (auto simp: user_db_add_def split: if_splits)
  with assms(5) r have a: "ent" "user_db_add_no_write L ent mem db u = Done (0, db')"
    by (auto simp: user_db_add_def Let_def exec_bind_Done_iff user_db_add_no_write_def split: if_splits prod.splits)
  from add_no_write_ok [OF assms(2-4), of mem] a have
    d: "db_inv L db'" "db_users db' = add_mset u (db_users db)" by auto
  from user_db_get_spec [OF ok(2) d(1) assms(3)] obtain r' where
    r': "user_db_get L db' (u_uid u) = Done r'" "r' = None \<longrightarrow> (\<forall>v \<in># db_users db'. u_uid v \<noteq> u_uid u)"
    "\<forall>v. r' = Some v \<longrightarrow> v \<in># db_users db' \<and> u_uid v = u_uid u" by blast
  have "r' = Some u"
    using r' d(2) r(2) \<open>r = None\<close> by (cases r') auto
  with r'(1) d(1) show ?thesis by simp
qed

text \<open>
  C4: A login is authenticated: when \<open>auth_user\<close> returns 0 for an id, the client's answer consisted of
  that id, a public key, exactly the challenge drawn for this login, the length of the signature and a
  signature by that key over all four (bytes \<open>0x000-0x158\<close> of an answer with a key of 0x110 bytes;
  \<open>server/client_auth.txt\<close> says that the signature covers \<open>0x000-0x150\<close> only, without the length);
  afterwards the id is registered with that very key, and if it was registered before,
  no handler was logged in under it.
\<close>
theorem login_authenticated:
  assumes "lib_ok L" and "auth_user L sk env st = Done (0, uid, sent, st')"
    and "db_inv L (sv_db st)" and "size (db_users (sv_db st)) < 12" and "inj_on u_uid (set_mset (db_users (sv_db st)))"
    and "\<forall>c. ae_rand env = Some c \<longrightarrow> length c = 32" and "\<forall>m. ae_resp env = Some m \<longrightarrow> length m < 2 ^ 64"
  shows "\<exists>challenge key sl sg pk u.
    ae_rand env = Some challenge \<and> ae_resp env = Some (uid @ key @ challenge @ sl @ sg) \<and> length uid = 32 \<and>
    rsa_wire2pubkey L key = Some pk \<and> rsa_pss_verify L pk sg (uid @ key @ challenge @ sl) = Some True \<and>
    user_db_get L (sv_db st') uid = Done (Some u) \<and> u_pkey u = pk \<and>
    (user_db_get L (sv_db st) uid = Done (Some u) \<and> get_handler L (sv_ht st) uid = None \<and> st' = st \<or>
     user_db_get L (sv_db st) uid = Done None \<and> ae_reg env = Some register_text)"
proof -
  note ok = lib_ok_parts [OF assms(1)]
  from assms(2) obtain challenge resp where
    c: "ae_rand env = Some challenge" "ae_resp env = Some resp" "ae_send1 env"
    by (auto simp: auth_user_def split: option.splits if_splits)
  with assms(2) obtain pk uid' ret where
    r: "check_response L challenge resp = Done (Some (uid', pk))" "check_user L st uid' pk = Done ret"
    by (auto simp: auth_user_def exec_bind_Done_iff split: option.splits)
  have n: "ret \<noteq> 2" "ret \<noteq> 3" "uid' = uid" "ae_send2 env"
    using assms(2) c r by (auto simp: auth_user_def exec_bind_Done_iff Let_def split: if_splits)
  have l: "length challenge = 32" "length resp < 2 ^ 64" using assms(6,7) c by simp_all
  from check_response_Some [OF assms(1) r(1) l] obtain key sl sg where
    p: "resp = uid @ key @ challenge @ sl @ sg" "length uid = 32" "rsa_wire2pubkey L key = Some pk"
    "rsa_pss_verify L pk sg (uid @ key @ challenge @ sl) = Some True" unfolding n(3) by blast
  have "\<exists>u. user_db_get L (sv_db st') uid = Done (Some u) \<and> u_pkey u = pk \<and>
    (user_db_get L (sv_db st) uid = Done (Some u) \<and> get_handler L (sv_ht st) uid = None \<and> st' = st \<or>
     user_db_get L (sv_db st) uid = Done None \<and> ae_reg env = Some register_text)"
  proof (cases "ret = 1")
    case True
    have g: "user_db_get L (sv_db st) uid = Done None"
      using check_user_one [of L st uid pk] r(2) n(3) True by simp
    have u: "user_register L sk env st uid pk = Done (0, st')"
      using assms(2) c r n True by (auto simp: auth_user_def exec_bind_Done_iff Let_def split: if_splits)
    then have reg: "ae_reg env = Some register_text"
      by (auto simp: user_register_def prompt_user_register_def split: option.splits if_splits)
    from user_register_ok [OF u] obtain v fs fs' where v: "u_pkey v = pk" "u_uid v = uid"
      "user_db_add L sk (ae_write env) (ae_ent env) (ae_mem env) (sv_db st) fs v = Done (0, sv_db st', fs')" by blast
    have "length (u_uid v) = 32" using p(2) v(2) by simp
    from user_db_add_get [OF assms(1,3) this assms(4) v(3) assms(5)] v g reg show ?thesis by auto
  next
    case False
    with check_user_cases [OF r(2)] n have 0: "ret = 0" by blast
    have "st' = st" using assms(2) c r n 0 by (auto simp: auth_user_def exec_bind_Done_iff Let_def split: if_splits)
    with check_user_zero [of L st uid pk] r(2) n(3) 0 show ?thesis by blast
  qed
  with c p show ?thesis by blast
qed

definition demo_auth_env :: auth_env where
  "demo_auth_env = \<lparr>ae_rand = Some (replicate 32 3), ae_send1 = True, ae_resp = Some [1, 2, 3], ae_send2 = True,
     ae_reg = Some register_text, ae_secret = Some (replicate 32 4), ae_undel = demo_ue, ae_key = True, ae_write = demo_uw_env,
     ae_ent = True, ae_mem = True\<rparr>"

definition demo_state :: server_state where
  "demo_state = \<lparr>sv_db = init_user_db_st, sv_files = Map.empty,
     sv_ht = \<lparr>ht_buckets = replicate 16 [], ht_size = 16, ht_elements = 0\<rparr>, sv_undel = Map.empty,
     sv_sess = (\<lambda>_. (init_handler True, demo_keys))\<rparr>"

text \<open>A server on which the demo user is registered, and that user's answer.\<close>

definition demo_answer :: bytes where
  "demo_answer = replicate 32 1 @ (be_enc 8 16 @ be_enc 8 3 @ be_enc 8 77) @ replicate 32 3 @ encbe64 demo_lib 2 @
     the (rsa_pss_sign demo_lib demo_server_key
       (replicate 32 1 @ (be_enc 8 16 @ be_enc 8 3 @ be_enc 8 77) @ replicate 32 3 @ encbe64 demo_lib 2))"

lemma demo_answer_accepted:
  "check_response demo_lib (replicate 32 3) demo_answer = Done (Some (replicate 32 1, demo_server_pub))"
proof -
  have k: "rsa_pub_key demo_lib demo_server_key = Some demo_server_pub"
    "rsa_pubkey2wire demo_lib demo_server_pub = Some (be_enc 8 16 @ be_enc 8 3 @ be_enc 8 77)"
    "(sk_bits demo_server_key + 7) div 8 = 2"
    by (simp_all add: demo_lib_def demo_server_key_def demo_server_pub_def)
  have "\<exists>sg. rsa_pss_sign demo_lib demo_server_key m = Some sg" for m by (simp add: demo_lib_def)
  then obtain sg where s: "rsa_pss_sign demo_lib demo_server_key
      (replicate 32 1 @ (be_enc 8 16 @ be_enc 8 3 @ be_enc 8 77) @ replicate 32 3 @ encbe64 demo_lib 2) = Some sg" by blast
  have len: "length (be_enc 8 16 @ be_enc 8 3 @ be_enc 8 77) < 2 ^ 60" by simp
  have "0 < (sk_bits demo_server_key + 7) div 8" by (simp add: k(3))
  from check_response_honest [OF demo_lib_ok k(1,2) _ _ _ len this, of "replicate 32 1" "replicate 32 3" sg]
  show ?thesis using s unfolding demo_answer_def s option.sel k(3) by simp
qed

lemma demo_registered:
  "\<exists>st :: server_state. db_inv demo_lib (sv_db st) \<and> db_users (sv_db st) = {#demo_user#} \<and> get_handler demo_lib (sv_ht st) (replicate 32 1) = None"
proof -
  have u: "length (u_uid demo_user) = 32" by (simp add: demo_user_def)
  from add_no_write_ok [OF db_inv_init(1) u, where mem = True and L = demo_lib] obtain db where
    "db_inv demo_lib db" "db_users db = {#demo_user#}" by (auto simp: db_inv_init(2))
  moreover have "get_handler demo_lib (sv_ht demo_state) (replicate 32 1) = None"
    by (simp add: get_handler_def demo_state_def bucket_index_def nth_replicate unat_mod)
  ultimately show ?thesis by (intro exI [of _ "demo_state\<lparr>sv_db := db\<rparr>"]) simp
qed

theorem login_authenticated_witness:
  "\<exists>st sent st' challenge. auth_user demo_lib demo_server_key (demo_auth_env\<lparr>ae_resp := Some demo_answer\<rparr>) st =
     Done (0, replicate 32 1, sent, st') \<and> ae_rand demo_auth_env = Some challenge \<and>
     (\<exists>key sl sg. demo_answer = replicate 32 1 @ key @ challenge @ sl @ sg)"
proof -
  let ?e = "demo_auth_env\<lparr>ae_resp := Some demo_answer\<rparr>"
  obtain st :: server_state where st: "db_inv demo_lib (sv_db st)" "db_users (sv_db st) = {#demo_user#}"
    "get_handler demo_lib (sv_ht st) (replicate 32 1) = None" using demo_registered by blast
  have "user_db_get demo_lib (sv_db st) (replicate 32 1) = Done (Some demo_user)"
    using user_db_get_spec [OF lib_ok_parts(2) [OF demo_lib_ok] st(1), of "replicate 32 1"] st(2)
    by (auto simp: demo_user_def)
  then have "check_user demo_lib st (replicate 32 1) demo_server_pub = Done 0"
    using st(3) by (simp add: check_user_def demo_user_def demo_server_pub_def)
  then have "\<exists>sent. auth_user demo_lib demo_server_key ?e st = Done (0, replicate 32 1, sent, st)"
    using demo_answer_accepted by (simp add: auth_user_def demo_auth_env_def Let_def)
  then obtain sent where a: "auth_user demo_lib demo_server_key ?e st = Done (0, replicate 32 1, sent, st)" by blast
  have len: "length demo_answer < 2 ^ 64"
    by (simp add: demo_answer_def demo_lib_def demo_server_key_def)
  have n: "size (db_users (sv_db st)) < 12" "inj_on u_uid (set_mset (db_users (sv_db st)))"
    "\<forall>c. ae_rand ?e = Some c \<longrightarrow> length c = 32" "\<forall>m. ae_resp ?e = Some m \<longrightarrow> length m < 2 ^ 64"
    using st(2) len by (simp_all add: demo_auth_env_def)
  from login_authenticated [OF demo_lib_ok a st(1) n] a show ?thesis
    by (auto simp: demo_auth_env_def)
qed

text \<open>
  The server reads past a short answer: a client with a session that answers the challenge with
  fewer than 40 bytes makes \<open>auth_user\<close> read outside the message, because the length of the key is
  fetched from it before its length is checked.
\<close>
theorem auth_short_answer_overread:
  assumes "ae_rand env = Some challenge" and "ae_send1 env" and "ae_resp env = Some resp" and "length resp < 40"
  shows "auth_user L sk env st = UB"
  using assms by (simp add: auth_user_def check_response_def read_at_def)

theorem auth_short_answer_overread_witness:
  "auth_user demo_lib demo_server_key demo_auth_env demo_state = UB"
  using auth_short_answer_overread [of demo_auth_env "replicate 32 3" "[1, 2, 3]"] by (simp add: demo_auth_env_def)

end
