(* ===== verification/Server.thy ===== *)
theory Server
  imports ClientAuth
begin

text \<open>
  \<open>server/client_handler.c\<close>, the handler of a connected user: the messages it processes, the delivery
  of what was kept while the user was away, and the two places where handlers of different users
  run into each other, the handshake counter and the keys of a session.
\<close>

section \<open>Sending to a session\<close>

text \<open>\<open>send_message(h->hndl, h->keys, pt, len)\<close> for the handler with descriptor \<open>fd\<close>.\<close>

definition send_to :: "ibc \<Rightarrow> heap_oracle \<Rightarrow> server_state \<Rightarrow> int \<Rightarrow> bytes \<Rightarrow> (int \<times> server_state) exec" where
  "send_to L mem st fd pt =
     (case sv_sess st fd of (con, keys) \<Rightarrow>
        exec_bind (send_message L mem con keys pt (of_nat (length pt))) (\<lambda>(r, con', keys').
          Done (r, st\<lparr>sv_sess := (sv_sess st)(fd := (con', keys'))\<rparr>)))"

section \<open>Messages from a client\<close>

text \<open>What processing a message meets: the allocation of the response, those of the send, the file.\<close>

record hm_env =
  hm_alloc :: bool
  hm_send :: heap_oracle
  hm_undel :: undel_env
  hm_junk :: bytes

definition send_u_notfound :: "ibc \<Rightarrow> hm_env \<Rightarrow> server_state \<Rightarrow> client_handler \<Rightarrow> bytes \<Rightarrow>
    (int \<times> server_state) exec" where
  "send_u_notfound L env st self uid =
     (if \<not> hm_alloc env then Done (-1, st)
      else exec_bind (send_to L (hm_send env) st (ch_fd self) (0xff # uid)) (\<lambda>(r, st').
        Done (if r \<noteq> 0 then -1 else 0, st')))"

text \<open>Type 0: a message for another user, delivered to the handler or to the undelivered file.\<close>

definition handle_conv :: "ibc \<Rightarrow> hm_env \<Rightarrow> server_state \<Rightarrow> client_handler \<Rightarrow> bytes \<Rightarrow> bytes \<Rightarrow>
    (int \<times> server_state) exec" where
  "handle_conv L env st self uid m = exec_bind (user_db_get L (sv_db st) uid) (\<lambda>u. case u of
     None \<Rightarrow> send_u_notfound L env st self uid
   | Some u \<Rightarrow> exec_bind (read_at m 0x21 8) (\<lambda>lb.
       let payloadlen = decbe64 L lb; resplen = 1 + 0x20 + 0x08 + payloadlen in
       if resplen \<noteq> of_nat (length m) then Done (-1, st)
       else if \<not> hm_alloc env then UB
       else exec_bind (read_at m 0x29 (unat payloadlen)) (\<lambda>payload.
         let resp = 0 # ch_id self @ encbe64 L payloadlen @ payload
         in case get_handler L (sv_ht st) uid of
             None \<Rightarrow>
               (case sv_undel st uid of
                 None \<Rightarrow> exec_bind (undel_add_message L (hm_undel env\<lparr>ue_open := False\<rparr>) (u_auth u) resp [])
                   (\<lambda>(r, f). Done (if r \<noteq> 0 then -1 else 0, st))
               | Some f \<Rightarrow> exec_bind (undel_add_message L (hm_undel env) (u_auth u) resp f)
                   (\<lambda>(r, f'). Done (if r \<noteq> 0 then -1 else 0, st\<lparr>sv_undel := (sv_undel st)(uid \<mapsto> f')\<rparr>)))
           | Some t \<Rightarrow> exec_bind (send_to L (hm_send env) st (ch_fd t) resp) (\<lambda>(r, st').
               Done (if r \<noteq> 0 then -1 else 0, st')))))"

text \<open>Type 1: a request for a user's public key (the result of \<open>rsa_pubkey2wire\<close> is not looked at).\<close>

definition handle_key_request :: "ibc \<Rightarrow> hm_env \<Rightarrow> server_state \<Rightarrow> client_handler \<Rightarrow> bytes \<Rightarrow>
    (int \<times> server_state) exec" where
  "handle_key_request L env st self uid = exec_bind (user_db_get L (sv_db st) uid) (\<lambda>u. case u of
     None \<Rightarrow> send_u_notfound L env st self uid
   | Some u \<Rightarrow>
       if \<not> hm_alloc env then Done (-1, st)
       else exec_bind (send_to L (hm_send env) st (ch_fd self)
          (1 # uid @ case_option (hm_junk env) (\<lambda>w. w) (rsa_pubkey2wire L (u_pkey u)))) (\<lambda>(r, st').
         Done (if r \<noteq> 0 then -1 else 0, st')))"

definition handle_message :: "ibc \<Rightarrow> hm_env \<Rightarrow> server_state \<Rightarrow> client_handler \<Rightarrow> bytes \<Rightarrow>
    (int \<times> server_state) exec" where
  "handle_message L env st self m =
     (if length m < 33 then Done (-1, st)
      else let uid = slice 1 32 m in
        if hd m = 0 then handle_conv L env st self uid m
        else if hd m = 1 then handle_key_request L env st self uid
        else Done (0, st))"

text \<open>\<open>send_undelivered\<close>: the file is emptied by \<open>undel_load\<close> before the first message is sent.\<close>

fun send_list :: "ibc \<Rightarrow> (nat \<Rightarrow> heap_oracle) \<Rightarrow> server_state \<Rightarrow> int \<Rightarrow> bytes list \<Rightarrow> (int \<times> server_state) exec" where
  "send_list L mem st fd [] = Done (0, st)"
| "send_list L mem st fd (m # ms) =
     exec_bind (send_to L (mem (length ms)) st fd m) (\<lambda>(r, st').
       if r \<noteq> 0 then Done (-1, st') else send_list L mem st' fd ms)"

definition send_undelivered :: "ibc \<Rightarrow> undel_env \<Rightarrow> undel_env \<Rightarrow> (nat \<Rightarrow> heap_oracle) \<Rightarrow> server_state \<Rightarrow>
    client_handler \<Rightarrow> (int \<times> server_state) exec" where
  "send_undelivered L env env' mem st self = exec_bind (user_db_get L (sv_db st) (ch_id self)) (\<lambda>u. case u of
     None \<Rightarrow> Done (-1, st)
   | Some u \<Rightarrow> (case sv_undel st (ch_id self) of
       None \<Rightarrow> exec_bind (undel_load L (env\<lparr>ue_open := False\<rparr>) env' (u_auth u) []) (\<lambda>_. Done (-1, st))
     | Some f \<Rightarrow> exec_bind (undel_load L env env' (u_auth u) f) (\<lambda>(r, ms, f').
         let st' = st\<lparr>sv_undel := (sv_undel st)(ch_id self \<mapsto> f')\<rparr> in
         case ms of
           None \<Rightarrow> Done (-1, st')
         | Some ms \<Rightarrow> if r \<noteq> 0 then Done (-1, st') else send_list L mem st' (ch_fd self) ms)))"

text \<open>\<open>client_handle_loop\<close>, on what \<open>recv_message\<close> returns: results of \<open>handle_message\<close> are ignored.\<close>

fun client_handle_loop :: "ibc \<Rightarrow> (nat \<Rightarrow> hm_env) \<Rightarrow> server_state \<Rightarrow> client_handler \<Rightarrow> bytes option list \<Rightarrow>
    server_state exec" where
  "client_handle_loop L env st self [] = Done st"
| "client_handle_loop L env st self (None # ms) = client_handle_loop L env st self ms"
| "client_handle_loop L env st self (Some m # ms) =
     exec_bind (handle_message L (env (length ms)) st self m) (\<lambda>(_, st'). client_handle_loop L env st' self ms)"

text \<open>
  \<open>client_handler\<close> after the handshake: the login, the entry in the handler table, the messages that
  were kept (a failure there is accepted), the loop, and the removal from the table.
\<close>

record session_env =
  se_auth :: auth_env
  se_add :: heap_oracle
  se_load :: undel_env
  se_init :: undel_env
  se_kept :: "nat \<Rightarrow> heap_oracle"
  se_loop :: "nat \<Rightarrow> hm_env"
  se_rem :: heap_oracle

definition client_session :: "ibc \<Rightarrow> rsa_key \<Rightarrow> session_env \<Rightarrow> int \<Rightarrow> bytes option list \<Rightarrow> server_state \<Rightarrow>
    server_state exec" where
  "client_session L sk env fd inputs st =
     exec_bind (auth_user L sk (se_auth env) st) (\<lambda>(r, uid, sent, st1).
       if r \<noteq> 0 then Done st1
       else let self = \<lparr>ch_id = uid, ch_fd = fd, ch_stop = 0\<rparr> in
         (case add_handler L (se_add env) (sv_ht st1) self of (ra, ht) \<Rightarrow>
            let st2 = st1\<lparr>sv_ht := ht\<rparr> in
            if ra \<noteq> 0 then Done st2
            else exec_bind (send_undelivered L (se_load env) (se_init env) (se_kept env) st2 self) (\<lambda>(_, st3).
              exec_bind (client_handle_loop L (se_loop env) st3 self inputs) (\<lambda>st4.
                Done (st4\<lparr>sv_ht := snd (rem_handler L (se_rem env) (sv_ht st4) uid)\<rparr>)))))"

section \<open>Delivery\<close>

definition conv_request :: "ibc \<Rightarrow> bytes \<Rightarrow> bytes \<Rightarrow> bytes" where
  "conv_request L uid payload = 0 # uid @ encbe64 L (of_nat (length payload)) @ payload"

definition conv_delivery :: "ibc \<Rightarrow> bytes \<Rightarrow> bytes \<Rightarrow> bytes" where
  "conv_delivery L sender payload = 0 # sender @ encbe64 L (of_nat (length payload)) @ payload"

lemma handle_conv_parse:
  assumes "lib_ok L" "user_db_get L (sv_db st) uid = Done (Some u)" "length uid = 32" "length payload < 2 ^ 52"
    "hm_alloc env"
  shows "handle_message L env st self (conv_request L uid payload) =
    (case get_handler L (sv_ht st) uid of
       None \<Rightarrow> (case sv_undel st uid of
           None \<Rightarrow> exec_bind (undel_add_message L (hm_undel env\<lparr>ue_open := False\<rparr>) (u_auth u) (conv_delivery L (ch_id self) payload) [])
             (\<lambda>(r, f). Done (if r \<noteq> 0 then -1 else 0, st))
         | Some f \<Rightarrow> exec_bind (undel_add_message L (hm_undel env) (u_auth u) (conv_delivery L (ch_id self) payload) f)
             (\<lambda>(r, f'). Done (if r \<noteq> 0 then -1 else 0, st\<lparr>sv_undel := (sv_undel st)(uid \<mapsto> f')\<rparr>)))
     | Some t \<Rightarrow> exec_bind (send_to L (hm_send env) st (ch_fd t) (conv_delivery L (ch_id self) payload)) (\<lambda>(r, st').
         Done (if r \<noteq> 0 then -1 else 0, st')))"
proof -
  note ok = lib_ok_parts [OF assms(1)]
  let ?lb = "encbe64 L (of_nat (length payload))" and ?m = "conv_request L uid payload"
  have lb: "length ?lb = 8" "decbe64 L ?lb = of_nat (length payload)" using ok by (simp_all add: endian_simps)
  have len: "length ?m = 41 + length payload" using assms(3) lb(1) by (simp add: conv_request_def)
  have u: "unat (of_nat (length payload) :: u64) = length payload"
    using assms(4) by (intro unat_of_nat_small) simp
  have uid: "slice 1 32 ?m = uid" using assms(3) by (simp add: conv_request_def slice_def)
  have r1: "read_at ?m 0x21 8 = Done ?lb"
    using read_at_append [of "0 # uid" "0x21" ?lb 8 payload] assms(3) lb(1) by (simp add: conv_request_def)
  have r2: "read_at ?m 0x29 (length payload) = Done payload"
    using read_at_append [of "0 # uid @ ?lb" "0x29" payload "length payload" "[]"] assms(3) lb(1)
    by (simp add: conv_request_def)
  have eq: "(1 + 0x20 + 0x08 + of_nat (length payload) :: u64) = of_nat (length ?m)" by (simp add: len)
  have hd: "hd ?m = 0" "\<not> length ?m < 33" using len by (simp_all add: conv_request_def)
  show ?thesis
    unfolding handle_message_def Let_def uid handle_conv_def assms(2) exec_bind.simps option.case r1 lb(2) u r2 eq
      conv_delivery_def [symmetric]
    using hd assms(5) by (simp only: if_True if_False simp_thms)
qed


text \<open>Several messages handled one after the other, each by the handler of its sender.\<close>

fun handle_all :: "ibc \<Rightarrow> (nat \<Rightarrow> hm_env) \<Rightarrow> server_state \<Rightarrow> (client_handler \<times> bytes) list \<Rightarrow>
    server_state exec" where
  "handle_all L env st [] = Done st"
| "handle_all L env st ((h, m) # xs) =
     exec_bind (handle_message L (env (length xs)) st h m) (\<lambda>(_, st'). handle_all L env st' xs)"

lemma send_to_ok:
  assumes "lib_ok L" "sv_sess st fd = (con, s)" "key_linked s r" "length p + 80 < 2 ^ 64"
  shows "\<exists>m. send_to L (\<lambda>_ _. True) st fd p =
      Done (0, st\<lparr>sv_sess := (sv_sess st)(fd := (add_message (\<lambda>_ _. True) con m, s\<lparr>k_nonce := k_nonce s + 1\<rparr>))\<rparr>) \<and>
    (\<forall>q. recv_message L (\<lambda>_ _. True) r (Got m q) = Done (Some p))"
proof -
  have al: "alloc_message (\<lambda>_ _. True) x" for x by (simp add: alloc_message_def)
  have l: "length p + 40 < 2 ^ 64" using assms(4) by simp
  obtain m where m: "encrypt_message L (\<lambda>_ _. True) s p (of_nat (length p)) = Done (Some m)"
    using encrypt_message_ok [OF assms(1) al l] by blast
  have "recv_message L (\<lambda>_ _. True) r (Got m q) = Done (Some p)" for q
    by (rule recv_sealed [OF assms(1,3) m assms(4) al])
  with m assms(2) show ?thesis by (intro exI [of _ m]) (simp add: send_to_def send_message_def)
qed

lemma send_list_ok:
  assumes "lib_ok L"
  shows "sv_sess st fd = (con, s) \<Longrightarrow> key_linked s r \<Longrightarrow> \<forall>p \<in> set pts. length p + 80 < 2 ^ 64 \<Longrightarrow>
    \<exists>st' con' s' ms. send_list L (\<lambda>_ _ _. True) st fd pts = Done (0, st') \<and> sv_sess st' fd = (con', s') \<and>
      out_queue con' = out_queue con @ ms \<and> sv_undel st' = sv_undel st \<and>
      map (\<lambda>m. recv_message L (\<lambda>_ _. True) r (Got m q)) ms = map (\<lambda>p. Done (Some p)) pts"
proof (induction pts arbitrary: st con s)
  case Nil
  then show ?case by simp
next
  case (Cons p pts)
  have l: "length p + 80 < 2 ^ 64" "\<forall>p \<in> set pts. length p + 80 < 2 ^ 64" using Cons.prems(3) by simp_all
  from send_to_ok [OF assms Cons.prems(1,2) l(1)] obtain m where
    m: "send_to L (\<lambda>_ _. True) st fd p =
      Done (0, st\<lparr>sv_sess := (sv_sess st)(fd := (add_message (\<lambda>_ _. True) con m, s\<lparr>k_nonce := k_nonce s + 1\<rparr>))\<rparr>)"
    "recv_message L (\<lambda>_ _. True) r (Got m q) = Done (Some p)" by blast
  let ?st = "st\<lparr>sv_sess := (sv_sess st)(fd := (add_message (\<lambda>_ _. True) con m, s\<lparr>k_nonce := k_nonce s + 1\<rparr>))\<rparr>"
  have "sv_sess ?st fd = (add_message (\<lambda>_ _. True) con m, s\<lparr>k_nonce := k_nonce s + 1\<rparr>)" by simp
  from Cons.IH [OF this _ l(2)] Cons.prems(2) obtain st' con' s' ms where
    "send_list L (\<lambda>_ _ _. True) ?st fd pts = Done (0, st')" "sv_sess st' fd = (con', s')"
    "out_queue con' = out_queue con @ m # ms" "sv_undel st' = sv_undel st"
    "map (\<lambda>m. recv_message L (\<lambda>_ _. True) r (Got m q)) ms = map (\<lambda>p. Done (Some p)) pts"
    by (auto simp: add_message_def)
  with m show ?case by (intro exI [of _ st'] exI [of _ con'] exI [of _ s'] exI [of _ "m # ms"]) simp
qed

lemma entries_length_bound: "\<forall>m \<in> set ms. length m \<le> B \<Longrightarrow> entries_length ms \<le> length ms * (40 + B)"
  by (induction ms) (auto simp: entries_length_def)

lemma conv_delivery_length: "lib_ok L \<Longrightarrow> length sender = 32 \<Longrightarrow> length (conv_delivery L sender p) = 41 + length p"
  by (simp add: conv_delivery_def lib_ok_parts endian_simps(3))

lemma handle_all_kept:
  assumes "lib_ok L" "length uid = 32" "\<forall>i. hm_alloc (env i) \<and> ue_ok (hm_undel (env i))"
  shows "user_db_get L (sv_db st) uid = Done (Some u) \<Longrightarrow> get_handler L (sv_ht st) uid = None \<Longrightarrow>
    sv_undel st uid = Some f \<Longrightarrow> undel_holds L (u_auth u) f ms \<Longrightarrow>
    \<forall>(h, p) \<in> set items. length p < 2 ^ 40 \<Longrightarrow>
    undel_fits (ms @ map (\<lambda>(h, p). conv_delivery L (ch_id h) p) items) \<Longrightarrow>
    \<exists>f'. handle_all L env st (map (\<lambda>(h, p). (h, conv_request L uid p)) items) =
        Done (st\<lparr>sv_undel := (sv_undel st)(uid \<mapsto> f')\<rparr>) \<and>
      undel_holds L (u_auth u) f' (ms @ map (\<lambda>(h, p). conv_delivery L (ch_id h) p) items)"
proof (induction items arbitrary: st f ms)
  case Nil
  have "st\<lparr>sv_undel := (sv_undel st)(uid \<mapsto> f)\<rparr> = st" using Nil.prems(3) by (cases st) (simp add: fun_upd_idem)
  with Nil.prems(4) show ?case
    by (intro exI [of _ f] conjI) (simp_all only: handle_all.simps list.map append_Nil2)
next
  case (Cons i items)
  obtain h p where i: "i = (h, p)" by (cases i)
  let ?d = "conv_delivery L (ch_id h) p" and ?e = "env (length items)"
  have fits: "undel_fits (ms @ [?d])" "undel_fits ((ms @ [?d]) @ map (\<lambda>(h, p). conv_delivery L (ch_id h) p) items)"
    using undel.fits_prefix [of "ms @ [?d]" "map (\<lambda>(h, p). conv_delivery L (ch_id h) p) items"] Cons.prems(6) i
    by simp_all
  have e: "hm_alloc ?e" "ue_ok (hm_undel ?e)" and p: "length p < 2 ^ 40" using assms(3) Cons.prems(5) i by simp_all
  from undel.put_holds [OF Cons.prems(4) e(2) fits(1)] obtain f1 where
    f1: "undel_add_message L (hm_undel ?e) (u_auth u) ?d f = Done (0, f1)" "undel_holds L (u_auth u) f1 (ms @ [?d])"
    by blast
  let ?st = "st\<lparr>sv_undel := (sv_undel st)(uid \<mapsto> f1)\<rparr>"
  have s: "handle_message L ?e st h (conv_request L uid p) = Done (0, ?st)"
    using f1(1) Cons.prems(2,3) p by (simp add: handle_conv_parse [OF assms(1) Cons.prems(1) assms(2) _ e(1)])
  have "user_db_get L (sv_db ?st) uid = Done (Some u)" "get_handler L (sv_ht ?st) uid = None"
    "sv_undel ?st uid = Some f1" "\<forall>(h, p) \<in> set items. length p < 2 ^ 40"
    using Cons.prems by simp_all
  from Cons.IH [OF this(1-3) f1(2) this(4) fits(2)] s i show ?case by (auto simp del: fun_upd_apply)
qed

section \<open>Properties\<close>

text \<open>
  C8: What is sent to a user who is away arrives: the server handles any sequence of messages for a
  user without a handler, from whichever senders, by appending them to the user's undelivered file;
  when the user has logged in again, \<open>send_undelivered\<close> sends them, each with the sender's id in
  place of the target's, and the user's end of the session receives exactly these, in order; the file is
  then empty again.
\<close>
theorem offline_messages_delivered:
  assumes "lib_ok L" and "length uid = 32" and "\<forall>i. hm_alloc (env i) \<and> ue_ok (hm_undel (env i))"
    and "user_db_get L (sv_db st) uid = Done (Some u)" and "get_handler L (sv_ht st) uid = None"
    and "sv_undel st uid = Some (undel_file L (u_auth u) [])"
    and "\<forall>(h, p) \<in> set items. length (ch_id h) = 32 \<and> length p < 2 ^ 40" and "length items < 2 ^ 20"
    and "ue_ok e" and "ue_ok e'" and "ch_id self = uid"
    and "sv_sess st (ch_fd self) = (con, keys)" and "key_linked keys r"
  shows "\<exists>st1 st2 con' keys' ms. handle_all L env st (map (\<lambda>(h, p). (h, conv_request L uid p)) items) = Done st1 \<and>
    send_undelivered L e e' (\<lambda>_ _ _. True) (st1\<lparr>sv_ht := ht\<rparr>) self = Done (0, st2) \<and>
    sv_sess st2 (ch_fd self) = (con', keys') \<and> out_queue con' = out_queue con @ ms \<and>
    map (\<lambda>m. recv_message L (\<lambda>_ _. True) r (Got m q)) ms =
      map (\<lambda>(h, p). Done (Some (conv_delivery L (ch_id h) p))) items \<and>
    sv_undel st2 uid = Some (undel_file L (u_auth u) [])"
proof -
  let ?ds = "map (\<lambda>(h, p). conv_delivery L (ch_id h) p) items"
  have len: "length m \<le> 41 + 2 ^ 40" "m \<noteq> []" if "m \<in> set ?ds" for m
    using that assms(1,7) by (force simp: conv_delivery_length, auto simp: conv_delivery_def)
  have "entries_length ?ds \<le> 2 ^ 20 * (40 + (41 + 2 ^ 40))"
    using entries_length_bound [of ?ds "41 + 2 ^ 40"] len(1) assms(8)
    by (auto intro: order_trans mult_right_mono)
  moreover have "storable m" if "m \<in> set ?ds" for m using len [OF that] by (simp add: storable_def)
  ultimately have fits: "undel_fits ([] @ ?ds)" using assms(8) by (simp add: undel_fits_def)
  have h0: "undel_holds L (u_auth u) (undel_file L (u_auth u) []) []"
    using assms(1) by (simp add: undel_holds_def entries_length_def)
  have p: "\<forall>(h, p) \<in> set items. length p < 2 ^ 40" using assms(7) by auto
  from handle_all_kept [OF assms(1-6) h0 p fits] obtain f where
    f: "handle_all L env st (map (\<lambda>(h, p). (h, conv_request L uid p)) items) =
        Done (st\<lparr>sv_undel := (sv_undel st)(uid \<mapsto> f)\<rparr>)" "undel_holds L (u_auth u) f ?ds" by auto
  from undel.load_holds [OF f(2) assms(9,10)] obtain f' where
    l: "undel_load L e e' (u_auth u) f = Done (0, Some ?ds, f')" "undel_holds L (u_auth u) f' []" by blast
  have f': "f' = undel_file L (u_auth u) []" using l(2) by (simp add: undel_holds_def)
  let ?st = "st\<lparr>sv_undel := (sv_undel st)(uid \<mapsto> f), sv_ht := ht\<rparr>"
  let ?st' = "?st\<lparr>sv_undel := (sv_undel ?st)(uid \<mapsto> f')\<rparr>"
  have s: "sv_sess ?st' (ch_fd self) = (con, keys)" "\<forall>p \<in> set ?ds. length p + 80 < 2 ^ 64"
    using assms(12) len(1) by force+
  from send_list_ok [OF assms(1) s(1) assms(13) s(2)] obtain st2 con' keys' ms where
    r: "send_list L (\<lambda>_ _ _. True) ?st' (ch_fd self) ?ds = Done (0, st2)" "sv_sess st2 (ch_fd self) = (con', keys')"
    "out_queue con' = out_queue con @ ms" "sv_undel st2 = sv_undel ?st'"
    "map (\<lambda>m. recv_message L (\<lambda>_ _. True) r (Got m q)) ms = map (\<lambda>p. Done (Some p)) ?ds" by blast
  have "send_undelivered L e e' (\<lambda>_ _ _. True) ?st self = Done (0, st2)"
    using assms(4,11) l(1) r(1) by (simp add: send_undelivered_def)
  then show ?thesis
    using f(1) r(2-5) f' assms(11) by (auto simp: case_prod_beta comp_def)
qed


definition demo_hm_env :: hm_env where
  "demo_hm_env = \<lparr>hm_alloc = True, hm_send = (\<lambda>_ _. True), hm_undel = demo_ue, hm_junk = []\<rparr>"

lemma demo_online_state:
  "\<exists>st :: server_state. user_db_get demo_lib (sv_db st) (replicate 32 1) = Done (Some demo_user) \<and>
     sv_undel st = [replicate 32 1 \<mapsto> undel_file demo_lib (u_auth demo_user) []] \<and>
     sv_sess st = (\<lambda>_. (init_handler True, demo_keys)) \<and> sv_ht st = h"
proof -
  obtain st :: server_state where st: "db_inv demo_lib (sv_db st)" "db_users (sv_db st) = {#demo_user#}"
    using demo_registered by blast
  have "user_db_get demo_lib (sv_db st) (replicate 32 1) = Done (Some demo_user)"
    using user_db_get_spec [OF lib_ok_parts(2) [OF demo_lib_ok] st(1), of "replicate 32 1"] st(2)
    by (auto simp: demo_user_def)
  then show ?thesis
    by (intro exI [of _ "st\<lparr>sv_undel := [replicate 32 1 \<mapsto> undel_file demo_lib (u_auth demo_user) []],
      sv_sess := (\<lambda>_. (init_handler True, demo_keys)), sv_ht := h\<rparr>"]) simp
qed

lemma demo_no_handler: "get_handler demo_lib (sv_ht demo_state) (replicate 32 1) = None"
  by (simp add: get_handler_def demo_state_def bucket_index_def nth_replicate unat_mod)

theorem offline_messages_delivered_witness:
  "\<exists>st st1 st2 con' keys' ms. handle_all demo_lib (\<lambda>_. demo_hm_env) st
      [(\<lparr>ch_id = replicate 32 9, ch_fd = 4, ch_stop = 0\<rparr>, conv_request demo_lib (replicate 32 1) [7]),
       (\<lparr>ch_id = replicate 32 9, ch_fd = 4, ch_stop = 0\<rparr>, conv_request demo_lib (replicate 32 1) [8])] = Done st1 \<and>
    send_undelivered demo_lib demo_ue demo_ue (\<lambda>_ _ _. True) (st1\<lparr>sv_ht := sv_ht demo_state\<rparr>)
      \<lparr>ch_id = replicate 32 1, ch_fd = 3, ch_stop = 0\<rparr> = Done (0, st2) \<and> sv_sess st2 3 = (con', keys') \<and> out_queue con' = ms \<and>
    map (\<lambda>m. recv_message demo_lib (\<lambda>_ _. True) demo_peer (Got m [])) ms =
      [Done (Some (conv_delivery demo_lib (replicate 32 9) [7])), Done (Some (conv_delivery demo_lib (replicate 32 9) [8]))]"
proof -
  obtain st :: server_state where st: "user_db_get demo_lib (sv_db st) (replicate 32 1) = Done (Some demo_user)"
     "sv_undel st (replicate 32 1) = Some (undel_file demo_lib (u_auth demo_user) [])"
     "sv_sess st 3 = (init_handler True, demo_keys)" "sv_ht st = sv_ht demo_state"
    using demo_online_state [of "sv_ht demo_state"] by auto
  let ?h = "\<lparr>ch_id = replicate 32 9, ch_fd = 4, ch_stop = 0\<rparr> :: client_handler"
    and ?self = "\<lparr>ch_id = replicate 32 1, ch_fd = 3, ch_stop = 0\<rparr> :: client_handler"
  have env: "\<forall>i :: nat. hm_alloc demo_hm_env \<and> ue_ok (hm_undel demo_hm_env)"
    using demo_ue_ok by (simp add: demo_hm_env_def)
  have l: "length (replicate 32 (1 :: byte)) = 32" by simp
  have items: "\<forall>(h, p) \<in> set [(?h, [7 :: byte]), (?h, [8])]. length (ch_id h) = 32 \<and> length p < 2 ^ 40"
    "length [(?h, [7 :: byte]), (?h, [8])] < 2 ^ 20" by simp_all
  have self: "ch_id ?self = replicate 32 1" "sv_sess st (ch_fd ?self) = (init_handler True, demo_keys)"
    "key_linked demo_keys demo_peer"
    using st(3) by (simp_all add: key_linked_def demo_keys_def demo_peer_def)
  have "get_handler demo_lib (sv_ht st) (replicate 32 1) = None" using demo_no_handler st(4) by simp
  from offline_messages_delivered [where env = "\<lambda>_. demo_hm_env", OF demo_lib_ok l env st(1) this st(2) items
      demo_ue_ok demo_ue_ok self, of "sv_ht demo_state" "[]"]
  obtain st1 st2 con' keys' ms where r:
    "handle_all demo_lib (\<lambda>_. demo_hm_env) st (map (\<lambda>(h, p). (h, conv_request demo_lib (replicate 32 1) p))
      [(?h, [7]), (?h, [8])]) = Done st1"
    "send_undelivered demo_lib demo_ue demo_ue (\<lambda>_ _ _. True) (st1\<lparr>sv_ht := sv_ht demo_state\<rparr>) ?self = Done (0, st2)"
    "sv_sess st2 (ch_fd ?self) = (con', keys')" "out_queue con' = out_queue (init_handler True) @ ms"
    "map (\<lambda>m. recv_message demo_lib (\<lambda>_ _. True) demo_peer (Got m [])) ms =
      map (\<lambda>(h, p). Done (Some (conv_delivery demo_lib (ch_id h) p))) [(?h, [7]), (?h, [8])]" by blast
  show ?thesis
    using r by (intro exI [of _ st] exI [of _ st1] exI [of _ st2] exI [of _ con'] exI [of _ keys'] exI [of _ ms])
      (simp add: init_handler_def)
qed

lemma add_message_True:
  "add_message (\<lambda>_ _. True) con m =
     con\<lparr>out_queue := out_queue con @ [m], out_cond := (if out_pipe con then out_cond con + 1 else out_cond con)\<rparr>"
  by (simp add: add_message_def)

text \<open>A payload for a user who is connected goes to their session, under the sender's id.\<close>

lemma relay_online:
  assumes "lib_ok L" "length uid = 32" "length p < 2 ^ 52" "hm_alloc env" "hm_send env = (\<lambda>_ _. True)"
    "user_db_get L (sv_db st) uid = Done (Some u)" "get_handler L (sv_ht st) uid = Some t"
    "sv_sess st (ch_fd t) = (con, keys)" "key_linked keys r" "length (ch_id self) = 32"
  obtains m where "handle_message L env st self (conv_request L uid p) =
      Done (0, st\<lparr>sv_sess := (sv_sess st)(ch_fd t := (add_message (\<lambda>_ _. True) con m, keys\<lparr>k_nonce := k_nonce keys + 1\<rparr>))\<rparr>)"
    "\<forall>q. recv_message L (\<lambda>_ _. True) r (Got m q) = Done (Some (conv_delivery L (ch_id self) p))"
proof -
  have "length (conv_delivery L (ch_id self) p) + 80 < 2 ^ 64"
    using conv_delivery_length [OF assms(1,10)] assms(3) by simp
  from send_to_ok [OF assms(1,8,9) this] obtain m where
    "send_to L (\<lambda>_ _. True) st (ch_fd t) (conv_delivery L (ch_id self) p) =
      Done (0, st\<lparr>sv_sess := (sv_sess st)(ch_fd t := (add_message (\<lambda>_ _. True) con m, keys\<lparr>k_nonce := k_nonce keys + 1\<rparr>))\<rparr>)"
    "\<forall>q. recv_message L (\<lambda>_ _. True) r (Got m q) = Done (Some (conv_delivery L (ch_id self) p))" by blast
  then show thesis by (intro that [of m]) (simp_all add: handle_conv_parse [OF assms(1,6,2,3,4)] assms(5,7))
qed

text \<open>
  A message for a user who is connected is relayed: the target's end of its session receives it with
  the sender's id in place of its own, and nothing else changes, neither another session nor a file.
\<close>
theorem online_message_relayed:
  assumes "lib_ok L" and "length uid = 32" and "length p < 2 ^ 40" and "hm_alloc env" and "hm_send env = (\<lambda>_ _. True)"
    and "user_db_get L (sv_db st) uid = Done (Some u)" and "get_handler L (sv_ht st) uid = Some t"
    and "sv_sess st (ch_fd t) = (con, keys)" and "key_linked keys r" and "length (ch_id self) = 32"
  shows "\<exists>m. handle_message L env st self (conv_request L uid p) =
      Done (0, st\<lparr>sv_sess := (sv_sess st)(ch_fd t := (con\<lparr>out_queue := out_queue con @ [m], out_cond := (if out_pipe con then out_cond con + 1 else out_cond con)\<rparr>,
        keys\<lparr>k_nonce := k_nonce keys + 1\<rparr>))\<rparr>) \<and>
    recv_message L (\<lambda>_ _. True) r (Got m q) = Done (Some (conv_delivery L (ch_id self) p))"
proof -
  have "length p < 2 ^ 52" using assms(3) by simp
  from relay_online [OF assms(1,2) this assms(4-10)] obtain m where
    "handle_message L env st self (conv_request L uid p) =
      Done (0, st\<lparr>sv_sess := (sv_sess st)(ch_fd t := (add_message (\<lambda>_ _. True) con m, keys\<lparr>k_nonce := k_nonce keys + 1\<rparr>))\<rparr>)"
    "\<forall>q. recv_message L (\<lambda>_ _. True) r (Got m q) = Done (Some (conv_delivery L (ch_id self) p))" .
  then show ?thesis unfolding add_message_True by (intro exI [of _ m]) simp
qed

theorem online_message_relayed_witness:
  "\<exists>st m. handle_message demo_lib demo_hm_env st \<lparr>ch_id = replicate 32 9, ch_fd = 4, ch_stop = 0\<rparr>
       (conv_request demo_lib (replicate 32 1) [7, 8]) =
     Done (0, st\<lparr>sv_sess := (sv_sess st)(3 := ((init_handler True)\<lparr>out_queue := [m], out_cond := 1\<rparr>, demo_keys\<lparr>k_nonce := 2\<rparr>))\<rparr>) \<and>
     recv_message demo_lib (\<lambda>_ _. True) demo_peer (Got m []) = Done (Some (conv_delivery demo_lib (replicate 32 9) [7, 8]))"
proof -
  let ?t = "\<lparr>ch_id = replicate 32 1, ch_fd = 3, ch_stop = 0\<rparr> :: client_handler"
    and ?self = "\<lparr>ch_id = replicate 32 9, ch_fd = 4, ch_stop = 0\<rparr> :: client_handler"
  let ?ht = "\<lparr>ht_buckets = replicate 16 [?t], ht_size = 16, ht_elements = 1\<rparr> :: handler_table"
  obtain st :: server_state where st: "user_db_get demo_lib (sv_db st) (replicate 32 1) = Done (Some demo_user)"
     "sv_sess st (ch_fd ?t) = (init_handler True, demo_keys)" "sv_ht st = ?ht"
    using demo_online_state [of ?ht] by auto
  have g: "get_handler demo_lib (sv_ht st) (replicate 32 1) = Some ?t"
    by (simp add: st(3) get_handler_def bucket_index_def nth_replicate unat_mod)
  have k: "key_linked demo_keys demo_peer" by (simp add: key_linked_def demo_keys_def demo_peer_def)
  from online_message_relayed [OF demo_lib_ok _ _ _ _ st(1) g st(2) k, of "[7, 8]" demo_hm_env ?self "[]"]
  obtain m where "handle_message demo_lib demo_hm_env st ?self (conv_request demo_lib (replicate 32 1) [7, 8]) =
      Done (0, st\<lparr>sv_sess := (sv_sess st)(ch_fd ?t := ((init_handler True)\<lparr>out_queue := out_queue (init_handler True) @ [m],
        out_cond := (if out_pipe (init_handler True) then out_cond (init_handler True) + 1 else out_cond (init_handler True))\<rparr>,
        demo_keys\<lparr>k_nonce := k_nonce demo_keys + 1\<rparr>))\<rparr>)"
    "recv_message demo_lib (\<lambda>_ _. True) demo_peer (Got m []) = Done (Some (conv_delivery demo_lib (ch_id ?self) [7, 8]))"
    by (auto simp: demo_hm_env_def)
  then show ?thesis by (intro exI [of _ st] exI [of _ m]) (simp add: init_handler_def demo_keys_def)
qed

text \<open>
  C24: The server's answers to a client reach that client: for a target that is not registered the reply is
  the byte 0xff and the target's id, for a key request it is the byte 1, the id and the wire form of
  the registered key; nothing else in the server changes.
\<close>
theorem requests_answered:
  assumes "lib_ok L" and "length uid = 32" and "hm_alloc env" and "hm_send env = (\<lambda>_ _. True)"
    and "user_db_get L (sv_db st) uid = Done u" and "code = 1 \<or> code = 0 \<and> u = None"
    and "case u of None \<Rightarrow> ans = 0xff # uid
         | Some v \<Rightarrow> (\<exists>w. rsa_pubkey2wire L (u_pkey v) = Some w \<and> length w < 2 ^ 40 \<and> ans = 1 # uid @ w)"
    and "sv_sess st (ch_fd self) = (con, keys)" and "key_linked keys r"
  shows "\<exists>m. handle_message L env st self (code # uid @ rest) =
      Done (0, st\<lparr>sv_sess := (sv_sess st)(ch_fd self := (con\<lparr>out_queue := out_queue con @ [m], out_cond := (if out_pipe con then out_cond con + 1 else out_cond con)\<rparr>,
        keys\<lparr>k_nonce := k_nonce keys + 1\<rparr>))\<rparr>) \<and>
    recv_message L (\<lambda>_ _. True) r (Got m q) = Done (Some ans)"
proof -
  have uid: "slice (Suc 0) 32 (c # uid @ rest) = uid" for c using assms(2) by (simp add: slice_def)
  have l: "length ans + 80 < 2 ^ 64" using assms(2,7) by (auto split: option.split_asm)
  from send_to_ok [OF assms(1,8,9) l] assms(2-7) show ?thesis
    by (cases u) (auto simp: handle_message_def Let_def uid handle_conv_def handle_key_request_def send_u_notfound_def
      add_message_def)
qed

theorem requests_answered_witness:
  "\<exists>m. handle_message demo_lib demo_hm_env demo_state \<lparr>ch_id = replicate 32 9, ch_fd = 4, ch_stop = 0\<rparr>
       (1 # replicate 32 5) =
     Done (0, demo_state\<lparr>sv_sess := (sv_sess demo_state)(4 := ((init_handler True)\<lparr>out_queue := [m], out_cond := 1\<rparr>,
       demo_keys\<lparr>k_nonce := 2\<rparr>))\<rparr>) \<and>
     recv_message demo_lib (\<lambda>_ _. True) demo_peer (Got m []) = Done (Some (0xff # replicate 32 5))"
proof -
  let ?self = "\<lparr>ch_id = replicate 32 9, ch_fd = 4, ch_stop = 0\<rparr> :: client_handler"
  have g: "user_db_get demo_lib (sv_db demo_state) (replicate 32 5) = Done None"
    using user_db_get_spec [OF lib_ok_parts(2) [OF demo_lib_ok] db_inv_init(1), of "replicate 32 5"]
    by (auto simp: demo_state_def db_inv_init(2))
  have k: "key_linked demo_keys demo_peer" "sv_sess demo_state (ch_fd ?self) = (init_handler True, demo_keys)"
    by (simp_all add: key_linked_def demo_keys_def demo_peer_def demo_state_def)
  from requests_answered [OF demo_lib_ok _ _ _ g _ _ k(2,1), of demo_hm_env 1 "0xff # replicate 32 5" "[]" "[]"]
  show ?thesis by (simp add: demo_hm_env_def init_handler_def demo_keys_def)
qed

text \<open>
  A short message is read past its end: a client message of type 0 and 33 to 40 bytes for a registered
  user makes \<open>handle_message\<close> read the length field from behind the message.
\<close>
theorem relay_short_message_overread:
  assumes "33 \<le> length m" and "length m < 41" and "hd m = 0"
    and "user_db_get L (sv_db st) (slice 1 32 m) = Done (Some u)"
  shows "handle_message L env st self m = UB"
  using assms by (simp add: handle_message_def handle_conv_def read_at_def)

theorem relay_short_message_overread_witness:
  "\<exists>st. handle_message demo_lib demo_hm_env st \<lparr>ch_id = replicate 32 9, ch_fd = 4, ch_stop = 0\<rparr>
     (0 # replicate 32 1 @ [0, 0]) = UB"
proof -
  obtain st :: server_state where "user_db_get demo_lib (sv_db st) (replicate 32 1) = Done (Some demo_user)"
    using demo_online_state by blast
  then have "user_db_get demo_lib (sv_db st) (slice 1 32 (0 # replicate 32 1 @ [0, 0])) = Done (Some demo_user)"
    by (simp add: slice_def)
  from relay_short_message_overread [OF _ _ _ this] show ?thesis by auto
qed

end
