(* ===== verification/ServerRaces.thy ===== *)
theory ServerRaces
  imports Server
begin

text \<open>
  The two places of \<open>server/client_handler.c\<close> where the handler threads of different users share
  memory: the counter of running handshakes (\<open>client_handler_handshake\<close>) and the key set of a
  session, which every handler with a message for that user passes to \<open>send_message\<close>. Both are step
  relations with one step per access to the shared memory.
\<close>

section \<open>Handshake slots\<close>

definition MAX_HANDSHAKES :: int where "MAX_HANDSHAKES = 1"

text \<open>
  Where a handler thread is: before the test of the counter, waiting for the condition variable, past
  the test with the mutex released, with the value it read for \<open>handshake_sem++\<close>, in
  \<open>server_handshake\<close>, holding the mutex with the value it read for \<open>handshake_sem--\<close>, or gone.
\<close>

datatype hs_pc = Arriving | Waiting | Passed | Loaded int | Shaking | Leaving int | Left

record hs_state =
  handshake_sem :: int
  hs_mutex :: "nat option"
  hs_pc :: "nat \<Rightarrow> hs_pc"

definition hs_start :: hs_state where
  "hs_start = \<lparr>handshake_sem = 0, hs_mutex = None, hs_pc = (\<lambda>_. Arriving)\<rparr>"

text \<open>\<open>pthread_cond_broadcast\<close>: every waiting thread takes the mutex again and repeats the test.\<close>

definition hs_broadcast :: "(nat \<Rightarrow> hs_pc) \<Rightarrow> nat \<Rightarrow> hs_pc" where
  "hs_broadcast pc = (\<lambda>j. if pc j = Waiting then Arriving else pc j)"

inductive hs_step :: "hs_state \<Rightarrow> hs_state \<Rightarrow> bool" where
  hs_pass: "hs_pc s i = Arriving \<Longrightarrow> hs_mutex s = None \<Longrightarrow> handshake_sem s \<noteq> MAX_HANDSHAKES \<Longrightarrow>
    hs_step s (s\<lparr>hs_pc := (hs_pc s)(i := Passed)\<rparr>)"
| hs_wait: "hs_pc s i = Arriving \<Longrightarrow> hs_mutex s = None \<Longrightarrow> handshake_sem s = MAX_HANDSHAKES \<Longrightarrow>
    hs_step s (s\<lparr>hs_pc := (hs_pc s)(i := Waiting)\<rparr>)"
| hs_spurious: "hs_pc s i = Waiting \<Longrightarrow> hs_step s (s\<lparr>hs_pc := (hs_pc s)(i := Arriving)\<rparr>)"
| hs_load: "hs_pc s i = Passed \<Longrightarrow> hs_step s (s\<lparr>hs_pc := (hs_pc s)(i := Loaded (handshake_sem s))\<rparr>)"
| hs_store: "hs_pc s i = Loaded v \<Longrightarrow>
    hs_step s (s\<lparr>handshake_sem := v + 1, hs_pc := (hs_pc s)(i := Shaking)\<rparr>)"
| hs_finish: "hs_pc s i = Shaking \<Longrightarrow> hs_mutex s = None \<Longrightarrow>
    hs_step s (s\<lparr>hs_mutex := Some i, hs_pc := (hs_pc s)(i := Leaving (handshake_sem s))\<rparr>)"
| hs_release: "hs_pc s i = Leaving v \<Longrightarrow>
    hs_step s (s\<lparr>handshake_sem := v - 1, hs_mutex := None, hs_pc := hs_broadcast ((hs_pc s)(i := Left))\<rparr>)"

inductive_cases hs_stepE: "hs_step s s'"

lemma hs_step_to: "hs_step s t \<Longrightarrow> hs_step\<^sup>*\<^sup>* r s \<Longrightarrow> hs_step\<^sup>*\<^sup>* r t"
  by (rule rtranclp.rtrancl_into_rtrancl)

lemma all_pass:
  "hs_step\<^sup>*\<^sup>* hs_start \<lparr>handshake_sem = 0, hs_mutex = None, hs_pc = (\<lambda>i. if i < n then Passed else Arriving)\<rparr>"
proof (induction n)
  case 0
  then show ?case by (simp add: hs_start_def)
next
  case (Suc n)
  have eq: "(\<lambda>i. if i < n then Passed else Arriving)(n := Passed) = (\<lambda>i. if i < Suc n then Passed else Arriving)"
    by (auto simp: fun_eq_iff less_Suc_eq)
  show ?case
    using hs_pass [of "\<lparr>handshake_sem = 0, hs_mutex = None, hs_pc = (\<lambda>i. if i < n then Passed else Arriving)\<rparr>" n]
      hs_step_to [OF _ Suc.IH] by (simp add: eq MAX_HANDSHAKES_def)
qed

lemma all_shake:
  "k \<le> n \<Longrightarrow> hs_step\<^sup>*\<^sup>* hs_start \<lparr>handshake_sem = int k, hs_mutex = None,
     hs_pc = (\<lambda>i. if i < k then Shaking else if i < n then Passed else Arriving)\<rparr>"
proof (induction k)
  case 0
  then show ?case using all_pass [of n] by simp
next
  case (Suc k)
  let ?s = "\<lparr>handshake_sem = int k, hs_mutex = None,
     hs_pc = (\<lambda>i. if i < k then Shaking else if i < n then Passed else Arriving)\<rparr>"
  have k: "k < n" using Suc.prems by simp
  let ?t = "?s\<lparr>hs_pc := (hs_pc ?s)(k := Loaded (int k))\<rparr>"
  have 1: "hs_step ?s ?t" using hs_load [of ?s k] k by simp
  have 2: "hs_step ?t (?t\<lparr>handshake_sem := int k + 1, hs_pc := (hs_pc ?t)(k := Shaking)\<rparr>)"
    by (rule hs_store) simp
  have eq: "?t\<lparr>handshake_sem := int k + 1, hs_pc := (hs_pc ?t)(k := Shaking)\<rparr> = \<lparr>handshake_sem = int (Suc k), hs_mutex = None,
     hs_pc = (\<lambda>i. if i < Suc k then Shaking else if i < n then Passed else Arriving)\<rparr>"
    by (auto simp: fun_eq_iff less_Suc_eq)
  from hs_step_to [OF 2 [unfolded eq] hs_step_to [OF 1 Suc.IH]] k show ?case by simp
qed

text \<open>Once the counter is stuck at its limit with nobody inside, it stays so.\<close>

definition hs_stuck :: "hs_state \<Rightarrow> bool" where
  "hs_stuck s \<longleftrightarrow> handshake_sem s = MAX_HANDSHAKES \<and> (\<forall>i. hs_pc s i \<in> {Arriving, Waiting, Left})"

lemma hs_stuck_step: "hs_step s s' \<Longrightarrow> hs_stuck s \<Longrightarrow> hs_stuck s'"
proof (induction rule: hs_step.induct)
  case (hs_load s i)
  then show ?case by (auto simp: hs_stuck_def dest: spec [of _ i])
next
  case (hs_store s i v)
  then show ?case by (auto simp: hs_stuck_def dest: spec [of _ i])
next
  case (hs_finish s i)
  then show ?case by (auto simp: hs_stuck_def dest: spec [of _ i])
next
  case (hs_release s i v)
  then show ?case by (auto simp: hs_stuck_def dest: spec [of _ i])
qed (simp_all add: hs_stuck_def)

lemma hs_stuck_steps: "hs_step\<^sup>*\<^sup>* s s' \<Longrightarrow> hs_stuck s \<Longrightarrow> hs_stuck s'"
  by (induction rule: rtranclp_induct) (auto intro: hs_stuck_step)

section \<open>Two handlers sending to one session\<close>

text \<open>
  \<open>send_message\<close> in the order of its accesses to the session: the message is sealed under the nonce
  found, the nonce is incremented, the message is queued. Nothing in it or around it is a lock.
\<close>

datatype send_pc = SendIdle | SendSealed message | SendBumped message

record send_state =
  ss_keys :: keyset
  ss_con :: con_handle
  ss_pc :: "nat \<Rightarrow> send_pc"

inductive send_step :: "ibc \<Rightarrow> heap_oracle \<Rightarrow> send_state \<Rightarrow> send_state \<Rightarrow> bool" for L mem where
  send_seal: "ss_pc s i = SendIdle \<Longrightarrow>
    encrypt_message L mem (ss_keys s) pt (of_nat (length pt)) = Done (Some m) \<Longrightarrow>
    send_step L mem s (s\<lparr>ss_pc := (ss_pc s)(i := SendSealed m)\<rparr>)"
| send_bump: "ss_pc s i = SendSealed m \<Longrightarrow>
    send_step L mem s (s\<lparr>ss_keys := (ss_keys s)\<lparr>k_nonce := k_nonce (ss_keys s) + 1\<rparr>,
      ss_pc := (ss_pc s)(i := SendBumped m)\<rparr>)"
| send_queue: "ss_pc s i = SendBumped m \<Longrightarrow>
    send_step L mem s (s\<lparr>ss_con := add_message (\<lambda>k. mem (k + 2)) (ss_con s) m, ss_pc := (ss_pc s)(i := SendIdle)\<rparr>)"

lemma send_step_to: "send_step L mem s t \<Longrightarrow> (send_step L mem)\<^sup>*\<^sup>* r s \<Longrightarrow> (send_step L mem)\<^sup>*\<^sup>* r t"
  by (rule rtranclp.rtrancl_into_rtrancl)

text \<open>Without another thread in between, the three steps are \<open>send_message\<close>.\<close>

lemma send_steps_refine:
  assumes "send_message L mem con keys pt (of_nat (length pt)) = Done (0, con', keys')" "pc i = SendIdle"
  shows "(send_step L mem)\<^sup>*\<^sup>* \<lparr>ss_keys = keys, ss_con = con, ss_pc = pc\<rparr> \<lparr>ss_keys = keys', ss_con = con', ss_pc = pc\<rparr>"
proof -
  let ?s = "\<lparr>ss_keys = keys, ss_con = con, ss_pc = pc\<rparr>"
  from assms(1) obtain m where m: "encrypt_message L mem keys pt (of_nat (length pt)) = Done (Some m)"
    "con' = add_message (\<lambda>k. mem (k + 2)) con m" "keys' = keys\<lparr>k_nonce := k_nonce keys + 1\<rparr>"
    by (auto simp: send_message_def exec_bind_Done_iff split: option.splits)
  let ?t = "?s\<lparr>ss_pc := pc(i := SendSealed m)\<rparr>"
  let ?u = "?t\<lparr>ss_keys := keys', ss_pc := pc(i := SendBumped m)\<rparr>"
  have "send_step L mem ?s ?t" using send_seal [of ?s i L mem pt m] assms(2) m(1) by simp
  moreover have "send_step L mem ?t ?u" using send_bump [of ?t i m L mem] m(3) by simp
  moreover have "send_step L mem ?u \<lparr>ss_keys = keys', ss_con = con', ss_pc = pc\<rparr>"
    using send_queue [of ?u i m L mem] m(2) assms(2) by (simp add: fun_upd_idem)
  ultimately show ?thesis
    using send_step_to [OF _ send_step_to [OF _ r_into_rtranclp]] by blast
qed

section \<open>Properties\<close>

text \<open>
  The limit on handshakes does not limit them: the counter is incremented after the mutex that
  guards its test has been released, so any number of handler threads can be in
  \<open>server_handshake\<close> at once, while \<open>MAX_HANDSHAKES\<close> is 1.
\<close>
theorem handshake_limit_exceeded:
  "\<exists>s. hs_step\<^sup>*\<^sup>* hs_start s \<and> card {i. hs_pc s i = Shaking} = n"
proof -
  have "{i. (if i < n then Shaking else if i < n then Passed else Arriving) = Shaking} = {..<n}" by auto
  with all_shake [of n n] show ?thesis
    by (intro exI [of _ "\<lparr>handshake_sem = int n, hs_mutex = None,
      hs_pc = (\<lambda>i. if i < n then Shaking else if i < n then Passed else Arriving)\<rparr>"]) simp
qed

text \<open>
  The server can stop accepting clients for ever: an increment that overlaps a decrement restores
  a slot's worth to the counter, and after both threads have left it stands at \<open>MAX_HANDSHAKES\<close> with
  nobody inside; from that state on, whatever happens, no thread enters \<open>server_handshake\<close> again.
\<close>
theorem handshake_slot_lost:
  "\<exists>s. hs_step\<^sup>*\<^sup>* hs_start s \<and> hs_pc s 0 = Left \<and> hs_pc s 1 = Left \<and>
     (\<forall>s'. hs_step\<^sup>*\<^sup>* s s' \<longrightarrow> (\<forall>i. hs_pc s' i \<in> {Arriving, Waiting, Left}))"
proof -
  let ?A = "\<lambda>_. Arriving"
  let ?s = "\<lambda>n mx a b. \<lparr>handshake_sem = n, hs_mutex = mx, hs_pc = (\<lambda>i. if i = 0 then a else if i = Suc 0 then b else Arriving)\<rparr>"
  have pc: "(\<lambda>i. if i = 0 then a else if i = Suc 0 then b else Arriving)(0 := c) =
      (\<lambda>i. if i = 0 then c else if i = Suc 0 then b else Arriving)"
    "(\<lambda>i. if i = 0 then a else if i = Suc 0 then b else Arriving)(Suc 0 := c) =
      (\<lambda>i. if i = 0 then a else if i = Suc 0 then c else Arriving)" for a b c by auto
  have bc: "hs_broadcast (\<lambda>i. if i = 0 then a else if i = Suc 0 then b else Arriving) =
      (\<lambda>i. if i = 0 then a else if i = Suc 0 then b else Arriving)" if "a \<noteq> Waiting" "b \<noteq> Waiting" for a b
    using that by (auto simp: hs_broadcast_def)
  have s0: "hs_step\<^sup>*\<^sup>* hs_start (?s 0 None Passed Passed)"
  proof -
    have "(\<lambda>i. if i < 2 then Passed else Arriving) = (\<lambda>i :: nat. if i = 0 then Passed else if i = Suc 0 then Passed else Arriving)"
      by auto
    then show ?thesis using all_pass [of 2] by simp
  qed
  have s1: "hs_step (?s 0 None Passed Passed) (?s 0 None (Loaded 0) Passed)"
    using hs_load [of "?s 0 None Passed Passed" 0] by (simp add: pc)
  have s2: "hs_step (?s 0 None (Loaded 0) Passed) (?s 1 None Shaking Passed)"
    using hs_store [of "?s 0 None (Loaded 0) Passed" 0 0] by (simp add: pc)
  have s3: "hs_step (?s 1 None Shaking Passed) (?s 1 None Shaking (Loaded 1))"
    using hs_load [of "?s 1 None Shaking Passed" "Suc 0"] by (simp add: pc)
  have s4: "hs_step (?s 1 None Shaking (Loaded 1)) (?s 1 (Some 0) (Leaving 1) (Loaded 1))"
    using hs_finish [of "?s 1 None Shaking (Loaded 1)" 0] by (simp add: pc)
  have s5: "hs_step (?s 1 (Some 0) (Leaving 1) (Loaded 1)) (?s 0 None Left (Loaded 1))"
    using hs_release [of "?s 1 (Some 0) (Leaving 1) (Loaded 1)" 0 1] by (simp add: pc bc)
  have s6: "hs_step (?s 0 None Left (Loaded 1)) (?s 2 None Left Shaking)"
    using hs_store [of "?s 0 None Left (Loaded 1)" "Suc 0" 1] by (simp add: pc)
  have s7: "hs_step (?s 2 None Left Shaking) (?s 2 (Some 1) Left (Leaving 2))"
    using hs_finish [of "?s 2 None Left Shaking" "Suc 0"] by (simp add: pc)
  have s8: "hs_step (?s 2 (Some 1) Left (Leaving 2)) (?s 1 None Left Left)"
    using hs_release [of "?s 2 (Some 1) Left (Leaving 2)" "Suc 0" 2] by (simp add: pc bc)
  have r: "hs_step\<^sup>*\<^sup>* hs_start (?s 1 None Left Left)"
    by (rule hs_step_to [OF s8], rule hs_step_to [OF s7], rule hs_step_to [OF s6], rule hs_step_to [OF s5],
        rule hs_step_to [OF s4], rule hs_step_to [OF s3], rule hs_step_to [OF s2], rule hs_step_to [OF s1], rule s0)
  have "hs_stuck (?s 1 None Left Left)" by (simp add: hs_stuck_def MAX_HANDSHAKES_def)
  then have "hs_pc s' i \<in> {Arriving, Waiting, Left}" if "hs_step\<^sup>*\<^sup>* (?s 1 None Left Left) s'" for s' i
    using hs_stuck_steps [OF that] unfolding hs_stuck_def by blast
  with r show ?thesis by (intro exI [of _ "?s 1 None Left Left"]) simp
qed

theorem handshake_slot_lost_witness:
  "\<exists>s. hs_step\<^sup>*\<^sup>* hs_start s \<and> hs_pc s 0 = Left \<and> \<not> hs_step\<^sup>*\<^sup>* s (s\<lparr>hs_pc := (hs_pc s)(2 := Shaking)\<rparr>)"
proof -
  from handshake_slot_lost obtain s where s: "hs_step\<^sup>*\<^sup>* hs_start s" "hs_pc s 0 = Left"
    "\<forall>s'. hs_step\<^sup>*\<^sup>* s s' \<longrightarrow> (\<forall>i. hs_pc s' i \<in> {Arriving, Waiting, Left})" by blast
  have "\<not> hs_step\<^sup>*\<^sup>* s (s\<lparr>hs_pc := (hs_pc s)(2 := Shaking)\<rparr>)"
    using s(3) [THEN spec, of "s\<lparr>hs_pc := (hs_pc s)(2 := Shaking)\<rparr>"] by (auto dest: spec [of _ 2])
  with s show ?thesis by blast
qed

text \<open>
  Two handlers that relay to one user at the same time reuse a nonce: for any two messages there is an
  interleaving of two \<open>send_message\<close> calls on one session after which both are queued with the same
  sequence number, both encrypted with the same key and nonce, and the nonce after them is skipped.
\<close>
theorem concurrent_sends_share_nonce:
  assumes "lib_ok L" and "length p + 40 < 2 ^ 64" and "length p' + 40 < 2 ^ 64"
  shows "\<exists>s m m'. (send_step L (\<lambda>_ _. True))\<^sup>*\<^sup>* \<lparr>ss_keys = keys, ss_con = con, ss_pc = (\<lambda>_. SendIdle)\<rparr> s \<and>
    out_queue (ss_con s) = out_queue con @ [m, m'] \<and> ss_pc s = (\<lambda>_. SendIdle) \<and> k_nonce (ss_keys s) = k_nonce keys + 2 \<and>
    m_seq_num m = k_nonce keys \<and> m_seq_num m' = k_nonce keys \<and>
    slice 8 (length p) (m_message m) = chacha_enc L (send_symm_key keys) (k_nonce keys) p \<and>
    slice 8 (length p') (m_message m') = chacha_enc L (send_symm_key keys) (k_nonce keys) p'"
proof -
  note ok = lib_ok_parts [OF assms(1)]
  have al: "alloc_message (\<lambda>_ _. True) x" for x by (simp add: alloc_message_def)
  let ?mem = "\<lambda>_ _. True"
  have enc: "\<exists>m. encrypt_message L ?mem keys p (of_nat (length p)) = Done (Some m) \<and> m_seq_num m = k_nonce keys \<and>
      slice 8 (length p) (m_message m) = chacha_enc L (send_symm_key keys) (k_nonce keys) p"
    if "length p + 40 < 2 ^ 64" for p
  proof -
    from encrypt_message_ok [OF assms(1) al that, of keys] obtain m where m:
      "encrypt_message L ?mem keys p (of_nat (length p)) = Done (Some m)" "m_seq_num m = k_nonce keys"
      "m_message m = encbe64 L (k_nonce keys) @ chacha_enc L (send_symm_key keys) (k_nonce keys) p @
        hmac_sha256 L (send_hmac_key keys) (encbe64 L (k_nonce keys) @ chacha_enc L (send_symm_key keys) (k_nonce keys) p)"
      by blast
    have "slice 8 (length p) (m_message m) = chacha_enc L (send_symm_key keys) (k_nonce keys) p"
      unfolding m(3) using ok by (intro slice_at) (simp_all add: wire_simps)
    with m show ?thesis by blast
  qed
  obtain m m' where m: "encrypt_message L ?mem keys p (of_nat (length p)) = Done (Some m)" "m_seq_num m = k_nonce keys"
      "slice 8 (length p) (m_message m) = chacha_enc L (send_symm_key keys) (k_nonce keys) p"
    and m': "encrypt_message L ?mem keys p' (of_nat (length p')) = Done (Some m')" "m_seq_num m' = k_nonce keys"
      "slice 8 (length p') (m_message m') = chacha_enc L (send_symm_key keys) (k_nonce keys) p'"
    using enc [OF assms(2)] enc [OF assms(3)] by blast
  let ?k = "\<lambda>n. keys\<lparr>k_nonce := k_nonce keys + n\<rparr>"
  let ?s = "\<lambda>k c pc. \<lparr>ss_keys = k, ss_con = c, ss_pc = pc\<rparr>"
  let ?I = "\<lambda>_. SendIdle" and ?c = "add_message ?mem con m"
  let ?R = "send_step L ?mem"
  have 1: "?R (?s keys con ?I) (?s keys con (?I(0 := SendSealed m)))"
    using send_seal [of "?s keys con ?I" 0 L ?mem p m] m(1) by simp
  have 2: "?R (?s keys con (?I(0 := SendSealed m))) (?s keys con (?I(0 := SendSealed m, 1 := SendSealed m')))"
    using send_seal [of "?s keys con (?I(0 := SendSealed m))" 1 L ?mem p' m'] m'(1) by simp
  have 3: "?R (?s keys con (?I(0 := SendSealed m, 1 := SendSealed m')))
      (?s (?k 1) con (?I(0 := SendSealed m, 1 := SendSealed m', 0 := SendBumped m)))"
    using send_bump [of "?s keys con (?I(0 := SendSealed m, 1 := SendSealed m'))" 0 m L ?mem] by simp
  have 4: "?R (?s (?k 1) con (?I(0 := SendSealed m, 1 := SendSealed m', 0 := SendBumped m)))
      (?s (?k 1) ?c (?I(0 := SendSealed m, 1 := SendSealed m', 0 := SendBumped m, 0 := SendIdle)))"
    using send_queue [of "?s (?k 1) con (?I(0 := SendSealed m, 1 := SendSealed m', 0 := SendBumped m))" 0 m L ?mem] by simp
  have 5: "?R (?s (?k 1) ?c (?I(0 := SendSealed m, 1 := SendSealed m', 0 := SendBumped m, 0 := SendIdle)))
      (?s (?k 2) ?c (?I(1 := SendBumped m')))"
    using send_bump [of "?s (?k 1) ?c (?I(1 := SendSealed m'))" 1 m' L ?mem]
    by (simp add: fun_upd_idem fun_upd_twist add.commute)
  have 6: "?R (?s (?k 2) ?c (?I(1 := SendBumped m'))) (?s (?k 2) (add_message ?mem ?c m') ?I)"
    using send_queue [of "?s (?k 2) ?c (?I(1 := SendBumped m'))" 1 m' L ?mem] by (simp add: fun_upd_idem)
  have "?R\<^sup>*\<^sup>* (?s keys con ?I) (?s (?k 2) (add_message ?mem ?c m') ?I)"
    by (rule send_step_to [OF 6], rule send_step_to [OF 5], rule send_step_to [OF 4], rule send_step_to [OF 3],
        rule send_step_to [OF 2], rule r_into_rtranclp [where r = ?R, OF 1])
  with m m' show ?thesis
    by (intro exI [of _ "?s (?k 2) (add_message ?mem ?c m') ?I"] exI [of _ m] exI [of _ m']) (simp add: add_message_def)
qed

theorem concurrent_sends_share_nonce_witness:
  "\<exists>s m m'. (send_step demo_lib (\<lambda>_ _. True))\<^sup>*\<^sup>* \<lparr>ss_keys = demo_keys, ss_con = init_handler True, ss_pc = (\<lambda>_. SendIdle)\<rparr> s \<and>
    out_queue (ss_con s) = [m, m'] \<and> m_seq_num m = 1 \<and> m_seq_num m' = 1"
  using concurrent_sends_share_nonce [OF demo_lib_ok, of "[7]" "[8]" demo_keys "init_handler True"]
  by (auto simp: init_handler_def demo_keys_def)

end
