(* ===== verification/ServerRun.thy ===== *)
theory ServerRun
  imports Server
begin

text \<open>
  The server as a whole, as a state machine: its handlers (\<open>server/client_handler.c\<close>), each in its own thread, take
  the steps of \<open>client_session\<close> in any order. The invariant ties the three tables together: who may
  send and receive, who is registered, who is connected.
\<close>

section \<open>The machine\<close>

text \<open>
  Beside the tables: the ids that were accepted by \<open>auth_user\<close> for a socket and are not yet in the handler
  table, and the handlers whose threads are in their session.
\<close>

record server_run =
  ru_sv :: server_state
  ru_accepted :: "(bytes \<times> int) list"
  ru_live :: "client_handler list"

text \<open>
  The steps of the threads, as \<open>client_handler\<close> has them. The login is in two: what is decided on the client's answer
  and the state of that moment, and the entry in the handler table. An answer code 1 is followed by the client's decision
  to register, after which the user table may have changed; so \<open>user_register\<close> is a step on any state. When \<open>add_handler\<close>
  does not return 0 the thread ends. The memory of \<open>mem\<close> is for resizing the handler table; the resizing of the user
  table has its memory. The destruction of the table when the server stops is not a step.
\<close>

inductive server_step :: "ibc \<Rightarrow> rsa_key \<Rightarrow> server_run \<Rightarrow> server_run \<Rightarrow> bool" for L sk where
  known: "check_response L challenge resp = Done (Some (uid, pk)) \<Longrightarrow> check_user L (ru_sv s) uid pk = Done 0 \<Longrightarrow>
    server_step L sk s (s\<lparr>ru_accepted := (uid, fd) # ru_accepted s\<rparr>)"
| registers: "check_response L challenge resp = Done (Some (uid, pk)) \<Longrightarrow> ae_mem env \<Longrightarrow>
    user_register L sk env (ru_sv s) uid pk = Done (r, st) \<Longrightarrow>
    server_step L sk s (s\<lparr>ru_sv := st, ru_accepted := (if r = 0 then (uid, fd) # ru_accepted s else ru_accepted s)\<rparr>)"
| enters: "ru_accepted s = before @ (uid, fd) # after \<Longrightarrow>
    add_handler L mem (sv_ht (ru_sv s)) \<lparr>ch_id = uid, ch_fd = fd, ch_stop = 0\<rparr> = (r, ht) \<Longrightarrow>
    server_step L sk s (s\<lparr>ru_sv := (ru_sv s)\<lparr>sv_ht := ht\<rparr>, ru_accepted := before @ after,
      ru_live := (if r = 0 then \<lparr>ch_id = uid, ch_fd = fd, ch_stop = 0\<rparr> # ru_live s else ru_live s)\<rparr>)"
| delivers: "h \<in> set (ru_live s) \<Longrightarrow> send_undelivered L e e' mems (ru_sv s) h = Done (r, st) \<Longrightarrow>
    server_step L sk s (s\<lparr>ru_sv := st\<rparr>)"
| handles: "h \<in> set (ru_live s) \<Longrightarrow> handle_message L hm (ru_sv s) h m = Done (r, st) \<Longrightarrow>
    server_step L sk s (s\<lparr>ru_sv := st\<rparr>)"
| leaves: "h \<in> set (ru_live s) \<Longrightarrow> rem_handler L mem (sv_ht (ru_sv s)) (ch_id h) = (r, ht) \<Longrightarrow>
    server_step L sk s (s\<lparr>ru_sv := (ru_sv s)\<lparr>sv_ht := ht\<rparr>, ru_live := remove1 h (ru_live s)\<rparr>)"

text \<open>The server after a start with the given users.\<close>

definition run_start :: "server_run \<Rightarrow> bool" where
  "run_start s \<longleftrightarrow> (\<exists>mem r. init_handler_table mem = Some (r, sv_ht (ru_sv s))) \<and> ru_accepted s = [] \<and> ru_live s = []"

section \<open>The invariant\<close>

definition is_user :: "user_db \<Rightarrow> bytes \<Rightarrow> bool" where
  "is_user db uid \<longleftrightarrow> (\<exists>u \<in># db_users db. u_uid u = uid)"

text \<open>The user table: placed as it should be, not more than it can hold, each id once.\<close>

definition users_ok :: "ibc \<Rightarrow> user_db \<Rightarrow> bool" where
  "users_ok L db \<longleftrightarrow> db_inv L db \<and> size (db_users db) \<le> 12 \<and> (\<forall>uid. size {#u \<in># db_users db. u_uid u = uid#} \<le> 1)"

text \<open>The table is never resized: twelve users fit in sixteen buckets.\<close>

definition run_inv :: "ibc \<Rightarrow> server_run \<Rightarrow> bool" where
  "run_inv L s \<longleftrightarrow> users_ok L (sv_db (ru_sv s)) \<and> ht_inv L (sv_ht (ru_sv s)) \<and> ht_size (sv_ht (ru_sv s)) = MIN_SIZE \<and>
     distinct (map ch_id (ru_live s)) \<and>
     (\<forall>uid h. ht_abs (sv_ht (ru_sv s)) uid = Some h \<longleftrightarrow> h \<in> set (ru_live s) \<and> ch_id h = uid) \<and>
     (\<forall>uid \<in> dom (ht_abs (sv_ht (ru_sv s))) \<union> fst ` set (ru_accepted s). length uid = 32 \<and> is_user (sv_db (ru_sv s)) uid)"

subsection \<open>What the operations leave alone\<close>

lemma send_to_frame: "send_to L mem st fd p = Done (r, st') \<Longrightarrow> sv_ht st' = sv_ht st \<and> sv_db st' = sv_db st"
  by (auto simp: send_to_def exec_bind_Done_iff split: prod.split_asm)

lemma notfound_frame: "send_u_notfound L env st self uid = Done (r, st') \<Longrightarrow> sv_ht st' = sv_ht st \<and> sv_db st' = sv_db st"
  by (auto simp: send_u_notfound_def exec_bind_Done_iff dest: send_to_frame split: if_split_asm)

lemma handle_conv_frame:
  assumes "handle_conv L env st self uid m = Done (r, st')"
  shows "sv_ht st' = sv_ht st \<and> sv_db st' = sv_db st"
proof -
  from assms obtain uo where u: "user_db_get L (sv_db st) uid = Done uo" by (auto simp: handle_conv_def exec_bind_Done_iff)
  show ?thesis
  proof (cases uo)
    case None
    with assms u show ?thesis by (auto simp: handle_conv_def dest: notfound_frame)
  next
    case (Some v)
    with assms u show ?thesis
      by (cases "get_handler L (sv_ht st) uid"; cases "sv_undel st uid")
        (auto simp: handle_conv_def exec_bind_Done_iff Let_def dest: send_to_frame split: if_split_asm)
  qed
qed

lemma handle_key_request_frame:
  assumes "handle_key_request L env st self uid = Done (r, st')"
  shows "sv_ht st' = sv_ht st \<and> sv_db st' = sv_db st"
proof -
  from assms obtain uo where u: "user_db_get L (sv_db st) uid = Done uo" by (auto simp: handle_key_request_def exec_bind_Done_iff)
  with assms show ?thesis
    by (cases uo) (auto simp: handle_key_request_def exec_bind_Done_iff dest: notfound_frame send_to_frame split: if_split_asm)
qed

lemma handle_message_frame:
  "handle_message L env st self m = Done (r, st') \<Longrightarrow> sv_ht st' = sv_ht st \<and> sv_db st' = sv_db st"
  by (auto simp: handle_message_def Let_def dest: handle_conv_frame handle_key_request_frame split: if_split_asm)

lemma send_list_frame: "send_list L mem st fd ms = Done (r, st') \<Longrightarrow> sv_ht st' = sv_ht st \<and> sv_db st' = sv_db st"
  by (induction L mem st fd ms arbitrary: r rule: send_list.induct)
    (auto simp: exec_bind_Done_iff dest!: send_to_frame split: if_split_asm)

lemma send_undelivered_frame:
  assumes "send_undelivered L e e' mems st self = Done (r, st')"
  shows "sv_ht st' = sv_ht st \<and> sv_db st' = sv_db st"
proof -
  from assms obtain uo where u: "user_db_get L (sv_db st) (ch_id self) = Done uo"
    by (auto simp: send_undelivered_def exec_bind_Done_iff)
  show ?thesis
  proof (cases "uo = None \<or> sv_undel st (ch_id self) = None")
    case True
    with assms u show ?thesis by (auto simp: send_undelivered_def exec_bind_Done_iff split: option.split_asm)
  next
    case False
    then obtain v f where v: "uo = Some v" "sv_undel st (ch_id self) = Some f" by auto
    with assms u obtain q ms f' where "undel_load L e e' (u_auth v) f = Done (q, ms, f')"
      by (auto simp: send_undelivered_def exec_bind_Done_iff)
    with assms u v show ?thesis
      by (cases ms) (auto simp: send_undelivered_def Let_def dest: send_list_frame split: if_split_asm)
  qed
qed

lemma check_response_uid: "check_response L challenge resp = Done (Some (uid, pk)) \<Longrightarrow> length uid = 32"
  by (auto simp: check_response_def exec_bind_Done_iff Let_def dest: read_at_length split: if_split_asm option.split_asm)

lemma check_user_known:
  assumes "cmp_ok L" "users_ok L (sv_db st)" "length uid = 32" "check_user L st uid pk = Done 0"
  shows "is_user (sv_db st) uid"
proof -
  from assms(2) have inv: "db_inv L (sv_db st)" by (simp add: users_ok_def)
  from user_db_get_spec [OF assms(1) inv assms(3)] obtain r where
    r: "user_db_get L (sv_db st) uid = Done r" "\<forall>u. r = Some u \<longrightarrow> u \<in># db_users (sv_db st) \<and> u_uid u = uid" by blast
  with assms(4) obtain u where "r = Some u" by (auto simp: check_user_def split: option.split_asm)
  with r(2) show ?thesis by (auto simp: is_user_def)
qed

subsection \<open>The user table\<close>

lemma user_db_add_users:
  assumes "cmp_ok L" "users_ok L db" "length (u_uid u) = 32" "user_db_add L sk env ent True db fs u = Done (r, db', fs')"
  shows "users_ok L db' \<and> (\<forall>uid. is_user db uid \<longrightarrow> is_user db' uid) \<and> (r = 0 \<longrightarrow> is_user db' (u_uid u))"
proof -
  from assms(2) have inv: "db_inv L db" and sz: "size (db_users db) \<le> 12"
    and one: "\<forall>uid. size {#u \<in># db_users db. u_uid u = uid#} \<le> 1" by (simp_all add: users_ok_def)
  from user_db_get_spec [OF assms(1) inv assms(3)] obtain old where
    old: "user_db_get L db (u_uid u) = Done old" "old = None \<Longrightarrow> \<forall>v \<in># db_users db. u_uid v \<noteq> u_uid u" by blast
  show ?thesis
  proof (cases "db' = db \<and> r \<noteq> 0")
    case True
    with assms(2) show ?thesis by simp
  next
    case False
    with assms(4) old(1) have o: "old = None"
      and a: "\<exists>r'. user_db_add_no_write L ent True db u = Done (r', db') \<and> (r = 0 \<longleftrightarrow> r' = 0)"
      by (auto simp: user_db_add_def Let_def exec_bind_Done_iff split: if_split_asm prod.split_asm)
    from a False obtain r' where ent: "user_db_add_no_write L True True db u = Done (r', db')" "r = 0 \<longleftrightarrow> r' = 0"
      by (cases ent) (auto simp: user_db_add_no_write_def)
    have lt: "size (db_users db) < 12"
    proof (rule ccontr)
      assume "\<not> size (db_users db) < 12"
      with sz have "size (db_users db) = 12" by simp
      then have "length (concat (db_buckets db)) = 12" by (simp add: db_users_def)
      then have el: "db_elements (db\<lparr>db_buckets := bs, db_elements := db_elements db + 1\<rparr>) = 13" for bs
        using db_invD(4) [OF inv] by simp
      have "udb_index L 16 (u_uid u) < length (db_buckets db)" using db_invD(3) [OF inv] udb_index_less by simp
      then have "user_db_add_no_write L True True db u = UB"
        using udb_resize_thirteen [OF _ _ el] db_invD(1,3) [OF inv] by (simp add: user_db_add_no_write_def Let_def)
      with ent(1) show False by simp
    qed
    from add_no_write_ok [OF inv assms(3) lt, of True] ent(1) have
      d: "db_inv L db'" "db_users db' = add_mset u (db_users db)" by auto
    have none: "{#v \<in># db_users db. u_uid v = u_uid u#} = {#}"
      using old(2) [OF o] by (auto simp: filter_mset_eq_conv)
    have "size {#v \<in># db_users db'. u_uid v = uid#} \<le> 1" for uid
      using one none d(2) by (cases "uid = u_uid u") auto
    with d lt show ?thesis by (auto simp: users_ok_def is_user_def)
  qed
qed

lemma user_register_users:
  assumes "cmp_ok L" "users_ok L (sv_db st)" "length uid = 32" "ae_mem env" "user_register L sk env st uid pk = Done (r, st')"
  shows "sv_ht st' = sv_ht st \<and> users_ok L (sv_db st') \<and> (\<forall>v. is_user (sv_db st) v \<longrightarrow> is_user (sv_db st') v) \<and>
    (r = 0 \<longrightarrow> is_user (sv_db st') uid)"
proof (cases "user_init (ae_secret env) (\<lambda>u. fst (undel_init_file L (ae_undel env) (u_auth u))) (ae_key env) uid pk")
  case (Pair q uo)
  show ?thesis
  proof (cases "prompt_user_register (ae_reg env) \<noteq> 0 \<or> uo = None")
    case True
    with assms(2,5) Pair show ?thesis by (auto simp: user_register_def Let_def split: if_split_asm option.split_asm)
  next
    case False
    then obtain u where u: "uo = Some u" "prompt_user_register (ae_reg env) = 0" by auto
    with Pair have id: "u_uid u = uid" by (auto simp: user_init_def Let_def split: option.split_asm if_split_asm)
    from assms(5) Pair u obtain r' db fs fs' st1 where
      a: "user_db_add L sk (ae_write env) (ae_ent env) (ae_mem env) (sv_db st) fs u = Done (r', db, fs')"
      "sv_db st' = db" "sv_ht st' = sv_ht st" "r = 0 \<longleftrightarrow> r' = 0"
      by (auto simp: user_register_def Let_def exec_bind_Done_iff split: if_split_asm)
    have "length (u_uid u) = 32" "ae_mem env = True" using id assms(3,4) by simp_all
    from user_db_add_users [OF assms(1,2) this(1) a(1) [unfolded this(2)]] a(2-4) id show ?thesis by simp
  qed
qed

subsection \<open>The handler table\<close>

lemma dom_ht_abs: "dom (ht_abs ht) = ch_id ` set (concat (ht_buckets ht))"
  using find_handler_None [of _ "concat (ht_buckets ht)"] by (auto simp: ht_abs_def dom_def)

lemma table_within_users:
  assumes "ht_inv L ht" "size (db_users db) \<le> 12" "\<forall>v \<in> dom (ht_abs ht). is_user db v"
    "is_user db uid" "ht_abs ht uid = None"
  shows "length (concat (ht_buckets ht)) < 12"
proof -
  let ?ids = "ch_id ` set (concat (ht_buckets ht))" and ?us = "u_uid ` set_mset (db_users db)"
  obtain xs where xs: "db_users db = mset xs" using ex_mset by metis
  have "v \<in> ?us" if "is_user db v" for v using that by (auto simp: is_user_def)
  then have "insert uid ?ids \<subseteq> ?us" using assms(3,4) unfolding dom_ht_abs by blast
  then have "card (insert uid ?ids) \<le> card ?us" by (rule card_mono [rotated]) simp
  also have "\<dots> \<le> size (db_users db)"
    using card_length [of "map u_uid xs"] unfolding xs by simp
  finally have c: "card (insert uid ?ids) \<le> 12" using assms(2) by simp
  have "uid \<notin> ?ids" using assms(5) by (metis dom_ht_abs domIff)
  then have "card (insert uid ?ids) = Suc (card ?ids)" by simp
  moreover have "card ?ids = length (concat (ht_buckets ht))"
    using assms(1) distinct_card [of "map ch_id (concat (ht_buckets ht))"] by (simp add: ht_inv_def del: set_concat)
  ultimately show ?thesis using c by simp
qed

lemma add_handler_cases:
  assumes "ht_inv L ht" "ht_size ht = MIN_SIZE" "ht_abs ht (ch_id h) = None \<Longrightarrow> length (concat (ht_buckets ht)) < 12"
    "add_handler L mem ht h = (r, ht')"
  shows "ht_inv L ht' \<and> ht_size ht' = MIN_SIZE \<and> (r = 1 \<and> ht' = ht \<and> ht_abs ht (ch_id h) \<noteq> None \<or>
    r = 0 \<and> ht_abs ht (ch_id h) = None \<and> ht_abs ht' = (ht_abs ht)(ch_id h \<mapsto> h))"
proof (cases "ht_abs ht (ch_id h)")
  case None
  have e: "unat (ht_elements ht + 1) = length (concat (ht_buckets ht)) + 1"
    using assms(1,3) None unat_of_nat_small [of "length (concat (ht_buckets ht)) + 1"]
    by (simp add: ht_inv_def add.commute)
  have "top_load MIN_SIZE = 12" by (simp add: top_load_def MIN_SIZE_def)
  then have n: "\<not> ht_elements ht + 1 > top_load MIN_SIZE" using e assms(3) [OF None] by (simp add: word_less_nat_alt)
  have "r = 0 \<and> ht_size ht' = MIN_SIZE"
    using assms(4) n None find_in_bucket [OF assms(1)] by (auto simp: add_handler_def Let_def assms(2))
  with None handlers.add_new [OF assms(1), of h mem] assms(4) show ?thesis by auto
next
  case (Some h')
  with handlers.add_dup [OF assms(1), of h mem] assms(1,2,4) show ?thesis by auto
qed

lemma rem_handler_live:
  assumes "ht_inv L ht" "ht_size ht = MIN_SIZE" "ht_abs ht uid \<noteq> None" "rem_handler L mem ht uid = (r, ht')"
  shows "ht_inv L ht' \<and> ht_size ht' = MIN_SIZE \<and> ht_abs ht' = (ht_abs ht)(uid := None)"
proof -
  have "ht_size ht' = MIN_SIZE"
    using assms(2,4)
    by (auto simp: rem_handler_def Let_def resize_handler_table_def MIN_SIZE_def split: if_split_asm)
  with handlers.rem_some [OF assms(1,3), of mem] assms(4) show ?thesis by auto
qed

subsection \<open>Preservation\<close>

lemma run_inv_start:
  assumes "run_start s" "users_ok L (sv_db (ru_sv s))"
  shows "run_inv L s"
proof -
  from assms(1) obtain mem r where i: "init_handler_table mem = Some (r, sv_ht (ru_sv s))" by (auto simp: run_start_def)
  then have "ht_size (sv_ht (ru_sv s)) = MIN_SIZE"
    by (auto simp: init_handler_table_def split: if_split_asm dest!: arg_cong [where f = ht_size])
  with init_handler_table_ok [OF i, of L] assms show ?thesis by (simp add: run_start_def run_inv_def)
qed

lemma run_inv_enters:
  assumes "run_inv L s" "ru_accepted s = before @ (uid, fd) # after"
    "add_handler L mem (sv_ht (ru_sv s)) \<lparr>ch_id = uid, ch_fd = fd, ch_stop = 0\<rparr> = (r, ht)"
  shows "run_inv L (s\<lparr>ru_sv := (ru_sv s)\<lparr>sv_ht := ht\<rparr>, ru_accepted := before @ after,
      ru_live := (if r = 0 then \<lparr>ch_id = uid, ch_fd = fd, ch_stop = 0\<rparr> # ru_live s else ru_live s)\<rparr>)"
proof -
  let ?h = "\<lparr>ch_id = uid, ch_fd = fd, ch_stop = 0\<rparr> :: client_handler" and ?ht = "sv_ht (ru_sv s)"
  have inv: "ht_inv L ?ht" "ht_size ?ht = MIN_SIZE" and d: "distinct (map ch_id (ru_live s))"
    and live: "\<And>v h. ht_abs ?ht v = Some h \<longleftrightarrow> h \<in> set (ru_live s) \<and> ch_id h = v"
    and us: "\<forall>v \<in> dom (ht_abs ?ht). is_user (sv_db (ru_sv s)) v" "size (db_users (sv_db (ru_sv s))) \<le> 12"
    using assms(1) by (simp_all add: run_inv_def users_ok_def)
  have u: "length uid = 32" "is_user (sv_db (ru_sv s)) uid" using assms(1) assms(2) by (auto simp: run_inv_def)
  have "ht_abs ?ht (ch_id ?h) = None \<Longrightarrow> length (concat (ht_buckets ?ht)) < 12"
    using table_within_users [OF inv(1) us(2,1) u(2)] by simp
  from add_handler_cases [OF inv this assms(3)] consider
    "r = 1" "ht = ?ht"
    | "r = 0" "ht_inv L ht" "ht_size ht = MIN_SIZE" "ht_abs ?ht uid = None" "ht_abs ht = (ht_abs ?ht)(uid \<mapsto> ?h)" by auto
  then show ?thesis
  proof cases
    case 1
    then show ?thesis using assms(1) assms(2) by (auto simp: run_inv_def)
  next
    case 2
    have fresh: "uid \<notin> ch_id ` set (ru_live s)" using 2(4) live by (metis imageE option.distinct(1))
    have "ht_abs ht v = Some h \<longleftrightarrow> h \<in> set (?h # ru_live s) \<and> ch_id h = v" for v h
      using live [of v h] fresh by (auto simp: 2(5))
    then show ?thesis using assms(1) 2(1-3) u fresh d assms(2) by (auto simp: run_inv_def 2(5))
  qed
qed

lemma run_inv_leaves:
  assumes "run_inv L s" "h \<in> set (ru_live s)" "rem_handler L mem (sv_ht (ru_sv s)) (ch_id h) = (r, ht)"
  shows "run_inv L (s\<lparr>ru_sv := (ru_sv s)\<lparr>sv_ht := ht\<rparr>, ru_live := remove1 h (ru_live s)\<rparr>)" (is "run_inv L ?s'")
proof -
  let ?ht = "sv_ht (ru_sv s)"
  have inv: "ht_inv L ?ht" "ht_size ?ht = MIN_SIZE" and d: "distinct (map ch_id (ru_live s))"
    and live: "\<And>v h. ht_abs ?ht v = Some h \<longleftrightarrow> h \<in> set (ru_live s) \<and> ch_id h = v"
    using assms(1) by (simp_all add: run_inv_def)
  have "ht_abs ?ht (ch_id h) \<noteq> None" using live assms(2) by auto
  from rem_handler_live [OF inv this assms(3)] have
    ht: "ht_inv L ht" "ht_size ht = MIN_SIZE" "ht_abs ht = (ht_abs ?ht)(ch_id h := None)" by auto
  have rest: "set (remove1 h (ru_live s)) = set (ru_live s) - {h}" using d by (auto simp: distinct_map)
  have same: "g \<in> set (ru_live s) \<Longrightarrow> ch_id g = ch_id h \<Longrightarrow> g = h" for g
    using d assms(2) by (auto simp: distinct_map inj_on_def)
  have live': "\<forall>v g. ht_abs ht v = Some g \<longleftrightarrow> g \<in> set (remove1 h (ru_live s)) \<and> ch_id g = v"
    using live same by (auto simp: ht(3) rest)
  have d': "distinct (map ch_id (remove1 h (ru_live s)))" using d by (auto simp: distinct_map intro: inj_on_subset)
  have sub: "dom (ht_abs ht) \<union> fst ` set (ru_accepted s) \<subseteq> dom (ht_abs ?ht) \<union> fst ` set (ru_accepted s)"
    by (auto simp: ht(3))
  have "\<forall>uid \<in> dom (ht_abs ?ht) \<union> fst ` set (ru_accepted s). length uid = 32 \<and> is_user (sv_db (ru_sv s)) uid"
    using assms(1) unfolding run_inv_def by (elim conjE)
  then have ids: "\<forall>uid \<in> dom (ht_abs ht) \<union> fst ` set (ru_accepted s). length uid = 32 \<and> is_user (sv_db (ru_sv s)) uid"
    by (rule ballI [OF bspec, OF _ subsetD [OF sub]])
  have eqs: "sv_ht (ru_sv ?s') = ht" "sv_db (ru_sv ?s') = sv_db (ru_sv s)" "ru_live ?s' = remove1 h (ru_live s)"
    "ru_accepted ?s' = ru_accepted s" by simp_all
  have us: "users_ok L (sv_db (ru_sv s))" using assms(1) by (simp add: run_inv_def)
  show ?thesis unfolding run_inv_def eqs by (intro conjI us ht(1,2) d' live' ids)
qed

lemma run_inv_step:
  assumes "cmp_ok L" "server_step L sk s s'" "run_inv L s"
  shows "run_inv L s'"
  using assms(2,3)
proof (cases rule: server_step.cases)
  case (known challenge resp uid pk fd)
  then have "length uid = 32" "is_user (sv_db (ru_sv s)) uid"
    using check_response_uid check_user_known [OF assms(1)] assms(3) by (auto simp: run_inv_def)
  then show ?thesis using assms(3) by (simp add: known(1) run_inv_def)
next
  case (registers challenge resp uid pk env r st fd)
  have l: "length uid = 32" using registers(2) by (rule check_response_uid)
  have "users_ok L (sv_db (ru_sv s))" using assms(3) by (simp add: run_inv_def)
  from user_register_users [OF assms(1) this l registers(3,4)] assms(3) l show ?thesis
    by (auto simp: registers(1) run_inv_def)
next
  case enters
  then show ?thesis using run_inv_enters [OF assms(3)] by simp
next
  case (delivers h e e' mems r st)
  then show ?thesis using send_undelivered_frame [OF delivers(3)] assms(3) by (simp add: run_inv_def)
next
  case (handles h hm m r st)
  then show ?thesis using handle_message_frame [OF handles(3)] assms(3) by (simp add: run_inv_def)
next
  case leaves
  then show ?thesis using run_inv_leaves [OF assms(3)] by simp
qed

lemma run_inv_reach:
  assumes "cmp_ok L" "(server_step L sk)\<^sup>*\<^sup>* s s'" "run_inv L s"
  shows "run_inv L s'"
  using assms(2,3) by (induction rule: rtranclp_induct) (use run_inv_step [OF assms(1)] in blast)+

section \<open>Properties\<close>

text \<open>
  C5: The invariant of the server: from a start with at most twelve users, in whatever order the threads log
  in, register, deliver, receive and leave, no user id is registered twice and no user has two live
  handlers; the handler table is well formed and holds exactly the live handlers; and every id in the
  table, and every id that was accepted, is that of a registered user. The steps include every failing
  allocation but one: the array for a resize of the user table, which only the thirteenth registration
  asks for, is there (\<open>ae_mem\<close>); without it \<open>user_db.c\<close> leaves a table larger than its array.
\<close>
theorem server_invariant:
  assumes "lib_ok L" and "run_start s" and "users_ok L (sv_db (ru_sv s))" and "(server_step L sk)\<^sup>*\<^sup>* s s'"
  shows "users_ok L (sv_db (ru_sv s')) \<and> ht_inv L (sv_ht (ru_sv s')) \<and> distinct (map ch_id (ru_live s')) \<and>
    (\<forall>uid h. get_handler L (sv_ht (ru_sv s')) uid = Some h \<longleftrightarrow> h \<in> set (ru_live s') \<and> ch_id h = uid) \<and>
    (\<forall>uid. get_handler L (sv_ht (ru_sv s')) uid \<noteq> None \<or> uid \<in> fst ` set (ru_accepted s') \<longrightarrow> is_user (sv_db (ru_sv s')) uid)"
proof -
  from run_inv_reach [OF lib_ok_parts(2) [OF assms(1)] assms(4) run_inv_start [OF assms(2,3)]] have i: "run_inv L s'" .
  have g: "get_handler L (sv_ht (ru_sv s')) uid = ht_abs (sv_ht (ru_sv s')) uid" for uid
    using i by (simp add: run_inv_def get_handler_abs)
  show ?thesis unfolding g using i unfolding run_inv_def by blast
qed

theorem server_invariant_witness:
  "\<exists>s s' :: server_run. run_start s \<and> (server_step demo_lib demo_server_key)\<^sup>*\<^sup>* s s' \<and> s \<noteq> s' \<and>
     users_ok demo_lib (sv_db (ru_sv s')) \<and> ht_inv demo_lib (sv_ht (ru_sv s')) \<and> ru_live s' = [\<lparr>ch_id = replicate 32 1, ch_fd = 5, ch_stop = 0\<rparr>] \<and>
     get_handler demo_lib (sv_ht (ru_sv s')) (replicate 32 1) = Some \<lparr>ch_id = replicate 32 1, ch_fd = 5, ch_stop = 0\<rparr>"
proof -
  let ?id = "replicate 32 1 :: bytes" and ?h = "\<lparr>ch_id = replicate 32 1, ch_fd = 5, ch_stop = 0\<rparr> :: client_handler"
  obtain st0 :: server_state where st0: "db_inv demo_lib (sv_db st0)" "db_users (sv_db st0) = {#demo_user#}"
    using demo_registered by blast
  obtain ht where ht: "init_handler_table (\<lambda>_ _. True) = Some (0, ht)" by (simp add: init_handler_table_def)
  let ?st = "st0\<lparr>sv_ht := ht\<rparr>"
  let ?s = "\<lparr>ru_sv = ?st, ru_accepted = [], ru_live = []\<rparr>"
  note hi = init_handler_table_ok [OF ht, of demo_lib]
  have un: "users_ok demo_lib (sv_db ?st)" using st0 by (simp add: users_ok_def)
  have g: "get_handler demo_lib ht ?id = None" using hi get_handler_abs by simp
  have "user_db_get demo_lib (sv_db ?st) ?id = Done (Some demo_user)"
    using user_db_get_spec [OF lib_ok_parts(2) [OF demo_lib_ok], of "sv_db ?st" ?id] st0 by (auto simp: demo_user_def)
  then have "check_user demo_lib ?st ?id demo_server_pub = Done 0"
    using g by (simp add: check_user_def demo_user_def demo_server_pub_def)
  then have s1: "server_step demo_lib demo_server_key ?s (?s\<lparr>ru_accepted := [(?id, 5)]\<rparr>)"
    using server_step.known [OF demo_answer_accepted, of ?s demo_server_key 5] by simp
  from handlers.add_new [of demo_lib ht ?h "\<lambda>_ _. True"] hi obtain r ht' where
    a: "add_handler demo_lib (\<lambda>_ _. True) ht ?h = (r, ht')" by auto
  have "r = 0"
    using a hi find_in_bucket [of demo_lib ht ?id] ht
    by (auto simp: add_handler_def Let_def init_handler_table_def MIN_SIZE_def top_load_def split: if_split_asm)
  with a have s2: "server_step demo_lib demo_server_key (?s\<lparr>ru_accepted := [(?id, 5)]\<rparr>)
      (?s\<lparr>ru_sv := ?st\<lparr>sv_ht := ht'\<rparr>, ru_live := [?h]\<rparr>)" (is "server_step _ _ _ ?s'")
    using server_step.enters [of "?s\<lparr>ru_accepted := [(?id, 5)]\<rparr>" "[]" ?id 5 "[]" demo_lib "\<lambda>_ _. True" r ht'] by simp
  have st: "run_start ?s" using ht by (auto simp: run_start_def)
  have reach: "(server_step demo_lib demo_server_key)\<^sup>*\<^sup>* ?s ?s'" using s1 s2 by auto
  have "users_ok demo_lib (sv_db (ru_sv ?s))" using un by simp
  from server_invariant [OF demo_lib_ok st this reach] have
    "get_handler demo_lib (sv_ht (ru_sv ?s')) ?id = Some ?h \<and> users_ok demo_lib (sv_db (ru_sv ?s')) \<and>
     ht_inv demo_lib (sv_ht (ru_sv ?s'))" by simp
  with st reach show ?thesis by (intro exI [of _ ?s] exI [of _ ?s']) simp
qed

end
