(* ===== verification/Datafile.thy ===== *)
theory Datafile
  imports Libs
begin

text \<open>
  \<open>client/datafile.c\<close>: the encrypted file format shared by the profile, the friend list and the
  notifications. What differs between them is a \<open>struct format_desc\<close> of callbacks; what the two
  routines need from the callbacks is the locale \<open>datafile_format\<close>.
\<close>

section \<open>The code\<close>

text \<open>
  The callbacks. \<open>'g\<close> is what \<open>arg\<close> points to, which the key callbacks may change; \<open>None\<close> is a
  non-zero result or a null pointer. \<open>dataread\<close> takes the payload and the offset of \<open>ptr\<close> in it.
\<close>

record ('g, 'a) format_desc =
  fd_pref_len :: u64
  fd_p_fill :: "'g \<Rightarrow> bytes option"
  fd_s_key :: "'g \<Rightarrow> bytes \<Rightarrow> 'g \<times> bytes option"
  fd_h_key :: "'g \<Rightarrow> bytes \<Rightarrow> 'g \<times> bytes option"
  fd_datalen :: "'a \<Rightarrow> u64"
  fd_datawrite :: "'a \<Rightarrow> bytes option"
  fd_dataread :: "'g \<Rightarrow> heap_oracle \<Rightarrow> bytes \<Rightarrow> nat \<Rightarrow> ('a \<times> nat) option exec"

text \<open>What a write meets: \<open>fopen\<close>, the allocations, the random bytes, and short writes.\<close>

record wd_env =
  wd_open :: bool
  wd_mem :: heap_oracle
  wd_rand :: "bytes option"
  wd_tx :: "nat \<Rightarrow> nat option"

definition payload_len :: "('g, 'a) format_desc \<Rightarrow> 'a list \<Rightarrow> u64" where
  "payload_len f data = sum_list (map (fd_datalen f) data)"

text \<open>The records go into a buffer with \<open>room\<close> bytes left; one that does not fit is undefined.\<close>

fun write_items :: "('g, 'a) format_desc \<Rightarrow> nat \<Rightarrow> 'a list \<Rightarrow> bytes option exec" where
  "write_items f room [] = Done (Some [])"
| "write_items f room (x # xs) = (case fd_datawrite f x of
     None \<Rightarrow> Done None
   | Some w \<Rightarrow>
       if length w > room then UB
       else exec_bind (write_items f (room - length w) xs) (\<lambda>r. Done (map_option ((@) w) r)))"

text \<open>The payload is written, encrypted in place and stored between the prefix and its MAC.\<close>

definition write_payload :: "ibc \<Rightarrow> ('g, 'a) format_desc \<Rightarrow> wd_env \<Rightarrow> 'a list \<Rightarrow> bytes \<Rightarrow> bytes \<Rightarrow> bytes \<Rightarrow>
    (int \<times> bytes) exec" where
  "write_payload L f env data prefix enc_key hmac_key =
     (let plen = payload_len f data in
      if \<not> wd_mem env 1 plen then Done (-1, [])
      else exec_bind (write_items f (unat plen) data) (\<lambda>r. case r of
          None \<Rightarrow> Done (-1, [])
        | Some payload \<Rightarrow>
            if length payload \<noteq> unat plen then Done (-1, [])
            else let ct = chacha_enc L enc_key 0 payload;
                     mac = hmac_sha256 L hmac_key (prefix @ ct)
              in (case send_fields (wd_tx env) ([prefix] @ (if plen > 0 then [ct] else []) @ [mac]) of
                   (ok, w) \<Rightarrow> Done (if ok then 0 else -1, w))))"

text \<open>The result, \<open>arg\<close> afterwards, and the new content of the file, if it was opened.\<close>

definition write_datafile :: "ibc \<Rightarrow> ('g, 'a) format_desc \<Rightarrow> wd_env \<Rightarrow> 'g \<Rightarrow> 'a list \<Rightarrow>
    (int \<times> 'g \<times> bytes option) exec" where
  "write_datafile L f env arg data =
     (if \<not> wd_open env then Done (-1, arg, None)
      else if \<not> wd_mem env 0 (0x50 + fd_pref_len f) then Done (-1, arg, Some [])
      else (case wd_rand env of None \<Rightarrow> Done (-1, arg, Some [])
      | Some rnd \<Rightarrow> (case fd_p_fill f arg of None \<Rightarrow> Done (-1, arg, Some [])
      | Some fill \<Rightarrow> (case fd_s_key f arg fill of (arg1, None) \<Rightarrow> Done (-1, arg1, Some [])
      | (arg1, Some symm_key) \<Rightarrow> (case fd_h_key f arg1 fill of (arg2, None) \<Rightarrow> Done (-1, arg2, Some [])
      | (arg2, Some hmac_key) \<Rightarrow>
          let header = encbe64 L (of_nat (length data)) @ encbe64 L (payload_len f data) @ rnd @ fill;
              prefix = header @ hmac_sha256 L hmac_key header
          in exec_bind (write_payload L f env data prefix (sha256 L (symm_key @ rnd)) hmac_key)
               (\<lambda>(r, w). Done (r, arg2, Some w)))))))"

text \<open>The reading loop: \<open>n\<close> records are still to come; \<open>None\<close> when one does not parse or is missing.\<close>

fun read_items :: "('g, 'a) format_desc \<Rightarrow> 'g \<Rightarrow> (nat \<Rightarrow> heap_oracle) \<Rightarrow> bytes \<Rightarrow> nat \<Rightarrow> nat \<Rightarrow>
    ('a list \<times> nat) option exec" where
  "read_items f arg mem payload 0 off = Done (Some ([], off))"
| "read_items f arg mem payload (Suc n) off =
     (if \<not> off < length payload then Done None
      else exec_bind (fd_dataread f arg (mem n) payload off) (\<lambda>r. case r of
          None \<Rightarrow> Done None
        | Some (x, off') \<Rightarrow> exec_bind (read_items f arg mem payload n off') (\<lambda>r'. case r' of
            None \<Rightarrow> Done None
          | Some (xs, off'') \<Rightarrow> Done (Some (x # xs, off'')))))"

definition read_datafile :: "ibc \<Rightarrow> ('g, 'a) format_desc \<Rightarrow> heap_oracle \<Rightarrow> (nat \<Rightarrow> heap_oracle) \<Rightarrow> 'g \<Rightarrow> bytes option \<Rightarrow>
    (int \<times> 'g \<times> 'a list option) exec" where
  "read_datafile L f mem imem arg file = (case file of None \<Rightarrow> Done (-1, arg, None)
   | Some inp \<Rightarrow>
      if \<not> mem 0 (0x50 + fd_pref_len f) then Done (-1, arg, None)
      else (case rd (unat (0x50 + fd_pref_len f)) inp of None \<Rightarrow> Done (-1, arg, None)
      | Some (prefix, i1) \<Rightarrow>
        let payload_num = decbe64 L (slice 0 8 prefix); plen = decbe64 L (slice 8 8 prefix);
            hlen = length prefix - 0x20; at30 = drop 0x30 prefix
        in (case fd_s_key f arg at30 of (arg1, None) \<Rightarrow> Done (-1, arg1, None)
        | (arg1, Some symm_key) \<Rightarrow> (case fd_h_key f arg1 at30 of (arg2, None) \<Rightarrow> Done (-1, arg2, None)
        | (arg2, Some hmac_key) \<Rightarrow>
          if memcmp_ct L (hmac_sha256 L hmac_key (take hlen prefix)) (drop hlen prefix) \<noteq> 0 then Done (-1, arg2, None)
          else let enc_key = sha256 L (symm_key @ slice 0x10 0x20 prefix)
          in if \<not> mem 1 plen then Done (-1, arg2, None)
          else (case rd (unat plen) i1 of None \<Rightarrow> Done (-1, arg2, None)
          | Some (ct, i2) \<Rightarrow> (case rd 0x20 i2 of None \<Rightarrow> Done (-1, arg2, None)
          | Some (mac2f, i3) \<Rightarrow>
            if memcmp_ct L (hmac_sha256 L hmac_key (prefix @ ct)) mac2f \<noteq> 0 then Done (-1, arg2, None)
            else let payload = chacha_dec L enc_key 0 ct
            in exec_bind (read_items f arg2 imem payload (unat payload_num) 0) (\<lambda>r. case r of
                None \<Rightarrow> Done (-1, arg2, None)
              | Some (xs, off) \<Rightarrow>
                  if off \<noteq> unat plen then Done (-1, arg2, None) else Done (0, arg2, Some xs))))))))"

section \<open>Reading a record field by field\<close>

text \<open>\<open>memcpy(dst, ptr, n); ptr += n;\<close> for a row of fields: the fields and the offset after them.\<close>

fun read_seq :: "bytes \<Rightarrow> nat \<Rightarrow> nat list \<Rightarrow> (bytes list \<times> nat) exec" where
  "read_seq payload off [] = Done ([], off)"
| "read_seq payload off (n # ns) = exec_bind (read_at payload off n) (\<lambda>b.
     exec_bind (read_seq payload (off + n) ns) (\<lambda>(bs, off'). Done (b # bs, off')))"

lemma read_seq_concat:
  "map length bs = ns \<Longrightarrow> length pre = off \<Longrightarrow>
   read_seq (pre @ concat bs @ post) off ns = Done (bs, off + length (concat bs))"
proof (induction bs arbitrary: pre off ns)
  case Nil
  then show ?case by auto
next
  case (Cons b bs)
  have 1: "read_at (pre @ b @ concat bs @ post) off (length b) = Done b"
    using read_at_append Cons.prems(2) by blast
  have 2: "read_seq ((pre @ b) @ concat bs @ post) (off + length b) (map length bs) =
      Done (bs, off + length b + length (concat bs))"
    by (rule Cons.IH) (use Cons.prems(2) in simp_all)
  show ?case using 1 2 Cons.prems(1) by (auto simp: add.assoc)
qed

lemma read_seq_lengths: "read_seq payload off ns = Done (bs, off') \<Longrightarrow> map length bs = ns \<and> off' = off + sum_list ns"
  by (induction ns arbitrary: off bs) (fastforce simp: exec_bind_Done_iff dest: read_at_length)+

section \<open>What a format promises\<close>

text \<open>The record is written, and takes the space \<open>datalen\<close> announces.\<close>

definition sized :: "('g, 'a) format_desc \<Rightarrow> 'a \<Rightarrow> bool" where
  "sized f x \<longleftrightarrow> (\<exists>w. fd_datawrite f x = Some w \<and> w \<noteq> [] \<and> length w = unat (fd_datalen f x))"

text \<open>
  \<open>ok g x\<close>: the record \<open>x\<close> can be stored, by a program whose \<open>arg\<close> is \<open>g\<close>. \<open>same g g'\<close>: the reader's \<open>g'\<close>
  yields, from what the writer put in the file, the writer's keys.
\<close>

locale datafile_format =
  fixes f :: "('g, 'a) format_desc"
    and ok :: "'g \<Rightarrow> 'a \<Rightarrow> bool"
    and same :: "'g \<Rightarrow> 'g \<Rightarrow> bool"
  assumes pref_small: "unat (fd_pref_len f) < 2 ^ 32"
    and keys: "same g g' \<Longrightarrow> \<exists>fill sk hk g1 g2 g1' g2'. fd_p_fill f g = Some fill \<and> length fill = unat (fd_pref_len f) \<and>
      fd_s_key f g fill = (g1, Some sk) \<and> fd_h_key f g1 fill = (g2, Some hk) \<and>
      (\<forall>rest. fd_s_key f g' (fill @ rest) = (g1', Some sk) \<and> fd_h_key f g1' (fill @ rest) = (g2', Some hk)) \<and>
      (\<forall>x mem pre w post. ok g x \<longrightarrow> fd_datawrite f x = Some w \<longrightarrow> length (pre @ w @ post) < 2 ^ 63 \<longrightarrow> (\<forall>k n. mem k n) \<longrightarrow>
        fd_dataread f g2' mem (pre @ w @ post) (length pre) = Done (Some (x, length pre + length w)))"
    and writes: "ok g x \<Longrightarrow> sized f x"
begin

definition total :: "'a list \<Rightarrow> nat" where
  "total data = sum_list (map (\<lambda>x. unat (fd_datalen f x)) data)"

lemma total_simps [simp]: "total [] = 0" "total (x # xs) = unat (fd_datalen f x) + total xs"
  by (simp_all add: total_def)

lemma payload_len_total: "total data < 2 ^ 63 \<Longrightarrow> unat (payload_len f data) = total data"
proof (induction data)
  case Nil
  then show ?case by (simp add: payload_len_def)
next
  case (Cons x data)
  then have "unat (payload_len f data) = total data" by simp
  with Cons.prems show ?case
    using unat_plus_small [of "fd_datalen f x" "payload_len f data"] by (simp add: payload_len_def)
qed

lemma written:
  assumes "\<forall>x \<in> set data. sized f x"
  shows "total data \<le> room \<Longrightarrow> \<exists>ws. list_all2 (\<lambda>x w. fd_datawrite f x = Some w \<and> w \<noteq> []) data ws \<and>
    length (concat ws) = total data \<and> write_items f room data = Done (Some (concat ws))"
  using assms
proof (induction data arbitrary: room)
  case Nil
  then show ?case by simp
next
  case (Cons x data)
  have ok: "sized f x" "\<forall>x \<in> set data. sized f x" using Cons.prems(2) by simp_all
  from ok(1) obtain w where w: "fd_datawrite f x = Some w" "w \<noteq> []" "length w = unat (fd_datalen f x)"
    unfolding sized_def by blast
  with Cons.prems(1) have r: "total data \<le> room - length w" "\<not> length w > room" by simp_all
  from Cons.IH [OF r(1) ok(2)] obtain ws where
    "list_all2 (\<lambda>x w. fd_datawrite f x = Some w \<and> w \<noteq> []) data ws" "length (concat ws) = total data"
    "write_items f (room - length w) data = Done (Some (concat ws))" by blast
  with w r(2) show ?case by (intro exI [of _ "w # ws"]) simp
qed

lemma read_prefix:
  assumes "\<forall>x mem pre w post. ok g x \<longrightarrow> fd_datawrite f x = Some w \<longrightarrow> length (pre @ w @ post) < 2 ^ 63 \<longrightarrow> (\<forall>k n. mem k n) \<longrightarrow>
        fd_dataread f g2 mem (pre @ w @ post) (length pre) = Done (Some (x, length pre + length w))"
    and "\<forall>i k n. imem i k n"
  shows "list_all2 (\<lambda>x w. fd_datawrite f x = Some w \<and> w \<noteq> []) data ws \<Longrightarrow> \<forall>x \<in> set data. ok g x \<Longrightarrow>
    length (pre @ concat ws @ post) < 2 ^ 63 \<Longrightarrow>
    read_items f g2 imem (pre @ concat ws @ post) (length data + n) (length pre) =
      exec_bind (read_items f g2 imem (pre @ concat ws @ post) n (length (pre @ concat ws)))
        (\<lambda>r. Done (map_option (\<lambda>(xs, off). (data @ xs, off)) r))"
proof (induction data ws arbitrary: pre rule: list_all2_induct)
  case Nil
  show ?case by (cases "read_items f g2 imem (pre @ post) n (length pre)") (simp_all add: option.map_ident split: option.splits)
next
  case (Cons x data w ws)
  have m: "\<forall>k i. imem (length data + n) k i" using assms(2) by blast
  have s: "length (pre @ w @ concat ws @ post) < 2 ^ 63" "ok g x" using Cons.prems by simp_all
  have r: "fd_dataread f g2 (imem (length data + n)) (pre @ w @ concat ws @ post) (length pre) = Done (Some (x, length pre + length w))"
    using assms(1) [THEN spec, THEN spec, THEN spec, THEN spec, THEN spec, of x] Cons.hyps(1) s m by simp
  have "read_items f g2 imem ((pre @ w) @ concat ws @ post) (length data + n) (length (pre @ w)) =
      exec_bind (read_items f g2 imem ((pre @ w) @ concat ws @ post) n (length ((pre @ w) @ concat ws)))
        (\<lambda>r. Done (map_option (\<lambda>(xs, off). (data @ xs, off)) r))"
    by (rule Cons.IH) (use Cons.prems in simp_all)
  then have i: "read_items f g2 imem (pre @ w @ concat ws @ post) (length data + n) (length pre + length w) =
      exec_bind (read_items f g2 imem (pre @ w @ concat ws @ post) n (length pre + length w + length (concat ws)))
        (\<lambda>r. Done (map_option (\<lambda>(xs, off). (data @ xs, off)) r))" by (simp add: add.assoc)
  show ?case
    using Cons.hyps(1) r i
    by (cases "read_items f g2 imem (pre @ w @ concat ws @ post) n (length pre + length w + length (concat ws))")
      (auto simp: add.assoc split: option.splits)
qed

lemma read_back:
  assumes "\<forall>x mem pre w post. ok g x \<longrightarrow> fd_datawrite f x = Some w \<longrightarrow> length (pre @ w @ post) < 2 ^ 63 \<longrightarrow> (\<forall>k n. mem k n) \<longrightarrow>
        fd_dataread f g2 mem (pre @ w @ post) (length pre) = Done (Some (x, length pre + length w))"
    and "\<forall>i k n. imem i k n" and "list_all2 (\<lambda>x w. fd_datawrite f x = Some w \<and> w \<noteq> []) data ws"
    and "\<forall>x \<in> set data. ok g x" and "length (concat ws) < 2 ^ 63"
  shows "read_items f g2 imem (concat ws) (length data) 0 = Done (Some (data, length (concat ws)))"
  using read_prefix [OF assms(1-4), of "[]" "[]" 0] assms(5) by simp

text \<open>What the routines agree on: the content of a file, from the writer's random bytes.\<close>

definition file_of :: "ibc \<Rightarrow> bytes \<Rightarrow> bytes \<Rightarrow> bytes \<Rightarrow> bytes \<Rightarrow> 'a list \<Rightarrow> bytes \<Rightarrow> bytes" where
  "file_of L rnd fill sk hk data payload =
     (let header = encbe64 L (of_nat (length data)) @ encbe64 L (of_nat (length payload)) @ rnd @ fill;
          prefix = header @ hmac_sha256 L hk header; ct = chacha_enc L (sha256 L (sk @ rnd)) 0 payload
      in prefix @ ct @ hmac_sha256 L hk (prefix @ ct))"

lemma write_ok:
  assumes "lib_ok L" "fd_p_fill f g = Some fill" "length fill = unat (fd_pref_len f)"
    "fd_s_key f g fill = (g1, Some sk)" "fd_h_key f g1 fill = (g2, Some hk)"
    "wd_open env" "\<forall>k n. wd_mem env k n" "wd_rand env = Some rnd" "\<forall>j. wd_tx env j = None"
    "\<forall>x \<in> set data. sized f x" "total data < 2 ^ 63"
  shows "\<exists>ws. list_all2 (\<lambda>x w. fd_datawrite f x = Some w \<and> w \<noteq> []) data ws \<and>
    length (concat ws) = total data \<and>
    write_datafile L f env g data = Done (0, g2, Some (file_of L rnd fill sk hk data (concat ws)))"
proof -
  note lib = lib_ok_parts [OF assms(1)]
  note u = payload_len_total [OF assms(11)]
  from written [OF assms(10), of "total data"] obtain ws where ws:
    "list_all2 (\<lambda>x w. fd_datawrite f x = Some w \<and> w \<noteq> []) data ws" "length (concat ws) = total data"
    "write_items f (total data) data = Done (Some (concat ws))" by auto
  have pl: "of_nat (total data) = payload_len f data"
    using u by (metis of_nat_unat ucast_id)
  have z: "chacha_enc L k n (concat ws) = []" if "\<not> payload_len f data > 0" for k n
  proof -
    have "total data = 0" using that u by (simp add: word_gt_0)
    then have "length (chacha_enc L k n (concat ws)) = 0" using ws(2) lib by (simp add: wire_simps)
    then show ?thesis by simp
  qed
  have "write_datafile L f env g data = Done (0, g2, Some (file_of L rnd fill sk hk data (concat ws)))"
    using assms(2,4-9) ws(3) u z
    by (cases "payload_len f data > 0")
      (simp_all add: write_datafile_def write_payload_def Let_def ws(2) send_fields_all file_of_def pl)
  with ws show ?thesis by blast
qed

lemma length_header:
  assumes "lib_ok L" "length rnd = 32" "length fill = unat (fd_pref_len f)"
  shows "length (encbe64 L a @ encbe64 L b @ rnd @ fill) = 0x30 + unat (fd_pref_len f)"
    "unat (0x50 + fd_pref_len f) = 0x50 + unat (fd_pref_len f)"
  using assms pref_small unat_plus_small [of "0x50" "fd_pref_len f"] lib_ok_parts [OF assms(1)]
  by (simp_all add: wire_simps)

lemma read_file_eq:
  assumes "lib_ok L" "length rnd = 32" "length fill = unat (fd_pref_len f)" "length payload < 2 ^ 63"
    "length data < 2 ^ 64" "\<And>rest. fd_s_key f g' (fill @ rest) = (g1, Some sk) \<and> fd_h_key f g1 (fill @ rest) = (g2, Some hk)"
    "\<forall>k n. mem k n"
  shows "read_datafile L f mem imem g' (Some (file_of L rnd fill sk hk data payload)) =
    exec_bind (read_items f g2 imem payload (length data) 0) (\<lambda>r. case r of
        None \<Rightarrow> Done (-1, g2, None)
      | Some (xs, off) \<Rightarrow> if off \<noteq> length payload then Done (-1, g2, None) else Done (0, g2, Some xs))"
proof -
  note lib = lib_ok_parts [OF assms(1)]
  let ?h = "encbe64 L (of_nat (length data)) @ encbe64 L (of_nat (length payload)) @ rnd @ fill"
  let ?m1 = "hmac_sha256 L hk ?h" and ?ct = "chacha_enc L (sha256 L (sk @ rnd)) 0 payload"
  let ?P = "?h @ ?m1"
  let ?m2 = "hmac_sha256 L hk (?P @ ?ct)"
  note h = length_header(1) [OF assms(1-3), of "of_nat (length data)" "of_nat (length payload)"]
  have hl: "length (hmac_sha256 L k m) = 32" for k m using lib by (simp add: digest_simps)
  have m1: "length ?m1 = 32" and m2: "length ?m2 = 32" by (rule hl)+
  have ct: "length ?ct = length payload" using lib by (simp add: cipher_simps)
  have P: "length ?P = unat (0x50 + fd_pref_len f)"
    using h m1 length_header(2) [OF assms(1-3)] by simp
  have f: "file_of L rnd fill sk hk data payload = ?P @ ?ct @ ?m2 @ []" by (simp add: file_of_def Let_def)
  have r1: "rd (unat (0x50 + fd_pref_len f)) (?P @ ?ct @ ?m2 @ []) = Some (?P, ?ct @ ?m2 @ [])"
    by (rule rd_append [OF P])
  have un: "unat (of_nat (length payload) :: u64) = length payload" "unat (of_nat (length data) :: u64) = length data"
    using assms(4,5) by (auto intro!: unat_of_nat_small)
  have e: "length (encbe64 L x) = 8" for x using lib by (simp add: endian_simps)
  have s1: "slice 0 8 ?P = encbe64 L (of_nat (length data))" unfolding append_assoc by (rule slice_here) (simp add: e)
  have s2: "slice 8 8 ?P = encbe64 L (of_nat (length payload))" unfolding append_assoc by (rule slice_at) (simp_all add: e)
  have s3: "slice 0x10 0x20 ?P = rnd"
    using slice_at [of "encbe64 L (of_nat (length data)) @ encbe64 L (of_nat (length payload))" "0x10" rnd "0x20" "fill @ ?m1"]
      assms(2) by (simp add: e)
  have s4: "drop 0x30 ?P = fill @ ?m1"
    using drop_length_append [of "encbe64 L (of_nat (length data)) @ encbe64 L (of_nat (length payload)) @ rnd" "0x30" "fill @ ?m1"]
      assms(2) by (simp add: e)
  have s5: "take (length ?P - 0x20) ?P = ?h" "drop (length ?P - 0x20) ?P = ?m1"
    using m1 by (simp_all only: length_append) simp_all
  have d: "decbe64 L (slice 0 8 ?P) = of_nat (length data)" "decbe64 L (slice 8 8 ?P) = of_nat (length payload)"
    unfolding s1 s2 using lib by (simp_all add: endian_simps)
  have c: "memcmp_ct L ?m1 ?m1 = 0" "memcmp_ct L ?m2 ?m2 = 0" using lib by (simp_all add: memcmp_ct_same)
  have r2: "rd (length payload) (?ct @ ?m2 @ []) = Some (?ct, ?m2 @ [])" by (rule rd_append [OF ct])
  have r3: "rd 0x20 (?m2 @ []) = Some (?m2, [])" by (rule rd_append) (rule m2)
  have k: "fd_s_key f g' (fill @ ?m1) = (g1, Some sk)" "fd_h_key f g1 (fill @ ?m1) = (g2, Some hk)"
    using assms(6) by blast+
  have mm: "mem 0 x" "mem 1 x" for x using assms(7) by simp_all
  have dec: "chacha_dec L (sha256 L (sk @ rnd)) 0 ?ct = payload" using lib by (simp add: cipher_simps)
  show ?thesis
    unfolding read_datafile_def f option.case Let_def r1 prod.case d s4 k s5 s3 un r2 r3 dec
    using c mm by (simp only: r2 r3 option.case prod.case c simp_thms if_True if_False dec exec_bind.simps)
qed

lemma read_file_of:
  assumes "lib_ok L" "length rnd = 32" "length fill = unat (fd_pref_len f)" "length payload < 2 ^ 63"
    "length data < 2 ^ 64" "\<And>rest. fd_s_key f g' (fill @ rest) = (g1, Some sk) \<and> fd_h_key f g1 (fill @ rest) = (g2, Some hk)"
    "\<forall>k n. mem k n" "read_items f g2 imem payload (length data) 0 = Done (Some (xs, length payload))"
  shows "read_datafile L f mem imem g' (Some (file_of L rnd fill sk hk data payload)) = Done (0, g2, Some xs)"
  unfolding read_file_eq [OF assms(1-7)] assms(8) by simp

lemma roundtrip:
  assumes "lib_ok L" "same g g'" "wd_open env" "\<forall>k n. wd_mem env k n" "wd_rand env = Some rnd" "length rnd = 32"
    "\<forall>j. wd_tx env j = None" "\<forall>x \<in> set data. ok g x" "total data < 2 ^ 63" "length data < 2 ^ 64"
    "\<forall>k n. mem k n" "\<forall>i k n. imem i k n"
  shows "\<exists>g2 file g2'. write_datafile L f env g data = Done (0, g2, Some file) \<and>
    read_datafile L f mem imem g' (Some file) = Done (0, g2', Some data)"
proof -
  from keys [OF assms(2)] obtain fill sk hk g1 g2 g1' g2' where k: "fd_p_fill f g = Some fill"
    "length fill = unat (fd_pref_len f)" "fd_s_key f g fill = (g1, Some sk)" "fd_h_key f g1 fill = (g2, Some hk)"
    "\<forall>rest. fd_s_key f g' (fill @ rest) = (g1', Some sk) \<and> fd_h_key f g1' (fill @ rest) = (g2', Some hk)"
    "\<forall>x mem pre w post. ok g x \<longrightarrow> fd_datawrite f x = Some w \<longrightarrow> length (pre @ w @ post) < 2 ^ 63 \<longrightarrow> (\<forall>k n. mem k n) \<longrightarrow>
        fd_dataread f g2' mem (pre @ w @ post) (length pre) = Done (Some (x, length pre + length w))"
    by (elim exE conjE) (rule that)
  have sz: "\<forall>x \<in> set data. sized f x" using assms(8) writes by blast
  from write_ok [OF assms(1) k(1-4) assms(3-5,7) sz assms(9)] obtain ws where w:
    "list_all2 (\<lambda>x w. fd_datawrite f x = Some w \<and> w \<noteq> []) data ws" "length (concat ws) = total data"
    "write_datafile L f env g data = Done (0, g2, Some (file_of L rnd fill sk hk data (concat ws)))" by blast
  have t': "length (concat ws) < 2 ^ 63" using w(2) assms(9) by simp
  note r = read_back [OF k(6) assms(12) w(1) assms(8) t']
  have k5: "fd_s_key f g' (fill @ rest) = (g1', Some sk) \<and> fd_h_key f g1' (fill @ rest) = (g2', Some hk)" for rest
    using k(5) by blast
  from read_file_of [OF assms(1,6) k(2) t' assms(10) k5 assms(11) r] w(3) show ?thesis by blast
qed

end

section \<open>Properties of every format\<close>

declare send_fields.simps [simp del]

lemma read_datafile_inv:
  assumes "read_datafile L f mem imem g (Some file) = Done (0, g2, r)"
  obtains prefix ct mac rest g1 sk hk xs where "file = prefix @ ct @ mac @ rest" "length prefix = unat (0x50 + fd_pref_len f)"
    "length mac = 32" "length ct = unat (decbe64 L (slice 8 8 prefix))" "r = Some xs"
    "fd_s_key f g (drop 0x30 prefix) = (g1, Some sk)" "fd_h_key f g1 (drop 0x30 prefix) = (g2, Some hk)"
    "memcmp_ct L (hmac_sha256 L hk (take (length prefix - 32) prefix)) (drop (length prefix - 32) prefix) = 0"
    "memcmp_ct L (hmac_sha256 L hk (prefix @ ct)) mac = 0"
    "read_items f g2 imem (chacha_dec L (sha256 L (sk @ slice 16 32 prefix)) 0 ct)
       (unat (decbe64 L (slice 0 8 prefix))) 0 = Done (Some (xs, length ct))"
  using assms
  by (auto simp: read_datafile_def Let_def rd_Some exec_bind_Done_iff split: option.splits prod.splits if_splits)
    (metis append_assoc)

lemma read_items_length:
  "read_items f g imem payload n off = Done (Some (xs, off')) \<Longrightarrow> length xs = n"
  by (induction n arbitrary: off xs off') (auto simp: exec_bind_Done_iff split: option.splits if_splits)

lemma send_fields_prefix: "send_fields tx bs = (ok, w) \<Longrightarrow> \<exists>rest. concat bs = w @ rest \<and> (ok \<longrightarrow> rest = [])"
proof (induction bs arbitrary: tx ok w)
  case Nil
  then show ?case by (simp add: send_fields.simps)
next
  case (Cons b bs)
  show ?case
  proof (cases "tx 0")
    case None
    with Cons.prems obtain w' where w: "send_fields (\<lambda>j. tx (Suc j)) bs = (ok, w')" "w = b @ w'"
      by (auto simp: send_fields.simps split: prod.splits)
    from Cons.IH [OF w(1)] w(2) show ?thesis by auto
  next
    case (Some k)
    with Cons.prems have "w = take k b" "\<not> ok" by (auto simp: send_fields.simps)
    then show ?thesis by (intro exI [of _ "drop k b @ concat bs"]) (simp flip: append_assoc)
  qed
qed

text \<open>What is in a file after a write: nothing, or the first bytes of a complete file.\<close>

lemma write_datafile_file:
  assumes "lib_ok L" "write_datafile L f env g data = Done (r, g2, Some w)" "w \<noteq> []"
  obtains rnd fill hk ct header rest where "wd_rand env = Some rnd" "fd_p_fill f g = Some fill"
    "length ct = unat (payload_len f data)"
    "header = encbe64 L (of_nat (length data)) @ encbe64 L (payload_len f data) @ rnd @ fill"
    "w @ rest = (header @ hmac_sha256 L hk header) @ ct @ hmac_sha256 L hk ((header @ hmac_sha256 L hk header) @ ct)"
    "write_datafile L f (env\<lparr>wd_tx := (\<lambda>_. None)\<rparr>) g data = Done (0, g2, Some (w @ rest))"
proof -
  note lib = lib_ok_parts [OF assms(1)]
  from assms(2,3) obtain rnd fill g1 sk hk header where o: "wd_open env" "wd_mem env 0 (0x50 + fd_pref_len f)"
    "wd_rand env = Some rnd" "fd_p_fill f g = Some fill" "fd_s_key f g fill = (g1, Some sk)" "fd_h_key f g1 fill = (g2, Some hk)"
    "header = encbe64 L (of_nat (length data)) @ encbe64 L (payload_len f data) @ rnd @ fill"
    "write_payload L f env data (header @ hmac_sha256 L hk header) (sha256 L (sk @ rnd)) hk = Done (r, w)"
    by (auto simp: write_datafile_def exec_bind_Done_iff Let_def split: option.split_asm prod.split_asm if_split_asm)
  from o(8) assms(3) obtain payload where p: "wd_mem env 1 (payload_len f data)"
    "write_items f (unat (payload_len f data)) data = Done (Some payload)" "length payload = unat (payload_len f data)"
    by (auto simp: write_payload_def exec_bind_Done_iff Let_def split: option.split_asm if_split_asm)
  let ?P = "header @ hmac_sha256 L hk header" and ?ct = "chacha_enc L (sha256 L (sk @ rnd)) 0 payload"
  let ?m = "hmac_sha256 L hk (?P @ ?ct)"
  let ?fs = "[?P] @ (if payload_len f data > 0 then [?ct] else []) @ [?m]"
  have ct: "length ?ct = unat (payload_len f data)" using p(3) lib by (simp add: cipher_simps)
  then have c: "concat ?fs = ?P @ ?ct @ ?m" by (auto simp: word_gt_0)
  have e: "write_payload L f e data ?P (sha256 L (sk @ rnd)) hk = (case send_fields (wd_tx e) ?fs of (ok, w) \<Rightarrow> Done (if ok then 0 else -1, w))"
    if "e = env \<or> e = env\<lparr>wd_tx := (\<lambda>_. None)\<rparr>" for e
    using that p by (auto simp: write_payload_def Let_def)
  from e [of env] o(8) obtain ok where "send_fields (wd_tx env) ?fs = (ok, w)" by (auto split: prod.split_asm)
  from send_fields_prefix [OF this] obtain rest where r: "?P @ ?ct @ ?m = w @ rest" unfolding c by blast
  have "send_fields (\<lambda>_. None) ?fs = (True, ?P @ ?ct @ ?m)" unfolding c [symmetric] by (rule send_fields_all) simp
  with e [of "env\<lparr>wd_tx := (\<lambda>_. None)\<rparr>"] r
  have "write_payload L f (env\<lparr>wd_tx := (\<lambda>_. None)\<rparr>) data ?P (sha256 L (sk @ rnd)) hk = Done (0, w @ rest)" by simp
  with o(1-7) have d: "write_datafile L f (env\<lparr>wd_tx := (\<lambda>_. None)\<rparr>) g data = Done (0, g2, Some (w @ rest))"
    by (simp add: write_datafile_def)
  have "w @ rest = ?P @ ?ct @ ?m" using r by simp
  from that [OF o(3,4) ct o(7) this d] show ?thesis .
qed

text \<open>
  C22: What a data file yields is authentic: whatever is in the file, if \<open>read_datafile\<close> succeeds then the
  file begins with a prefix and a body whose MACs are both right under the key the format derives
  from the prefix, the records are what the format reads from the decrypted body, there are as many
  as the prefix says, and they fill the body exactly.
\<close>
theorem datafile_authentic:
  assumes "lib_ok L" and "read_datafile L f mem imem g (Some file) = Done (0, g2, r)"
    and "unat (0x50 + fd_pref_len f) = 0x50 + unat (fd_pref_len f)"
  shows "\<exists>header mac1 ct mac2 rest g1 sk hk xs. file = (header @ mac1) @ ct @ mac2 @ rest \<and> r = Some xs \<and>
    fd_s_key f g (drop 0x30 (header @ mac1)) = (g1, Some sk) \<and> fd_h_key f g1 (drop 0x30 (header @ mac1)) = (g2, Some hk) \<and>
    mac1 = hmac_sha256 L hk header \<and> mac2 = hmac_sha256 L hk ((header @ mac1) @ ct) \<and>
    length header = 0x30 + unat (fd_pref_len f) \<and>
    length xs = unat (decbe64 L (take 8 header)) \<and> length ct = unat (decbe64 L (slice 8 8 header)) \<and>
    read_items f g2 imem (chacha_dec L (sha256 L (sk @ slice 16 32 header)) 0 ct) (length xs) 0 =
      Done (Some (xs, length ct))"
proof -
  note lib = lib_ok_parts [OF assms(1)]
  from assms(2) obtain prefix ct mac rest g1 sk hk xs where p:
    "file = prefix @ ct @ mac @ rest" "length prefix = unat (0x50 + fd_pref_len f)"
    "length mac = 32" "length ct = unat (decbe64 L (slice 8 8 prefix))" "r = Some xs"
    "fd_s_key f g (drop 0x30 prefix) = (g1, Some sk)" "fd_h_key f g1 (drop 0x30 prefix) = (g2, Some hk)"
    "memcmp_ct L (hmac_sha256 L hk (take (length prefix - 32) prefix)) (drop (length prefix - 32) prefix) = 0"
    "memcmp_ct L (hmac_sha256 L hk (prefix @ ct)) mac = 0"
    "read_items f g2 imem (chacha_dec L (sha256 L (sk @ slice 16 32 prefix)) 0 ct)
       (unat (decbe64 L (slice 0 8 prefix))) 0 = Done (Some (xs, length ct))"
    by (rule read_datafile_inv)
  let ?h = "take (length prefix - 32) prefix" and ?m = "drop (length prefix - 32) prefix"
  have l: "length prefix = 0x50 + unat (fd_pref_len f)" using p(2) assms(3) by simp
  then have h: "length ?h = 0x30 + unat (fd_pref_len f)" "length ?m = 32" "?h @ ?m = prefix" by simp_all
  have m: "?m = hmac_sha256 L hk ?h" "mac = hmac_sha256 L hk (prefix @ ct)"
    using p(8,9) p(3) h(2) lib by (simp_all add: memcmp_ct_iff digest_simps)
  have s: "slice 0 8 prefix = take 8 ?h" "slice 8 8 prefix = slice 8 8 ?h" "slice 16 32 prefix = slice 16 32 ?h"
    using l by (simp_all add: slice_def drop_take min_def)
  have n: "length xs = unat (decbe64 L (take 8 ?h))" using read_items_length [OF p(10)] s(1) by simp
  have a: "file = (?h @ ?m) @ ct @ mac @ rest" "fd_s_key f g (drop 0x30 (?h @ ?m)) = (g1, Some sk)"
    "fd_h_key f g1 (drop 0x30 (?h @ ?m)) = (g2, Some hk)" "mac = hmac_sha256 L hk ((?h @ ?m) @ ct)"
    unfolding h(3) by (rule p(1), rule p(6), rule p(7), rule m(2))
  have b: "length ct = unat (decbe64 L (slice 8 8 ?h))"
    "read_items f g2 imem (chacha_dec L (sha256 L (sk @ slice 16 32 ?h)) 0 ct) (length xs) 0 = Done (Some (xs, length ct))"
    unfolding s(2,3) [symmetric] n s(1) [symmetric] by (rule p(4), rule p(10))
  show ?thesis
    by (intro exI conjI, rule a(1), rule p(5), rule a(2), rule a(3), rule m(1), rule a(4), rule h(1), rule n, rule b(1), rule b(2))
qed

text \<open>
  A failed write leaves a file that cannot be read: \<open>write_datafile\<close> empties the old file when it opens
  it; if it then fails, for whatever reason, short of having written everything, \<open>read_datafile\<close>
  fails on what is left, so neither the old records nor the new ones can be recovered.
\<close>
theorem failed_write_unreadable:
  assumes "lib_ok L" and "write_datafile L f env g data = Done (-1, g2, Some w)"
    and "\<forall>g' w'. write_datafile L f (env\<lparr>wd_tx := (\<lambda>_. None)\<rparr>) g data = Done (0, g', Some w') \<longrightarrow> length w < length w'"
    and "unat (0x50 + fd_pref_len f) = 0x50 + unat (fd_pref_len f)"
    and "\<forall>rnd. wd_rand env = Some rnd \<longrightarrow> length rnd = 32"
    and "\<forall>fill. fd_p_fill f g = Some fill \<longrightarrow> length fill = unat (fd_pref_len f)"
  shows "\<exists>g3. read_datafile L f mem imem g' (Some w) = Done (-1, g3, None)"
proof (cases "length w < 0x50 + unat (fd_pref_len f)")
  case True
  then have "rd (unat (0x50 + fd_pref_len f)) w = None" using assms(4) by (simp add: rd_def)
  then show ?thesis by (simp add: read_datafile_def)
next
  case False
  note lib = lib_ok_parts [OF assms(1)]
  from False have "w \<noteq> []" by auto
  from write_datafile_file [OF assms(1,2) this] obtain rnd fill hk ct header rest where w: "wd_rand env = Some rnd"
    "fd_p_fill f g = Some fill" "length ct = unat (payload_len f data)"
    "header = encbe64 L (of_nat (length data)) @ encbe64 L (payload_len f data) @ rnd @ fill"
    "w @ rest = (header @ hmac_sha256 L hk header) @ ct @ hmac_sha256 L hk ((header @ hmac_sha256 L hk header) @ ct)"
    "write_datafile L f (env\<lparr>wd_tx := (\<lambda>_. None)\<rparr>) g data = Done (0, g2, Some (w @ rest))" .
  let ?P = "header @ hmac_sha256 L hk header"
  have l: "length ?P = 0x50 + unat (fd_pref_len f)"
    using w(1,2,4) assms(5,6) lib by (simp add: endian_simps digest_simps)
  have "take (length ?P) (w @ rest) = ?P" unfolding w(5) by (rule take_length_append) (rule refl)
  moreover have "take (length ?P) (w @ rest) = take (length ?P) w" using False unfolding l by simp
  ultimately have t: "w = ?P @ drop (length ?P) w" by (metis append_take_drop_id)
  have short: "length (w @ rest) > length w" using assms(3) w(6) by blast
  have "length (w @ rest) = length ?P + length ct + 32"
    unfolding w(5) using lib by (simp only: length_append digest_simps)
  with short w(3) have d: "length (drop (length ?P) w) < unat (payload_len f data) + 32"
    by (simp only: length_drop length_append)
  have r1: "rd (unat (0x50 + fd_pref_len f)) w = Some (?P, drop (length ?P) w)"
    using t l assms(4) by (metis rd_append)
  have s: "slice 8 8 ?P = encbe64 L (payload_len f data)"
    unfolding w(4) append_assoc using lib by (intro slice_at) (simp_all add: endian_simps)
  have pl: "decbe64 L (slice 8 8 ?P) = payload_len f data" unfolding s using lib by (simp add: endian_simps)
  have r2: "rd 0x20 i2 = None" if "rd (unat (payload_len f data)) (drop (length ?P) w) = Some (c, i2)" for c i2
  proof -
    from that have "drop (length ?P) w = c @ i2" "length c = unat (payload_len f data)" unfolding rd_Some by simp_all
    with d have "length i2 < 32" by (simp only: length_append)
    then show ?thesis by (simp add: rd_def)
  qed
  obtain g4 k4 where g4: "fd_s_key f g' (drop 0x30 ?P) = (g4, k4)" by (cases "fd_s_key f g' (drop 0x30 ?P)")
  obtain g5 k5 where g5: "fd_h_key f g4 (drop 0x30 ?P) = (g5, k5)" by (cases "fd_h_key f g4 (drop 0x30 ?P)")
  show ?thesis
    unfolding read_datafile_def option.case Let_def r1 prod.case pl g4 g5
    using r2 by (auto split: option.splits)
qed

end
