(* ===== verification/Uname.thy ===== *)
theory Uname
  imports Libs
begin

text \<open>
  \<open>client/uname.c\<close>: user names and the ids derived from them. A C string is the list of its
  characters without the terminating zero.
\<close>

definition valid_uname_char :: "byte \<Rightarrow> bool" where
  "valid_uname_char c \<longleftrightarrow> 97 \<le> c \<and> c \<le> 122 \<or> 65 \<le> c \<and> c \<le> 90 \<or> 48 \<le> c \<and> c \<le> 57 \<or> c = 95"

definition valid_uname :: "bytes \<Rightarrow> bool" where
  "valid_uname uname \<longleftrightarrow> \<not> (length uname = 0 \<or> length uname > 20) \<and> list_all valid_uname_char uname"

text \<open>
  \<open>getusername\<close> on the lines \<open>getline\<close> returns, terminators included, until end of file (\<open>None\<close>). The last
  character is cut off, whatever it is; a line that begins with a zero byte is written before its start.
\<close>

fun getusername :: "bytes list \<Rightarrow> bytes option exec" where
  "getusername [] = Done None"
| "getusername (line # lines) =
     (let s = takeWhile (\<lambda>c. c \<noteq> 0) line in
      if s = [] then UB
      else if valid_uname (butlast s) then Done (Some (butlast s)) else getusername lines)"

definition gen_uid :: "ibc \<Rightarrow> bytes \<Rightarrow> bytes" where
  "gen_uid L uname = sha256 L (uname @ [0])"

definition uid_hash :: "ibc \<Rightarrow> bytes \<Rightarrow> bytes \<Rightarrow> bytes" where
  "uid_hash L salt uid = hmac_sha256 L salt uid"

definition uid_hash_val :: "ibc \<Rightarrow> bytes \<Rightarrow> bytes \<Rightarrow> u64" where
  "uid_hash_val L salt uid = (let hash = hmac_sha256 L salt uid in
     xor (xor (xor (decbe64 L (slice 0 8 hash)) (decbe64 L (slice 8 8 hash)))
       (decbe64 L (slice 16 8 hash))) (decbe64 L (slice 24 8 hash)))"

text \<open>Names that \<open>getusername\<close> lets through are C strings: no zero byte, 1 to 20 characters.\<close>

lemma valid_uname_char_nonzero: "\<not> valid_uname_char 0"
  by (simp add: valid_uname_char_def)

lemma valid_unameD:
  assumes "valid_uname u"
  shows "u \<noteq> []" "length u \<le> 20" "0 \<notin> set u"
  using assms valid_uname_char_nonzero by (auto simp: valid_uname_def list_all_iff)

lemma getusername_valid: "getusername lines = Done (Some u) \<Longrightarrow> valid_uname u"
  by (induction lines) (auto simp: Let_def split: if_splits)

lemma getusername_first:
  assumes "valid_uname u" "c \<noteq> 0"
  shows "getusername ((u @ [c]) # lines) = Done (Some u)"
proof -
  have "takeWhile (\<lambda>c. c \<noteq> 0) (u @ [c]) = u @ [c]"
    using valid_unameD(3) [OF assms(1)] assms(2) by (auto simp: takeWhile_eq_all_conv)
  with assms(1) show ?thesis by simp
qed

lemma length_gen_uid: "lib_ok L \<Longrightarrow> length (gen_uid L u) = 32"
  by (simp add: gen_uid_def lib_ok_parts digest_simps(1))

end
