(* ===== verification/Profile.thy ===== *)
theory Profile
  imports Datafile Uname
begin

text \<open>
  \<open>client/account.c\<close>, \<open>client/profile.c\<close> and \<open>client/userfile.c\<close>: the accounts of a profile, the password
  that protects them, and the user file that holds them.
\<close>

section \<open>Accounts\<close>

text \<open>The list fields \<open>friends\<close> and \<open>next\<close> are lists of the places that hold accounts.\<close>

record account =
  ac_u_len :: u64
  ac_a_len :: u64
  ac_k_len :: u64
  ac_uname :: bytes
  ac_addr :: bytes
  ac_key_bin :: bytes
  ac_sfing :: bytes
  ac_f_file :: bytes
  ac_f_symm :: bytes
  ac_f_hmac :: bytes
  ac_n_file :: bytes
  ac_n_symm :: bytes
  ac_n_hmac :: bytes

definition account_bin_size :: "account \<Rightarrow> u64" where
  "account_bin_size a = 8 + 8 + 8 + ac_u_len a + ac_a_len a + ac_k_len a +
     0x20 + 0x20 + 0x20 + 0x20 + 0x20 + 0x20 + 0x20"

definition account_write_bin :: "ibc \<Rightarrow> account \<Rightarrow> bytes" where
  "account_write_bin L a =
     concat [encbe64 L (ac_u_len a), encbe64 L (ac_a_len a), encbe64 L (ac_k_len a)] @
     concat [take (unat (ac_u_len a)) (ac_uname a), take (unat (ac_a_len a)) (ac_addr a),
       take (unat (ac_k_len a)) (ac_key_bin a), ac_sfing a, ac_f_file a, ac_f_symm a, ac_f_hmac a,
       ac_n_file a, ac_n_symm a, ac_n_hmac a]"

definition account_parse_bin :: "ibc \<Rightarrow> heap_oracle \<Rightarrow> bytes \<Rightarrow> nat \<Rightarrow> (account \<times> nat) option exec" where
  "account_parse_bin L mem payload off =
     (if \<not> mem 0 288 then Done None
      else exec_bind (read_seq payload off [8, 8, 8]) (\<lambda>(ns, off1).
        let ul = decbe64 L (ns ! 0); al = decbe64 L (ns ! 1); kl = decbe64 L (ns ! 2) in
        if \<not> mem 1 (ul + 1) then Done None
        else if \<not> mem 2 (al + 1) then Done None
        else if \<not> mem 3 kl then Done None
        else exec_bind (read_seq payload off1 [unat ul, unat al, unat kl, 32, 32, 32, 32, 32, 32, 32]) (\<lambda>(bs, off2).
          Done (Some (\<lparr>ac_u_len = ul, ac_a_len = al, ac_k_len = kl, ac_uname = bs ! 0, ac_addr = bs ! 1,
            ac_key_bin = bs ! 2, ac_sfing = bs ! 3, ac_f_file = bs ! 4, ac_f_symm = bs ! 5, ac_f_hmac = bs ! 6,
            ac_n_file = bs ! 7, ac_n_symm = bs ! 8, ac_n_hmac = bs ! 9\<rparr>, off2)))))"

section \<open>Profiles\<close>

record profile =
  pr_pass :: bytes
  pr_salt :: bytes
  pr_pw_check :: bytes
  pr_symm_key :: bytes
  pr_hmac_key :: bytes
  pr_nonce :: u64
  pr_accounts :: "account list"
  pr_expanded :: int

definition key_expand :: "ibc \<Rightarrow> profile \<Rightarrow> int \<times> profile" where
  "key_expand L p = (case scrypt L (pr_pass p) (pr_salt p) 96 of
     None \<Rightarrow> (-1, p)
   | Some out \<Rightarrow>
       if memcmp_ct L (slice 0 0x20 out) (pr_pw_check p) \<noteq> 0 then (-1, p)
       else (0, p\<lparr>pr_pw_check := slice 0 0x20 out, pr_symm_key := slice 0x20 0x20 out,
                  pr_hmac_key := slice 0x40 0x20 out, pr_expanded := 1\<rparr>))"

text \<open>Keys derived anew from the password and a fresh salt: \<open>gen_profile\<close> and \<open>profile_reseed\<close>.\<close>

definition set_keys :: "bytes \<Rightarrow> profile \<Rightarrow> profile" where
  "set_keys out p = p\<lparr>pr_pw_check := slice 0 32 out, pr_symm_key := slice 32 32 out, pr_hmac_key := slice 64 32 out\<rparr>"

definition gen_profile :: "ibc \<Rightarrow> bytes option \<Rightarrow> profile \<Rightarrow> int \<times> profile" where
  "gen_profile L rand p = (case rand of
     None \<Rightarrow> (-1, p)
   | Some salt \<Rightarrow>
       let p1 = p\<lparr>pr_salt := salt, pr_nonce := 0, pr_accounts := []\<rparr>
       in (case scrypt L (pr_pass p1) salt 96 of None \<Rightarrow> (-1, p1) | Some out \<Rightarrow> (0, set_keys out p1)))"

definition profile_reseed :: "ibc \<Rightarrow> bytes option \<Rightarrow> profile \<Rightarrow> int \<times> profile" where
  "profile_reseed L rand p = (case rand of
     None \<Rightarrow> (1, p)
   | Some salt \<Rightarrow> (case scrypt L (pr_pass p) salt 96 of
       None \<Rightarrow> (1, p\<lparr>pr_salt := salt\<rparr>) | Some out \<Rightarrow> (0, set_keys out (p\<lparr>pr_salt := salt\<rparr>))))"

subsection \<open>The user file\<close>

definition uf_p_fill :: "profile \<Rightarrow> bytes option" where
  "uf_p_fill p = Some (pr_salt p @ pr_pw_check p)"

text \<open>Both key callbacks expand the password first, with the salt and the check value they are given.\<close>

definition uf_expand :: "ibc \<Rightarrow> profile \<Rightarrow> bytes \<Rightarrow> int \<times> profile" where
  "uf_expand L p ptr =
     (if pr_expanded p \<noteq> 0 then (0, p)
      else key_expand L (p\<lparr>pr_salt := slice 0 0x20 ptr, pr_pw_check := slice 0x20 0x20 ptr\<rparr>))"

definition uf_s_key :: "ibc \<Rightarrow> profile \<Rightarrow> bytes \<Rightarrow> profile \<times> bytes option" where
  "uf_s_key L p ptr = (case uf_expand L p ptr of (r, p') \<Rightarrow> (p', if r \<noteq> 0 then None else Some (pr_symm_key p')))"

definition uf_h_key :: "ibc \<Rightarrow> profile \<Rightarrow> bytes \<Rightarrow> profile \<times> bytes option" where
  "uf_h_key L p ptr = (case uf_expand L p ptr of (r, p') \<Rightarrow> (p', if r \<noteq> 0 then None else Some (pr_hmac_key p')))"

definition uf_format :: "ibc \<Rightarrow> (profile, account) format_desc" where
  "uf_format L = \<lparr>fd_pref_len = 0x40, fd_p_fill = uf_p_fill, fd_s_key = uf_s_key L, fd_h_key = uf_h_key L,
     fd_datalen = account_bin_size, fd_datawrite = (\<lambda>a. Some (account_write_bin L a)),
     fd_dataread = (\<lambda>_. account_parse_bin L)\<rparr>"

text \<open>\<open>path\<close>: \<open>init_acc_file_str\<close> has a path, or can allocate one.\<close>

definition write_userfile :: "ibc \<Rightarrow> bool \<Rightarrow> wd_env \<Rightarrow> profile \<Rightarrow> (int \<times> profile \<times> bytes option) exec" where
  "write_userfile L path env user =
     (if \<not> path then Done (-1, user, None) else write_datafile L (uf_format L) env user (pr_accounts user))"

definition read_userfile :: "ibc \<Rightarrow> bool \<Rightarrow> heap_oracle \<Rightarrow> (nat \<Rightarrow> heap_oracle) \<Rightarrow> profile \<Rightarrow> bytes option \<Rightarrow>
    (int \<times> profile) exec" where
  "read_userfile L path mem imem user file =
     (if \<not> path then Done (-1, user)
      else exec_bind (read_datafile L (uf_format L) mem imem (user\<lparr>pr_expanded := 0\<rparr>) file) (\<lambda>(r, user', accs).
        Done (r, case accs of None \<Rightarrow> user' | Some as \<Rightarrow> user'\<lparr>pr_accounts := as\<rparr>)))"

subsection \<open>Logging in, and changes of the profile\<close>

text \<open>
  \<open>exist\<close> is the result of \<open>user_exist\<close>, \<open>prompt\<close> what \<open>line_prompt\<close> or \<open>strdup\<close> returns, \<open>ans\<close> the answer to
  the question whether to create a profile.
\<close>

definition register_profile :: "ibc \<Rightarrow> bool \<Rightarrow> wd_env \<Rightarrow> bytes option \<Rightarrow> int \<Rightarrow> bytes option \<Rightarrow> profile \<Rightarrow>
    (int \<times> profile \<times> bytes option) exec" where
  "register_profile L path env rand ans prompt p =
     (if ans \<noteq> 1 then Done (1, p, None)
      else (case prompt of None \<Rightarrow> Done (-1, p, None)
      | Some pass \<Rightarrow> (case gen_profile L rand (p\<lparr>pr_pass := pass\<rparr>) of (r, p1) \<Rightarrow>
          if r \<noteq> 0 then Done (-1, p1, None)
          else exec_bind (write_userfile L path env p1) (\<lambda>(r, p2, f). Done (if r \<noteq> 0 then -1 else 0, p2, f)))))"

definition login_profile :: "ibc \<Rightarrow> bool \<Rightarrow> heap_oracle \<Rightarrow> (nat \<Rightarrow> heap_oracle) \<Rightarrow> wd_env \<Rightarrow> bytes option \<Rightarrow> int \<Rightarrow> int \<Rightarrow>
    bytes option \<Rightarrow> profile \<Rightarrow> bytes option \<Rightarrow> (int \<times> profile \<times> bytes option) exec" where
  "login_profile L path mem imem env rand exist ans prompt p file =
     (if exist = -1 then Done (-1, p, None)
      else if exist = 0 then register_profile L path env rand ans prompt p
      else (case prompt of None \<Rightarrow> Done (-1, p, None)
      | Some pass \<Rightarrow> exec_bind (read_userfile L path mem imem (p\<lparr>pr_pass := pass\<rparr>) file) (\<lambda>(r, p').
          Done (if r \<noteq> 0 then -1 else 0, p', None))))"

text \<open>The result of the write is reported to the log only.\<close>

definition rewrite_profile :: "ibc \<Rightarrow> bool \<Rightarrow> wd_env \<Rightarrow> bytes option \<Rightarrow> profile \<Rightarrow> (int \<times> profile \<times> bytes option) exec" where
  "rewrite_profile L path env rand p =
     (let p1 = p\<lparr>pr_nonce := pr_nonce p + 1\<rparr> in
      case (if pr_nonce p1 = 0 then profile_reseed L rand p1 else (0, p1)) of (r, p2) \<Rightarrow>
        if r \<noteq> 0 then Done (1, p2, None)
        else exec_bind (write_userfile L path env p2) (\<lambda>(_, p3, f). Done (0, p3, f)))"

definition add_account :: "ibc \<Rightarrow> bool \<Rightarrow> wd_env \<Rightarrow> bytes option \<Rightarrow> profile \<Rightarrow> account \<Rightarrow>
    (int \<times> profile \<times> bytes option) exec" where
  "add_account L path env rand p a =
     exec_bind (rewrite_profile L path env rand (p\<lparr>pr_accounts := pr_accounts p @ [a]\<rparr>)) (\<lambda>(r, p', f).
       Done (if r \<noteq> 0 then 1 else 0, p', f))"

definition check_userfile :: "ibc \<Rightarrow> bool \<Rightarrow> bool \<Rightarrow> wd_env \<Rightarrow> bytes option \<Rightarrow> profile \<Rightarrow> (int \<times> profile \<times> bytes option) exec" where
  "check_userfile L dirty path env rand p = (if \<not> dirty then Done (0, p, None) else rewrite_profile L path env rand p)"

section \<open>The format of the user file\<close>

definition account_ok :: "account \<Rightarrow> bool" where
  "account_ok a \<longleftrightarrow> unat (ac_u_len a) = length (ac_uname a) \<and> unat (ac_a_len a) = length (ac_addr a) \<and>
     unat (ac_k_len a) = length (ac_key_bin a) \<and>
     length (ac_uname a) < 2 ^ 40 \<and> length (ac_addr a) < 2 ^ 40 \<and> length (ac_key_bin a) < 2 ^ 40 \<and>
     length (ac_sfing a) = 32 \<and> length (ac_f_file a) = 32 \<and> length (ac_f_symm a) = 32 \<and> length (ac_f_hmac a) = 32 \<and>
     length (ac_n_file a) = 32 \<and> length (ac_n_symm a) = 32 \<and> length (ac_n_hmac a) = 32"

lemma account_bin_size_ok:
  assumes "account_ok a"
  shows "unat (account_bin_size a) = 248 + length (ac_uname a) + length (ac_addr a) + length (ac_key_bin a)"
proof -
  have l: "unat (ac_u_len a) = length (ac_uname a)" "unat (ac_a_len a) = length (ac_addr a)"
    "unat (ac_k_len a) = length (ac_key_bin a)"
    "length (ac_uname a) < 2 ^ 40" "length (ac_addr a) < 2 ^ 40" "length (ac_key_bin a) < 2 ^ 40"
    using assms by (simp_all add: account_ok_def)
  have e: "account_bin_size a = 248 + ac_u_len a + ac_a_len a + ac_k_len a"
    by (simp add: account_bin_size_def)
  have 1: "unat (248 + ac_u_len a) = 248 + length (ac_uname a)"
    using unat_plus_small [of 248 "ac_u_len a"] l by simp
  have 2: "unat (248 + ac_u_len a + ac_a_len a) = 248 + length (ac_uname a) + length (ac_addr a)"
    using unat_plus_small [of "248 + ac_u_len a" "ac_a_len a"] l 1 by simp
  show ?thesis
    unfolding e using unat_plus_small [of "248 + ac_u_len a + ac_a_len a" "ac_k_len a"] l 2 by simp
qed

lemma length_account_write_bin:
  assumes "lib_ok L" "account_ok a"
  shows "length (account_write_bin L a) = unat (account_bin_size a)"
  unfolding account_bin_size_ok [OF assms(2)] using assms(2) lib_ok_parts [OF assms(1)]
  by (simp add: account_write_bin_def account_ok_def endian_simps)

lemma account_parse_write:
  assumes "lib_ok L" "account_ok a" "\<forall>k n. mem k n"
  shows "account_parse_bin L mem (pre @ account_write_bin L a @ post) (length pre) =
    Done (Some (a, length pre + length (account_write_bin L a)))"
proof -
  note lib = lib_ok_parts [OF assms(1)]
  have t: "take (unat (ac_u_len a)) (ac_uname a) = ac_uname a" "take (unat (ac_a_len a)) (ac_addr a) = ac_addr a"
    "take (unat (ac_k_len a)) (ac_key_bin a) = ac_key_bin a" using assms(2) by (simp_all add: account_ok_def)
  let ?ns = "[encbe64 L (ac_u_len a), encbe64 L (ac_a_len a), encbe64 L (ac_k_len a)]"
  let ?bs = "[ac_uname a, ac_addr a, ac_key_bin a, ac_sfing a, ac_f_file a, ac_f_symm a, ac_f_hmac a,
       ac_n_file a, ac_n_symm a, ac_n_hmac a]"
  have w: "account_write_bin L a = concat ?ns @ concat ?bs" by (simp only: account_write_bin_def t)
  have l: "map length ?ns = [8, 8, 8]" using lib by (simp add: endian_simps)
  have r1: "read_seq (pre @ concat ?ns @ concat ?bs @ post) (length pre) [8, 8, 8] = Done (?ns, length pre + 24)"
    using read_seq_concat [OF l refl, of pre "concat ?bs @ post"] l by simp
  have r2: "read_seq ((pre @ concat ?ns) @ concat ?bs @ post) (length pre + 24)
      [unat (ac_u_len a), unat (ac_a_len a), unat (ac_k_len a), 32, 32, 32, 32, 32, 32, 32] =
      Done (?bs, length pre + 24 + length (concat ?bs))"
    by (rule read_seq_concat) (use assms(2) l in \<open>simp_all add: account_ok_def\<close>)
  have n: "length (concat ?ns @ concat ?bs) = 24 + length (concat ?bs)" using l by simp
  have d: "decbe64 L (?ns ! 0) = ac_u_len a" "decbe64 L (?ns ! 1) = ac_a_len a" "decbe64 L (?ns ! 2) = ac_k_len a"
    using lib by (simp_all add: endian_simps)
  have m: "mem k x" for k x using assms(3) by blast
  have a: "\<lparr>ac_u_len = ac_u_len a, ac_a_len = ac_a_len a, ac_k_len = ac_k_len a, ac_uname = ?bs ! 0, ac_addr = ?bs ! 1,
            ac_key_bin = ?bs ! 2, ac_sfing = ?bs ! 3, ac_f_file = ?bs ! 4, ac_f_symm = ?bs ! 5, ac_f_hmac = ?bs ! 6,
            ac_n_file = ?bs ! 7, ac_n_symm = ?bs ! 8, ac_n_hmac = ?bs ! 9\<rparr> = a" by simp
  show ?thesis
    unfolding account_parse_bin_def w n append_assoc
    by (simp only: m r1 exec_bind.simps prod.case d Let_def simp_thms if_False r2 [unfolded append_assoc] a) simp
qed

text \<open>Two profiles that open the same file: same password, keys that belong to it.\<close>

definition profile_keyed :: "ibc \<Rightarrow> profile \<Rightarrow> bool" where
  "profile_keyed L p \<longleftrightarrow> lib_ok L \<and> length (pr_salt p) = 32 \<and>
     scrypt L (pr_pass p) (pr_salt p) 96 = Some (pr_pw_check p @ pr_symm_key p @ pr_hmac_key p) \<and>
     length (pr_pw_check p) = 32 \<and> length (pr_symm_key p) = 32 \<and> length (pr_hmac_key p) = 32"

definition uf_same :: "ibc \<Rightarrow> profile \<Rightarrow> profile \<Rightarrow> bool" where
  "uf_same L p p' \<longleftrightarrow> profile_keyed L p \<and> pr_pass p' = pr_pass p \<and> pr_expanded p' = 0"

lemma uf_expand_keyed:
  assumes "profile_keyed L p" "pr_pass p' = pr_pass p" "pr_expanded p' = 0"
  shows "uf_expand L p' ((pr_salt p @ pr_pw_check p) @ rest) =
    (0, p'\<lparr>pr_salt := pr_salt p, pr_pw_check := pr_pw_check p, pr_symm_key := pr_symm_key p,
           pr_hmac_key := pr_hmac_key p, pr_expanded := 1\<rparr>)"
  using assms lib_ok_parts [of L]
  by (simp add: uf_expand_def key_expand_def profile_keyed_def wire_simps)

lemma uf_expand_writer:
  assumes "profile_keyed L p"
  shows "\<exists>p1. uf_expand L p (pr_salt p @ pr_pw_check p) = (0, p1) \<and> pr_symm_key p1 = pr_symm_key p \<and>
    pr_hmac_key p1 = pr_hmac_key p \<and> pr_expanded p1 \<noteq> 0"
proof (cases "pr_expanded p = 0")
  case True
  from uf_expand_keyed [OF assms refl True, of "[]"] show ?thesis by simp
next
  case False
  then show ?thesis by (simp add: uf_expand_def)
qed

lemma uf_expand_done: "pr_expanded p \<noteq> 0 \<Longrightarrow> uf_expand L p ptr = (0, p)"
  by (simp add: uf_expand_def)

interpretation userfile: datafile_format "uf_format L" "\<lambda>_ a. lib_ok L \<and> account_ok a" "uf_same L" for L
proof (unfold_locales, goal_cases)
  case 1
  then show ?case by (simp add: uf_format_def)
next
  case (2 g g')
  then have k: "profile_keyed L g" "pr_pass g' = pr_pass g" "pr_expanded g' = 0" "lib_ok L"
    by (simp_all add: uf_same_def profile_keyed_def)
  let ?fill = "pr_salt g @ pr_pw_check g"
  let ?p = "g'\<lparr>pr_salt := pr_salt g, pr_pw_check := pr_pw_check g, pr_symm_key := pr_symm_key g,
           pr_hmac_key := pr_hmac_key g, pr_expanded := 1\<rparr>"
  from uf_expand_writer [OF k(1)] obtain p1 where p1: "uf_expand L g ?fill = (0, p1)" "pr_symm_key p1 = pr_symm_key g"
    "pr_hmac_key p1 = pr_hmac_key g" "pr_expanded p1 \<noteq> 0" by blast
  have f: "fd_p_fill (uf_format L) g = Some ?fill" "length ?fill = unat (fd_pref_len (uf_format L))"
    using k(1) by (simp_all add: uf_format_def uf_p_fill_def profile_keyed_def)
  have w: "fd_s_key (uf_format L) g ?fill = (p1, Some (pr_symm_key g))"
    "fd_h_key (uf_format L) p1 ?fill = (p1, Some (pr_hmac_key g))"
    using p1 uf_expand_done [OF p1(4)] by (simp_all add: uf_format_def uf_s_key_def uf_h_key_def)
  have r: "fd_s_key (uf_format L) g' (?fill @ rest) = (?p, Some (pr_symm_key g)) \<and>
      fd_h_key (uf_format L) ?p (?fill @ rest) = (?p, Some (pr_hmac_key g))" for rest
    using uf_expand_keyed [OF k(1-3), of rest] uf_expand_done [of ?p L]
    by (simp add: uf_format_def uf_s_key_def uf_h_key_def)
  have p: "fd_dataread (uf_format L) ?p mem (pre @ w @ post) (length pre) = Done (Some (x, length pre + length w))"
    if "lib_ok L \<and> account_ok x" "fd_datawrite (uf_format L) x = Some w" "\<forall>k n. mem k n" for x mem pre w post
    using that account_parse_write [of L x mem pre post] by (auto simp: uf_format_def)
  show ?case using f w r p by blast
next
  case (3 g x)
  then show ?case using length_account_write_bin [of L x] account_bin_size_ok [of x]
    unfolding sized_def by (intro exI [of _ "account_write_bin L x"]) (auto simp: uf_format_def)
qed

section \<open>Properties\<close>

text \<open>A write that meets no failure.\<close>

definition wd_ok :: "wd_env \<Rightarrow> bool" where
  "wd_ok env \<longleftrightarrow> wd_open env \<and> (\<forall>k n. wd_mem env k n) \<and> (\<exists>rnd. wd_rand env = Some rnd \<and> length rnd = 32) \<and>
     (\<forall>j. wd_tx env j = None)"

lemma sum_list_bound: "\<forall>x \<in> set xs. f x \<le> B \<Longrightarrow> sum_list (map f xs) \<le> length xs * (B :: nat)"
  by (induction xs) auto

lemma accounts_total:
  assumes "\<forall>a \<in> set as. account_ok a" "length as < 2 ^ 20"
  shows "datafile_format.total (uf_format L) as < 2 ^ 63"
proof -
  have b: "unat (account_bin_size a) \<le> 2 ^ 42" if "account_ok a" for a
    using that account_bin_size_ok [OF that] by (simp add: account_ok_def)
  have "unat (fd_datalen (uf_format L) a) \<le> 2 ^ 42" if "a \<in> set as" for a
    using b assms(1) that by (simp add: uf_format_def)
  then have "datafile_format.total (uf_format L) as \<le> length as * 2 ^ 42"
    unfolding userfile.total_def by (intro sum_list_bound) blast
  also have "\<dots> < 2 ^ 63" using assms(2) by simp
  finally show ?thesis .
qed

lemma gen_profile_keyed:
  assumes "lib_ok L" "length salt = 32" "gen_profile L (Some salt) (p\<lparr>pr_pass := pw\<rparr>) = (0, p1)"
  shows "profile_keyed L (p1\<lparr>pr_accounts := as\<rparr>)" "pr_pass p1 = pw"
proof -
  from assms(3) obtain out where s: "scrypt L pw salt 96 = Some out"
    "p1 = set_keys out (p\<lparr>pr_pass := pw, pr_salt := salt, pr_nonce := 0, pr_accounts := []\<rparr>)"
    by (auto simp: gen_profile_def Let_def split: option.splits)
  have l: "length out = 96" using scryptD [OF _ s(1)] lib_ok_parts [OF assms(1)] by blast
  have "out = take 32 out @ drop 32 out" "drop 32 out = take 32 (drop 32 out) @ drop 32 (drop 32 out)" by (rule append_take_drop_id [symmetric])+
  then have "out = slice 0 32 out @ slice 32 32 out @ slice 64 32 out" using l by (simp add: slice_def)
  with s l assms(1,2) show "profile_keyed L (p1\<lparr>pr_accounts := as\<rparr>)" "pr_pass p1 = pw"
    by (simp_all add: profile_keyed_def set_keys_def)
qed

lemma profile_read_back:
  assumes "lib_ok L" and "length salt = 32" and "gen_profile L (Some salt) (p\<lparr>pr_pass := pw\<rparr>) = (0, p1)"
    and "\<forall>a \<in> set as. account_ok a" and "length as < 2 ^ 20" and "wd_ok env"
    and "\<forall>k n. mem k n" and "\<forall>i k n. imem i k n"
  shows "\<exists>p2 file q'. write_userfile L True env (p1\<lparr>pr_accounts := as\<rparr>) = Done (0, p2, Some file) \<and>
    login_profile L True mem imem env' rand 1 ans (Some pw) q (Some file) = Done (0, q', None) \<and>
    pr_accounts q' = as"
proof -
  from assms(6) obtain rnd where e: "wd_open env" "\<forall>k n. wd_mem env k n" "wd_rand env = Some rnd" "length rnd = 32"
    "\<forall>j. wd_tx env j = None" by (auto simp: wd_ok_def)
  let ?p = "p1\<lparr>pr_accounts := as\<rparr>" and ?q = "q\<lparr>pr_pass := pw, pr_expanded := 0\<rparr>"
  have same: "uf_same L ?p ?q" using gen_profile_keyed(1) [OF assms(1-3), where as = as] gen_profile_keyed(2) [OF assms(1-3)] by (simp add: uf_same_def)
  have ok: "\<forall>a \<in> set as. lib_ok L \<and> account_ok a" "length as < 2 ^ 64" using assms(1,4,5) by auto
  from userfile.roundtrip [OF assms(1) same e ok(1) accounts_total [OF assms(4,5)] ok(2) assms(7,8)]
  obtain p2 fl q2 where "write_datafile L (uf_format L) env ?p as = Done (0, p2, Some fl)"
    "read_datafile L (uf_format L) mem imem ?q (Some fl) = Done (0, q2, Some as)" by blast
  then show ?thesis by (simp add: write_userfile_def login_profile_def read_userfile_def)
qed

text \<open>
  C23: The user file gives back the profile: a profile that \<open>gen_profile\<close> made under a password, with any
  accounts, is written by \<open>write_userfile\<close>, and a later start of the program that logs in with that
  password has exactly those accounts, in order.
\<close>
theorem userfile_roundtrip:
  assumes "lib_ok L" and "length salt = 32" and "gen_profile L (Some salt) (p\<lparr>pr_pass := pw\<rparr>) = (0, p1)"
    and "\<forall>a \<in> set as. account_ok a" and "length as < 2 ^ 20" and "wd_ok env"
    and "\<forall>k n. mem k n" and "\<forall>i k n. imem i k n"
  shows "\<exists>p2 file q'. write_userfile L True env (p1\<lparr>pr_accounts := as\<rparr>) = Done (0, p2, Some file) \<and>
    login_profile L True mem imem env' rand 1 ans (Some pw) q (Some file) = Done (0, q', None) \<and>
    pr_accounts q' = as"
  using assms by (rule profile_read_back)

definition demo_wd :: wd_env where
  "demo_wd = \<lparr>wd_open = True, wd_mem = (\<lambda>_ _. True), wd_rand = Some (replicate 32 6), wd_tx = (\<lambda>_. None)\<rparr>"

lemma demo_wd_ok: "wd_ok demo_wd"
  by (simp add: wd_ok_def demo_wd_def)

definition demo_profile :: profile where
  "demo_profile = \<lparr>pr_pass = [], pr_salt = [], pr_pw_check = [], pr_symm_key = [], pr_hmac_key = [], pr_nonce = 0,
     pr_accounts = [], pr_expanded = 0\<rparr>"

definition demo_account :: account where
  "demo_account = \<lparr>ac_u_len = 2, ac_a_len = 1, ac_k_len = 3, ac_uname = [97, 98], ac_addr = [104], ac_key_bin = [1, 2, 3],
     ac_sfing = replicate 32 0, ac_f_file = replicate 32 1, ac_f_symm = replicate 32 2, ac_f_hmac = replicate 32 3,
     ac_n_file = replicate 32 4, ac_n_symm = replicate 32 5, ac_n_hmac = replicate 32 6\<rparr>"

lemma demo_gen_profile: "\<exists>p1. gen_profile demo_lib (Some (replicate 32 9)) (demo_profile\<lparr>pr_pass := pw\<rparr>) = (0, p1)"
  by (simp add: gen_profile_def demo_lib_def)

theorem userfile_roundtrip_witness:
  "\<exists>p1 p2 file q'. gen_profile demo_lib (Some (replicate 32 9)) (demo_profile\<lparr>pr_pass := [112]\<rparr>) = (0, p1) \<and>
    write_userfile demo_lib True demo_wd (p1\<lparr>pr_accounts := [demo_account]\<rparr>) = Done (0, p2, Some file) \<and>
    login_profile demo_lib True (\<lambda>_ _. True) (\<lambda>_ _ _. True) demo_wd None 1 0 (Some [112]) demo_profile (Some file) =
      Done (0, q', None) \<and> pr_accounts q' = [demo_account]"
proof -
  obtain p1 where p1: "gen_profile demo_lib (Some (replicate 32 9)) (demo_profile\<lparr>pr_pass := [112]\<rparr>) = (0, p1)"
    using demo_gen_profile by blast
  have a: "\<forall>a \<in> set [demo_account]. account_ok a" by (simp add: demo_account_def account_ok_def)
  from userfile_roundtrip [OF demo_lib_ok _ p1 a _ demo_wd_ok, where mem = "\<lambda>_ _. True" and imem = "\<lambda>_ _ _. True"
      and env' = demo_wd and rand = None and ans = 0 and q = demo_profile] p1
  show ?thesis by auto
qed

text \<open>
  C38: No login without the password: if \<open>login_profile\<close> accepts a user file, whatever the file holds, then
  the password given yields, with the salt in the file, the check value in the file, and the file's
  first MAC is right under the key derived from that password.
\<close>
theorem login_needs_password:
  assumes "lib_ok L" and "login_profile L path mem imem env rand 1 ans (Some pw) p (Some file) = Done (0, p', f)"
  shows "\<exists>out. scrypt L pw (slice 0x30 0x20 file) 96 = Some out \<and> take 0x20 out = slice 0x50 0x20 file \<and>
    hmac_sha256 L (drop 0x40 out) (take 0x70 file) = slice 0x70 0x20 file"
proof -
  note lib = lib_ok_parts [OF assms(1)]
  let ?p = "p\<lparr>pr_pass := pw, pr_expanded := 0\<rparr>"
  from assms(2) obtain p2 r where "read_datafile L (uf_format L) mem imem ?p (Some file) = Done (0, p2, r)"
    by (auto simp: login_profile_def read_userfile_def exec_bind_Done_iff split: if_splits)
  then obtain prefix ct mac rest g1 sk hk where i: "file = prefix @ ct @ mac @ rest"
    "length prefix = unat (0x50 + fd_pref_len (uf_format L))"
    "fd_s_key (uf_format L) ?p (drop 0x30 prefix) = (g1, Some sk)" "fd_h_key (uf_format L) g1 (drop 0x30 prefix) = (p2, Some hk)"
    "memcmp_ct L (hmac_sha256 L hk (take (length prefix - 32) prefix)) (drop (length prefix - 32) prefix) = 0"
    by (rule read_datafile_inv) blast
  have len: "length prefix = 0x90" using i(2) by (simp add: uf_format_def)
  let ?ptr = "drop 0x30 prefix"
  from i(3) have e: "key_expand L (?p\<lparr>pr_salt := slice 0 0x20 ?ptr, pr_pw_check := slice 0x20 0x20 ?ptr\<rparr>) = (0, g1)"
    by (auto simp: uf_format_def uf_s_key_def uf_expand_def split: prod.splits if_splits)
  then obtain out where out: "scrypt L pw (slice 0 0x20 ?ptr) 96 = Some out"
    "memcmp_ct L (slice 0 0x20 out) (slice 0x20 0x20 ?ptr) = 0" "pr_hmac_key g1 = slice 0x40 0x20 out" "pr_expanded g1 = 1"
    by (auto simp: key_expand_def split: option.splits if_splits)
  have l: "length out = 96" using scryptD [OF _ out(1)] lib by blast
  have hk: "hk = drop 0x40 out"
    using i(4) out(3,4) l by (auto simp: uf_format_def uf_h_key_def uf_expand_def slice_def split: prod.splits)
  have s: "slice 0 0x20 ?ptr = slice 0x30 0x20 file" "slice 0x20 0x20 ?ptr = slice 0x50 0x20 file"
    "take 0x70 prefix = take 0x70 file" "drop 0x70 prefix = slice 0x70 0x20 file"
    using len i(1) by (simp_all add: slice_def)
  have "take 0x20 out = slice 0x50 0x20 file"
    using out(2) l len i(1) lib unfolding s(2) by (simp add: memcmp_ct_iff slice_def)
  moreover have "hmac_sha256 L hk (take 0x70 prefix) = drop 0x70 prefix"
    using i(5) len lib by (simp add: memcmp_ct_iff digest_simps)
  ultimately show ?thesis using out(1) hk s by (intro exI [of _ out]) simp
qed

theorem login_needs_password_witness:
  "\<exists>file p' f. login_profile demo_lib True (\<lambda>_ _. True) (\<lambda>_ _ _. True) demo_wd None 1 0 (Some [112]) demo_profile
     (Some file) = Done (0, p', f) \<and>
     (\<exists>out. scrypt demo_lib [112] (slice 0x30 0x20 file) 96 = Some out \<and> take 0x20 out = slice 0x50 0x20 file)"
proof -
  obtain p1 where p1: "gen_profile demo_lib (Some (replicate 32 9)) (demo_profile\<lparr>pr_pass := [112]\<rparr>) = (0, p1)"
    using demo_gen_profile by blast
  have l: "length (replicate 32 (9 :: byte)) = 32" by simp
  have same: "uf_same demo_lib (p1\<lparr>pr_accounts := []\<rparr>) (demo_profile\<lparr>pr_pass := [112], pr_expanded := 0\<rparr>)"
    using gen_profile_keyed(1) [OF demo_lib_ok l p1, where as = "[]"] gen_profile_keyed(2) [OF demo_lib_ok l p1] by (simp add: uf_same_def)
  from demo_wd_ok obtain rnd where e: "wd_open demo_wd" "\<forall>k n. wd_mem demo_wd k n" "wd_rand demo_wd = Some rnd"
    "length rnd = 32" "\<forall>j. wd_tx demo_wd j = None" unfolding wd_ok_def by blast
  have t: "datafile_format.total (uf_format demo_lib) [] < 2 ^ 63" "length ([] :: account list) < 2 ^ 64"
    "\<forall>a \<in> set []. lib_ok demo_lib \<and> account_ok a" by simp_all
  from userfile.roundtrip [OF demo_lib_ok same e t(3,1,2), where mem = "\<lambda>_ _. True" and imem = "\<lambda>_ _ _. True"] obtain fl q2 where
    "read_datafile demo_lib (uf_format demo_lib) (\<lambda>_ _. True) (\<lambda>_ _ _. True)
      (demo_profile\<lparr>pr_pass := [112], pr_expanded := 0\<rparr>) (Some fl) = Done (0, q2, Some [])" by auto
  then have "\<exists>p'. login_profile demo_lib True (\<lambda>_ _. True) (\<lambda>_ _ _. True) demo_wd None 1 0 (Some [112]) demo_profile
     (Some fl) = Done (0, p', None)"
    by (simp add: login_profile_def read_userfile_def)
  then obtain p' where i: "login_profile demo_lib True (\<lambda>_ _. True) (\<lambda>_ _ _. True) demo_wd None 1 0 (Some [112]) demo_profile
     (Some fl) = Done (0, p', None)" by blast
  from login_needs_password [OF demo_lib_ok i] i show ?thesis by blast
qed

text \<open>A failed write of the user file is not reported: the new account exists until the program ends.\<close>

theorem add_account_ignores_failure:
  assumes "pr_nonce p + 1 \<noteq> 0"
  shows "\<exists>p'. add_account L True (env\<lparr>wd_open := False\<rparr>) rand p a = Done (0, p', None)"
  using assms by (simp add: add_account_def rewrite_profile_def write_userfile_def write_datafile_def)

theorem add_account_ignores_failure_witness:
  "\<exists>p'. add_account demo_lib True (demo_wd\<lparr>wd_open := False\<rparr>) None demo_profile demo_account = Done (0, p', None)"
  by (rule add_account_ignores_failure) (simp add: demo_profile_def)

section \<open>The data file properties at this format\<close>

definition open_profile :: profile where
  "open_profile = demo_profile\<lparr>pr_salt := replicate 32 1, pr_pw_check := replicate 32 2, pr_symm_key := replicate 32 3,
     pr_hmac_key := replicate 32 4, pr_expanded := 1\<rparr>"

lemma open_profile_keys:
  "fd_s_key (uf_format L) open_profile ptr = (open_profile, Some (replicate 32 3))"
  "fd_h_key (uf_format L) open_profile ptr = (open_profile, Some (replicate 32 4))"
  "fd_p_fill (uf_format L) open_profile = Some (replicate 32 1 @ replicate 32 2)"
  "fd_pref_len (uf_format L) = 0x40"
  by (simp_all add: uf_format_def uf_s_key_def uf_h_key_def uf_p_fill_def uf_expand_def open_profile_def)

lemma open_profile_write:
  "\<exists>fl. write_datafile demo_lib (uf_format demo_lib) demo_wd open_profile [] = Done (0, open_profile, Some fl) \<and>
     read_datafile demo_lib (uf_format demo_lib) (\<lambda>_ _. True) (\<lambda>_ _ _. True) open_profile (Some fl) = Done (0, open_profile, Some [])"
proof -
  let ?fill = "replicate 32 (1 :: byte) @ replicate 32 2"
  from demo_wd_ok have e: "wd_open demo_wd" "\<forall>k n. wd_mem demo_wd k n" "wd_rand demo_wd = Some (replicate 32 6)"
    "\<forall>j. wd_tx demo_wd j = None" unfolding wd_ok_def by (simp_all add: demo_wd_def)
  have fl: "length ?fill = unat (fd_pref_len (uf_format demo_lib))" by (simp add: open_profile_keys)
  have t: "\<forall>a \<in> set []. sized (uf_format demo_lib) a" "datafile_format.total (uf_format demo_lib) [] < 2 ^ 63" by simp_all
  from userfile.write_ok [OF demo_lib_ok open_profile_keys(3) fl open_profile_keys(1,2) e t]
  have "write_datafile demo_lib (uf_format demo_lib) demo_wd open_profile [] = Done (0, open_profile,
    Some (datafile_format.file_of demo_lib (replicate 32 6) ?fill (replicate 32 3) (replicate 32 4) ([] :: account list) []))"
    by auto
  moreover have "read_datafile demo_lib (uf_format demo_lib) (\<lambda>_ _. True) (\<lambda>_ _ _. True) open_profile
    (Some (datafile_format.file_of demo_lib (replicate 32 6) ?fill (replicate 32 3) (replicate 32 4) ([] :: account list) [])) =
      Done (0, open_profile, Some [])"
    by (rule userfile.read_file_of [OF demo_lib_ok _ fl, where ?g1.0 = open_profile]) (simp_all add: open_profile_keys)
  ultimately show ?thesis by blast
qed

theorem datafile_authentic_witness:
  "\<exists>fl header mac1 ct mac2 rest. fl = (header @ mac1) @ ct @ mac2 @ rest \<and>
     read_datafile demo_lib (uf_format demo_lib) (\<lambda>_ _. True) (\<lambda>_ _ _. True) open_profile (Some fl) = Done (0, open_profile, Some []) \<and>
     mac1 = hmac_sha256 demo_lib (replicate 32 4) header"
proof -
  obtain fl where r: "read_datafile demo_lib (uf_format demo_lib) (\<lambda>_ _. True) (\<lambda>_ _ _. True) open_profile (Some fl) =
      Done (0, open_profile, Some [])"
    using open_profile_write by blast
  have l: "unat (0x50 + fd_pref_len (uf_format demo_lib)) = 0x50 + unat (fd_pref_len (uf_format demo_lib))"
    by (simp add: open_profile_keys)
  from datafile_authentic [OF demo_lib_ok r l] obtain header mac1 ct mac2 rest g1 sk hk where a:
    "fl = (header @ mac1) @ ct @ mac2 @ rest" "fd_s_key (uf_format demo_lib) open_profile (drop 0x30 (header @ mac1)) = (g1, Some sk)"
    "fd_h_key (uf_format demo_lib) g1 (drop 0x30 (header @ mac1)) = (open_profile, Some hk)" "mac1 = hmac_sha256 demo_lib hk header"
    by (elim exE conjE) (rule that)
  from a(2,3) have "hk = replicate 32 4" by (simp add: open_profile_keys)
  with a(1,4) r show ?thesis by blast
qed

theorem failed_write_unreadable_witness:
  "\<exists>w g3. write_datafile demo_lib (uf_format demo_lib) (demo_wd\<lparr>wd_rand := None\<rparr>) open_profile [demo_account] =
       Done (-1, open_profile, Some w) \<and>
     read_datafile demo_lib (uf_format demo_lib) (\<lambda>_ _. True) (\<lambda>_ _ _. True) open_profile (Some w) = Done (-1, g3, None)"
proof -
  have w: "write_datafile demo_lib (uf_format demo_lib) (demo_wd\<lparr>wd_rand := None, wd_tx := t\<rparr>) open_profile [demo_account] =
       Done (-1, open_profile, Some [])" for t
    by (simp add: write_datafile_def demo_wd_def)
  have l: "unat (0x50 + fd_pref_len (uf_format demo_lib)) = 0x50 + unat (fd_pref_len (uf_format demo_lib))"
    by (simp add: open_profile_keys)
  have w1: "write_datafile demo_lib (uf_format demo_lib) (demo_wd\<lparr>wd_rand := None\<rparr>) open_profile [demo_account] =
       Done (-1, open_profile, Some [])" using w [of "wd_tx demo_wd"] by simp
  from failed_write_unreadable [OF demo_lib_ok w1 _ l, where mem = "\<lambda>_ _. True" and imem = "\<lambda>_ _ _. True" and g' = open_profile]
    w1 w show ?thesis by (auto simp: open_profile_keys)
qed

end
