(* ===== verification/Friends.thy ===== *)
theory Friends
  imports Profile
begin

text \<open>
  \<open>client/friends.c\<close>: the friends of an account, their keys, and the friend file. Reading a friend writes
  behind the buffer allocated for the name; what the allocator really provides for a request is
  therefore a parameter, \<open>usable\<close>, which the C standard only bounds from below by the request.
\<close>

section \<open>The code\<close>

record friend =
  fr_u_len :: u64
  fr_k_len :: u64
  fr_uname :: bytes
  fr_pkey :: bytes
  fr_uid :: bytes
  fr_c_file :: bytes
  fr_f_symm_key :: bytes
  fr_f_hmac_key :: bytes
  fr_s_symm_key :: bytes
  fr_s_hmac_key :: bytes
  fr_r_symm_key :: bytes
  fr_r_hmac_key :: bytes
  fr_s_nonce :: u64
  fr_r_nonce :: u64

definition cstr :: "bytes \<Rightarrow> bytes" where
  "cstr bs = takeWhile (\<lambda>c. c \<noteq> 0) bs"

text \<open>
  \<open>strncpy\<close> with room for \<open>u_len + 1\<close> characters: a longer name is left without a terminator, over which
  \<open>gen_uid\<close> runs; a shorter one is padded with zeros. The keys are zero until they are set.
\<close>

definition init_friend :: "ibc \<Rightarrow> heap_oracle \<Rightarrow> bytes option \<Rightarrow> bytes \<Rightarrow> bytes \<Rightarrow> u64 \<Rightarrow> u64 \<Rightarrow> friend option exec" where
  "init_friend L mem rand uname pkey u_len k_len =
     (if \<not> mem 0 304 then Done None
      else if \<not> mem 1 (u_len + 1) then Done None
      else if \<not> mem 2 (k_len + 1) then Done None
      else if length (cstr uname) > unat u_len then UB
      else exec_bind (read_at pkey 0 (unat k_len)) (\<lambda>k.
        let name = take (unat u_len) (cstr uname @ replicate (unat u_len) 0) in
        case rand of None \<Rightarrow> Done None
        | Some c_file \<Rightarrow> Done (Some \<lparr>fr_u_len = u_len, fr_k_len = k_len, fr_uname = name, fr_pkey = k,
            fr_uid = gen_uid L (cstr uname), fr_c_file = c_file,
            fr_f_symm_key = replicate 32 0, fr_f_hmac_key = replicate 32 0, fr_s_symm_key = replicate 32 0,
            fr_s_hmac_key = replicate 32 0, fr_r_symm_key = replicate 32 0, fr_r_hmac_key = replicate 32 0,
            fr_s_nonce = 0, fr_r_nonce = 0\<rparr>)))"

definition friend_bin_size :: "friend \<Rightarrow> u64" where
  "friend_bin_size f = 8 + 8 + fr_u_len f + fr_k_len f + 32 + 32 + 32 + 32 + 32 + 32 + 32 + 8 + 8"

definition friend_write_bin :: "ibc \<Rightarrow> friend \<Rightarrow> bytes" where
  "friend_write_bin L f =
     concat [encbe64 L (fr_u_len f), encbe64 L (fr_k_len f)] @
     concat [take (unat (fr_u_len f)) (fr_uname f), take (unat (fr_k_len f)) (fr_pkey f), fr_c_file f,
       fr_f_symm_key f, fr_f_hmac_key f, fr_s_symm_key f, fr_s_hmac_key f, fr_r_symm_key f, fr_r_hmac_key f,
       encbe64 L (fr_s_nonce f), encbe64 L (fr_r_nonce f)]"

text \<open>
  \<open>malloc(f->u_len) + 1\<close>: the name starts at the second byte of a block of \<open>u_len\<close> bytes, and ends with a
  zero, so two more bytes are written than were asked for; a failed allocation is not noticed.
\<close>

definition friend_parse_bin :: "ibc \<Rightarrow> (u64 \<Rightarrow> nat) \<Rightarrow> heap_oracle \<Rightarrow> bytes \<Rightarrow> nat \<Rightarrow> (friend \<times> nat) option exec" where
  "friend_parse_bin L usable mem payload off =
     (if \<not> mem 0 304 then Done None
      else exec_bind (read_seq payload off [8, 8]) (\<lambda>(ns, off1).
        let ul = decbe64 L (ns ! 0); kl = decbe64 L (ns ! 1) in
        if \<not> mem 2 kl then Done None
        else if \<not> mem 1 ul \<or> usable ul < unat ul + 2 then UB
        else exec_bind (read_seq payload off1 [unat ul, unat kl, 32, 32, 32, 32, 32, 32, 32, 8, 8]) (\<lambda>(bs, off2).
          Done (Some (\<lparr>fr_u_len = ul, fr_k_len = kl, fr_uname = bs ! 0, fr_pkey = bs ! 1,
            fr_uid = gen_uid L (cstr (bs ! 0)), fr_c_file = bs ! 2, fr_f_symm_key = bs ! 3, fr_f_hmac_key = bs ! 4,
            fr_s_symm_key = bs ! 5, fr_s_hmac_key = bs ! 6, fr_r_symm_key = bs ! 7, fr_r_hmac_key = bs ! 8,
            fr_s_nonce = decbe64 L (bs ! 9), fr_r_nonce = decbe64 L (bs ! 10)\<rparr>, off2)))))"

definition ff_format :: "ibc \<Rightarrow> (u64 \<Rightarrow> nat) \<Rightarrow> (account, friend) format_desc" where
  "ff_format L usable = \<lparr>fd_pref_len = 0, fd_p_fill = (\<lambda>_. Some []),
     fd_s_key = (\<lambda>acc _. (acc, Some (ac_f_symm acc))), fd_h_key = (\<lambda>acc _. (acc, Some (ac_f_hmac acc))),
     fd_datalen = friend_bin_size, fd_datawrite = (\<lambda>f. Some (friend_write_bin L f)),
     fd_dataread = (\<lambda>_. friend_parse_bin L usable)\<rparr>"

text \<open>\<open>path\<close>: \<open>file_path\<close> finds memory for the name of the file.\<close>

definition write_friendfile :: "ibc \<Rightarrow> (u64 \<Rightarrow> nat) \<Rightarrow> bool \<Rightarrow> wd_env \<Rightarrow> account \<Rightarrow> friend list \<Rightarrow> (int \<times> bytes option) exec" where
  "write_friendfile L usable path env acc friends =
     (if \<not> path then Done (-1, None)
      else exec_bind (write_datafile L (ff_format L usable) env acc friends) (\<lambda>(r, _, f). Done (r, f)))"

definition read_friendfile :: "ibc \<Rightarrow> (u64 \<Rightarrow> nat) \<Rightarrow> bool \<Rightarrow> heap_oracle \<Rightarrow> (nat \<Rightarrow> heap_oracle) \<Rightarrow> account \<Rightarrow> bytes option \<Rightarrow>
    (int \<times> friend list option) exec" where
  "read_friendfile L usable path mem imem acc file =
     (if \<not> path then Done (-1, None)
      else exec_bind (read_datafile L (ff_format L usable) mem imem acc file) (\<lambda>(r, _, fs). Done (r, fs)))"

text \<open>
  The result of \<open>stat\<close> on a new random file name: nothing there, something there, or an error. The
  same steps start the friend file and the file of notifications.
\<close>

datatype stat_result = StatAbsent | StatPresent | StatError

definition init_friendfile :: "ibc \<Rightarrow> (u64 \<Rightarrow> nat) \<Rightarrow> bytes option \<Rightarrow> bool \<Rightarrow> stat_result \<Rightarrow> wd_env \<Rightarrow> account \<Rightarrow>
    (int \<times> account \<times> bytes option) exec" where
  "init_friendfile L usable rand path st env acc = (case rand of
     None \<Rightarrow> Done (-1, acc, None)
   | Some buf \<Rightarrow>
       let acc' = acc\<lparr>ac_f_file := slice 0 32 buf, ac_f_symm := slice 32 32 buf, ac_f_hmac := slice 64 32 buf\<rparr>
       in if \<not> path then Done (-1, acc', None)
          else if st \<noteq> StatAbsent then Done (-1, acc', None)
          else exec_bind (write_friendfile L usable path env acc' []) (\<lambda>(r, f). Done (r, acc', f)))"

section \<open>The format of the friend file\<close>

definition friend_ok :: "ibc \<Rightarrow> friend \<Rightarrow> bool" where
  "friend_ok L f \<longleftrightarrow> unat (fr_u_len f) = length (fr_uname f) \<and> unat (fr_k_len f) = length (fr_pkey f) \<and>
     length (fr_uname f) < 2 ^ 40 \<and> length (fr_pkey f) < 2 ^ 40 \<and> fr_uid f = gen_uid L (cstr (fr_uname f)) \<and>
     length (fr_c_file f) = 32 \<and> length (fr_f_symm_key f) = 32 \<and> length (fr_f_hmac_key f) = 32 \<and>
     length (fr_s_symm_key f) = 32 \<and> length (fr_s_hmac_key f) = 32 \<and> length (fr_r_symm_key f) = 32 \<and>
     length (fr_r_hmac_key f) = 32"

text \<open>The allocator leaves room for the two bytes behind the name.\<close>

definition slack_ok :: "(u64 \<Rightarrow> nat) \<Rightarrow> friend \<Rightarrow> bool" where
  "slack_ok usable f \<longleftrightarrow> usable (fr_u_len f) \<ge> unat (fr_u_len f) + 2"

lemma friend_bin_size_ok:
  assumes "friend_ok L f"
  shows "unat (friend_bin_size f) = 256 + length (fr_uname f) + length (fr_pkey f)"
proof -
  have l: "unat (fr_u_len f) = length (fr_uname f)" "unat (fr_k_len f) = length (fr_pkey f)"
    "length (fr_uname f) < 2 ^ 40" "length (fr_pkey f) < 2 ^ 40"
    using assms by (simp_all add: friend_ok_def)
  have e: "friend_bin_size f = 256 + fr_u_len f + fr_k_len f" by (simp add: friend_bin_size_def)
  have 1: "unat (256 + fr_u_len f) = 256 + length (fr_uname f)"
    using unat_plus_small [of 256 "fr_u_len f"] l by simp
  show ?thesis
    unfolding e using unat_plus_small [of "256 + fr_u_len f" "fr_k_len f"] l 1 by simp
qed

lemma length_friend_write_bin:
  assumes "lib_ok L" "friend_ok L f"
  shows "length (friend_write_bin L f) = unat (friend_bin_size f)"
  unfolding friend_bin_size_ok [OF assms(2)] using assms(2) lib_ok_parts [OF assms(1)]
  by (simp add: friend_write_bin_def friend_ok_def endian_simps)

lemma friend_parse_head:
  assumes "lib_ok L"
  shows "read_seq (pre @ friend_write_bin L f @ post) (length pre) [8, 8] =
    Done ([encbe64 L (fr_u_len f), encbe64 L (fr_k_len f)], length pre + 16)"
proof -
  have l: "map length [encbe64 L (fr_u_len f), encbe64 L (fr_k_len f)] = [8, 8]"
    using lib_ok_parts [OF assms] by (simp add: endian_simps)
  obtain r where r: "friend_write_bin L f @ post = concat [encbe64 L (fr_u_len f), encbe64 L (fr_k_len f)] @ r"
    by (simp add: friend_write_bin_def)
  show ?thesis unfolding r using read_seq_concat [OF l refl, of pre r] l by simp
qed

lemma friend_parse_write:
  assumes "lib_ok L" "friend_ok L f" "slack_ok usable f" "\<forall>k n. mem k n"
  shows "friend_parse_bin L usable mem (pre @ friend_write_bin L f @ post) (length pre) =
    Done (Some (f, length pre + length (friend_write_bin L f)))"
proof -
  note lib = lib_ok_parts [OF assms(1)]
  have t: "take (unat (fr_u_len f)) (fr_uname f) = fr_uname f" "take (unat (fr_k_len f)) (fr_pkey f) = fr_pkey f"
    using assms(2) by (simp_all add: friend_ok_def)
  let ?ns = "[encbe64 L (fr_u_len f), encbe64 L (fr_k_len f)]"
  let ?bs = "[fr_uname f, fr_pkey f, fr_c_file f, fr_f_symm_key f, fr_f_hmac_key f, fr_s_symm_key f, fr_s_hmac_key f,
       fr_r_symm_key f, fr_r_hmac_key f, encbe64 L (fr_s_nonce f), encbe64 L (fr_r_nonce f)]"
  have w: "friend_write_bin L f = concat ?ns @ concat ?bs" by (simp only: friend_write_bin_def t)
  have l: "length (concat ?ns) = 16" using lib by (simp add: endian_simps)
  note r1 = friend_parse_head [OF assms(1), of pre f post]
  have lr: "length (pre @ concat ?ns) = length pre + 16" using l by simp
  have r2: "read_seq ((pre @ concat ?ns) @ concat ?bs @ post) (length pre + 16)
      [unat (fr_u_len f), unat (fr_k_len f), 32, 32, 32, 32, 32, 32, 32, 8, 8] =
      Done (?bs, length pre + 16 + length (concat ?bs))"
    by (rule read_seq_concat [OF _ lr]) (use assms(2) lib in \<open>simp add: friend_ok_def endian_simps\<close>)
  have p: "pre @ friend_write_bin L f @ post = (pre @ concat ?ns) @ concat ?bs @ post" unfolding w by simp
  have n: "length (friend_write_bin L f) = 16 + length (concat ?bs)" unfolding w using l by simp
  have d: "decbe64 L (?ns ! 0) = fr_u_len f" "decbe64 L (?ns ! 1) = fr_k_len f"
    "decbe64 L (?bs ! 9) = fr_s_nonce f" "decbe64 L (?bs ! 10) = fr_r_nonce f"
    using lib by (simp_all add: endian_simps)
  have m: "mem k x" for k x using assms(4) by blast
  have s: "\<not> usable (fr_u_len f) < unat (fr_u_len f) + 2" using assms(3) by (simp add: slack_ok_def)
  have u: "gen_uid L (cstr (fr_uname f)) = fr_uid f" using assms(2) by (simp add: friend_ok_def)
  have "friend_parse_bin L usable mem (pre @ friend_write_bin L f @ post) (length pre) =
      Done (Some (f, length pre + 16 + length (concat ?bs)))"
    unfolding friend_parse_bin_def r1 exec_bind.simps prod.case Let_def d unfolding p r2 exec_bind.simps prod.case
    using m s u d by simp
  then show ?thesis unfolding n by (simp add: add.assoc)
qed

definition ff_same :: "account \<Rightarrow> account \<Rightarrow> bool" where
  "ff_same a a' \<longleftrightarrow> ac_f_symm a' = ac_f_symm a \<and> ac_f_hmac a' = ac_f_hmac a"

lemma friend_sized: "lib_ok L \<Longrightarrow> friend_ok L f \<Longrightarrow> sized (ff_format L usable) f"
  using length_friend_write_bin [of L f] friend_bin_size_ok [of L f]
  unfolding sized_def by (intro exI [of _ "friend_write_bin L f"]) (auto simp: ff_format_def)

interpretation friendfile: datafile_format "ff_format L usable"
  "\<lambda>_ f. lib_ok L \<and> friend_ok L f \<and> slack_ok usable f" ff_same for L usable
proof (unfold_locales, goal_cases)
  case 1
  then show ?case by (simp add: ff_format_def)
next
  case (2 g g')
  have p: "fd_dataread (ff_format L usable) g' mem (pre @ w @ post) (length pre) = Done (Some (x, length pre + length w))"
    if "lib_ok L \<and> friend_ok L x \<and> slack_ok usable x" "fd_datawrite (ff_format L usable) x = Some w" "\<forall>k n. mem k n"
    for x mem pre w post
    using that friend_parse_write [of L x usable mem pre post] by (auto simp: ff_format_def)
  have k: "fd_p_fill (ff_format L usable) g = Some []" "length [] = unat (fd_pref_len (ff_format L usable))"
    "fd_s_key (ff_format L usable) g ptr = (g, Some (ac_f_symm g))" "fd_h_key (ff_format L usable) g ptr = (g, Some (ac_f_hmac g))"
    "fd_s_key (ff_format L usable) g' ptr = (g', Some (ac_f_symm g))" "fd_h_key (ff_format L usable) g' ptr = (g', Some (ac_f_hmac g))"
    for ptr using 2 by (simp_all add: ff_format_def ff_same_def)
  show ?case using k p by (intro exI conjI allI impI) (assumption | rule k | simp)+
next
  case (3 g x)
  then show ?case using friend_sized by blast
qed

lemma friends_total:
  assumes "\<forall>f \<in> set fs. friend_ok L f" "length fs < 2 ^ 20"
  shows "datafile_format.total (ff_format L usable) fs < 2 ^ 63"
proof -
  have b: "unat (friend_bin_size f) \<le> 2 ^ 42" if "friend_ok L f" for f
    using that friend_bin_size_ok [OF that] by (simp add: friend_ok_def)
  have "unat (fd_datalen (ff_format L usable) f) \<le> 2 ^ 42" if "f \<in> set fs" for f
    using b assms(1) that by (simp add: ff_format_def)
  then have "datafile_format.total (ff_format L usable) fs \<le> length fs * 2 ^ 42"
    unfolding friendfile.total_def by (intro sum_list_bound) blast
  also have "\<dots> < 2 ^ 63" using assms(2) by simp
  finally show ?thesis .
qed

lemma stored_friends_read:
  assumes "lib_ok L" and "\<forall>f \<in> set fs. friend_ok L f \<and> slack_ok usable f" and "length fs < 2 ^ 20" and "wd_ok env"
    and "ff_same acc acc'" and "\<forall>k n. mem k n" and "\<forall>i k n. imem i k n"
  shows "\<exists>fl. write_friendfile L usable True env acc fs = Done (0, Some fl) \<and>
    read_friendfile L usable True mem imem acc' (Some fl) = Done (0, Some fs)"
proof -
  from assms(4) obtain rnd where e: "wd_open env" "\<forall>k n. wd_mem env k n" "wd_rand env = Some rnd" "length rnd = 32"
    "\<forall>j. wd_tx env j = None" by (auto simp: wd_ok_def)
  have ok: "\<forall>f \<in> set fs. lib_ok L \<and> friend_ok L f \<and> slack_ok usable f" "length fs < 2 ^ 64" "\<forall>f \<in> set fs. friend_ok L f"
    using assms(1-3) by auto
  from friendfile.roundtrip [OF assms(1,5) e ok(1) friends_total [OF ok(3) assms(3)] ok(2) assms(6,7)]
  show ?thesis by (auto simp: write_friendfile_def read_friendfile_def)
qed

lemma slack_ok_24: "usable (fr_u_len f) \<ge> 24 \<Longrightarrow> valid_uname (fr_uname f) \<Longrightarrow> friend_ok L f \<Longrightarrow> slack_ok usable f"
  using valid_unameD(2) [of "fr_uname f"] by (simp add: slack_ok_def friend_ok_def)

section \<open>Properties\<close>

text \<open>
  The friend list survives a restart, if the allocator is generous: the friends that
  \<open>write_friendfile\<close> stores are the ones \<open>read_friendfile\<close> returns to an account with the same keys,
  provided every name's block has room for two bytes more than were asked for. A block of 24 usable
  bytes, as glibc provides at least, has it for the names of at most 20 characters that
  \<open>valid_uname\<close> admits.
\<close>
theorem friendfile_roundtrip:
  assumes "lib_ok L" and "\<forall>f \<in> set fs. friend_ok L f \<and> slack_ok usable f" and "length fs < 2 ^ 20" and "wd_ok env"
    and "ff_same acc acc'" and "\<forall>k n. mem k n" and "\<forall>i k n. imem i k n"
  shows "\<exists>fl. write_friendfile L usable True env acc fs = Done (0, Some fl) \<and>
    read_friendfile L usable True mem imem acc' (Some fl) = Done (0, Some fs) \<and>
    ((\<forall>n. usable n \<ge> 24) \<longrightarrow> (\<forall>f. valid_uname (fr_uname f) \<and> friend_ok L f \<longrightarrow> slack_ok usable f))"
  using stored_friends_read [OF assms] slack_ok_24 by blast

definition demo_friend :: friend where
  "demo_friend = \<lparr>fr_u_len = 2, fr_k_len = 3, fr_uname = [97, 98], fr_pkey = [1, 2, 3], fr_uid = gen_uid demo_lib [97, 98],
     fr_c_file = replicate 32 1, fr_f_symm_key = replicate 32 0, fr_f_hmac_key = replicate 32 0,
     fr_s_symm_key = replicate 32 2, fr_s_hmac_key = replicate 32 3, fr_r_symm_key = replicate 32 4,
     fr_r_hmac_key = replicate 32 5, fr_s_nonce = 0, fr_r_nonce = 0\<rparr>"

lemma demo_friend_ok: "friend_ok demo_lib demo_friend"
  by (simp add: friend_ok_def demo_friend_def cstr_def)

theorem friendfile_roundtrip_witness:
  "\<exists>fl. write_friendfile demo_lib (\<lambda>n. 24) True demo_wd demo_account [demo_friend] = Done (0, Some fl) \<and>
    read_friendfile demo_lib (\<lambda>n. 24) True (\<lambda>_ _. True) (\<lambda>_ _ _. True) demo_account (Some fl) = Done (0, Some [demo_friend])"
proof -
  have f: "\<forall>f \<in> set [demo_friend]. friend_ok demo_lib f \<and> slack_ok (\<lambda>n. 24) f"
    using demo_friend_ok by (simp add: slack_ok_def demo_friend_def)
  have s: "ff_same demo_account demo_account" by (simp add: ff_same_def)
  from friendfile_roundtrip [OF demo_lib_ok f _ demo_wd_ok s, where mem = "\<lambda>_ _. True" and imem = "\<lambda>_ _ _. True"]
  show ?thesis by auto
qed

text \<open>
  Reading a friend overflows the heap: what \<open>write_friendfile\<close> stores for a list of friends makes
  \<open>read_friendfile\<close> write outside the block allocated for the first friend's name whenever that block
  has less than two bytes to spare, so always under the guarantee the C standard gives for \<open>malloc\<close>.
\<close>
theorem friendfile_read_overflow:
  assumes "lib_ok L" and "\<forall>f \<in> set (f # fs). friend_ok L f" and "length (f # fs) < 2 ^ 20" and "wd_ok env"
    and "ff_same acc acc'" and "\<forall>k n. mem k n" and "\<forall>i k n. imem i k n" and "usable (fr_u_len f) = unat (fr_u_len f)"
  shows "\<exists>fl. write_friendfile L usable True env acc (f # fs) = Done (0, Some fl) \<and>
    read_friendfile L usable True mem imem acc' (Some fl) = UB"
proof -
  note lib = lib_ok_parts [OF assms(1)]
  let ?F = "ff_format L usable"
  from assms(4) obtain rnd where e: "wd_open env" "\<forall>k n. wd_mem env k n" "wd_rand env = Some rnd" "length rnd = 32"
    "\<forall>j. wd_tx env j = None" by (auto simp: wd_ok_def)
  have sz: "\<forall>x \<in> set (f # fs). sized ?F x" using assms(1,2) friend_sized by blast
  have k: "fd_p_fill ?F acc = Some []" "length [] = unat (fd_pref_len ?F)"
    "fd_s_key ?F acc [] = (acc, Some (ac_f_symm acc))" "fd_h_key ?F acc [] = (acc, Some (ac_f_hmac acc))"
    by (simp_all add: ff_format_def)
  from friendfile.write_ok [OF assms(1) k e(1-3,5) sz friends_total [OF assms(2,3)]]
  obtain ws where w: "list_all2 (\<lambda>x w. fd_datawrite ?F x = Some w \<and> w \<noteq> []) (f # fs) ws"
    "length (concat ws) = datafile_format.total ?F (f # fs)"
    "write_datafile L ?F env acc (f # fs) = Done (0, acc, Some (datafile_format.file_of L rnd []
      (ac_f_symm acc) (ac_f_hmac acc) (f # fs) (concat ws)))" by blast
  let ?fl = "datafile_format.file_of L rnd [] (ac_f_symm acc) (ac_f_hmac acc) (f # fs) (concat ws)"
  have wr: "write_friendfile L usable True env acc (f # fs) = Done (0, Some ?fl)"
    using w(3) by (simp add: write_friendfile_def)
  from w(1) obtain ws' where ws: "ws = friend_write_bin L f # ws'" "friend_write_bin L f \<noteq> []"
    by (cases ws) (auto simp: ff_format_def)
  have h: "read_seq (concat ws) 0 [8, 8] = Done ([encbe64 L (fr_u_len f), encbe64 L (fr_k_len f)], 16)"
    using friend_parse_head [OF assms(1), of "[]" f "concat ws'"] unfolding ws(1) by simp
  have "fd_dataread ?F acc' (imem (length fs)) (concat ws) 0 = UB"
    unfolding ff_format_def format_desc.simps friend_parse_bin_def h exec_bind.simps prod.case Let_def
    using assms(7,8) lib by (simp add: endian_simps)
  moreover have "0 < length (concat ws)" using ws by simp
  ultimately have r: "read_items ?F acc' imem (concat ws) (length (f # fs)) 0 = UB" by simp
  have k': "fd_s_key ?F acc' ([] @ rest) = (acc', Some (ac_f_symm acc)) \<and>
      fd_h_key ?F acc' ([] @ rest) = (acc', Some (ac_f_hmac acc))" for rest
    using assms(5) by (simp add: ff_format_def ff_same_def)
  have l: "length (concat ws) < 2 ^ 63" "length (f # fs) < 2 ^ 64"
    using w(2) friends_total [OF assms(2,3)] assms(3) by auto
  have "read_datafile L ?F mem imem acc' (Some ?fl) = UB"
    unfolding friendfile.read_file_eq [OF assms(1) e(4) k(2) l k' assms(6)] r by simp
  then show ?thesis using wr by (simp add: read_friendfile_def)
qed

theorem friendfile_read_overflow_witness:
  "\<exists>fl. write_friendfile demo_lib unat True demo_wd demo_account [demo_friend] = Done (0, Some fl) \<and>
    read_friendfile demo_lib unat True (\<lambda>_ _. True) (\<lambda>_ _ _. True) demo_account (Some fl) = UB"
proof -
  have f: "\<forall>f \<in> set [demo_friend]. friend_ok demo_lib f" using demo_friend_ok by simp
  have s: "ff_same demo_account demo_account" by (simp add: ff_same_def)
  from friendfile_read_overflow [OF demo_lib_ok f _ demo_wd_ok s, where usable = unat and mem = "\<lambda>_ _. True" and imem = "\<lambda>_ _ _. True"]
  show ?thesis by auto
qed

end
