(* ===== verification/ClientState.thy ===== *)
theory ClientState
  imports Friends CryptoLayer Rwlock
begin

text \<open>
  The data of the running client (\<open>friendreq.h\<close>, \<open>notifications.h\<close>, \<open>conversation.h\<close>, the globals of
  \<open>cli.c\<close>) and its two locks: the readers/writer lock of \<open>cli.c\<close> and the \<open>net_lock\<close> of \<open>bg_manager.c\<close>. A
  pointer to a friend is the friend's position in the account's list, which only grows. An
  operation that may not return has an \<open>option\<close> result, \<open>None\<close> when it waits for ever.
\<close>

text \<open>A computation that may not return, and that may be undefined.\<close>

type_synonym 'a run = "'a exec option"

fun run_bind :: "'a run \<Rightarrow> ('a \<Rightarrow> 'b run) \<Rightarrow> 'b run" where
  "run_bind None f = None"
| "run_bind (Some UB) f = Some UB"
| "run_bind (Some (Done x)) f = f x"

section \<open>Records\<close>

record friendreq =
  fq_u_len :: u64
  fq_k_len :: u64
  fq_uname :: bytes
  fq_pkey :: bytes

datatype notif =
    NMessage nat u64
  | NRequest friendreq
  | NAccepted nat
  | NOther byte

text \<open>A message of a conversation; \<open>text\<close> without the zero that ends its buffer.\<close>

record cmessage =
  cm_sender :: int
  cm_text :: bytes

section \<open>The running client\<close>

text \<open>
  The globals of \<open>cli.c\<close>, \<open>conversation.c\<close> and \<open>bg_manager.c\<close>: the account with its friends, the
  notifications, the mode, the flag that stops the client, \<open>lock\<close> as \<open>use_state\<close> of the
  readers/writer lock, the open conversation and the messages that came in for it (the newest
  first), the connection, its keys, whether \<open>net_lock\<close> and \<open>bg_lock\<close> are held, the answer to a key
  request; the files on the disk, the conversation files by the random name the friend record
  holds; and whether the list of friends has a record in it that was freed.
\<close>

record client_state =
  cs_acc :: account
  cs_friends :: "friend list"
  cs_notifs :: "notif list"
  cs_mode :: int
  cs_stop :: bool
  cs_lock :: int
  cs_ff_file :: "bytes option"
  cs_nf_file :: "bytes option"
  cs_cfiles :: "bytes \<rightharpoonup> bytes"
  cs_cur_conv :: "nat option"
  cs_new_messages :: "cmessage list"
  cs_con :: con_handle
  cs_keys :: keyset
  cs_netlock :: bool
  cs_bglock :: bool
  cs_pkey_resp :: "bytes option"
  cs_dangling :: bool

text \<open>The surroundings of one rewrite of a file: \<open>file_path\<close>, and \<open>write_datafile\<close>'s own.\<close>

type_synonym store_env = "bool \<times> wd_env"

definition set_mode_no_lock :: "int \<Rightarrow> client_state \<Rightarrow> client_state" where
  "set_mode_no_lock v s = s\<lparr>cs_mode := v\<rparr>"

text \<open>\<open>None\<close>: the lock is held and nobody releases it.\<close>

definition with_writelock :: "(client_state \<Rightarrow> 'a) \<Rightarrow> client_state \<Rightarrow> 'a option" where
  "with_writelock body s = (case acquire_writelock (cs_lock s) of
     None \<Rightarrow> None | Some us \<Rightarrow> Some (body (s\<lparr>cs_lock := us\<rparr>)))"

definition unlock_write :: "client_state \<Rightarrow> client_state exec" where
  "unlock_write s = (case release_writelock (cs_lock s) of None \<Rightarrow> UB | Some us \<Rightarrow> Done (s\<lparr>cs_lock := us\<rparr>))"

definition set_mode :: "int \<Rightarrow> client_state \<Rightarrow> client_state run" where
  "set_mode v s = with_writelock (\<lambda>s1. unlock_write (set_mode_no_lock v s1)) s"

definition get_mode :: "client_state \<Rightarrow> int option" where
  "get_mode s = (case acquire_readlock (cs_lock s) of None \<Rightarrow> None
   | Some us \<Rightarrow> (case release_readlock us of None \<Rightarrow> None | Some _ \<Rightarrow> Some (cs_mode s)))"

section \<open>The connection\<close>

text \<open>\<open>net_lock\<close> is a plain mutex: taking it when it is held waits for ever.\<close>

definition acquire_netlock :: "client_state \<Rightarrow> (int \<times> client_state) option" where
  "acquire_netlock s = (if cs_netlock s then None
     else case get_mode s of None \<Rightarrow> None
      | Some m \<Rightarrow> if m = -1 then Some (1, s) else Some (0, s\<lparr>cs_netlock := True\<rparr>))"

definition release_netlock :: "client_state \<Rightarrow> client_state" where
  "release_netlock s = s\<lparr>cs_netlock := False\<rparr>"

text \<open>\<open>send_message(sc->ch, &sc->keys, buf, len)\<close>.\<close>

definition client_send :: "ibc \<Rightarrow> heap_oracle \<Rightarrow> bytes \<Rightarrow> u64 \<Rightarrow> client_state \<Rightarrow> (int \<times> client_state) exec" where
  "client_send L mem buf len s =
     exec_bind (send_message L mem (cs_con s) (cs_keys s) buf len) (\<lambda>(r, con, keys).
       Done (r, s\<lparr>cs_con := con, cs_keys := keys\<rparr>))"

section \<open>The lock when nobody holds it\<close>

lemma lock_free:
  "acquire_writelock us = Some v \<longleftrightarrow> us = 0 \<and> v = -1" "acquire_writelock us = None \<longleftrightarrow> us \<noteq> 0"
  "acquire_writelock 0 = Some (-1)" "release_writelock (-1) = Some 0"
  by (auto simp: acquire_writelock_def release_writelock_def)

lemma get_mode_free: "cs_lock s = 0 \<Longrightarrow> get_mode s = Some (cs_mode s)"
  by (simp add: get_mode_def acquire_readlock_def release_readlock_def MAX_READERS_def INT_MAX_def)

lemma set_mode_free: "cs_lock s = 0 \<Longrightarrow> set_mode v s = Some (Done (s\<lparr>cs_mode := v\<rparr>))"
  by (simp add: set_mode_def with_writelock_def unlock_write_def set_mode_no_lock_def lock_free)

section \<open>A client to evaluate on\<close>

definition demo_user_client :: client_state where
  "demo_user_client = \<lparr>cs_acc = demo_account, cs_friends = [demo_friend], cs_notifs = [], cs_mode = 0, cs_stop = False,
     cs_lock = 0, cs_ff_file = None, cs_nf_file = None, cs_cfiles = Map.empty, cs_cur_conv = None, cs_new_messages = [],
     cs_con = init_handler True, cs_keys = demo_keys, cs_netlock = False,
     cs_bglock = False, cs_pkey_resp = None, cs_dangling = False\<rparr>"

end
