(* ===== verification/Notifs.thy ===== *)
theory Notifs
  imports ClientState
begin

text \<open>
  \<open>client/notifications.c\<close> with the list operations it shares with \<open>client/friends.c\<close>: the notifications, the file
  they are kept in, and the three ways one is added.
\<close>

section \<open>The code: the records and their format\<close>

fun notif_bin_len :: "notif \<Rightarrow> u64" where
  "notif_bin_len (NMessage _ _) = 1 + 0x20 + 0x08"
| "notif_bin_len (NRequest q) = 1 + 0x08 + 0x08 + fq_u_len q + fq_k_len q"
| "notif_bin_len (NAccepted _) = 1 + 0x20"
| "notif_bin_len (NOther _) = 1"

fun notif_bin_write :: "ibc \<Rightarrow> friend list \<Rightarrow> notif \<Rightarrow> bytes" where
  "notif_bin_write L fs (NMessage i n) = [1] @ concat [fr_uid (fs ! i), encbe64 L n]"
| "notif_bin_write L fs (NRequest q) = [2] @ concat [encbe64 L (fq_u_len q), encbe64 L (fq_k_len q)] @
     concat [take (unat (fq_u_len q)) (fq_uname q), take (unat (fq_k_len q)) (fq_pkey q)]"
| "notif_bin_write L fs (NAccepted i) = [3] @ fr_uid (fs ! i)"
| "notif_bin_write L fs (NOther t) = [t]"

text \<open>The search by user id compares 32 bytes of the payload with each friend in turn.\<close>

fun friend_by_uid :: "friend list \<Rightarrow> bytes \<Rightarrow> nat \<Rightarrow> nat option exec" where
  "friend_by_uid [] payload off = Done None"
| "friend_by_uid (f # fs) payload off =
     exec_bind (read_at payload off 0x20) (\<lambda>u.
       if u = fr_uid f then Done (Some 0)
       else exec_bind (friend_by_uid fs payload off) (\<lambda>r. Done (map_option Suc r)))"

text \<open>
  Case 1 falls through to case 3, so both leave the pointer 40 bytes further, although
  \<open>notif_bin_write\<close> stores 32 bytes for type 3.
\<close>

definition notif_bin_parse :: "ibc \<Rightarrow> friend list \<Rightarrow> heap_oracle \<Rightarrow> bytes \<Rightarrow> nat \<Rightarrow> (notif \<times> nat) option exec" where
  "notif_bin_parse L fs mem payload off =
     (if \<not> mem 0 40 then Done None
      else exec_bind (read_at payload off 1) (\<lambda>t. let p = off + 1 in
        if t = [1] then exec_bind (read_at payload (p + 0x20) 8) (\<lambda>n.
          exec_bind (friend_by_uid fs payload p) (\<lambda>r.
            Done (map_option (\<lambda>i. (NMessage i (decbe64 L n), p + 0x28)) r)))
        else if t = [3] then exec_bind (friend_by_uid fs payload p) (\<lambda>r.
            Done (map_option (\<lambda>i. (NAccepted i, p + 0x28)) r))
        else if t = [2] then
          if \<not> mem 1 32 then Done None
          else exec_bind (read_seq payload p [8, 8]) (\<lambda>(ns, p1).
            let ul = decbe64 L (ns ! 0); kl = decbe64 L (ns ! 1) in
            if \<not> mem 2 (ul + 1) then Done None
            else if \<not> mem 3 kl then Done None
            else exec_bind (read_seq payload p1 [unat ul, unat kl]) (\<lambda>(bs, p2).
              Done (Some (NRequest \<lparr>fq_u_len = ul, fq_k_len = kl, fq_uname = bs ! 0, fq_pkey = bs ! 1\<rparr>, p2))))
        else Done (Some (NOther (hd t), p))))"

definition nf_format :: "ibc \<Rightarrow> friend list \<Rightarrow> (account, notif) format_desc" where
  "nf_format L fs = \<lparr>fd_pref_len = 0, fd_p_fill = (\<lambda>_. Some []),
     fd_s_key = (\<lambda>acc _. (acc, Some (ac_n_symm acc))), fd_h_key = (\<lambda>acc _. (acc, Some (ac_n_hmac acc))),
     fd_datalen = notif_bin_len, fd_datawrite = (\<lambda>n. Some (notif_bin_write L fs n)),
     fd_dataread = (\<lambda>_. notif_bin_parse L fs)\<rparr>"

definition write_notiffile :: "ibc \<Rightarrow> bool \<Rightarrow> wd_env \<Rightarrow> account \<Rightarrow> friend list \<Rightarrow> notif list \<Rightarrow> (int \<times> bytes option) exec" where
  "write_notiffile L path env acc fs ns =
     (if \<not> path then Done (-1, None)
      else exec_bind (write_datafile L (nf_format L fs) env acc ns) (\<lambda>(r, _, f). Done (r, f)))"

definition read_notiffile :: "ibc \<Rightarrow> bool \<Rightarrow> heap_oracle \<Rightarrow> (nat \<Rightarrow> heap_oracle) \<Rightarrow> account \<Rightarrow> friend list \<Rightarrow> bytes option \<Rightarrow>
    (int \<times> notif list option) exec" where
  "read_notiffile L path mem imem acc fs file =
     (if \<not> path then Done (-1, None)
      else exec_bind (read_datafile L (nf_format L fs) mem imem acc file) (\<lambda>(r, _, ns). Done (r, ns)))"

definition init_notiffile :: "ibc \<Rightarrow> bytes option \<Rightarrow> bool \<Rightarrow> stat_result \<Rightarrow> wd_env \<Rightarrow> account \<Rightarrow>
    (int \<times> account \<times> bytes option) exec" where
  "init_notiffile L rand path st env acc = (case rand of
     None \<Rightarrow> Done (-1, acc, None)
   | Some buf \<Rightarrow>
       let acc' = acc\<lparr>ac_n_file := slice 0 32 buf, ac_n_symm := slice 32 32 buf, ac_n_hmac := slice 64 32 buf\<rparr>
       in if \<not> path then Done (-1, acc', None)
          else if st \<noteq> StatAbsent then Done (-1, acc', None)
          else exec_bind (write_notiffile L path env acc' [] []) (\<lambda>(r, f). Done (r, acc', f)))"

section \<open>The code: the running client\<close>

definition notiflist_len :: "client_state \<Rightarrow> nat option" where
  "notiflist_len s = (case acquire_readlock (cs_lock s) of None \<Rightarrow> None
   | Some us \<Rightarrow> (case release_readlock us of None \<Rightarrow> None | Some _ \<Rightarrow> Some (length (cs_notifs s))))"

text \<open>Storing the list of notifications: the result of \<open>write_notiffile\<close>, and the file it leaves.\<close>

definition store_notifs :: "ibc \<Rightarrow> store_env \<Rightarrow> client_state \<Rightarrow> (int \<times> client_state) exec" where
  "store_notifs L e s =
     exec_bind (write_notiffile L (fst e) (snd e) (cs_acc s) (cs_friends s) (cs_notifs s)) (\<lambda>(r, f).
       Done (r, case f of None \<Rightarrow> s | Some d \<Rightarrow> s\<lparr>cs_nf_file := Some d\<rparr>))"

definition store_friends :: "ibc \<Rightarrow> (u64 \<Rightarrow> nat) \<Rightarrow> store_env \<Rightarrow> client_state \<Rightarrow> (int \<times> client_state) exec" where
  "store_friends L usable e s =
     exec_bind (write_friendfile L usable (fst e) (snd e) (cs_acc s) (cs_friends s)) (\<lambda>(r, f).
       Done (r, case f of None \<Rightarrow> s | Some d \<Rightarrow> s\<lparr>cs_ff_file := Some d\<rparr>))"

text \<open>A friend whose file cannot be written stays in the list.\<close>

definition add_friend :: "ibc \<Rightarrow> (u64 \<Rightarrow> nat) \<Rightarrow> store_env \<Rightarrow> friend \<Rightarrow> client_state \<Rightarrow> (int \<times> client_state) run" where
  "add_friend L usable e f = with_writelock (\<lambda>s.
     exec_bind (store_friends L usable e (s\<lparr>cs_friends := cs_friends s @ [f]\<rparr>)) (\<lambda>(r, s1).
       exec_bind (unlock_write s1) (\<lambda>s2. Done (if r \<noteq> 0 then -1 else 0, s2))))"

definition insert_notif :: "ibc \<Rightarrow> store_env \<Rightarrow> notif \<Rightarrow> client_state \<Rightarrow> (int \<times> client_state) run" where
  "insert_notif L e n = with_writelock (\<lambda>s.
     exec_bind (store_notifs L e (s\<lparr>cs_notifs := cs_notifs s @ [n]\<rparr>)) (\<lambda>(r, s1).
       exec_bind (unlock_write s1) (\<lambda>s2. Done (r, s2))))"

text \<open>A user at the main menu (mode 0) is told.\<close>

definition tell_user :: "int \<times> client_state \<Rightarrow> (int \<times> client_state) run" where
  "tell_user rs = (case rs of (r, s) \<Rightarrow> (case get_mode s of
     None \<Rightarrow> None
   | Some m \<Rightarrow> if m = 0 then run_bind (set_mode 0xff s) (\<lambda>s1. Some (Done (r, s1))) else Some (Done (r, s))))"

definition add_notif :: "ibc \<Rightarrow> store_env \<Rightarrow> notif \<Rightarrow> client_state \<Rightarrow> (int \<times> client_state) run" where
  "add_notif L e n s = run_bind (insert_notif L e n s) (\<lambda>(r, s1).
     if r \<noteq> 0 then Some (Done (r, s1)) else tell_user (0, s1))"

text \<open>
  The search of \<open>add_new_message\<close>, from the notification at position \<open>cur\<close>: the loop has no step to the
  next one. \<open>None\<close> is a loop that does not end, \<open>Some None\<close> the end of the list.
\<close>

partial_function (option) new_message_scan :: "notif list \<Rightarrow> nat \<Rightarrow> nat \<Rightarrow> nat option option" where
  "new_message_scan ns f cur =
     (if cur < length ns then
        (case ns ! cur of NMessage g _ \<Rightarrow> if g = f then Some (Some cur) else new_message_scan ns f cur
         | _ \<Rightarrow> new_message_scan ns f cur)
      else Some None)"

fun bump_unread :: "notif \<Rightarrow> notif" where
  "bump_unread (NMessage f n) = NMessage f (n + 1)"
| "bump_unread n = n"

definition add_new_message :: "ibc \<Rightarrow> store_env \<Rightarrow> heap_oracle \<Rightarrow> nat \<Rightarrow> client_state \<Rightarrow> (int \<times> client_state) run" where
  "add_new_message L e mem f s = (case acquire_writelock (cs_lock s) of
     None \<Rightarrow> None
   | Some _ \<Rightarrow> (case new_message_scan (cs_notifs s) f 0 of
       None \<Rightarrow> None
     | Some (Some i) \<Rightarrow>
         Some (store_notifs L e (s\<lparr>cs_notifs := (cs_notifs s)[i := bump_unread (cs_notifs s ! i)]\<rparr>))
     | Some None \<Rightarrow>
         if \<not> mem 0 40 then Some (Done (-1, s))
         else run_bind (insert_notif L e (NMessage f 1) s) tell_user))"

section \<open>The format of the file\<close>

definition uids_ok :: "friend list \<Rightarrow> bool" where
  "uids_ok fs \<longleftrightarrow> distinct (map fr_uid fs) \<and> (\<forall>f \<in> set fs. length (fr_uid f) = 32)"

fun notif_ok :: "friend list \<Rightarrow> notif \<Rightarrow> bool" where
  "notif_ok fs (NMessage i n) = (i < length fs)"
| "notif_ok fs (NRequest q) = (unat (fq_u_len q) = length (fq_uname q) \<and> unat (fq_k_len q) = length (fq_pkey q) \<and>
     length (fq_uname q) < 2 ^ 40 \<and> length (fq_pkey q) < 2 ^ 40)"
| "notif_ok fs (NAccepted i) = False"
| "notif_ok fs (NOther t) = (t \<notin> {1, 2, 3})"

lemma uid_length: "uids_ok fs \<Longrightarrow> i < length fs \<Longrightarrow> length (fr_uid (fs ! i)) = 32"
  by (simp add: uids_ok_def)

lemma friend_by_uid_here:
  "uids_ok fs \<Longrightarrow> i < length fs \<Longrightarrow> length pre = off \<Longrightarrow>
   friend_by_uid fs (pre @ fr_uid (fs ! i) @ post) off = Done (Some i)"
proof (induction fs arbitrary: i)
  case Nil
  then show ?case by simp
next
  case (Cons f fs)
  have r: "read_at (pre @ fr_uid ((f # fs) ! i) @ post) off 0x20 = Done (fr_uid ((f # fs) ! i))"
    using uid_length [OF Cons.prems(1,2)] Cons.prems(3) by (simp add: read_at_append)
  show ?case
  proof (cases i)
    case 0
    then show ?thesis using r by simp
  next
    case (Suc k)
    have u: "uids_ok fs" "fr_uid f \<noteq> fr_uid (fs ! k)"
      using Cons.prems(1,2) Suc by (auto simp: uids_ok_def)
    show ?thesis using r u(2) Cons.IH [OF u(1), of k] Cons.prems(2,3) Suc by auto
  qed
qed

lemma notif_bin_len_ok:
  assumes "notif_ok fs (NRequest q)"
  shows "unat (notif_bin_len (NRequest q)) = 17 + length (fq_uname q) + length (fq_pkey q)"
proof -
  have l: "unat (fq_u_len q) = length (fq_uname q)" "unat (fq_k_len q) = length (fq_pkey q)"
    "length (fq_uname q) < 2 ^ 40" "length (fq_pkey q) < 2 ^ 40" using assms by simp_all
  have e: "notif_bin_len (NRequest q) = 17 + fq_u_len q + fq_k_len q" by simp
  have 1: "unat (17 + fq_u_len q) = 17 + length (fq_uname q)"
    using unat_plus_small [of 17 "fq_u_len q"] l by simp
  show ?thesis
    unfolding e using unat_plus_small [of "17 + fq_u_len q" "fq_k_len q"] l 1 by simp
qed

definition notif_sized :: "friend list \<Rightarrow> notif \<Rightarrow> bool" where
  "notif_sized fs n \<longleftrightarrow> notif_ok fs n \<or> (\<exists>i < length fs. n = NAccepted i)"

text \<open>The two descriptions of a record's size agree.\<close>

lemma length_notif_bin_write:
  assumes "lib_ok L" "uids_ok fs" "notif_sized fs n"
  shows "length (notif_bin_write L fs n) = unat (notif_bin_len n)"
proof (cases n)
  case (NRequest q)
  then have q: "notif_ok fs (NRequest q)" using assms(3) by (auto simp: notif_sized_def)
  have "length (notif_bin_write L fs (NRequest q)) = 17 + length (fq_uname q) + length (fq_pkey q)"
    using q lib_ok_parts [OF assms(1)] by (simp add: endian_simps)
  then show ?thesis unfolding NRequest notif_bin_len_ok [OF q] .
next
  case (NMessage i k)
  then show ?thesis using assms lib_ok_parts [OF assms(1)] by (auto simp: notif_sized_def endian_simps uid_length)
next
  case (NAccepted i)
  then show ?thesis using assms by (auto simp: notif_sized_def uid_length)
next
  case (NOther t)
  then show ?thesis by simp
qed

lemma parse_accepted:
  assumes "uids_ok fs" "i < length fs" "\<forall>k n. mem k n"
  shows "notif_bin_parse L fs mem (pre @ notif_bin_write L fs (NAccepted i)) (length pre) =
    Done (Some (NAccepted i, length pre + 0x29))"
proof -
  have t: "read_at (pre @ [3] @ fr_uid (fs ! i)) (length pre) 1 = Done [3]" by (rule read_at_append) simp_all
  have f: "friend_by_uid fs ((pre @ [3]) @ fr_uid (fs ! i) @ []) (length pre + 1) = Done (Some i)"
    by (rule friend_by_uid_here [OF assms(1,2)]) simp
  show ?thesis using t f assms(3) by (simp add: notif_bin_parse_def)
qed

lemma notif_parse_write:
  assumes "lib_ok L" "uids_ok fs" "notif_ok fs n" "\<forall>k n. mem k n"
  shows "notif_bin_parse L fs mem (pre @ notif_bin_write L fs n @ post) (length pre) =
    Done (Some (n, length pre + length (notif_bin_write L fs n)))"
proof (cases n)
  case (NMessage i k)
  have i: "i < length fs" using assms(3) NMessage by simp
  have l: "length (fr_uid (fs ! i)) = 32" by (rule uid_length [OF assms(2) i])
  note lib = lib_ok_parts [OF assms(1)]
  have t: "read_at (pre @ [1] @ fr_uid (fs ! i) @ encbe64 L k @ post) (length pre) 1 = Done [1]"
    by (rule read_at_append) simp_all
  have u: "read_at ((pre @ [1] @ fr_uid (fs ! i)) @ encbe64 L k @ post) (length pre + 1 + 0x20) 8 = Done (encbe64 L k)"
    by (rule read_at_append) (use l lib in \<open>simp_all add: endian_simps\<close>)
  have f: "friend_by_uid fs ((pre @ [1]) @ fr_uid (fs ! i) @ (encbe64 L k @ post)) (length pre + 1) = Done (Some i)"
    by (rule friend_by_uid_here [OF assms(2) i]) simp
  show ?thesis
    using t u f assms(4) l lib NMessage by (simp add: notif_bin_parse_def endian_simps)
next
  case (NRequest q)
  note lib = lib_ok_parts [OF assms(1)]
  have t: "take (unat (fq_u_len q)) (fq_uname q) = fq_uname q" "take (unat (fq_k_len q)) (fq_pkey q) = fq_pkey q"
    using assms(3) NRequest by simp_all
  let ?ns = "[encbe64 L (fq_u_len q), encbe64 L (fq_k_len q)]" and ?bs = "[fq_uname q, fq_pkey q]"
  have w: "notif_bin_write L fs n = [2] @ concat ?ns @ concat ?bs"
    unfolding NRequest notif_bin_write.simps t by simp
  have l: "length (concat ?ns) = 16" using lib by (simp add: endian_simps)
  have r0: "read_at (pre @ [2] @ concat ?ns @ concat ?bs @ post) (length pre) 1 = Done [2]"
    by (rule read_at_append) simp_all
  have r1: "read_seq ((pre @ [2]) @ concat ?ns @ concat ?bs @ post) (length pre + 1) [8, 8] =
      Done (?ns, length pre + 1 + length (concat ?ns))"
    by (rule read_seq_concat) (use lib in \<open>simp_all add: endian_simps\<close>)
  have r2: "read_seq ((pre @ [2] @ concat ?ns) @ concat ?bs @ post) (length pre + 1 + length (concat ?ns))
      [unat (fq_u_len q), unat (fq_k_len q)] = Done (?bs, length pre + 1 + length (concat ?ns) + length (concat ?bs))"
    by (rule read_seq_concat) (use assms(3) NRequest in simp_all)
  have p: "pre @ notif_bin_write L fs n @ post = pre @ [2] @ concat ?ns @ concat ?bs @ post"
    "pre @ [2] @ concat ?ns @ concat ?bs @ post = (pre @ [2]) @ concat ?ns @ concat ?bs @ post"
    "(pre @ [2]) @ concat ?ns @ concat ?bs @ post = (pre @ [2] @ concat ?ns) @ concat ?bs @ post"
    unfolding w by simp_all
  have n: "length (notif_bin_write L fs n) = 1 + length (concat ?ns) + length (concat ?bs)" unfolding w by simp
  have d: "decbe64 L (?ns ! 0) = fq_u_len q" "decbe64 L (?ns ! 1) = fq_k_len q"
    using lib by (simp_all add: endian_simps)
  have m: "mem k x" for k x using assms(4) by blast
  have "notif_bin_parse L fs mem (pre @ notif_bin_write L fs n @ post) (length pre) =
      Done (Some (n, length pre + 1 + length (concat ?ns) + length (concat ?bs)))"
    unfolding notif_bin_parse_def p(1) r0 exec_bind.simps Let_def
    unfolding p(2) r1 exec_bind.simps prod.case d
    unfolding p(3) r2 exec_bind.simps prod.case
    using m NRequest by simp
  then show ?thesis unfolding n by (simp add: add.assoc)
next
  case (NOther t)
  have "read_at (pre @ [t] @ post) (length pre) 1 = Done [t]" by (rule read_at_append) simp_all
  then show ?thesis using assms(3,4) NOther by (simp add: notif_bin_parse_def)
qed (use assms(3) in simp)

lemma notif_written: "lib_ok L \<Longrightarrow> uids_ok fs \<Longrightarrow> notif_sized fs n \<Longrightarrow> sized (nf_format L fs) n"
  unfolding sized_def by (intro exI [of _ "notif_bin_write L fs n"])
    (use length_notif_bin_write [of L fs n] in \<open>cases n; auto simp: nf_format_def\<close>)

definition nf_same :: "account \<Rightarrow> account \<Rightarrow> bool" where
  "nf_same a a' \<longleftrightarrow> ac_n_symm a' = ac_n_symm a \<and> ac_n_hmac a' = ac_n_hmac a"

lemma nf_keys:
  assumes "nf_same g g'"
  shows "fd_p_fill (nf_format L fs) g = Some []" "length [] = unat (fd_pref_len (nf_format L fs))"
    "fd_s_key (nf_format L fs) g ptr = (g, Some (ac_n_symm g))" "fd_h_key (nf_format L fs) g ptr = (g, Some (ac_n_hmac g))"
    "fd_s_key (nf_format L fs) g' ptr = (g', Some (ac_n_symm g))" "fd_h_key (nf_format L fs) g' ptr = (g', Some (ac_n_hmac g))"
  using assms by (simp_all add: nf_format_def nf_same_def)

lemma nf_dataread:
  assumes "lib_ok L \<and> uids_ok fs \<and> notif_ok fs x" "fd_datawrite (nf_format L fs) x = Some w" "\<forall>k n. mem k n"
  shows "fd_dataread (nf_format L fs) g' mem (pre @ w @ post) (length pre) = Done (Some (x, length pre + length w))"
  using assms notif_parse_write [of L fs x mem pre post] by (auto simp: nf_format_def)

interpretation notiffile: datafile_format "nf_format L fs" "\<lambda>_ n. lib_ok L \<and> uids_ok fs \<and> notif_ok fs n" nf_same for L fs
proof (unfold_locales, goal_cases)
  case 1
  then show ?case by (simp add: nf_format_def)
next
  case (2 g g')
  show ?case using nf_keys [OF 2] nf_dataread
    by (intro exI conjI allI impI) (assumption | rule nf_keys [OF 2] | rule nf_dataread)+
next
  case (3 g x)
  then show ?case using notif_written by (simp add: notif_sized_def)
qed

lemma notifs_total:
  assumes "\<forall>n \<in> set ns. notif_sized fs n" "length ns < 2 ^ 20"
  shows "datafile_format.total (nf_format L fs) ns < 2 ^ 63"
proof -
  have "unat (fd_datalen (nf_format L fs) n) \<le> 2 ^ 42" if "n \<in> set ns" for n
  proof -
    have s: "notif_sized fs n" using assms(1) that by blast
    show ?thesis
    proof (cases n)
      case (NRequest q)
      then have q: "notif_ok fs (NRequest q)" using s by (auto simp: notif_sized_def)
      show ?thesis using notif_bin_len_ok [OF q] q NRequest by (simp add: nf_format_def)
    qed (simp_all add: nf_format_def)
  qed
  then have "datafile_format.total (nf_format L fs) ns \<le> length ns * 2 ^ 42"
    unfolding notiffile.total_def by (intro sum_list_bound) blast
  also have "\<dots> < 2 ^ 63" using assms(2) by simp
  finally show ?thesis .
qed

lemma write_notiffile_ok:
  assumes "lib_ok L" "uids_ok fs" "\<forall>n \<in> set ns. notif_sized fs n" "length ns < 2 ^ 20" "wd_ok env"
  obtains ws rnd where "list_all2 (\<lambda>x w. fd_datawrite (nf_format L fs) x = Some w \<and> w \<noteq> []) ns ws"
    "length (concat ws) < 2 ^ 63" "length rnd = 32"
    "write_notiffile L True env acc fs ns =
       Done (0, Some (datafile_format.file_of L rnd [] (ac_n_symm acc) (ac_n_hmac acc) ns (concat ws)))"
proof -
  have e: "wd_open env" "\<forall>k n. wd_mem env k n" "\<forall>j. wd_tx env j = None"
    and "\<exists>r. wd_rand env = Some r \<and> length r = 32" using assms(5) by (auto simp: wd_ok_def)
  then obtain rnd where r: "wd_rand env = Some rnd" "length rnd = 32" by blast
  have s: "\<forall>n \<in> set ns. sized (nf_format L fs) n" using assms(1-3) notif_written by blast
  have nf: "nf_same acc acc" by (simp add: nf_same_def)
  from notiffile.write_ok [OF assms(1) nf_keys(1-4) [OF nf] e(1,2) r(1) e(3) s notifs_total [OF assms(3,4)]]
  obtain ws where "list_all2 (\<lambda>x w. fd_datawrite (nf_format L fs) x = Some w \<and> w \<noteq> []) ns ws"
    "length (concat ws) = datafile_format.total (nf_format L fs) ns"
    "write_datafile L (nf_format L fs) env acc ns =
       Done (0, acc, Some (datafile_format.file_of L rnd [] (ac_n_symm acc) (ac_n_hmac acc) ns (concat ws)))" by blast
  with r(2) notifs_total [OF assms(3,4)] show ?thesis by (intro that [of ws rnd]) (simp_all add: write_notiffile_def)
qed

section \<open>The search for the sender\<close>

lemma new_message_scan_result:
  "new_message_scan ns f cur = Some r \<Longrightarrow>
     (if cur < length ns then (\<exists>n. ns ! cur = NMessage f n) \<and> r = Some cur else r = None)"
  by (rule new_message_scan.raw_induct [where P = "\<lambda>ns f cur r.
        if cur < length ns then (\<exists>n. ns ! cur = NMessage f n) \<and> r = Some cur else r = None"])
    (fastforce split: if_split_asm notif.split_asm)+

lemma new_message_scan_head:
  "new_message_scan (n # ns) f 0 = (if \<exists>k. n = NMessage f k then Some (Some 0) else None)"
proof (cases "\<exists>k. n = NMessage f k")
  case True
  then show ?thesis by (auto simp: new_message_scan.simps)
next
  case False
  then have "new_message_scan (n # ns) f 0 \<noteq> Some r" for r using new_message_scan_result [of "n # ns" f 0 r] by auto
  then show ?thesis using False by (cases "new_message_scan (n # ns) f 0") auto
qed

lemma new_message_scan_empty: "new_message_scan [] f 0 = Some None"
  by (simp add: new_message_scan.simps)

lemma store_notifs_frame:
  assumes "store_notifs L e s = Done (r, s')"
  shows "\<exists>f. s' = s\<lparr>cs_nf_file := f\<rparr>"
proof -
  have "s = s\<lparr>cs_nf_file := cs_nf_file s\<rparr>" by simp
  with assms show ?thesis unfolding store_notifs_def
    by (auto simp: exec_bind_Done_iff split: option.split_asm prod.split_asm intro: exI [of _ "cs_nf_file s"])
qed

lemma insert_notif_free:
  assumes "cs_lock s = 0"
  shows "insert_notif L e n s = Some (exec_bind (store_notifs L e (s\<lparr>cs_lock := -1, cs_notifs := cs_notifs s @ [n]\<rparr>))
    (\<lambda>(r, s1). Done (r, s1\<lparr>cs_lock := 0\<rparr>)))"
proof -
  have "unlock_write s1 = Done (s1\<lparr>cs_lock := 0\<rparr>)"
    if "store_notifs L e (s\<lparr>cs_lock := -1, cs_notifs := cs_notifs s @ [n]\<rparr>) = Done (r, s1)" for r s1
    using store_notifs_frame [OF that] by (auto simp: unlock_write_def lock_free)
  then show ?thesis using assms
    by (cases "store_notifs L e (s\<lparr>cs_lock := -1, cs_notifs := cs_notifs s @ [n]\<rparr>)")
      (auto simp: insert_notif_def with_writelock_def lock_free(3))
qed

lemma tell_user_free:
  "cs_lock s = 0 \<Longrightarrow> tell_user (r, s) = Some (Done (r, if cs_mode s = 0 then s\<lparr>cs_mode := 0xff\<rparr> else s))"
  by (simp add: tell_user_def get_mode_free set_mode_free)

lemma store_notifs_ok:
  assumes "lib_ok L" "uids_ok (cs_friends s)" "\<forall>n \<in> set (cs_notifs s). notif_sized (cs_friends s) n"
    "length (cs_notifs s) < 2 ^ 20" "fst e" "wd_ok (snd e)"
  obtains fl where "store_notifs L e s = Done (0, s\<lparr>cs_nf_file := Some fl\<rparr>)"
    "write_notiffile L True (snd e) (cs_acc s) (cs_friends s) (cs_notifs s) = Done (0, Some fl)"
proof -
  from write_notiffile_ok [OF assms(1-4,6), of "cs_acc s"] obtain fl where
    "write_notiffile L True (snd e) (cs_acc s) (cs_friends s) (cs_notifs s) = Done (0, Some fl)" by blast
  with assms(5) show ?thesis by (intro that [of fl]) (simp_all add: store_notifs_def)
qed

lemma stored_notifs_read:
  assumes "lib_ok L" and "uids_ok fs" and "\<forall>n \<in> set ns. notif_ok fs n" and "length ns < 2 ^ 20" and "wd_ok env"
    and "nf_same acc acc'" and "\<forall>k n. mem k n" and "\<forall>i k n. imem i k n"
  shows "\<exists>fl. write_notiffile L True env acc fs ns = Done (0, Some fl) \<and>
    read_notiffile L True mem imem acc' fs (Some fl) = Done (0, Some ns)"
proof -
  from assms(5) obtain rnd where e: "wd_open env" "\<forall>k n. wd_mem env k n" "wd_rand env = Some rnd" "length rnd = 32"
    "\<forall>j. wd_tx env j = None" by (auto simp: wd_ok_def)
  have ok: "\<forall>n \<in> set ns. lib_ok L \<and> uids_ok fs \<and> notif_ok fs n" "length ns < 2 ^ 64" "\<forall>n \<in> set ns. notif_sized fs n"
    using assms(1-4) by (auto simp: notif_sized_def)
  from notiffile.roundtrip [OF assms(1,6) e ok(1) notifs_total [OF ok(3) assms(4)] ok(2) assms(7,8)]
  show ?thesis by (auto simp: write_notiffile_def read_notiffile_def)
qed

lemma message_counted:
  assumes "lib_ok L" and "uids_ok (cs_friends s)" and "f < length (cs_friends s)" and "cs_lock s = 0"
    and "\<forall>n \<in> set (cs_notifs s). notif_ok (cs_friends s) n" and "length (cs_notifs s) < 1000000"
    and "cs_notifs s = [] \<or> hd (cs_notifs s) = NMessage f k" and "fst e" and "wd_ok (snd e)" and "\<forall>i n. mem i n"
  defines "ns \<equiv> (if cs_notifs s = [] then [NMessage f 1] else NMessage f (k + 1) # tl (cs_notifs s))"
    and "m \<equiv> (if cs_notifs s = [] \<and> cs_mode s = 0 then 0xff else cs_mode s)"
  shows "\<exists>fl. add_new_message L e mem f s =
      Some (Done (0, s\<lparr>cs_notifs := ns, cs_nf_file := Some fl, cs_mode := m\<rparr>)) \<and>
    read_notiffile L True mem (\<lambda>_ _ _. True) (cs_acc s) (cs_friends s) (Some fl) = Done (0, Some ns)"
proof -
  have ok: "\<forall>n \<in> set ns. notif_ok (cs_friends s) n" "length ns < 2 ^ 20"
    using assms(3,5,6,7) by (auto simp: ns_def dest: list.set_sel(2))
  have z: "\<forall>n \<in> set ns. notif_sized (cs_friends s) n" using ok(1) by (simp add: notif_sized_def)
  let ?sl = "s\<lparr>cs_lock := -1, cs_notifs := ns\<rparr>"
  from stored_notifs_read [OF assms(1,2) ok(1,2) assms(9), where acc = "cs_acc s" and acc' = "cs_acc s" and mem = mem and imem = "\<lambda>_ _ _. True"]
  obtain fl where fl: "write_notiffile L True (snd e) (cs_acc s) (cs_friends s) ns = Done (0, Some fl)"
    "read_notiffile L True mem (\<lambda>_ _ _. True) (cs_acc s) (cs_friends s) (Some fl) = Done (0, Some ns)"
    using assms(10) by (auto simp: nf_same_def)
  have st: "store_notifs L e t = Done (0, t\<lparr>cs_nf_file := Some fl\<rparr>)"
    if "cs_notifs t = ns" "cs_acc t = cs_acc s" "cs_friends t = cs_friends s" for t
    using fl(1) assms(8) that by (simp add: store_notifs_def)
  show ?thesis
  proof (cases "cs_notifs s")
    case Nil
    then have n: "ns = [NMessage f 1]" by (simp add: ns_def)
    have i: "insert_notif L e (NMessage f 1) s = Some (Done (0, s\<lparr>cs_notifs := ns, cs_nf_file := Some fl\<rparr>))"
      unfolding insert_notif_free [OF assms(4)] using st [of ?sl] Nil n assms(4) by simp
    show ?thesis
      using i Nil fl(2) assms(4,10)
      by (intro exI [of _ fl]) (simp add: add_new_message_def lock_free(3) new_message_scan_empty tell_user_free m_def)
  next
    case (Cons n0 rest)
    then have n: "n0 = NMessage f k" "ns = NMessage f (k + 1) # rest" using assms(7) by (auto simp: ns_def)
    show ?thesis
      using st [of "s\<lparr>cs_notifs := ns\<rparr>"] Cons n fl(2) assms(4)
      by (intro exI [of _ fl]) (simp add: add_new_message_def lock_free(3) new_message_scan_head m_def)
  qed
qed

section \<open>Properties\<close>

text \<open>
  Notifications survive a restart: what \<open>write_notiffile\<close> stores, \<open>read_notiffile\<close> returns, record by
  record, for message counters and friend requests (and the types the program does not use), when
  the friends have different user ids.
\<close>
theorem notiffile_roundtrip:
  assumes "lib_ok L" and "uids_ok fs" and "\<forall>n \<in> set ns. notif_ok fs n" and "length ns < 2 ^ 20" and "wd_ok env"
    and "nf_same acc acc'" and "\<forall>k n. mem k n" and "\<forall>i k n. imem i k n"
  shows "\<exists>fl. write_notiffile L True env acc fs ns = Done (0, Some fl) \<and>
    read_notiffile L True mem imem acc' fs (Some fl) = Done (0, Some ns)"
  using assms by (rule stored_notifs_read)

text \<open>
  A notification of type 3 ("accepted your friend request") locks the user out. When one is
  the last of the list, \<open>write_notiffile\<close> reports success, but \<open>read_notiffile\<close> always rejects the file it
  wrote: the parser moves 40 bytes for the 32 that were stored. \<open>select_profile\<close> treats that as a fatal
  error, so the account cannot be used again.
\<close>
theorem accepted_notif_unreadable:
  assumes "lib_ok L" and "uids_ok fs" and "\<forall>n \<in> set ns. notif_ok fs n" and "i < length fs" and "length ns < 1000000"
    and "wd_ok env" and "nf_same acc acc'" and "\<forall>k n. mem k n" and "\<forall>i k n. imem i k n"
  shows "\<exists>fl. write_notiffile L True env acc fs (ns @ [NAccepted i]) = Done (0, Some fl) \<and>
    read_notiffile L True mem imem acc' fs (Some fl) = Done (-1, None)"
proof -
  let ?F = "nf_format L fs" and ?ns = "ns @ [NAccepted i]"
  have s: "\<forall>n \<in> set ?ns. notif_sized fs n" "length ?ns < 2 ^ 20" using assms(3-5) by (auto simp: notif_sized_def)
  from write_notiffile_ok [OF assms(1,2) s assms(6), of acc] obtain ws rnd where
    w: "list_all2 (\<lambda>x w. fd_datawrite ?F x = Some w \<and> w \<noteq> []) ?ns ws" "length (concat ws) < 2 ^ 63" "length rnd = 32"
      "write_notiffile L True env acc fs ?ns =
         Done (0, Some (datafile_format.file_of L rnd [] (ac_n_symm acc) (ac_n_hmac acc) ?ns (concat ws)))" .
  from w(1) obtain ws1 w2 where ws: "ws = ws1 @ [w2]" "fd_datawrite ?F (NAccepted i) = Some w2"
    "list_all2 (\<lambda>x w. fd_datawrite ?F x = Some w \<and> w \<noteq> []) ns ws1"
    by (auto simp: list_all2_append1 list_all2_Cons1)
  have w2: "w2 = notif_bin_write L fs (NAccepted i)" using ws(2) by (simp add: nf_format_def)
  have l2: "length w2 = 33" unfolding w2 using uid_length [OF assms(2,4)] by simp
  have c: "concat ws = [] @ concat ws1 @ w2" using ws(1) by simp
  have ok: "\<forall>n \<in> set ns. lib_ok L \<and> uids_ok fs \<and> notif_ok fs n" using assms(1-3) by blast
  have lp: "length ([] @ concat ws1 @ w2) < 2 ^ 63" using w(2) ws(1) by simp
  have p: "read_items ?F acc' imem ([] @ concat ws1 @ w2) (length ns + 1) 0 =
      exec_bind (read_items ?F acc' imem ([] @ concat ws1 @ w2) 1 (length ([] @ concat ws1)))
        (\<lambda>r. Done (map_option (\<lambda>(xs, off). (ns @ xs, off)) r))"
    using notiffile.read_prefix [OF _ assms(9) ws(3) ok lp, where ?g2.0 = acc' and n = 1] nf_dataread by simp
  have q: "fd_dataread ?F acc' (imem 0) (concat ws1 @ w2) (length (concat ws1)) =
      Done (Some (NAccepted i, length (concat ws1) + 0x29))"
    unfolding w2 using parse_accepted [OF assms(2,4), of "imem 0" L "concat ws1"] assms(9) by (simp add: nf_format_def)
  have r: "read_items ?F acc' imem (concat ws) (length ?ns) 0 = Done (Some (?ns, length (concat ws1) + 0x29))"
    unfolding c using p q l2 by simp
  have n: "length ?ns < 2 ^ 64" "length (concat ws) = length (concat ws1) + 33" using s(2) c l2 by simp_all
  have k: "fd_s_key ?F acc' ([] @ rest) = (acc', Some (ac_n_symm acc)) \<and>
      fd_h_key ?F acc' ([] @ rest) = (acc', Some (ac_n_hmac acc))" for rest
    using nf_keys(5,6) [OF assms(7)] by blast
  have "read_datafile L ?F mem imem acc'
      (Some (datafile_format.file_of L rnd [] (ac_n_symm acc) (ac_n_hmac acc) ?ns (concat ws))) = Done (-1, acc', None)"
    unfolding notiffile.read_file_eq [OF assms(1) w(3) nf_keys(2) [OF assms(7)] w(2) n(1) k assms(8)] r
    using n(2) by simp
  then show ?thesis using w(4) by (simp add: read_notiffile_def)
qed

text \<open>
  C34: When a message from a friend is counted. With the lock free, \<open>add_new_message\<close> returns if and only
  if there are no notifications or the first one is the counter of that friend: in every other case
  its loop looks at the first notification for ever, with the lock held.
\<close>
theorem add_new_message_returns_iff:
  assumes "cs_lock s = 0"
  shows "(\<exists>out. add_new_message L e mem f s = Some out) \<longleftrightarrow>
    cs_notifs s = [] \<or> (\<exists>n. hd (cs_notifs s) = NMessage f n)"
proof (cases "cs_notifs s")
  case Nil
  have "\<exists>out. tell_user rs = Some out"
    if i: "insert_notif L e (NMessage f 1) s = Some (Done rs)" for rs
  proof (cases rs)
    case (Pair r s1)
    have "cs_lock s1 = 0"
      using i unfolding insert_notif_free [OF assms] Pair by (auto simp: exec_bind_Done_iff)
    then show ?thesis unfolding Pair using tell_user_free by blast
  qed
  moreover obtain y where y: "insert_notif L e (NMessage f 1) s = Some y" unfolding insert_notif_free [OF assms] by blast
  ultimately have "\<exists>out. run_bind (Some y) tell_user = Some out" by (cases y) auto
  then show ?thesis
    using assms Nil y by (auto simp: add_new_message_def lock_free(3) new_message_scan_empty)
next
  case (Cons n ns)
  then show ?thesis
    using assms by (auto simp: add_new_message_def lock_free(3) new_message_scan_head)
qed

text \<open>
  Counting a message when \<open>add_new_message\<close> does return: the first unread message of a friend becomes
  a notification of one message, tells a user at the menu, and is stored; a later one increments the
  counter (which wraps at 2^64) and stores it; the stored file is the one \<open>read_notiffile\<close> reads back.
\<close>
theorem add_new_message_counts:
  assumes "lib_ok L" and "uids_ok (cs_friends s)" and "f < length (cs_friends s)" and "cs_lock s = 0"
    and "\<forall>n \<in> set (cs_notifs s). notif_ok (cs_friends s) n" and "length (cs_notifs s) < 1000000"
    and "cs_notifs s = [] \<or> hd (cs_notifs s) = NMessage f k" and "fst e" and "wd_ok (snd e)" and "\<forall>i n. mem i n"
  defines "ns \<equiv> (if cs_notifs s = [] then [NMessage f 1] else NMessage f (k + 1) # tl (cs_notifs s))"
    and "m \<equiv> (if cs_notifs s = [] \<and> cs_mode s = 0 then 0xff else cs_mode s)"
  shows "\<exists>fl. add_new_message L e mem f s =
      Some (Done (0, s\<lparr>cs_notifs := ns, cs_nf_file := Some fl, cs_mode := m\<rparr>)) \<and>
    read_notiffile L True mem (\<lambda>_ _ _. True) (cs_acc s) (cs_friends s) (Some fl) = Done (0, Some ns)"
  unfolding ns_def m_def by (rule message_counted [OF assms(1-10)])

section \<open>Witnesses\<close>

lemma demo_uids_ok: "uids_ok [demo_friend]"
  using demo_friend_ok lib_ok_parts [OF demo_lib_ok] by (simp add: uids_ok_def friend_ok_def length_gen_uid)

theorem notiffile_roundtrip_witness:
  "\<exists>fl. write_notiffile demo_lib True demo_wd demo_account [demo_friend] [NMessage 0 3] = Done (0, Some fl) \<and>
    read_notiffile demo_lib True (\<lambda>_ _. True) (\<lambda>_ _ _. True) demo_account [demo_friend] (Some fl) = Done (0, Some [NMessage 0 3])"
  using notiffile_roundtrip [OF demo_lib_ok demo_uids_ok _ _ demo_wd_ok, where ns = "[NMessage 0 3]" and acc = demo_account and acc' = demo_account]
  by (simp add: nf_same_def)

theorem accepted_notif_unreadable_witness:
  "\<exists>fl. write_notiffile demo_lib True demo_wd demo_account [demo_friend] [NMessage 0 3, NAccepted 0] = Done (0, Some fl) \<and>
    read_notiffile demo_lib True (\<lambda>_ _. True) (\<lambda>_ _ _. True) demo_account [demo_friend] (Some fl) = Done (-1, None)"
  using accepted_notif_unreadable [OF demo_lib_ok demo_uids_ok _ _ _ demo_wd_ok, where ns = "[NMessage 0 3]" and i = 0
      and acc = demo_account and acc' = demo_account]
  by (simp add: nf_same_def)

theorem add_new_message_returns_iff_witness:
  "add_new_message demo_lib (True, demo_wd) (\<lambda>_ _. True) 0 (demo_user_client\<lparr>cs_notifs := [NAccepted 0]\<rparr>) = None"
  using add_new_message_returns_iff [of "demo_user_client\<lparr>cs_notifs := [NAccepted 0]\<rparr>" demo_lib "(True, demo_wd)" "\<lambda>_ _. True" 0]
  by (simp add: demo_user_client_def)

theorem add_new_message_counts_witness:
  "\<exists>fl. add_new_message demo_lib (True, demo_wd) (\<lambda>_ _. True) 0 demo_user_client =
    Some (Done (0, demo_user_client\<lparr>cs_notifs := [NMessage 0 1], cs_nf_file := Some fl, cs_mode := 0xff\<rparr>))"
proof -
  have h: "uids_ok (cs_friends demo_user_client)" "0 < length (cs_friends demo_user_client)" "cs_lock demo_user_client = 0"
    "\<forall>n \<in> set (cs_notifs demo_user_client). notif_ok (cs_friends demo_user_client) n" "length (cs_notifs demo_user_client) < 1000000"
    "cs_notifs demo_user_client = [] \<or> hd (cs_notifs demo_user_client) = NMessage 0 k" "fst (True, demo_wd)" "wd_ok (snd (True, demo_wd))" for k
    using demo_uids_ok demo_wd_ok by (simp_all add: demo_user_client_def)
  from add_new_message_counts [OF demo_lib_ok h, where mem = "\<lambda>_ _. True"] show ?thesis
    by (auto simp: demo_user_client_def)
qed

end
