(* ===== verification/Convfile.thy ===== *)
theory Convfile
  imports ClientState Undelivered
begin

text \<open>
  The second half of \<open>client/conversation.c\<close>: the file in which the messages exchanged with a friend are
  kept. It starts with its length, the number of messages and a MAC; each message has an encrypted
  head with a MAC chained to the message before, and the encrypted text with a MAC of its own. The
  file is shown to be the list of messages: appending is \<open>@\<close>, loading gives the list, and a file
  that loads at all is the image of what it loads.
\<close>

section \<open>The code\<close>

text \<open>What a call meets: \<open>file_path\<close>, \<open>fopen\<close>, the allocations, and the outcome of the k-th write.\<close>

record cf_env =
  cf_path :: bool
  cf_open :: bool
  cf_mem :: heap_oracle
  cf_tx :: "nat \<Rightarrow> nat option"

definition alloc_cmessage :: "heap_oracle \<Rightarrow> u64 \<Rightarrow> bool exec" where
  "alloc_cmessage mem len =
     (if \<not> mem 0 32 then Done False
      else if \<not> mem 1 (len + 1) then Done False
      else if len + 1 = 0 then UB else Done True)"

definition cfile_header :: "ibc \<Rightarrow> friend \<Rightarrow> u64 \<Rightarrow> u64 \<Rightarrow> bytes" where
  "cfile_header L f flen mnum =
     (let b = encbe64 L flen @ encbe64 L mnum in b @ hmac_sha256 L (fr_f_hmac_key f) b)"

text \<open>\<open>cfile_init\<close> without the lock: the result and the new content of the file, if it was opened.\<close>

definition cfile_init_file :: "ibc \<Rightarrow> cf_env \<Rightarrow> friend \<Rightarrow> int \<times> bytes option" where
  "cfile_init_file L env f =
     (if \<not> cf_path env then (-1, None)
      else if \<not> cf_open env then (-1, None)
      else case send_fields (cf_tx env) [cfile_header L f 0x30 0] of
        (ok, w) \<Rightarrow> (if ok then 0 else -1, Some w))"

definition fwrite_all :: "nat option \<Rightarrow> bytes \<Rightarrow> stream \<Rightarrow> bool \<times> stream" where
  "fwrite_all short bs s = (case short of
     Some k \<Rightarrow> (False, fwrite_n (take k bs) s)
   | None \<Rightarrow> (True, fwrite_n bs s))"

text \<open>The second part of \<open>cfile_add\<close>, once the new header is written.\<close>

definition cfile_append :: "ibc \<Rightarrow> cf_env \<Rightarrow> friend \<Rightarrow> cmessage \<Rightarrow> u64 \<Rightarrow> u64 \<Rightarrow> stream \<Rightarrow> int \<times> stream" where
  "cfile_append L env f m flen mnum s =
     (case fseek_set (flen - 32) s of
       None \<Rightarrow> (-1, s)
     | Some s1 \<Rightarrow> (case fread_n 0x20 s1 of
       None \<Rightarrow> (-1, s1)
     | Some (pm, s2) \<Rightarrow>
       let text = cstr (cm_text m); mlen = of_nat (length text);
           prev = (if mnum = 0 then INITIAL_PREV_MAC else pm);
           h = chacha_stream L (fr_f_symm_key f) (mnum + 1) 0 (encbe64 L mlen @ encbe64 L (word_of_int (cm_sender m)));
           mac1 = hmac_sha256 L (fr_f_hmac_key f) (prev @ h)
       in (case fwrite_all (cf_tx env 1) h s2 of
         (False, s3) \<Rightarrow> (-1, s3)
       | (True, s3) \<Rightarrow> (case fwrite_all (cf_tx env 2) mac1 s3 of
         (False, s4) \<Rightarrow> (-1, s4)
       | (True, s4) \<Rightarrow>
         if \<not> cf_mem env 0 mlen then (-1, s4)
         else let encm = chacha_stream L (fr_f_symm_key f) (mnum + 1) 16 text;
                  mac2 = hmac_sha256 L (fr_f_hmac_key f) (h @ mac1 @ encm)
         in (case fwrite_all (cf_tx env 3) encm s4 of
           (False, s5) \<Rightarrow> (-1, s5)
         | (True, s5) \<Rightarrow> (case fwrite_all (cf_tx env 4) mac2 s5 of
           (False, s6) \<Rightarrow> (-1, s6)
         | (True, s6) \<Rightarrow> (0, s6)))))))"

text \<open>\<open>cfile_add\<close> without the check and the lock, on the present content of the file.\<close>

definition cfile_add_file :: "ibc \<Rightarrow> cf_env \<Rightarrow> friend \<Rightarrow> cmessage \<Rightarrow> bytes \<Rightarrow> int \<times> bytes" where
  "cfile_add_file L env f m file =
     (if \<not> cf_path env then (-1, file)
      else if \<not> cf_open env then (-1, file)
      else case fread_n 0x30 (fopen_bytes file) of
        None \<Rightarrow> (-1, file)
      | Some (buf, s) \<Rightarrow>
        if memcmp_ct L (drop 16 buf) (hmac_sha256 L (fr_f_hmac_key f) (take 16 buf)) \<noteq> 0 then (-1, file)
        else let flen = decbe64 L (take 8 buf); mnum = decbe64 L (slice 8 8 buf);
                 mlen = of_nat (length (cstr (cm_text m))) in
          (case fseek_set 0 s of
            None \<Rightarrow> (-1, file)
          | Some s1 \<Rightarrow> (case fwrite_all (cf_tx env 0) (cfile_header L f (flen + 0x50 + mlen) (mnum + 1)) s1 of
              (False, s2) \<Rightarrow> (-1, st_data s2)
            | (True, s2) \<Rightarrow> (case cfile_append L env f m flen mnum s2 of (r, s3) \<Rightarrow> (r, st_data s3)))))"

text \<open>
  The loop of \<open>cfile_load\<close> for the messages \<open>i\<close>, \<open>i + 1\<close>, \<dots>, of which \<open>n\<close> are left: the messages, and
  \<open>pos\<close> at the end.
\<close>

fun cfile_read :: "ibc \<Rightarrow> (nat \<Rightarrow> heap_oracle) \<Rightarrow> friend \<Rightarrow> nat \<Rightarrow> nat \<Rightarrow> bytes \<Rightarrow> u64 \<Rightarrow> bytes \<Rightarrow>
    (cmessage list \<times> u64) option exec" where
  "cfile_read L mem f i 0 prev pos inp = Done (Some ([], pos))"
| "cfile_read L mem f i (Suc n) prev pos inp = (case rd 0x10 inp of
     None \<Rightarrow> Done None
   | Some (h, i1) \<Rightarrow> (case rd 0x20 i1 of
     None \<Rightarrow> Done None
   | Some (mac1, i2) \<Rightarrow>
     if memcmp_ct L mac1 (hmac_sha256 L (fr_f_hmac_key f) (prev @ h)) \<noteq> 0 then Done None
     else let tmp = chacha_stream L (fr_f_symm_key f) (of_nat i) 0 h;
              mlen = decbe64 L (take 8 tmp); sender = decbe64 L (drop 8 tmp)
       in if sender \<noteq> 0 \<and> sender \<noteq> 1 then Done None
          else exec_bind (alloc_cmessage (mem i) mlen) (\<lambda>ok. if \<not> ok then Done None
            else (case rd (unat mlen) i2 of
              None \<Rightarrow> Done None
            | Some (ct, i3) \<Rightarrow> (case rd 0x20 i3 of
              None \<Rightarrow> Done None
            | Some (mac2, i4) \<Rightarrow>
              if memcmp_ct L mac2 (hmac_sha256 L (fr_f_hmac_key f) (h @ mac1 @ ct)) \<noteq> 0 then Done None
              else exec_bind (cfile_read L mem f (Suc i) n mac2 (pos + 0x30 + 0x20 + mlen) i4) (\<lambda>r.
                Done (map_option (\<lambda>(ms, p).
                  (\<lparr>cm_sender = sint sender, cm_text = chacha_stream L (fr_f_symm_key f) (of_nat i) 16 ct\<rparr> # ms, p)) r)))))))"

definition cfile_load_file :: "ibc \<Rightarrow> bool \<Rightarrow> (nat \<Rightarrow> heap_oracle) \<Rightarrow> friend \<Rightarrow> bytes option \<Rightarrow> (int \<times> cmessage list) exec" where
  "cfile_load_file L path mem f file =
     (if \<not> path then Done (-1, [])
      else case file of None \<Rightarrow> Done (-1, [])
      | Some d \<Rightarrow> (case rd 0x30 d of
          None \<Rightarrow> Done (-1, [])
        | Some (buf, inp) \<Rightarrow>
          if memcmp_ct L (drop 16 buf) (hmac_sha256 L (fr_f_hmac_key f) (take 16 buf)) \<noteq> 0 then Done (-1, [])
          else exec_bind (cfile_read L mem f 1 (unat (decbe64 L (slice 8 8 buf))) INITIAL_PREV_MAC 0x30 inp) (\<lambda>r. case r of
              None \<Rightarrow> Done (-1, [])
            | Some (ms, pos) \<Rightarrow> if pos \<noteq> decbe64 L (take 8 buf) then Done (-1, []) else Done (0, ms))))"

section \<open>The code: the files of the running client\<close>

text \<open>
  \<open>fopen\<close> for reading fails when the file does not exist; \<open>cfile_check\<close> then closes the null pointer
  before it gets to \<open>cfile_init\<close>.
\<close>

definition cfile_init :: "ibc \<Rightarrow> cf_env \<Rightarrow> friend \<Rightarrow> client_state \<Rightarrow> (int \<times> client_state) run" where
  "cfile_init L env f = with_writelock (\<lambda>s. case cfile_init_file L env f of
     (r, d) \<Rightarrow> exec_bind (unlock_write (case d of None \<Rightarrow> s | Some d \<Rightarrow> s\<lparr>cs_cfiles := (cs_cfiles s)(fr_c_file f \<mapsto> d)\<rparr>))
       (\<lambda>s1. Done (r, s1)))"

definition cfile_check :: "ibc \<Rightarrow> cf_env \<Rightarrow> friend \<Rightarrow> client_state \<Rightarrow> int exec" where
  "cfile_check L env f s =
     (if \<not> cf_path env then Done (-1)
      else if cs_cfiles s (fr_c_file f) = None \<or> \<not> cf_open env then UB
      else Done 0)"

definition cfile_load :: "ibc \<Rightarrow> cf_env \<Rightarrow> (nat \<Rightarrow> heap_oracle) \<Rightarrow> friend \<Rightarrow> client_state \<Rightarrow> (int \<times> cmessage list) run" where
  "cfile_load L env mem f s = (case acquire_readlock (cs_lock s) of
     None \<Rightarrow> None
   | Some us \<Rightarrow> Some (cfile_load_file L (cf_path env) mem f (if cf_open env then cs_cfiles s (fr_c_file f) else None)))"

definition cfile_add :: "ibc \<Rightarrow> cf_env \<Rightarrow> cf_env \<Rightarrow> friend \<Rightarrow> cmessage \<Rightarrow> client_state \<Rightarrow> (int \<times> client_state) run" where
  "cfile_add L cenv env f m s = (case cfile_check L cenv f s of
     UB \<Rightarrow> Some UB
   | Done c \<Rightarrow>
       if c \<noteq> 0 then Some (Done (-1, s))
       else with_writelock (\<lambda>s1. case cs_cfiles s1 (fr_c_file f) of
           None \<Rightarrow> exec_bind (unlock_write s1) (\<lambda>s2. Done (-1, s2))
         | Some d \<Rightarrow> (case cfile_add_file L env f m d of (r, d') \<Rightarrow>
             exec_bind (unlock_write (s1\<lparr>cs_cfiles := (cs_cfiles s1)(fr_c_file f \<mapsto> d')\<rparr>)) (\<lambda>s2. Done (r, s2)))) s)"

section \<open>The file as a list of messages\<close>

definition cf_head :: "ibc \<Rightarrow> friend \<Rightarrow> nat \<Rightarrow> cmessage \<Rightarrow> bytes" where
  "cf_head L f i m = chacha_stream L (fr_f_symm_key f) (of_nat i) 0
     (encbe64 L (of_nat (length (cm_text m))) @ encbe64 L (word_of_int (cm_sender m)))"

definition cf_body :: "ibc \<Rightarrow> friend \<Rightarrow> nat \<Rightarrow> cmessage \<Rightarrow> bytes" where
  "cf_body L f i m = chacha_stream L (fr_f_symm_key f) (of_nat i) 16 (cm_text m)"

definition cf_mac1 :: "ibc \<Rightarrow> friend \<Rightarrow> bytes \<Rightarrow> nat \<Rightarrow> cmessage \<Rightarrow> bytes" where
  "cf_mac1 L f prev i m = hmac_sha256 L (fr_f_hmac_key f) (prev @ cf_head L f i m)"

definition cf_mac2 :: "ibc \<Rightarrow> friend \<Rightarrow> bytes \<Rightarrow> nat \<Rightarrow> cmessage \<Rightarrow> bytes" where
  "cf_mac2 L f prev i m = hmac_sha256 L (fr_f_hmac_key f) (cf_head L f i m @ cf_mac1 L f prev i m @ cf_body L f i m)"

text \<open>The messages from number \<open>i\<close> on, chained to \<open>prev\<close>; and the last MAC of them.\<close>

fun cf_entries :: "ibc \<Rightarrow> friend \<Rightarrow> nat \<Rightarrow> bytes \<Rightarrow> cmessage list \<Rightarrow> bytes" where
  "cf_entries L f i prev [] = []"
| "cf_entries L f i prev (m # ms) =
     cf_head L f i m @ cf_mac1 L f prev i m @ cf_body L f i m @ cf_mac2 L f prev i m @
     cf_entries L f (Suc i) (cf_mac2 L f prev i m) ms"

fun cf_last :: "ibc \<Rightarrow> friend \<Rightarrow> nat \<Rightarrow> bytes \<Rightarrow> cmessage list \<Rightarrow> bytes" where
  "cf_last L f i prev [] = prev"
| "cf_last L f i prev (m # ms) = cf_last L f (Suc i) (cf_mac2 L f prev i m) ms"

definition cf_length :: "cmessage list \<Rightarrow> nat" where
  "cf_length ms = sum_list (map (\<lambda>m. 0x50 + length (cm_text m)) ms)"

definition cfile_image :: "ibc \<Rightarrow> friend \<Rightarrow> cmessage list \<Rightarrow> bytes" where
  "cfile_image L f ms = cfile_header L f (of_nat (0x30 + cf_length ms)) (of_nat (length ms)) @ cf_entries L f 1 INITIAL_PREV_MAC ms"

text \<open>The messages the program makes: sent or received, no zero in the text.\<close>

definition cmessage_ok :: "cmessage \<Rightarrow> bool" where
  "cmessage_ok m \<longleftrightarrow> (cm_sender m = 0 \<or> cm_sender m = 1) \<and> 0 \<notin> set (cm_text m) \<and> length (cm_text m) < 2 ^ 60"

lemma cstr_no_zero: "0 \<notin> set t \<Longrightarrow> cstr t = t"
  unfolding cstr_def by (rule takeWhile_eq_all_conv [THEN iffD2]) blast

lemma cf_lengths:
  assumes "lib_ok L"
  shows "length (cf_head L f i m) = 16" "length (cf_mac1 L f prev i m) = 32" "length (cf_body L f i m) = length (cm_text m)"
    "length (cf_mac2 L f prev i m) = 32"
  using lib_ok_parts [OF assms] by (simp_all add: cf_head_def cf_mac1_def cf_body_def cf_mac2_def endian_simps digest_simps cipher_simps)

lemma length_cf_entries: "lib_ok L \<Longrightarrow> length (cf_entries L f i prev ms) = cf_length ms"
  by (induction ms arbitrary: i prev) (simp_all add: cf_length_def cf_lengths)

lemma cf_entries_append:
  "cf_entries L f i prev (ms @ [m]) = cf_entries L f i prev ms @ cf_entries L f (i + length ms) (cf_last L f i prev ms) [m]"
  by (induction ms arbitrary: i prev) simp_all

lemma cf_entries_last:
  assumes "lib_ok L"
  shows "ms \<noteq> [] \<Longrightarrow> \<exists>xs. cf_entries L f i prev ms = xs @ cf_last L f i prev ms \<and> length xs + 32 = cf_length ms"
proof (induction ms arbitrary: i prev)
  case Nil
  then show ?case by simp
next
  case (Cons m ms)
  let ?e = "cf_head L f i m @ cf_mac1 L f prev i m @ cf_body L f i m" and ?c = "cf_mac2 L f prev i m"
  show ?case
  proof (cases "ms = []")
    case True
    then show ?thesis by (intro exI [of _ ?e]) (simp add: cf_length_def cf_lengths [OF assms])
  next
    case False
    from Cons.IH [OF this, of "Suc i" ?c] obtain xs where
      "cf_entries L f (Suc i) ?c ms = xs @ cf_last L f (Suc i) ?c ms" "length xs + 32 = cf_length ms" by blast
    then show ?thesis
      by (intro exI [of _ "?e @ ?c @ xs"]) (simp add: cf_length_def cf_lengths [OF assms])
  qed
qed

lemma cfile_header_eq: "cfile_header L f a b = undel_header L (fr_f_hmac_key f) a b"
  by (simp add: cfile_header_def undel_header_def)

lemma length_cfile_header: "lib_ok L \<Longrightarrow> length (cfile_header L f a b) = 48"
  by (simp add: cfile_header_eq length_undel_header)

lemma cfile_header_fields:
  assumes "lib_ok L"
  shows "decbe64 L (take 8 (cfile_header L f a b)) = a" "decbe64 L (slice 8 8 (cfile_header L f a b)) = b"
    "memcmp_ct L (drop 16 (cfile_header L f a b)) (hmac_sha256 L (fr_f_hmac_key f) (take 16 (cfile_header L f a b))) = 0"
proof -
  note ok = lib_ok_parts [OF assms]
  note h = header_fields [OF assms, of "fr_f_hmac_key f" a b, folded cfile_header_eq]
  show "decbe64 L (take 8 (cfile_header L f a b)) = a" "decbe64 L (slice 8 8 (cfile_header L f a b)) = b"
    using h ok by (simp_all add: endian_simps)
  have "length (drop 16 (cfile_header L f a b)) = 32" using length_cfile_header [OF assms] by simp
  then show "memcmp_ct L (drop 16 (cfile_header L f a b)) (hmac_sha256 L (fr_f_hmac_key f) (take 16 (cfile_header L f a b))) = 0"
    using h(3) ok by (simp add: memcmp_ct_iff digest_simps)
qed

lemma cf_length_append: "cf_length (ms @ [m]) = cf_length ms + (0x50 + length (cm_text m))"
  by (simp add: cf_length_def)

section \<open>Appending\<close>

definition cf_good :: "cf_env \<Rightarrow> bool" where
  "cf_good env \<longleftrightarrow> cf_path env \<and> cf_open env \<and> (\<forall>k n. cf_mem env k n) \<and> (\<forall>j. cf_tx env j = None)"

lemma fwrite_all_end: "fwrite_all None bs \<lparr>st_data = X, st_pos = length X\<rparr> = (True, \<lparr>st_data = X @ bs, st_pos = length (X @ bs)\<rparr>)"
  using fwrite_n_end [of X "length X" bs] by (simp add: fwrite_all_def)

lemma cfile_append_ok:
  assumes "lib_ok L" "cf_good env" "cmessage_ok m" "0x30 + cf_length ms < 2 ^ 63" "length ms < 2 ^ 32" "length H = 48"
  shows "cfile_append L env f m (of_nat (0x30 + cf_length ms)) (of_nat (length ms))
      \<lparr>st_data = H @ cf_entries L f 1 INITIAL_PREV_MAC ms, st_pos = p\<rparr> =
    (0, \<lparr>st_data = H @ cf_entries L f 1 INITIAL_PREV_MAC (ms @ [m]),
         st_pos = length (H @ cf_entries L f 1 INITIAL_PREV_MAC (ms @ [m]))\<rparr>)"
proof -
  let ?E = "cf_entries L f 1 INITIAL_PREV_MAC ms" and ?n = "0x30 + cf_length ms"
  let ?D = "H @ ?E" and ?prev = "cf_last L f 1 INITIAL_PREV_MAC ms" and ?i = "1 + length ms"
  have len: "length ?D = ?n" using assms(6) length_cf_entries [OF assms(1)] by simp
  have e: "cf_mem env 0 k" "cf_tx env j = None" for j k using assms(2) by (simp_all add: cf_good_def)
  have "(of_nat ?n - 32 :: u64) = of_nat (?n - 32)" by (simp add: of_nat_diff)
  then have sk: "fseek_set (of_nat ?n - 32) \<lparr>st_data = ?D, st_pos = p\<rparr> = Some \<lparr>st_data = ?D, st_pos = ?n - 32\<rparr>"
    using fseek_set_small [of "?n - 32" "\<lparr>st_data = ?D, st_pos = p\<rparr>"] assms(4) by simp
  have fr: "fread_n 0x20 \<lparr>st_data = ?D, st_pos = ?n - 32\<rparr> = Some (drop (?n - 32) ?D, \<lparr>st_data = ?D, st_pos = ?n\<rparr>)"
    using len by (simp add: fread_n_def slice_def)
  have prev: "(if (of_nat (length ms) :: u64) = 0 then INITIAL_PREV_MAC else drop (?n - 32) ?D) = ?prev"
  proof (cases "ms = []")
    case False
    then have "(of_nat (length ms) :: u64) \<noteq> 0" using assms(5) by (simp add: of_nat64_eq_0)
    moreover from cf_entries_last [OF assms(1) False] obtain xs where xs:
      "?E = xs @ ?prev" "length xs + 32 = cf_length ms" by blast
    then have "drop (?n - 32) ?D = ?prev" using assms(6) by (simp add: xs(1))
    ultimately show ?thesis by simp
  qed simp
  have t: "cstr (cm_text m) = cm_text m" using assms(3) by (simp add: cstr_no_zero cmessage_ok_def)
  have i: "(of_nat (length ms) + 1 :: u64) = of_nat ?i" by simp
  have h: "chacha_stream L (fr_f_symm_key f) (of_nat ?i) 0
      (encbe64 L (of_nat (length (cm_text m))) @ encbe64 L (word_of_int (cm_sender m))) = cf_head L f ?i m"
    "chacha_stream L (fr_f_symm_key f) (of_nat ?i) 16 (cm_text m) = cf_body L f ?i m"
    "hmac_sha256 L (fr_f_hmac_key f) (?prev @ cf_head L f ?i m) = cf_mac1 L f ?prev ?i m"
    "hmac_sha256 L (fr_f_hmac_key f) (cf_head L f ?i m @ cf_mac1 L f ?prev ?i m @ cf_body L f ?i m) = cf_mac2 L f ?prev ?i m"
    by (simp_all add: cf_head_def cf_body_def cf_mac1_def cf_mac2_def)
  show ?thesis
    unfolding cfile_append_def sk option.case fr prod.case Let_def prev t i h e
    unfolding len [symmetric] fwrite_all_end prod.case bool.case
    using e by (simp add: fwrite_all_end cf_entries_append)
qed

lemma cfile_add_ok:
  assumes "lib_ok L" "cf_good env" "cmessage_ok m" "0x30 + cf_length ms < 2 ^ 63" "length ms < 2 ^ 32"
  shows "cfile_add_file L env f m (cfile_image L f ms) = (0, cfile_image L f (ms @ [m]))"
proof -
  let ?fl = "of_nat (0x30 + cf_length ms) :: u64" and ?mn = "of_nat (length ms) :: u64"
  let ?H = "cfile_header L f ?fl ?mn" and ?E = "cf_entries L f 1 INITIAL_PREV_MAC ms"
  let ?H' = "cfile_header L f (of_nat (0x30 + cf_length (ms @ [m]))) (of_nat (length (ms @ [m])))"
  have h: "length ?H = 48" "length ?H' = 48" by (rule length_cfile_header [OF assms(1)])+
  have rd: "fread_n 0x30 (fopen_bytes (?H @ ?E)) = Some (?H, \<lparr>st_data = ?H @ ?E, st_pos = 48\<rparr>)"
    using fread_n_at [of "[]" 0 ?H 48 ?E] h by (simp add: fopen_bytes_def)
  have sk: "fseek_set 0 \<lparr>st_data = ?H @ ?E, st_pos = 48\<rparr> = Some \<lparr>st_data = ?H @ ?E, st_pos = 0\<rparr>"
    using fseek_set_small [of 0 "\<lparr>st_data = ?H @ ?E, st_pos = 48\<rparr>"] by simp
  have e: "cf_path env" "cf_open env" "cf_tx env j = None" for j using assms(2) by (simp_all add: cf_good_def)
  have wr: "fwrite_all None ?H' \<lparr>st_data = ?H @ ?E, st_pos = 0\<rparr> = (True, \<lparr>st_data = ?H' @ ?E, st_pos = 48\<rparr>)"
    using fwrite_n_at [of "[]" 0 ?H ?H' ?E] h by (simp add: fwrite_all_def)
  have t: "cstr (cm_text m) = cm_text m" using assms(3) by (simp add: cstr_no_zero cmessage_ok_def)
  have new: "?fl + 0x50 + of_nat (length (cm_text m)) = of_nat (0x30 + cf_length (ms @ [m]))" "?mn + 1 = of_nat (length (ms @ [m]))"
    by (simp_all add: cf_length_def)
  note a = cfile_append_ok [OF assms h(2), of f 48]
  show ?thesis
    unfolding cfile_add_file_def cfile_image_def [of L f ms] rd option.case prod.case cfile_header_fields [OF assms(1)] Let_def e t new sk wr
    using e(1,2) by (simp only: wr a prod.case bool.case option.case sk cfile_image_def stream.select_convs if_True if_False simp_thms not_True_eq_False not_False_eq_True)
qed

section \<open>Loading\<close>

text \<open>What a message can be once it is loaded: in particular, the text may contain zeros.\<close>

definition loadable :: "cmessage \<Rightarrow> bool" where
  "loadable m \<longleftrightarrow> (cm_sender m = 0 \<or> cm_sender m = 1) \<and> length (cm_text m) < 2 ^ 64 - 1"

lemma cmessage_ok_loadable: "cmessage_ok m \<Longrightarrow> loadable m"
  by (auto simp: cmessage_ok_def loadable_def)

lemma alloc_cmessage_ok: "\<forall>k n. mem k n \<Longrightarrow> alloc_cmessage mem len = (if len + 1 = 0 then UB else Done True)"
  by (simp add: alloc_cmessage_def)

lemma max64: "(x :: u64) + 1 \<noteq> 0 \<longleftrightarrow> unat x < 2 ^ 64 - 1"
proof -
  have m: "unat (-1 :: u64) = 2 ^ 64 - 1" by (simp add: unsigned_minus_1_eq_mask mask_eq_exp_minus_1)
  have "x + 1 = 0 \<longleftrightarrow> x = -1" by (simp add: eq_neg_iff_add_eq_0)
  also have "\<dots> \<longleftrightarrow> unat x = 2 ^ 64 - 1" using m by (metis word_unat_eq_iff)
  finally show ?thesis using unat64_less [of x] by linarith
qed

lemma cfile_read_entries:
  assumes "lib_ok L" "\<forall>j k n. mem j k n"
  shows "\<forall>m \<in> set ms. loadable m \<Longrightarrow>
    cfile_read L mem f i (length ms) prev pos (cf_entries L f i prev ms @ rest) = Done (Some (ms, pos + of_nat (cf_length ms)))"
proof (induction ms arbitrary: i prev pos)
  case Nil
  then show ?case by (simp add: cf_length_def)
next
  case (Cons m ms)
  note ok = lib_ok_parts [OF assms(1)]
  let ?n = "length (cm_text m)" and ?s = "word_of_int (cm_sender m) :: u64"
  let ?h = "cf_head L f i m" and ?m1 = "cf_mac1 L f prev i m" and ?b = "cf_body L f i m" and ?m2 = "cf_mac2 L f prev i m"
  have m: "cm_sender m = 0 \<or> cm_sender m = 1" "?n < 2 ^ 64 - 1" using Cons.prems by (simp_all add: loadable_def)
  have u: "unat (of_nat ?n :: u64) = ?n" using m(2) by (intro unat_of_nat_small) simp
  have sgn: "sint ?s = cm_sender m" "\<not> (?s \<noteq> 0 \<and> ?s \<noteq> 1)" using m(1) by auto
  have tmp: "chacha_stream L (fr_f_symm_key f) (of_nat i) 0 ?h = encbe64 L (of_nat ?n) @ encbe64 L ?s"
    "chacha_stream L (fr_f_symm_key f) (of_nat i) 16 ?b = cm_text m"
    using ok by (simp_all add: cf_head_def cf_body_def cipher_simps)
  have dec: "decbe64 L (take 8 (encbe64 L (of_nat ?n) @ encbe64 L ?s)) = of_nat ?n"
    "decbe64 L (drop 8 (encbe64 L (of_nat ?n) @ encbe64 L ?s)) = ?s" using ok by (simp_all add: endian_simps)
  have mac: "hmac_sha256 L (fr_f_hmac_key f) (prev @ ?h) = ?m1" "hmac_sha256 L (fr_f_hmac_key f) (?h @ ?m1 @ ?b) = ?m2"
    "memcmp_ct L x x = 0" for x using ok by (simp_all add: cf_mac1_def cf_mac2_def memcmp_ct_same)
  have al: "alloc_cmessage (mem i) (of_nat ?n) = Done True"
    using alloc_cmessage_ok [of "mem i"] assms(2) m(2) u max64 [of "of_nat ?n"] by auto
  have r: "rd 0x10 (?h @ x) = Some (?h, x)" "rd 0x20 (?m1 @ x) = Some (?m1, x)" "rd ?n (?b @ x) = Some (?b, x)"
    "rd 0x20 (?m2 @ x) = Some (?m2, x)" for x by (simp_all add: cf_lengths [OF assms(1)])
  have ih: "cfile_read L mem f (Suc i) (length ms) ?m2 p (cf_entries L f (Suc i) ?m2 ms @ rest) =
      Done (Some (ms, p + of_nat (cf_length ms)))" for p using Cons by simp
  show ?case
    unfolding cf_entries.simps append_assoc list.size(4) add_0_right One_nat_def add_Suc_right cfile_read.simps r option.case prod.case mac tmp Let_def dec
    using sgn ih by (simp add: al u r mac tmp cf_length_def algebra_simps)
qed

lemma cfile_read_inv:
  assumes "lib_ok L" "\<forall>j k n. mem j k n"
  shows "cfile_read L mem f i n prev pos inp = Done (Some (ms, p)) \<Longrightarrow>
    length ms = n \<and> (\<exists>rest. inp = cf_entries L f i prev ms @ rest) \<and> p = pos + of_nat (cf_length ms) \<and> (\<forall>m \<in> set ms. loadable m)"
proof (induction n arbitrary: i prev pos inp ms)
  case 0
  then show ?case by (simp add: cf_length_def)
next
  case (Suc n)
  note ok = lib_ok_parts [OF assms(1)]
  from Suc.prems obtain h i1 where 1: "rd 0x10 inp = Some (h, i1)" by (auto split: option.split_asm)
  with Suc.prems obtain mac1 i2 where 2: "rd 0x20 i1 = Some (mac1, i2)" by (auto split: option.split_asm)
  define tmp where "tmp = chacha_stream L (fr_f_symm_key f) (of_nat i) 0 h"
  define mlen where "mlen = decbe64 L (take 8 tmp)"
  define sender where "sender = decbe64 L (drop 8 tmp)"
  have 3: "memcmp_ct L mac1 (hmac_sha256 L (fr_f_hmac_key f) (prev @ h)) = 0" "sender = 0 \<or> sender = 1" "mlen + 1 \<noteq> 0"
    using Suc.prems 1 2 assms(2)
    by (auto simp: Let_def tmp_def mlen_def sender_def alloc_cmessage_ok split: if_split_asm)
  have al: "alloc_cmessage (mem i) mlen = Done True" using 3(3) assms(2) by (simp add: alloc_cmessage_ok)
  from Suc.prems 1 2 3 al obtain ct i3 where 4: "rd (unat mlen) i2 = Some (ct, i3)"
    by (auto simp: Let_def tmp_def [symmetric] mlen_def [symmetric] sender_def [symmetric] split: option.split_asm)
  from Suc.prems 1 2 3 4 al obtain mac2 i4 where 5: "rd 0x20 i3 = Some (mac2, i4)"
    by (auto simp: Let_def tmp_def [symmetric] mlen_def [symmetric] sender_def [symmetric] split: option.split_asm)
  let ?text = "chacha_stream L (fr_f_symm_key f) (of_nat i) 16 ct"
  from Suc.prems 1 2 3 4 5 al obtain ms1 where
    6: "memcmp_ct L mac2 (hmac_sha256 L (fr_f_hmac_key f) (h @ mac1 @ ct)) = 0"
    "cfile_read L mem f (Suc i) n mac2 (pos + 0x30 + 0x20 + mlen) i4 = Done (Some (ms1, p))"
    "ms = \<lparr>cm_sender = sint sender, cm_text = ?text\<rparr> # ms1"
    by (auto simp: Let_def tmp_def [symmetric] mlen_def [symmetric] sender_def [symmetric] exec_bind_Done_iff
        split: if_split_asm)
  have l: "length h = 16" "length mac1 = 32" "length ct = unat mlen" "length mac2 = 32" "inp = h @ mac1 @ ct @ mac2 @ i4"
    using 1 2 4 5 by (simp_all add: rd_Some)
  let ?m = "\<lparr>cm_sender = sint sender, cm_text = ?text\<rparr>"
  have lt: "length tmp = 16" "length ?text = unat mlen" using l ok by (simp_all add: tmp_def cipher_simps)
  have "encbe64 L mlen = take 8 tmp" "encbe64 L sender = drop 8 tmp"
    using lt(1) ok by (simp_all add: mlen_def sender_def endian_simps)
  then have t: "encbe64 L mlen @ encbe64 L sender = tmp" by simp
  have h: "cf_head L f i ?m = h" using t lt(2) ok by (simp add: cf_head_def tmp_def cipher_simps)
  have b: "cf_body L f i ?m = ct" using ok by (simp add: cf_body_def cipher_simps)
  have m1: "cf_mac1 L f prev i ?m = mac1" using 3(1) l(2) ok by (simp add: cf_mac1_def h memcmp_ct_iff digest_simps)
  have m2: "cf_mac2 L f prev i ?m = mac2" using 6(1) l(4) ok by (simp add: cf_mac2_def h b m1 memcmp_ct_iff digest_simps)
  have lo: "loadable ?m" using 3 lt(2) max64 [of mlen] by (auto simp: loadable_def)
  from Suc.IH [OF 6(2)] obtain rest where ih: "length ms1 = n" "i4 = cf_entries L f (Suc i) mac2 ms1 @ rest"
    "p = pos + 0x30 + 0x20 + mlen + of_nat (cf_length ms1)" "\<forall>m \<in> set ms1. loadable m" by blast
  have "inp = cf_entries L f i prev ms @ rest" unfolding 6(3) cf_entries.simps h m1 b m2 using l(5) ih(2) by simp
  moreover have "p = pos + of_nat (cf_length ms)"
    unfolding ih(3) 6(3) using lt(2) by (simp add: cf_length_def algebra_simps)
  ultimately show ?case using ih lo 6(3) by auto
qed

lemma cfile_load_iff:
  assumes "lib_ok L" "\<forall>j k n. mem j k n"
  shows "cfile_load_file L True mem f (Some d) = Done (0, ms) \<longleftrightarrow>
    (\<exists>rest. d = cfile_image L f ms @ rest) \<and> (\<forall>m \<in> set ms. loadable m) \<and> length ms < 2 ^ 64"
    (is "?l \<longleftrightarrow> ?r")
proof
  note ok = lib_ok_parts [OF assms(1)]
  assume ?l
  then obtain buf inp where 1: "rd 0x30 d = Some (buf, inp)"
    "memcmp_ct L (drop 16 buf) (hmac_sha256 L (fr_f_hmac_key f) (take 16 buf)) = 0"
    "cfile_read L mem f 1 (unat (decbe64 L (slice 8 8 buf))) INITIAL_PREV_MAC 0x30 inp = Done (Some (ms, decbe64 L (take 8 buf)))"
    by (auto simp: cfile_load_file_def exec_bind_Done_iff split: option.split_asm prod.split_asm if_split_asm)
  have d: "d = buf @ inp" "length buf = 48" using 1(1) by (simp_all add: rd_Some)
  from cfile_read_inv [OF assms 1(3)] obtain rest where 2: "length ms = unat (decbe64 L (slice 8 8 buf))"
    "inp = cf_entries L f 1 INITIAL_PREV_MAC ms @ rest" "decbe64 L (take 8 buf) = 0x30 + of_nat (cf_length ms)"
    "\<forall>m \<in> set ms. loadable m" by blast
  have n: "(of_nat (length ms) :: u64) = decbe64 L (slice 8 8 buf)" using 2(1) by simp
  have e: "encbe64 L (decbe64 L (take 8 buf)) = take 8 buf" "encbe64 L (decbe64 L (slice 8 8 buf)) = slice 8 8 buf"
    using d(2) ok by (simp_all add: endian_simps)
  have t: "take 8 buf @ slice 8 8 buf = take 16 buf"
    using take_add [of 8 8 buf] by (simp add: slice_def)
  have m: "drop 16 buf = hmac_sha256 L (fr_f_hmac_key f) (take 16 buf)"
    using 1(2) d(2) ok by (simp add: memcmp_ct_iff digest_simps)
  have "cfile_header L f (of_nat (0x30 + cf_length ms)) (of_nat (length ms)) = take 16 buf @ drop 16 buf"
    unfolding cfile_header_def Let_def m n
    using 2(3) e t by simp
  then have "cfile_header L f (of_nat (0x30 + cf_length ms)) (of_nat (length ms)) = buf" by simp
  then have "d = cfile_image L f ms @ rest" using d(1) 2(2) by (simp add: cfile_image_def)
  then show ?r using 2(1,4) unat64_less [of "decbe64 L (slice 8 8 buf)"] by auto
next
  assume r: ?r
  then obtain rest where d: "d = cfile_image L f ms @ rest" by blast
  let ?H = "cfile_header L f (of_nat (0x30 + cf_length ms)) (of_nat (length ms))"
  have rd: "rd 0x30 (?H @ x) = Some (?H, x)" for x using length_cfile_header [OF assms(1)] by simp
  have n: "unat (of_nat (length ms) :: u64) = length ms" using r by (intro unat_of_nat_small) simp
  have c: "cfile_read L mem f 1 (length ms) INITIAL_PREV_MAC 0x30 (cf_entries L f 1 INITIAL_PREV_MAC ms @ rest) =
      Done (Some (ms, 0x30 + of_nat (cf_length ms)))"
    using cfile_read_entries [OF assms] r by blast
  show ?l
    unfolding cfile_load_file_def d cfile_image_def append_assoc option.case rd prod.case cfile_header_fields [OF assms(1)] n c
    by simp
qed

section \<open>A log of messages\<close>

text \<open>Unlike a mailbox, a log keeps what is loaded.\<close>

locale msg_log = append_store holds fits good put
  for holds :: "'s \<Rightarrow> 'm list \<Rightarrow> bool" and fits :: "'m list \<Rightarrow> bool" and good :: "'e \<Rightarrow> bool"
    and put :: "'e \<Rightarrow> 'm \<Rightarrow> 's \<Rightarrow> (int \<times> 's) exec" +
  fixes load :: "'s \<Rightarrow> (int \<times> 'm list) exec"
  assumes load_holds: "holds s ms \<Longrightarrow> load s = Done (0, ms)"
begin

lemma logged:
  assumes "holds s ms" "\<forall>i. good (env i)" "fits (ms @ ms')"
  shows "\<exists>s'. put_all put env ms' s = Done (0, s') \<and> load s' = Done (0, ms @ ms')"
  using put_all_holds [OF assms] load_holds by blast

end

definition cf_fits :: "cmessage list \<Rightarrow> bool" where
  "cf_fits ms \<longleftrightarrow> (\<forall>m \<in> set ms. cmessage_ok m) \<and> length ms < 2 ^ 32 \<and> 0x30 + cf_length ms < 2 ^ 63"

definition cf_holds :: "ibc \<Rightarrow> (nat \<Rightarrow> heap_oracle) \<Rightarrow> friend \<Rightarrow> bytes \<Rightarrow> cmessage list \<Rightarrow> bool" where
  "cf_holds L mem f d ms \<longleftrightarrow> lib_ok L \<and> (\<forall>j k n. mem j k n) \<and> d = cfile_image L f ms \<and> cf_fits ms"

interpretation convlog: msg_log "cf_holds L mem f" cf_fits cf_good "\<lambda>env m d. Done (cfile_add_file L env f m d)"
  "\<lambda>d. cfile_load_file L True mem f (Some d)" for L mem f
proof (unfold_locales, goal_cases)
  case (1 s ms e m)
  have p: "cf_fits ms" using 1(1) by (simp add: cf_holds_def)
  have "cfile_add_file L e f m (cfile_image L f ms) = (0, cfile_image L f (ms @ [m]))"
    by (rule cfile_add_ok) (use 1 p in \<open>auto simp: cf_holds_def cf_fits_def cf_length_append\<close>)
  with 1 show ?case by (auto simp: cf_holds_def)
next
  case (2 ms ms')
  then show ?case by (auto simp: cf_fits_def cf_length_def)
next
  case (3 s ms)
  then have "cfile_load_file L True mem f (Some (cfile_image L f ms)) = Done (0, ms)"
    using cmessage_ok_loadable by (subst cfile_load_iff) (auto simp: cf_holds_def cf_fits_def)
  with 3 show ?case by (simp add: cf_holds_def)
qed

lemma cfile_init_ok:
  "cf_good env \<Longrightarrow> cfile_init_file L env f = (0, Some (cfile_image L f []))"
  by (simp add: cfile_init_file_def cf_good_def cfile_image_def cf_length_def)

section \<open>Properties\<close>

text \<open>
  C17: A conversation is kept: in a file made by \<open>cfile_init\<close>, every sequence of \<open>cfile_add\<close> calls succeeds,
  and \<open>cfile_load\<close> gives back the messages in order, with their senders and texts.
\<close>
theorem conversation_kept:
  assumes "lib_ok L" and "cf_good e0" and "\<forall>i. cf_good (env i)" and "\<forall>j k n. mem j k n"
    and "\<forall>m \<in> set ms. cmessage_ok m" and "length ms < 2 ^ 32" and "0x30 + cf_length ms < 2 ^ 63"
  shows "\<exists>d0 d. cfile_init_file L e0 f = (0, Some d0) \<and>
    put_all (\<lambda>env m d. Done (cfile_add_file L env f m d)) env ms d0 = Done (0, d) \<and>
    cfile_load_file L True mem f (Some d) = Done (0, ms)"
proof -
  have fit: "cf_fits ([] @ ms)" using assms(5-7) by (simp add: cf_fits_def)
  have "cf_holds L mem f (cfile_image L f []) []" using assms(1,4) by (simp add: cf_holds_def cf_fits_def cf_length_def)
  from convlog.logged [OF this assms(3) fit] show ?thesis using cfile_init_ok [OF assms(2)] by auto
qed

text \<open>
  C18: \<open>cfile_load\<close> decides membership in the format: it returns the messages \<open>ms\<close> if and only if the file
  starts with the image of \<open>ms\<close> under the friend's two file keys (what follows the image is not looked
  at, the length field does not count it). So a file that anything else has written, or one message of
  which was changed, moved or taken out of the middle, is refused or is a different image.
\<close>
theorem cfile_load_exact:
  assumes "lib_ok L" and "\<forall>j k n. mem j k n"
  shows "cfile_load_file L True mem f (Some d) = Done (0, ms) \<longleftrightarrow>
    (\<exists>rest. d = cfile_image L f ms @ rest) \<and> (\<forall>m \<in> set ms. loadable m) \<and> length ms < 2 ^ 64"
  by (rule cfile_load_iff [OF assms])

text \<open>
  The first message of a conversation ends the program: as long as the file of the conversation
  does not exist, \<open>cfile_check\<close> closes a null pointer instead of calling \<open>cfile_init\<close>, so neither a message can
  be added nor a file be started.
\<close>
theorem first_message_closes_null:
  assumes "cs_cfiles s (fr_c_file f) = None" and "cf_path env"
  shows "cfile_check L env f s = UB \<and> cfile_add L env env' f m s = Some UB"
  using assms by (simp add: cfile_check_def cfile_add_def)

section \<open>Witnesses\<close>

definition demo_cf :: cf_env where
  "demo_cf = \<lparr>cf_path = True, cf_open = True, cf_mem = (\<lambda>_ _. True), cf_tx = (\<lambda>_. None)\<rparr>"

lemma demo_cf_good: "cf_good demo_cf"
  by (simp add: cf_good_def demo_cf_def)

theorem conversation_kept_witness:
  "\<exists>d0 d. cfile_init_file demo_lib demo_cf demo_friend = (0, Some d0) \<and>
    put_all (\<lambda>env m d. Done (cfile_add_file demo_lib env demo_friend m d)) (\<lambda>_. demo_cf)
      [\<lparr>cm_sender = 0, cm_text = [104, 105]\<rparr>, \<lparr>cm_sender = 1, cm_text = [121]\<rparr>] d0 = Done (0, d) \<and>
    cfile_load_file demo_lib True (\<lambda>_ _ _. True) demo_friend (Some d) =
      Done (0, [\<lparr>cm_sender = 0, cm_text = [104, 105]\<rparr>, \<lparr>cm_sender = 1, cm_text = [121]\<rparr>])"
  by (rule conversation_kept [OF demo_lib_ok demo_cf_good]) (simp_all add: demo_cf_good cmessage_ok_def cf_length_def)

theorem cfile_load_exact_witness:
  "cfile_load_file demo_lib True (\<lambda>_ _ _. True) demo_friend
     (Some (cfile_image demo_lib demo_friend [\<lparr>cm_sender = 1, cm_text = [0, 7]\<rparr>] @ [1, 2, 3])) =
   Done (0, [\<lparr>cm_sender = 1, cm_text = [0, 7]\<rparr>])"
  using cfile_load_exact [OF demo_lib_ok, of "\<lambda>_ _ _. True"] by (simp add: loadable_def)

theorem first_message_closes_null_witness:
  "cfile_check demo_lib demo_cf demo_friend demo_user_client = UB"
  using first_message_closes_null [of demo_user_client demo_friend demo_cf] by (simp add: demo_cf_def demo_user_client_def)

end
