(* ===== verification/Conversation.thy ===== *)
theory Conversation
  imports Notifs Convfile Server
begin

text \<open>
  The messages of \<open>client/conversation.c\<close>: what is sent to a friend and what is made of a message that
  comes in. Friends share four keys, two per direction; each direction has a counter that serves as
  the nonce and against replays. The properties follow a message from one client through the server
  to the other, and show what a bad message can do to the counter and to the program.
\<close>

section \<open>The code\<close>

definition put_friend :: "nat \<Rightarrow> friend \<Rightarrow> client_state \<Rightarrow> client_state" where
  "put_friend i f s = s\<lparr>cs_friends := (cs_friends s)[i := f]\<rparr>"

text \<open>What the operations meet: allocations, the conversation file, the file of notifications.\<close>

record conv_env =
  ce_alloc :: heap_oracle
  ce_send :: heap_oracle
  ce_check :: cf_env
  ce_file :: cf_env
  ce_store :: store_env
  ce_notif :: heap_oracle

definition cmessage_send_server :: "ibc \<Rightarrow> heap_oracle \<Rightarrow> nat \<Rightarrow> cmessage \<Rightarrow> client_state \<Rightarrow> (int \<times> client_state) run" where
  "cmessage_send_server L mem i m s =
     (let f = cs_friends s ! i; text = cstr (cm_text m); mlen = of_nat (length text); tlen = 0x29 + 0x11 + mlen + 0x20 in
      if \<not> mem 0 tlen then Some (Done (-1, s))
      else let n = fr_s_nonce f + 1; s1 = put_friend i (f\<lparr>fr_s_nonce := n\<rparr>) s in
      if n = 0 then Some (Done (-1, s1))
      else let body = [0] @ encbe64 L n @ encbe64 L mlen @ chacha_enc L (fr_s_symm_key f) n text;
               buf = [0] @ gen_uid L (cstr (fr_uname f)) @ encbe64 L (tlen - 0x29) @ body @ hmac_sha256 L (fr_s_hmac_key f) body
      in run_bind (map_option Done (acquire_netlock s1)) (\<lambda>(a, s2).
        if a \<noteq> 0 then Some (Done (-1, s2))
        else run_bind (Some (client_send L (\<lambda>k. mem (k + 1)) buf tlen s2)) (\<lambda>(r, s3).
          Some (Done (if r \<noteq> 0 then -1 else 0, release_netlock s3)))))"

text \<open>\<open>cmessage_send\<close> uses the new message without looking whether there is one. \<open>shown\<close> is the list that \<open>head\<close> ends.\<close>

definition cmessage_send :: "ibc \<Rightarrow> conv_env \<Rightarrow> nat \<Rightarrow> bytes \<Rightarrow> cmessage list \<Rightarrow> client_state \<Rightarrow>
    (int \<times> cmessage list \<times> client_state) run" where
  "cmessage_send L env i text shown s =
     run_bind (Some (alloc_cmessage (ce_alloc env) (of_nat (length (cstr text))))) (\<lambda>ok.
       if \<not> ok then Some UB
       else let m = \<lparr>cm_sender = 0, cm_text = cstr text\<rparr> in
         run_bind (cmessage_send_server L (ce_send env) i m s) (\<lambda>(r, s1).
           if r \<noteq> 0 then Some (Done (-1, shown, s1))
           else run_bind (cfile_add L (ce_check env) (ce_file env) (cs_friends s1 ! i) m s1) (\<lambda>(r', s2).
             if r' \<noteq> 0 then Some (Done (-1, shown, s2))
             else Some (Done (0, shown @ [m], s2)))))"

text \<open>
  The result is 0, 1 for a message that is dropped, or -1; with it, the friend, whose \<open>r_nonce\<close> is set
  before the MAC is checked, and the message.
\<close>

definition parse_conv_message_payload :: "ibc \<Rightarrow> heap_oracle \<Rightarrow> friend \<Rightarrow> bytes \<Rightarrow> u64 \<Rightarrow>
    (int \<times> friend \<times> cmessage option) exec" where
  "parse_conv_message_payload L mem f payload plen =
     (if plen < 0x11 then Done (1, f, None)
      else exec_bind (read_at payload 9 8) (\<lambda>lb. let mlen = decbe64 L lb in
      if plen \<noteq> 0x11 + mlen + 0x20 then Done (1, f, None)
      else exec_bind (read_at payload 1 8) (\<lambda>nb. let nonce = decbe64 L nb in
      if nonce \<le> fr_r_nonce f then Done (1, f, None)
      else let f1 = f\<lparr>fr_r_nonce := nonce\<rparr> in
        exec_bind (read_at payload 0 (unat (plen - 32))) (\<lambda>body.
        exec_bind (read_at payload (unat (plen - 0x20)) 0x20) (\<lambda>macf.
          if memcmp_ct L macf (hmac_sha256 L (fr_r_hmac_key f) body) \<noteq> 0 then Done (1, f1, None)
          else exec_bind (alloc_cmessage mem mlen) (\<lambda>ok. if \<not> ok then Done (-1, f1, None)
            else exec_bind (read_at payload 0x11 (unat mlen)) (\<lambda>ct.
              Done (0, f1, Some \<lparr>cm_sender = 1, cm_text = chacha_dec L (fr_r_symm_key f) nonce ct\<rparr>))))))))"

text \<open>The first friend with the id.\<close>

fun friend_index :: "friend list \<Rightarrow> bytes \<Rightarrow> nat option" where
  "friend_index [] uid = None"
| "friend_index (f # fs) uid = (if fr_uid f = uid then Some 0 else map_option Suc (friend_index fs uid))"

text \<open>The message goes to the open conversation if it is with this friend.\<close>

definition show_message :: "nat \<Rightarrow> cmessage \<Rightarrow> client_state \<Rightarrow> client_state option" where
  "show_message i m s = (case acquire_readlock (cs_lock s) of None \<Rightarrow> None
   | Some _ \<Rightarrow> Some (if cs_mode s = 1 \<and> cs_cur_conv s = Some i then s\<lparr>cs_new_messages := m # cs_new_messages s\<rparr> else s))"

definition parse_conv_message :: "ibc \<Rightarrow> conv_env \<Rightarrow> bytes \<Rightarrow> bytes \<Rightarrow> u64 \<Rightarrow> client_state \<Rightarrow> (int \<times> client_state) run" where
  "parse_conv_message L env sender payload plen s = (case friend_index (cs_friends s) sender of
     None \<Rightarrow> Some (Done (0, s))
   | Some i \<Rightarrow>
      run_bind (Some (parse_conv_message_payload L (ce_alloc env) (cs_friends s ! i) payload plen)) (\<lambda>(res, f, m).
        let s1 = put_friend i f s in
        case m of
          None \<Rightarrow> Some (Done (if res < 0 then -1 else 0, s1))
        | Some m \<Rightarrow>
            run_bind (cfile_add L (ce_check env) (ce_file env) f m s1) (\<lambda>(r, s2).
              if r \<noteq> 0 then Some (Done (-1, s2))
              else run_bind (map_option Done (show_message i m s2)) (\<lambda>s3.
                run_bind (add_new_message L (ce_store env) (ce_notif env) i s3) (\<lambda>(r', s4).
                  Some (Done (if r' \<noteq> 0 then -1 else 0, s4)))))))"

section \<open>Sealing and opening\<close>

definition conv_body :: "ibc \<Rightarrow> friend \<Rightarrow> u64 \<Rightarrow> bytes \<Rightarrow> bytes" where
  "conv_body L f n text = [0] @ encbe64 L n @ encbe64 L (of_nat (length text)) @ chacha_enc L (fr_s_symm_key f) n text"

definition conv_seal :: "ibc \<Rightarrow> friend \<Rightarrow> u64 \<Rightarrow> bytes \<Rightarrow> bytes" where
  "conv_seal L f n text = conv_body L f n text @ hmac_sha256 L (fr_s_hmac_key f) (conv_body L f n text)"

text \<open>What one friend sends with is what the other receives with.\<close>

definition friends_linked :: "friend \<Rightarrow> friend \<Rightarrow> bool" where
  "friends_linked a b \<longleftrightarrow> fr_s_symm_key a = fr_r_symm_key b \<and> fr_s_hmac_key a = fr_r_hmac_key b"

lemma conv_seal_length: "lib_ok L \<Longrightarrow> length (conv_seal L f n text) = 0x31 + length text"
  by (simp add: conv_seal_def conv_body_def endian_simps [OF lib_ok_parts(1)] digest_simps [OF lib_ok_parts(3)]
      cipher_simps [OF lib_ok_parts(4)])

lemma unat_payload_length:
  "n < 2 ^ 40 \<Longrightarrow> unat (0x31 + of_nat n :: u64) = 0x31 + n"
  using unat_plus_small [of "0x31" "of_nat n"] unat_of_nat_small [of n] by simp

lemma open_conv_seal:
  assumes "lib_ok L" "friends_linked a b" "fr_r_nonce b < n" "length text < 2 ^ 40" "\<forall>k n. mem k n"
  shows "parse_conv_message_payload L mem b (conv_seal L a n text) (of_nat (length (conv_seal L a n text))) =
    Done (0, b\<lparr>fr_r_nonce := n\<rparr>, Some \<lparr>cm_sender = 1, cm_text = text\<rparr>)"
proof -
  note ok = lib_ok_parts [OF assms(1)]
  let ?p = "conv_seal L a n text" and ?b = "conv_body L a n text" and ?m = "hmac_sha256 L (fr_s_hmac_key a) (conv_body L a n text)"
  let ?ct = "chacha_enc L (fr_s_symm_key a) n text" and ?len = "of_nat (length text) :: u64"
  have len: "length ?p = 0x31 + length text" by (rule conv_seal_length [OF assms(1)])
  have e: "length (encbe64 L x) = 8" for x using ok by (simp add: endian_simps)
  have l: "length ?m = 32" "length ?b = 0x11 + length text" "length ?ct = length text"
    using ok e by (simp_all add: conv_body_def digest_simps cipher_simps)
  have pl: "(of_nat (length ?p) :: u64) = 0x31 + ?len" unfolding len by simp
  have u: "unat (0x31 + ?len) = 0x31 + length text" by (rule unat_payload_length [OF assms(4)])
  have v: "unat (0x31 + ?len - 32) = 0x11 + length text"
    using unat_plus_small [of "0x11" ?len] unat_of_nat_small [of "length text"] assms(4) by simp
  have w: "unat ?len = length text" "?len + 1 \<noteq> 0"
  proof -
    show "unat ?len = length text" using assms(4) by (intro unat_of_nat_small) simp
    then show "?len + 1 \<noteq> 0" using max64 [of ?len] assms(4) by simp
  qed
  have r1: "read_at ?p 9 8 = Done (encbe64 L ?len)"
    using read_at_append [of "[0] @ encbe64 L n" 9 "encbe64 L ?len" 8 "?ct @ ?m"] e by (simp add: conv_seal_def conv_body_def)
  have r2: "read_at ?p 1 8 = Done (encbe64 L n)"
    using read_at_append [of "[0]" 1 "encbe64 L n" 8 "encbe64 L ?len @ ?ct @ ?m"] e by (simp add: conv_seal_def conv_body_def)
  have r3: "read_at ?p 0 (0x11 + length text) = Done ?b"
    using read_at_append [of "[]" 0 ?b "0x11 + length text" ?m] l by (simp add: conv_seal_def)
  have r4: "read_at ?p (0x11 + length text) 0x20 = Done ?m"
    using read_at_append [of ?b "0x11 + length text" ?m "0x20" "[]"] l by (simp add: conv_seal_def)
  have r5: "read_at ?p 0x11 (length text) = Done ?ct"
    using read_at_append [of "[0] @ encbe64 L n @ encbe64 L ?len" "0x11" ?ct "length text" ?m] e l(3)
    by (simp add: conv_seal_def conv_body_def)
  have d: "decbe64 L (encbe64 L x) = x" for x using ok by (simp add: endian_simps)
  have c: "\<not> (0x31 + ?len < 0x11)" "\<not> n \<le> fr_r_nonce b"
    using u assms(3) by (simp_all add: word_less_nat_alt word_le_nat_alt)
  have k: "hmac_sha256 L (fr_r_hmac_key b) ?b = ?m" "chacha_dec L (fr_r_symm_key b) n ?ct = text" "memcmp_ct L ?m ?m = 0"
    using assms(2) ok by (simp_all add: friends_linked_def cipher_simps memcmp_ct_same)
  show ?thesis
    unfolding parse_conv_message_payload_def pl r1 exec_bind.simps d Let_def r2 v w(1) r3 r4 k(1)
    using c k w(2) by (simp add: alloc_cmessage_ok [OF assms(5)] r5)
qed

text \<open>What \<open>cmessage_send_server\<close> does when nothing fails.\<close>

definition client_ready :: "client_state \<Rightarrow> bool" where
  "client_ready s \<longleftrightarrow> cs_lock s = 0 \<and> \<not> cs_netlock s \<and> cs_mode s \<noteq> -1"

lemma client_send_ok:
  assumes "lib_ok L" "\<forall>k n. mem k n" "key_linked (cs_keys s) r" "length buf + 80 < 2 ^ 64"
  obtains m where "client_send L mem buf (of_nat (length buf)) s =
      Done (0, s\<lparr>cs_con := add_message (\<lambda>_ _. True) (cs_con s) m, cs_keys := (cs_keys s)\<lparr>k_nonce := k_nonce (cs_keys s) + 1\<rparr>\<rparr>)"
    "\<forall>q. recv_message L (\<lambda>_ _. True) r (Got m q) = Done (Some buf)"
proof -
  have mem: "mem = (\<lambda>_ _. True)" using assms(2) by (simp add: fun_eq_iff)
  have al: "alloc_message (\<lambda>_ _. True) x" for x by (simp add: alloc_message_def)
  have l: "length buf + 40 < 2 ^ 64" using assms(4) by simp
  obtain m where m: "encrypt_message L (\<lambda>_ _. True) (cs_keys s) buf (of_nat (length buf)) = Done (Some m)"
    using encrypt_message_ok [OF assms(1) al l] by blast
  have "recv_message L (\<lambda>_ _. True) r (Got m q) = Done (Some buf)" for q
    by (rule recv_sealed [OF assms(1,3) m assms(4) al])
  with m mem show ?thesis by (intro that [of m]) (simp_all add: client_send_def send_message_def)
qed

lemma cmessage_send_server_ok:
  assumes "lib_ok L" "\<forall>k n. mem k n" "client_ready s" "key_linked (cs_keys s) r" "f = cs_friends s ! i"
    "fr_s_nonce f + 1 \<noteq> 0" "0 \<notin> set text" "length text < 2 ^ 32"
  obtains m where "cmessage_send_server L mem i \<lparr>cm_sender = 0, cm_text = text\<rparr> s =
      Some (Done (0, (put_friend i (f\<lparr>fr_s_nonce := fr_s_nonce f + 1\<rparr>) s)
        \<lparr>cs_con := add_message (\<lambda>_ _. True) (cs_con s) m, cs_keys := (cs_keys s)\<lparr>k_nonce := k_nonce (cs_keys s) + 1\<rparr>\<rparr>))"
    "\<forall>q. recv_message L (\<lambda>_ _. True) r (Got m q) =
      Done (Some (conv_request L (gen_uid L (cstr (fr_uname f))) (conv_seal L f (fr_s_nonce f + 1) text)))"
proof -
  note ok = lib_ok_parts [OF assms(1)]
  let ?n = "fr_s_nonce f + 1" and ?s1 = "put_friend i (f\<lparr>fr_s_nonce := fr_s_nonce f + 1\<rparr>) s"
  let ?buf = "conv_request L (gen_uid L (cstr (fr_uname f))) (conv_seal L f ?n text)"
  let ?s2 = "?s1\<lparr>cs_netlock := True\<rparr>"
  have len: "length ?buf = 0x5a + length text"
    using conv_seal_length [OF assms(1)] length_gen_uid [OF assms(1)] ok by (simp add: conv_request_def endian_simps)
  have lb: "length ?buf + 80 < 2 ^ 64" using len assms(8) by simp
  have mem: "\<forall>k n. (\<lambda>k. mem (k + 1)) k n" using assms(2) by blast
  have kl: "key_linked (cs_keys ?s2) r" using assms(4) by (simp add: put_friend_def)
  from client_send_ok [OF assms(1) mem kl lb] obtain m where
    m: "client_send L (\<lambda>k. mem (k + 1)) ?buf (of_nat (length ?buf)) ?s2 =
      Done (0, ?s2\<lparr>cs_con := add_message (\<lambda>_ _. True) (cs_con ?s2) m, cs_keys := (cs_keys ?s2)\<lparr>k_nonce := k_nonce (cs_keys ?s2) + 1\<rparr>\<rparr>)"
    "\<forall>q. recv_message L (\<lambda>_ _. True) r (Got m q) = Done (Some ?buf)" .
  have t: "cstr text = text" using assms(7) by (rule cstr_no_zero)
  have tl: "(0x29 + 0x11 + of_nat (length text) + 0x20 :: u64) = of_nat (length ?buf)" by (simp add: len)
  have tp: "(of_nat (length ?buf) - 0x29 :: u64) = of_nat (length (conv_seal L f ?n text))"
    unfolding len conv_seal_length [OF assms(1)] by simp
  have b: "[0] @ gen_uid L (cstr (fr_uname f)) @ encbe64 L (of_nat (length (conv_seal L f ?n text))) @
      ([0] @ encbe64 L ?n @ encbe64 L (of_nat (length text)) @ chacha_enc L (fr_s_symm_key f) ?n text) @
      hmac_sha256 L (fr_s_hmac_key f) ([0] @ encbe64 L ?n @ encbe64 L (of_nat (length text)) @ chacha_enc L (fr_s_symm_key f) ?n text) = ?buf"
    by (simp add: conv_request_def conv_seal_def conv_body_def)
  have a: "acquire_netlock ?s1 = Some (0, ?s2)"
    using assms(3) by (simp add: acquire_netlock_def client_ready_def get_mode_free put_friend_def)
  have "cmessage_send_server L mem i \<lparr>cm_sender = 0, cm_text = text\<rparr> s =
      run_bind (Some (client_send L (\<lambda>k. mem (k + 1)) ?buf (of_nat (length ?buf)) ?s2))
        (\<lambda>(r, s3). Some (Done (if r \<noteq> 0 then -1 else 0, release_netlock s3)))"
    unfolding cmessage_send_server_def Let_def cmessage.select_convs t tl
    unfolding tp assms(5) [symmetric] b a
    using assms(2,6) by simp
  then have "cmessage_send_server L mem i \<lparr>cm_sender = 0, cm_text = text\<rparr> s =
      Some (Done (0, ?s1\<lparr>cs_con := add_message (\<lambda>_ _. True) (cs_con s) m, cs_keys := (cs_keys s)\<lparr>k_nonce := k_nonce (cs_keys s) + 1\<rparr>\<rparr>))"
    unfolding m(1) using assms(3) by (cases s) (simp add: release_netlock_def put_friend_def client_ready_def)
  with m(2) show ?thesis by (rule that [rotated])
qed

section \<open>A message that comes in\<close>

lemma friend_index_Some: "friend_index fs uid = Some i \<Longrightarrow> i < length fs \<and> fr_uid (fs ! i) = uid"
  by (induction fs arbitrary: i) (auto split: if_split_asm)

lemma friend_index_update: "i < length fs \<Longrightarrow> fr_uid f = fr_uid (fs ! i) \<Longrightarrow> map fr_uid (fs[i := f]) = map fr_uid fs"
  by (metis list_update_id map_update)

lemma uids_ok_update: "uids_ok fs \<Longrightarrow> i < length fs \<Longrightarrow> fr_uid f = fr_uid (fs ! i) \<Longrightarrow> uids_ok (fs[i := f])"
  using friend_index_update [of i fs f] set_update_subset_insert [of fs i f] unfolding uids_ok_def
  by (metis in_set_conv_nth insert_iff subset_iff nth_mem)

lemma notif_ok_length: "length fs = length fs' \<Longrightarrow> notif_ok fs n = notif_ok fs' n"
  by (cases n) simp_all

definition conv_env_ok :: "conv_env \<Rightarrow> bool" where
  "conv_env_ok e \<longleftrightarrow> (\<forall>k n. ce_alloc e k n) \<and> (\<forall>k n. ce_send e k n) \<and> cf_good (ce_check e) \<and> cf_good (ce_file e) \<and>
     fst (ce_store e) \<and> wd_ok (snd (ce_store e)) \<and> (\<forall>k n. ce_notif e k n)"

lemma cfile_add_client:
  assumes "lib_ok L" "cf_good cenv" "cf_good env" "cf_fits (ms @ [m])" "cs_lock s = 0"
    "cs_cfiles s (fr_c_file f) = Some (cfile_image L f ms)"
  shows "cfile_add L cenv env f m s =
    Some (Done (0, s\<lparr>cs_cfiles := (cs_cfiles s)(fr_c_file f \<mapsto> cfile_image L f (ms @ [m]))\<rparr>))"
proof -
  have a: "cfile_add_file L env f m (cfile_image L f ms) = (0, cfile_image L f (ms @ [m]))"
    by (rule cfile_add_ok) (use assms in \<open>auto simp: cf_fits_def cf_length_append\<close>)
  have "cfile_check L cenv f s = Done 0" using assms(2,6) by (simp add: cfile_check_def cf_good_def)
  then show ?thesis
    using assms(5,6) a by (cases s) (simp add: cfile_add_def with_writelock_def lock_free unlock_write_def)
qed

text \<open>The counter of unread messages after one more.\<close>

fun count_message :: "nat \<Rightarrow> notif list \<Rightarrow> notif list" where
  "count_message i [] = [NMessage i 1]"
| "count_message i (n # ns) = bump_unread n # ns"

lemma cfile_image_nonce [simp]: "cfile_image L (f\<lparr>fr_r_nonce := n\<rparr>) ms = cfile_image L f ms"
proof -
  have e: "cf_entries L (f\<lparr>fr_r_nonce := n\<rparr>) i prev ms = cf_entries L f i prev ms" for i prev
    by (induction ms arbitrary: i prev) (simp_all add: cf_mac1_def cf_mac2_def cf_head_def cf_body_def)
  show ?thesis by (simp add: cfile_image_def cfile_header_def e)
qed

text \<open>\<open>fresh_for\<close>: the counter of \<open>add_new_message\<close> is found, see \<open>add_new_message_returns_iff\<close>.\<close>

definition fresh_for :: "nat \<Rightarrow> notif list \<Rightarrow> bool" where
  "fresh_for i ns \<longleftrightarrow> ns = [] \<or> (\<exists>k. hd ns = NMessage i k)"

lemma parse_conv_message_ok:
  assumes "lib_ok L" "conv_env_ok e" "cs_lock s = 0" "uids_ok (cs_friends s)"
    "\<forall>n \<in> set (cs_notifs s). notif_ok (cs_friends s) n" "length (cs_notifs s) < 1000000" "fresh_for i (cs_notifs s)"
    "friend_index (cs_friends s) sender = Some i" "b = cs_friends s ! i" "friends_linked a b" "fr_r_nonce b < n"
    "0 \<notin> set text" "cf_fits (ms @ [\<lparr>cm_sender = 1, cm_text = text\<rparr>])" "length text < 2 ^ 40"
    "cs_cfiles s (fr_c_file b) = Some (cfile_image L b ms)"
  shows "\<exists>s'. parse_conv_message L e sender (conv_seal L a n text) (of_nat (length (conv_seal L a n text))) s = Some (Done (0, s')) \<and>
    cs_cfiles s' (fr_c_file b) = Some (cfile_image L b (ms @ [\<lparr>cm_sender = 1, cm_text = text\<rparr>])) \<and>
    cs_notifs s' = count_message i (cs_notifs s) \<and> cs_friends s' = (cs_friends s)[i := b\<lparr>fr_r_nonce := n\<rparr>] \<and>
    cs_new_messages s' = (if cs_mode s = 1 \<and> cs_cur_conv s = Some i then \<lparr>cm_sender = 1, cm_text = text\<rparr> # cs_new_messages s
      else cs_new_messages s)"
proof -
  let ?m = "\<lparr>cm_sender = 1, cm_text = text\<rparr>" and ?b = "b\<lparr>fr_r_nonce := n\<rparr>"
  let ?d = "cfile_image L b (ms @ [?m])"
  let ?s1 = "put_friend i ?b s"
  let ?s2 = "?s1\<lparr>cs_cfiles := (cs_cfiles ?s1)(fr_c_file b \<mapsto> ?d)\<rparr>"
  let ?s3 = "if cs_mode s = 1 \<and> cs_cur_conv s = Some i then ?s2\<lparr>cs_new_messages := ?m # cs_new_messages ?s2\<rparr> else ?s2"
  note i = friend_index_Some [OF assms(8)]
  have env: "\<forall>k n. ce_alloc e k n" "cf_good (ce_check e)" "cf_good (ce_file e)" "fst (ce_store e)" "wd_ok (snd (ce_store e))"
    "\<forall>k n. ce_notif e k n" using assms(2) by (simp_all add: conv_env_ok_def)
  have p: "parse_conv_message_payload L (ce_alloc e) (cs_friends s ! i) (conv_seal L a n text) (of_nat (length (conv_seal L a n text))) =
      Done (0, ?b, Some ?m)"
    unfolding assms(9) [symmetric] by (rule open_conv_seal [OF assms(1,10,11,14) env(1)])
  have c: "cfile_add L (ce_check e) (ce_file e) ?b ?m ?s1 = Some (Done (0, ?s2))"
    using cfile_add_client [OF assms(1) env(2,3) assms(13), of ?s1 ?b] assms(3,15) by (simp add: put_friend_def)
  have sh: "show_message i ?m ?s2 = Some ?s3"
    using assms(3) by (simp add: show_message_def put_friend_def acquire_readlock_def MAX_READERS_def INT_MAX_def)
  have s3: "cs_friends ?s3 = (cs_friends s)[i := ?b]" "cs_notifs ?s3 = cs_notifs s" "cs_lock ?s3 = 0" "cs_mode ?s3 = cs_mode s"
    "cs_cfiles ?s3 = (cs_cfiles s)(fr_c_file b \<mapsto> ?d)"
    using assms(3) by (simp_all add: put_friend_def)
  have u: "uids_ok (cs_friends ?s3)" unfolding s3 using uids_ok_update [OF assms(4)] i assms(9) by simp
  have ns: "\<forall>n \<in> set (cs_notifs ?s3). notif_ok (cs_friends ?s3) n"
    unfolding s3 using assms(5) notif_ok_length [of "(cs_friends s)[i := ?b]" "cs_friends s"] by simp
  obtain k where k: "cs_notifs ?s3 = [] \<or> hd (cs_notifs ?s3) = NMessage i k"
    using assms(7) unfolding s3 fresh_for_def by blast
  have il: "i < length (cs_friends ?s3)" unfolding s3 using i by simp
  have nl: "length (cs_notifs ?s3) < 1000000" unfolding s3 by (rule assms(6))
  from message_counted [OF assms(1) u il s3(3) ns nl k env(4,5,6)] obtain fl where
    an: "add_new_message L (ce_store e) (ce_notif e) i ?s3 = Some (Done (0, ?s3\<lparr>cs_notifs :=
        (if cs_notifs ?s3 = [] then [NMessage i 1] else NMessage i (k + 1) # tl (cs_notifs ?s3)), cs_nf_file := Some fl,
        cs_mode := (if cs_notifs ?s3 = [] \<and> cs_mode ?s3 = 0 then 0xff else cs_mode ?s3)\<rparr>))" by blast
  let ?ns = "if cs_notifs ?s3 = [] then [NMessage i 1] else NMessage i (k + 1) # tl (cs_notifs ?s3)"
  have cn: "?ns = count_message i (cs_notifs s)" using k unfolding s3 by (cases "cs_notifs s") auto
  have "parse_conv_message L e sender (conv_seal L a n text) (of_nat (length (conv_seal L a n text))) s = 
      Some (Done (0, ?s3\<lparr>cs_notifs := ?ns, cs_nf_file := Some fl,
        cs_mode := (if cs_notifs ?s3 = [] \<and> cs_mode ?s3 = 0 then 0xff else cs_mode ?s3)\<rparr>))"
    unfolding parse_conv_message_def assms(8) option.case p run_bind.simps prod.case Let_def c sh option.map an by simp
  moreover have "cs_new_messages ?s3 = (if cs_mode s = 1 \<and> cs_cur_conv s = Some i then ?m # cs_new_messages s else cs_new_messages s)"
    by (simp add: put_friend_def)
  ultimately show ?thesis using s3 cn
    by (intro exI [of _ "?s3\<lparr>cs_notifs := ?ns, cs_nf_file := Some fl,
        cs_mode := (if cs_notifs ?s3 = [] \<and> cs_mode ?s3 = 0 then 0xff else cs_mode ?s3)\<rparr>"]) simp
qed

section \<open>Properties\<close>

lemma parse_message_inv:
  assumes "parse_conv_message_payload L mem f p plen = Done (r, f', Some m)"
  defines "mlen \<equiv> decbe64 L (slice 9 8 p)" and "n \<equiv> decbe64 L (slice 1 8 p)"
  shows "17 \<le> length p" "0x11 \<le> plen" "plen = 0x11 + mlen + 0x20" "fr_r_nonce f < n" "f' = f\<lparr>fr_r_nonce := n\<rparr>"
    "unat (plen - 0x20) + 32 \<le> length p" "0x11 + unat mlen \<le> length p"
    "memcmp_ct L (slice (unat (plen - 0x20)) 0x20 p) (hmac_sha256 L (fr_r_hmac_key f) (take (unat (plen - 0x20)) p)) = 0"
    "m = \<lparr>cm_sender = 1, cm_text = chacha_dec L (fr_r_symm_key f) n (slice 0x11 (unat mlen) p)\<rparr>"
  using assms(1) unfolding parse_conv_message_payload_def
  by (auto simp: exec_bind_Done_iff read_at_Done Let_def mlen_def n_def slice_def split: if_split_asm)

lemma take_head: "take (0x11 + n) p = take 1 p @ slice 1 8 p @ slice 9 8 p @ slice 0x11 n p"
  using take_add [of 1 "16 + n" p] take_add [of 8 "8 + n" "drop 1 p"] take_add [of 8 n "drop 9 p"] by (simp add: slice_def)

lemma parse_stale:
  assumes "0x11 \<le> plen" "17 \<le> length p" "decbe64 L (slice 1 8 p) \<le> fr_r_nonce g"
  shows "parse_conv_message_payload L mem g p plen = Done (1, g, None)"
  using assms by (simp add: parse_conv_message_payload_def read_at_def Let_def)

text \<open>
  C10: Only fresh messages from the friend are accepted: a payload that yields a message consists of
  a head with a nonce above the last one, the ciphertext, and the MAC of both under the key the friend
  sends with; the counter moves to that nonce, and from then on the same payload is dropped.
\<close>
theorem conv_message_authentic:
  assumes "lib_ok L" and "parse_conv_message_payload L mem f p (of_nat (length p)) = Done (r, f', Some m)"
    and "length p < 2 ^ 64"
  shows "\<exists>t n ct. let body = [t] @ encbe64 L n @ encbe64 L (of_nat (length ct)) @ ct in
      p = body @ hmac_sha256 L (fr_r_hmac_key f) body \<and> fr_r_nonce f < n \<and> f' = f\<lparr>fr_r_nonce := n\<rparr> \<and>
      m = \<lparr>cm_sender = 1, cm_text = chacha_dec L (fr_r_symm_key f) n ct\<rparr> \<and>
      (\<forall>mem' g. n \<le> fr_r_nonce g \<longrightarrow> parse_conv_message_payload L mem' g p (of_nat (length p)) = Done (1, g, None))"
proof -
  note ok = lib_ok_parts [OF assms(1)]
  note inv = parse_message_inv [OF assms(2)]
  let ?mlen = "decbe64 L (slice 9 8 p)" and ?n = "decbe64 L (slice 1 8 p)"
  let ?ct = "slice 0x11 (unat ?mlen) p" and ?k = "length p - 0x20"
  have u: "unat (of_nat (length p) :: u64) = length p" using assms(3) by (rule unat_of_nat_small)
  have pl: "length p = 0x31 + unat ?mlen"
  proof -
    have "0x31 + unat ?mlen < 2 ^ 64"
    proof (rule ccontr)
      assume a: "\<not> 0x31 + unat ?mlen < 2 ^ 64"
      have "unat (0x11 + ?mlen + 0x20) = (0x31 + unat ?mlen) mod 2 ^ 64" by (simp add: unat_word_ariths)
      also have "\<dots> = 0x31 + unat ?mlen - 2 ^ 64"
        using a unat64_less [of ?mlen] by (simp add: mod_if)
      finally show False using inv(3,7) u a by simp
    qed
    then have "unat (0x11 + ?mlen + 0x20) = 0x31 + unat ?mlen" by (simp add: unat_word_ariths)
    then show ?thesis using inv(3) u by simp
  qed
  have le: "(0x20 :: u64) \<le> of_nat (length p)" unfolding word_le_nat_alt u using pl by simp
  have k: "unat (of_nat (length p) - 0x20 :: u64) = ?k" using unat_sub [OF le] u by simp
  have ct: "length ?ct = unat ?mlen" using pl by simp
  have e: "encbe64 L ?n = slice 1 8 p" "encbe64 L (of_nat (length ?ct)) = slice 9 8 p"
    using ok pl ct by (simp_all add: endian_simps)
  have kk: "?k = 0x11 + unat ?mlen" using pl by simp
  have body: "[hd p] @ slice 1 8 p @ slice 9 8 p @ ?ct = take ?k p"
  proof -
    have h: "[hd p] = take 1 p" using pl by (cases p) simp_all
    show ?thesis unfolding kk take_head h by (rule refl)
  qed
  have mac: "slice ?k 0x20 p = hmac_sha256 L (fr_r_hmac_key f) (take ?k p)"
    using inv(8) pl ok unfolding k by (simp add: memcmp_ct_iff digest_simps)
  have "slice ?k 0x20 p = drop ?k p" unfolding slice_def by (rule take_all) simp
  then have p: "p = take ?k p @ hmac_sha256 L (fr_r_hmac_key f) (take ?k p)" using mac by (metis append_take_drop_id)
  let ?body = "[hd p] @ encbe64 L ?n @ encbe64 L (of_nat (length ?ct)) @ ?ct"
  have b: "?body = take ?k p" unfolding e by (rule body)
  have P: "p = ?body @ hmac_sha256 L (fr_r_hmac_key f) ?body" unfolding b by (rule p)
  have A: "\<forall>mem' g. ?n \<le> fr_r_nonce g \<longrightarrow> parse_conv_message_payload L mem' g p (of_nat (length p)) = Done (1, g, None)"
    using parse_stale [OF inv(2,1)] by blast
  show ?thesis unfolding Let_def
    by (intro exI [of _ "hd p"] exI [of _ ?n] exI [of _ ?ct] conjI) (rule P inv(4) inv(5) inv(9) A)+
qed

text \<open>
  A forged message ends a conversation: the counter is moved before the MAC is checked, so one
  payload with the highest nonce and any wrong MAC is dropped, but after it no payload at all is
  accepted from that friend.
\<close>
theorem forged_message_silences_friend:
  assumes "length p = 0x31 + unat mlen" and "0x31 + unat mlen < 2 ^ 63"
    and "decbe64 L (slice 9 8 p) = mlen" and "decbe64 L (slice 1 8 p) = -1" and "fr_r_nonce f \<noteq> -1"
    and "memcmp_ct L (drop (0x11 + unat mlen) p) (hmac_sha256 L (fr_r_hmac_key f) (take (0x11 + unat mlen) p)) \<noteq> 0"
  shows "parse_conv_message_payload L mem f p (of_nat (length p)) = Done (1, f\<lparr>fr_r_nonce := -1\<rparr>, None) \<and>
    (\<forall>mem' p' plen' r g m. parse_conv_message_payload L mem' (f\<lparr>fr_r_nonce := -1\<rparr>) p' plen' \<noteq> Done (r, g, Some m))"
proof
  let ?plen = "of_nat (length p) :: u64"
  have u: "unat ?plen = 0x31 + unat mlen" using assms(1,2) unat_of_nat_small [of "length p"] by simp
  have k: "unat (?plen - 0x20) = 0x11 + unat mlen" using u by (simp add: unat_sub word_le_nat_alt)
  have c: "\<not> ?plen < 0x11" "?plen = 0x11 + mlen + 0x20"
    using u by (simp_all add: word_less_nat_alt assms(1))
  have n: "\<not> -1 \<le> fr_r_nonce f" using assms(5) by (metis order_antisym word_n1_ge)
  have s: "slice (0x11 + unat mlen) 0x20 p = drop (0x11 + unat mlen) p" "slice 0 (0x11 + unat mlen) p = take (0x11 + unat mlen) p"
    using assms(1) by (simp_all add: slice_def)
  have r: "read_at p 9 8 = Done (slice 9 8 p)" "read_at p 1 8 = Done (slice 1 8 p)"
    "read_at p 0 (0x11 + unat mlen) = Done (take (0x11 + unat mlen) p)"
    "read_at p (0x11 + unat mlen) 0x20 = Done (drop (0x11 + unat mlen) p)"
    using assms(1) s by (simp_all add: read_at_def)
  show "parse_conv_message_payload L mem f p ?plen = Done (1, f\<lparr>fr_r_nonce := -1\<rparr>, None)"
    unfolding parse_conv_message_payload_def r(1,2) exec_bind.simps Let_def assms(3,4) k r(3,4)
    using c n assms(6) by simp
  show "\<forall>mem' p' plen' r g m. parse_conv_message_payload L mem' (f\<lparr>fr_r_nonce := -1\<rparr>) p' plen' \<noteq> Done (r, g, Some m)"
  proof (intro allI notI)
    fix mem' p' plen' r g m
    assume "parse_conv_message_payload L mem' (f\<lparr>fr_r_nonce := -1\<rparr>) p' plen' = Done (r, g, Some m)"
    from parse_message_inv(4) [OF this] show False by (simp add: word_n1_ge leD)
  qed
qed

text \<open>
  A message of 17 bytes crashes the receiver: the length check is modulo 2^64, so a payload whose
  text length field says -32 passes it, and the MAC is computed over 2^64 - 15 bytes. The sender
  only has to be a friend; no key is needed.
\<close>
theorem crafted_length_crashes:
  assumes "friend_index (cs_friends s) sender = Some i" and "length p = 0x11"
    and "decbe64 L (slice 9 8 p) = -0x20" and "fr_r_nonce (cs_friends s ! i) < decbe64 L (slice 1 8 p)"
  shows "parse_conv_message L env sender p 0x11 s = Some UB"
proof -
  have "parse_conv_message_payload L (ce_alloc env) (cs_friends s ! i) p 0x11 = UB"
    using assms(2-4) by (simp add: parse_conv_message_payload_def read_at_def Let_def)
  then show ?thesis using assms(1) by (simp add: parse_conv_message_def)
qed

text \<open>
  Key and nonce are used twice after a restart: the friend file is not written when a message is
  sent, so a client that is started again reads the old counter, and its first message \<open>t2\<close> is
  enciphered with the key and the nonce of the first message \<open>t1\<close> of the run before. (The friend,
  whose own counter has moved, drops it.)
\<close>
theorem restart_reuses_keystream:
  assumes "lib_ok L" and "\<forall>f \<in> set (cs_friends s). friend_ok L f \<and> slack_ok usable f" and "length (cs_friends s) < 2 ^ 20"
    and "wd_ok env" and "write_friendfile L usable True env (cs_acc s) (cs_friends s) = Done (0, Some fl)" and "cs_ff_file s = Some fl"
    and "client_ready s" and "key_linked (cs_keys s) r" and "fr_s_nonce (cs_friends s ! i) + 1 \<noteq> 0" and "\<forall>k n. mem k n"
    and "0 \<notin> set t1" and "length t1 < 2 ^ 32" and "0 \<notin> set t2" and "length t2 < 2 ^ 32"
    and "client_ready s2" and "key_linked (cs_keys s2) r2" and "ff_same (cs_acc s) (cs_acc s2)" and "\<forall>i k n. imem i k n"
    and "read_friendfile L usable True mem imem (cs_acc s2) (Some fl) = Done (0, Some (cs_friends s2))"
  defines "f \<equiv> cs_friends s ! i"
  defines "n \<equiv> fr_s_nonce f + 1" and "uid \<equiv> gen_uid L (cstr (fr_uname f))"
  shows "\<exists>s' s2' m1 m2. cmessage_send_server L mem i \<lparr>cm_sender = 0, cm_text = t1\<rparr> s = Some (Done (0, s')) \<and> cs_ff_file s' = Some fl \<and>
    cmessage_send_server L mem i \<lparr>cm_sender = 0, cm_text = t2\<rparr> s2 = Some (Done (0, s2')) \<and>
    out_queue (cs_con s') = out_queue (cs_con s) @ [m1] \<and> out_queue (cs_con s2') = out_queue (cs_con s2) @ [m2] \<and>
    recv_message L (\<lambda>_ _. True) r (Got m1 q) = Done (Some (conv_request L uid (conv_seal L f n t1))) \<and>
    recv_message L (\<lambda>_ _. True) r2 (Got m2 q) = Done (Some (conv_request L uid (conv_seal L f n t2)))"
proof -
  have fs: "cs_friends s2 = cs_friends s"
    using stored_friends_read [OF assms(1-4,17,10,18)] assms(5,19) by simp
  from cmessage_send_server_ok [OF assms(1,10,7,8) refl assms(9,11,12)] obtain m1 where
    m1: "cmessage_send_server L mem i \<lparr>cm_sender = 0, cm_text = t1\<rparr> s =
      Some (Done (0, (put_friend i (f\<lparr>fr_s_nonce := n\<rparr>) s)
        \<lparr>cs_con := add_message (\<lambda>_ _. True) (cs_con s) m1, cs_keys := (cs_keys s)\<lparr>k_nonce := k_nonce (cs_keys s) + 1\<rparr>\<rparr>))"
    "recv_message L (\<lambda>_ _. True) r (Got m1 q) = Done (Some (conv_request L uid (conv_seal L f n t1)))"
    unfolding f_def n_def uid_def by blast
  have f2: "f = cs_friends s2 ! i" "fr_s_nonce f + 1 \<noteq> 0" using assms(9) by (simp_all add: fs f_def)
  from cmessage_send_server_ok [OF assms(1,10,15,16) f2 assms(13,14)] obtain m2 where
    m2: "cmessage_send_server L mem i \<lparr>cm_sender = 0, cm_text = t2\<rparr> s2 =
      Some (Done (0, (put_friend i (f\<lparr>fr_s_nonce := n\<rparr>) s2)
        \<lparr>cs_con := add_message (\<lambda>_ _. True) (cs_con s2) m2, cs_keys := (cs_keys s2)\<lparr>k_nonce := k_nonce (cs_keys s2) + 1\<rparr>\<rparr>))"
    "recv_message L (\<lambda>_ _. True) r2 (Got m2 q) = Done (Some (conv_request L uid (conv_seal L f n t2)))"
    unfolding n_def uid_def by blast
  show ?thesis
    using m1 m2 assms(6) by (intro exI conjI, assumption | simp add: add_message_def put_friend_def)+
qed

section \<open>Witnesses\<close>

definition demo_peer_friend :: friend where
  "demo_peer_friend = demo_friend\<lparr>fr_r_symm_key := fr_s_symm_key demo_friend, fr_r_hmac_key := fr_s_hmac_key demo_friend,
     fr_s_symm_key := fr_r_symm_key demo_friend, fr_s_hmac_key := fr_r_hmac_key demo_friend\<rparr>"

lemma demo_friends_linked: "friends_linked demo_friend demo_peer_friend"
  by (simp add: friends_linked_def demo_peer_friend_def)

theorem conv_message_authentic_witness:
  "parse_conv_message_payload demo_lib (\<lambda>_ _. True) (demo_peer_friend\<lparr>fr_r_nonce := 7\<rparr>) (conv_seal demo_lib demo_friend 7 [104, 105])
     (of_nat (length (conv_seal demo_lib demo_friend 7 [104, 105]))) = Done (1, demo_peer_friend\<lparr>fr_r_nonce := 7\<rparr>, None)"
proof -
  let ?p = "conv_seal demo_lib demo_friend 7 [104, 105]"
  have "fr_r_nonce demo_peer_friend < 7" by (simp add: demo_peer_friend_def demo_friend_def)
  from open_conv_seal [OF demo_lib_ok demo_friends_linked this, of "[104, 105]" "\<lambda>_ _. True"]
  have o: "parse_conv_message_payload demo_lib (\<lambda>_ _. True) demo_peer_friend ?p (of_nat (length ?p)) =
      Done (0, demo_peer_friend\<lparr>fr_r_nonce := 7\<rparr>, Some \<lparr>cm_sender = 1, cm_text = [104, 105]\<rparr>)" by simp
  have l: "length ?p < 2 ^ 64" using conv_seal_length [OF demo_lib_ok] by simp
  from conv_message_authentic [OF demo_lib_ok o l] obtain n where
    "demo_peer_friend\<lparr>fr_r_nonce := 7\<rparr> = demo_peer_friend\<lparr>fr_r_nonce := n\<rparr>"
    "\<forall>mem' g. n \<le> fr_r_nonce g \<longrightarrow> parse_conv_message_payload demo_lib mem' g ?p (of_nat (length ?p)) = Done (1, g, None)"
    unfolding Let_def by blast
  moreover from this(1) have "n = 7" by (metis friend.select_convs(14) friend.surjective friend.update_convs(14))
  ultimately show ?thesis by simp
qed

lemma head_slices:
  assumes "lib_ok L"
  shows "slice 1 8 ([t] @ encbe64 L n @ encbe64 L k @ r) = encbe64 L n" "slice 9 8 ([t] @ encbe64 L n @ encbe64 L k @ r) = encbe64 L k"
    "length (encbe64 L n) = 8" "decbe64 L (encbe64 L n) = n"
  using lib_ok_parts [OF assms] slice_at [of "[t] @ encbe64 L n" 9 "encbe64 L k" 8 r] slice_at [of "[t]" 1 "encbe64 L n" 8 "encbe64 L k @ r"]
  by (simp_all add: endian_simps)

theorem forged_message_silences_friend_witness:
  "parse_conv_message_payload demo_lib (\<lambda>_ _. True) demo_friend
     ([0] @ encbe64 demo_lib (-1) @ encbe64 demo_lib 0 @ replicate 32 1) 0x31 = Done (1, demo_friend\<lparr>fr_r_nonce := -1\<rparr>, None)"
proof -
  let ?p = "[0] @ encbe64 demo_lib (-1) @ encbe64 demo_lib 0 @ replicate 32 (1 :: byte)"
  note h = head_slices [OF demo_lib_ok]
  have z: "unat (0 :: u64) = 0" by simp
  have l: "length ?p = 0x31 + unat (0 :: u64)" using h(3) by simp
  have n: "hmac_sha256 demo_lib k m \<noteq> replicate 32 1" for k m
  proof -
    have "hmac_sha256 demo_lib k m ! 1 = 0" by (simp add: demo_lib_def)
    then show ?thesis by auto
  qed
  have d: "drop (0x11 + unat (0 :: u64)) ?p = replicate 32 1"
    using drop_length_append [of "[0] @ encbe64 demo_lib (-1) @ encbe64 demo_lib 0" 17 "replicate 32 (1 :: byte)"] h(3) unfolding z by simp
  have m: "memcmp_ct demo_lib (drop (0x11 + unat (0 :: u64)) ?p)
      (hmac_sha256 demo_lib (fr_r_hmac_key demo_friend) (take (0x11 + unat (0 :: u64)) ?p)) \<noteq> 0"
    unfolding d using n memcmp_ct_iff [OF lib_ok_parts(2) [OF demo_lib_ok]] digest_simps [OF lib_ok_parts(3) [OF demo_lib_ok]]
    by (metis length_replicate)
  have "fr_r_nonce demo_friend \<noteq> -1" by (simp add: demo_friend_def)
  note f = forged_message_silences_friend [OF l _ _ _ this m, of "\<lambda>_ _. True"]
  have w: "(of_nat (length ?p) :: u64) = 0x31" unfolding l by simp
  show ?thesis using f unfolding h(1,2) h(4) w by simp
qed

theorem crafted_length_crashes_witness:
  "parse_conv_message demo_lib \<lparr>ce_alloc = \<lambda>_ _. True, ce_send = \<lambda>_ _. True, ce_check = demo_cf, ce_file = demo_cf,
       ce_store = (True, demo_wd), ce_notif = \<lambda>_ _. True\<rparr> (fr_uid demo_friend)
     ([0] @ encbe64 demo_lib 5 @ encbe64 demo_lib (-0x20) @ []) 0x11 demo_user_client = Some UB"
proof (rule crafted_length_crashes)
  note h = head_slices [OF demo_lib_ok]
  show "friend_index (cs_friends demo_user_client) (fr_uid demo_friend) = Some 0" by (simp add: demo_user_client_def)
  show "length ([0] @ encbe64 demo_lib 5 @ encbe64 demo_lib (-0x20) @ []) = 0x11" using h(3) by simp
  show "decbe64 demo_lib (slice 9 8 ([0] @ encbe64 demo_lib 5 @ encbe64 demo_lib (-0x20) @ [])) = -0x20"
    unfolding h(2) by (rule h(4))
  show "fr_r_nonce (cs_friends demo_user_client ! 0) < decbe64 demo_lib (slice 1 8 ([0] @ encbe64 demo_lib 5 @ encbe64 demo_lib (-0x20) @ []))"
    unfolding h(1) h(4) by (simp add: demo_user_client_def demo_friend_def)
qed

theorem restart_reuses_keystream_witness:
  "\<exists>s :: client_state. \<exists>s' s2' m1 m2. cmessage_send_server demo_lib (\<lambda>_ _. True) 0 \<lparr>cm_sender = 0, cm_text = [1]\<rparr> s = Some (Done (0, s')) \<and>
    cmessage_send_server demo_lib (\<lambda>_ _. True) 0 \<lparr>cm_sender = 0, cm_text = [2]\<rparr> s = Some (Done (0, s2')) \<and>
    out_queue (cs_con s') = [m1] \<and> out_queue (cs_con s2') = [m2] \<and>
    recv_message demo_lib (\<lambda>_ _. True) demo_peer (Got m1 []) =
      Done (Some (conv_request demo_lib (gen_uid demo_lib (cstr (fr_uname demo_friend))) (conv_seal demo_lib demo_friend (fr_s_nonce demo_friend + 1) [1]))) \<and>
    recv_message demo_lib (\<lambda>_ _. True) demo_peer (Got m2 []) =
      Done (Some (conv_request demo_lib (gen_uid demo_lib (cstr (fr_uname demo_friend))) (conv_seal demo_lib demo_friend (fr_s_nonce demo_friend + 1) [2])))"
proof -
  have f: "\<forall>f \<in> set [demo_friend]. friend_ok demo_lib f \<and> slack_ok (\<lambda>n. 24) f"
    using demo_friend_ok by (simp add: slack_ok_def demo_friend_def)
  have sm: "ff_same demo_account demo_account" by (simp add: ff_same_def)
  from stored_friends_read [OF demo_lib_ok f _ demo_wd_ok sm, where mem = "\<lambda>_ _. True" and imem = "\<lambda>_ _ _. True"] obtain fl where
    fl: "write_friendfile demo_lib (\<lambda>n. 24) True demo_wd demo_account [demo_friend] = Done (0, Some fl)"
      "read_friendfile demo_lib (\<lambda>n. 24) True (\<lambda>_ _. True) (\<lambda>_ _ _. True) demo_account (Some fl) = Done (0, Some [demo_friend])" by auto
  let ?s = "demo_user_client\<lparr>cs_ff_file := Some fl\<rparr>"
  have k: "key_linked demo_keys demo_peer" by (simp add: key_linked_def demo_keys_def demo_peer_def)
  have h: "\<forall>f \<in> set (cs_friends ?s). friend_ok demo_lib f \<and> slack_ok (\<lambda>n. 24) f" "length (cs_friends ?s) < 2 ^ 20"
    "write_friendfile demo_lib (\<lambda>n. 24) True demo_wd (cs_acc ?s) (cs_friends ?s) = Done (0, Some fl)" "cs_ff_file ?s = Some fl"
    "client_ready ?s" "key_linked (cs_keys ?s) demo_peer" "fr_s_nonce (cs_friends ?s ! 0) + 1 \<noteq> 0"
    "ff_same (cs_acc ?s) (cs_acc ?s)" "out_queue (cs_con ?s) = []" "cs_friends ?s ! 0 = demo_friend"
    "read_friendfile demo_lib (\<lambda>n. 24) True (\<lambda>_ _. True) (\<lambda>_ _ _. True) (cs_acc ?s) (Some fl) = Done (0, Some (cs_friends ?s))"
    using f fl k sm by (simp_all add: demo_user_client_def client_ready_def init_handler_def demo_friend_def)
  have t: "0 \<notin> set [1 :: byte]" "length [1 :: byte] < 2 ^ 32" "0 \<notin> set [2 :: byte]" "length [2 :: byte] < 2 ^ 32" by simp_all
  from restart_reuses_keystream [OF demo_lib_ok h(1,2) demo_wd_ok h(3,4,5,6,7) _ t h(5,6,8) _ h(11), of "[]"]
  show ?thesis unfolding h(9,10) append_Nil simp_thms by blast
qed

end
