(* ===== verification/Friendreq.thy ===== *)
theory Friendreq
  imports Conversation
begin

text \<open>
  \<open>client/friendreq.c\<close>: how two users become friends. A request carries the sender's name and public key,
  encrypted to the receiver and signed; the answer carries the four conversation keys as well. The letters are followed to their receiver in
  \<open>BgManager\<close>.
\<close>

section \<open>The code: messages under RSA\<close>

text \<open>What building a message meets: the allocations, the random keys, those of the send.\<close>

record fq_env =
  fe_mem :: heap_oracle
  fe_rand :: "bytes option"
  fe_send :: heap_oracle

definition rsa_block :: "ibc \<Rightarrow> bytes \<Rightarrow> u64" where
  "rsa_block L key = (decbe64 L (take 8 key) + 7) div 8"

text \<open>The signed part: type, lengths, the encrypted keys, the encrypted data and its MAC.\<close>

definition rsa_signed :: "ibc \<Rightarrow> byte \<Rightarrow> u64 \<Rightarrow> u64 \<Rightarrow> bytes \<Rightarrow> bytes \<Rightarrow> bytes \<Rightarrow> bytes" where
  "rsa_signed L m_type encblen dlen enc keys data =
     (let ct = chacha_enc L (take 32 keys) 0 data in
      [m_type] @ encbe64 L encblen @ encbe64 L dlen @ enc @ ct @ hmac_sha256 L (drop 32 keys) ct)"

text \<open>
  \<open>send_rsa_message\<close>. The buffer is as long as the computed \<open>reqlen\<close>; a message that is longer would be
  written past its end. When \<open>send_message\<close> fails, \<open>net_lock\<close> is not released.
\<close>

definition send_rsa_message :: "ibc \<Rightarrow> fq_env \<Rightarrow> byte \<Rightarrow> bytes \<Rightarrow> bytes \<Rightarrow> u64 \<Rightarrow> bytes option \<Rightarrow> client_state \<Rightarrow>
    (int \<times> client_state) run" where
  "send_rsa_message L env m_type target pkey pkeylen ex_data s =
     (let acc = cs_acc s; key_bin = ac_key_bin acc; ex = case_option [] (\<lambda>d. d) ex_data; ed_len = of_nat (length ex) in
      if length pkey < 8 \<or> length key_bin < 8 then Some UB
      else let encblen = rsa_block L pkey; siglen = rsa_block L key_bin;
        my_keylen = rsa_pubkey_bufsize L (decbe64 L (take 8 key_bin));
        reqlen = 0x29 + 0x11 + encblen + 0x10 + ac_u_len acc + my_keylen + ed_len + 0x20 + siglen;
        payloadlen = 0x10 + ac_u_len acc + my_keylen + ed_len in
      if \<not> fe_mem env 0 reqlen then Some (Done (-1, s))
      else case fe_rand env of None \<Rightarrow> Some (Done (-1, s))
      | Some keys \<Rightarrow> (case rsa_wire2pubkey L (take (unat pkeylen) pkey) of None \<Rightarrow> Some (Done (-1, s))
      | Some rec_key \<Rightarrow> (case rsa_oaep_encrypt L rec_key keys of None \<Rightarrow> Some (Done (-1, s))
      | Some enc \<Rightarrow>
        if \<not> fe_mem env 1 my_keylen then Some (Done (-1, s))
        else case rsa_wire_prikey2pubkey L key_bin of None \<Rightarrow> Some (Done (-1, s))
      | Some my_key \<Rightarrow>
        let data = encbe64 L (ac_u_len acc) @ encbe64 L my_keylen @ take (unat (ac_u_len acc)) (ac_uname acc) @ my_key @ ex;
            signed = rsa_signed L m_type encblen (payloadlen + 0x20) enc keys data
        in case rsa_wire2prikey L key_bin of None \<Rightarrow> Some (Done (-1, s))
      | Some sig_key \<Rightarrow> (case rsa_pss_sign L sig_key signed of None \<Rightarrow> Some (Done (-1, s))
      | Some sig \<Rightarrow>
        let req = [0] @ target @ encbe64 L (reqlen - 0x29) @ signed @ sig in
        if length req > unat reqlen then Some UB
        else if length req \<noteq> unat reqlen then Some (Done (-1, s))
        else run_bind (map_option Done (acquire_netlock s)) (\<lambda>(a, s1).
          if a \<noteq> 0 then Some (Done (-1, s1))
          else run_bind (Some (client_send L (fe_send env) req reqlen s1)) (\<lambda>(r, s2).
            if r \<noteq> 0 then Some (Done (-1, s2)) else Some (Done (0, release_netlock s2))))))))"

text \<open>
  \<open>parse_rsa_message\<close> on the payload of a message: 0, 1 for an invalid message, or -1; with it the name,
  the key and the extra data, if \<open>*u_data\<close> and \<open>*k_data\<close> were set. Lengths are compared modulo 2^64.
\<close>

definition parse_rsa_verify :: "ibc \<Rightarrow> bytes \<Rightarrow> u64 \<Rightarrow> u64 \<Rightarrow> u64 \<Rightarrow> bytes \<Rightarrow> bytes \<Rightarrow> bytes \<Rightarrow> int exec" where
  "parse_rsa_verify L p p_len kb_len db_len keys data k_data =
     exec_bind (read_at k_data 0 8) (\<lambda>kb. let siglen = (decbe64 L kb + 7) div 8 in
       if p_len \<noteq> kb_len + db_len + 17 + siglen then Done 1
       else case rsa_wire2pubkey L k_data of None \<Rightarrow> Done 1
       | Some pkey \<Rightarrow>
         let buf = take (unat (17 + kb_len)) p @ chacha_enc L (take 32 keys) 0 data @ drop (unat (17 + kb_len + (db_len - 32))) p
         in exec_bind (read_at buf (unat (p_len - siglen)) (unat siglen)) (\<lambda>sig.
            exec_bind (read_at buf 0 (unat (p_len - siglen))) (\<lambda>signed.
              case rsa_pss_verify L pkey sig signed of Some True \<Rightarrow> Done 0 | _ \<Rightarrow> Done 1)))"

definition parse_rsa_message :: "ibc \<Rightarrow> heap_oracle \<Rightarrow> account \<Rightarrow> bytes \<Rightarrow> u64 \<Rightarrow> nat option \<Rightarrow>
    (int \<times> (u64 \<times> bytes \<times> u64 \<times> bytes \<times> bytes) option) exec" where
  "parse_rsa_message L mem acc p p_len ed =
     exec_bind (read_at p 1 8) (\<lambda>kb. exec_bind (read_at p 9 8) (\<lambda>db.
       let kb_len = decbe64 L kb; db_len = decbe64 L db; off = unat (17 + kb_len); dl = unat (db_len - 32) in
       if kb_len + db_len + 17 \<ge> p_len then Done (1, None)
       else case rsa_wire2prikey L (ac_key_bin acc) of None \<Rightarrow> Done (-1, None)
       | Some rkey \<Rightarrow> exec_bind (read_at p 0x11 (unat kb_len)) (\<lambda>enc. case rsa_oaep_decrypt L rkey enc 64 of
           None \<Rightarrow> Done (1, None)
         | Some keys \<Rightarrow> exec_bind (read_at p off dl) (\<lambda>ct. exec_bind (read_at p (off + dl) 32) (\<lambda>mac.
             if memcmp_ct L (hmac_sha256 L (drop 32 keys) ct) mac \<noteq> 0 then Done (1, None)
             else let data = chacha_dec L (take 32 keys) 0 ct; buf = data @ drop (off + dl) p in
               exec_bind (read_seq buf 0 [8, 8]) (\<lambda>(ns, _). let ul = decbe64 L (ns ! 0); kl = decbe64 L (ns ! 1) in
               if \<not> mem 0 (ul + 1) \<or> \<not> mem 1 kl then Done (-1, Some (ul, [], kl, [], []))
               else exec_bind (read_seq buf 16 [unat ul, unat kl, case_option 0 id ed]) (\<lambda>(bs, _).
                 exec_bind (parse_rsa_verify L p p_len kb_len db_len keys data (bs ! 1)) (\<lambda>r.
                   Done (r, Some (ul, bs ! 0, kl, bs ! 1, bs ! 2))))))))))"

section \<open>The code: requests and answers\<close>

text \<open>Freeing a friend that is in the list leaves the list with a dangling pointer.\<close>

definition delete_listed_friend :: "client_state \<Rightarrow> client_state" where
  "delete_listed_friend s = s\<lparr>cs_dangling := True\<rparr>"

text \<open>What processing meets: the allocations of the parse and the notification, the two files, the random file name.\<close>

record fp_env =
  fp_freq :: bool
  fp_parse :: heap_oracle
  fp_notif :: bool
  fp_store :: store_env
  fp_init :: heap_oracle
  fp_name :: "bytes option"
  fp_friends :: store_env

text \<open>
  \<open>free_friendreq\<close> after an invalid message frees the name and the key, which are set only when parsing
  got as far as their allocation.
\<close>

definition parse_friendreq :: "ibc \<Rightarrow> fp_env \<Rightarrow> bytes \<Rightarrow> u64 \<Rightarrow> client_state \<Rightarrow> (int \<times> client_state) run" where
  "parse_friendreq L env p p_len s =
     (if \<not> fp_freq env then Some (Done (-1, s))
      else run_bind (Some (parse_rsa_message L (fp_parse env) (cs_acc s) p p_len None)) (\<lambda>(r, out). case out of
        None \<Rightarrow> Some UB
      | Some (ul, uname, kl, pkey, _) \<Rightarrow>
          if r < 0 then Some (Done (-1, s))
          else if r > 0 then Some (Done (0, s))
          else if \<not> fp_notif env then Some (Done (-1, s))
          else run_bind (add_notif L (fp_store env) (NRequest \<lparr>fq_u_len = ul, fq_k_len = kl, fq_uname = uname, fq_pkey = pkey\<rparr>) s)
            (\<lambda>(_, s1). Some (Done (0, s1)))))"

text \<open>
  \<open>parse_friendreq_response\<close>: nothing is compared with a request sent before. An invalid message ends in
  \<open>delete_friend(NULL)\<close>; so does using the result of \<open>init_friend\<close> unseen.
\<close>

definition parse_friendreq_response :: "ibc \<Rightarrow> (u64 \<Rightarrow> nat) \<Rightarrow> fp_env \<Rightarrow> bytes \<Rightarrow> u64 \<Rightarrow> client_state \<Rightarrow>
    (int \<times> client_state) run" where
  "parse_friendreq_response L usable env p p_len s =
     run_bind (Some (parse_rsa_message L (fp_parse env) (cs_acc s) p p_len (Some 0x80))) (\<lambda>(r, out). case out of
       None \<Rightarrow> Some UB
     | Some (ul, uname, kl, pkey, keys) \<Rightarrow>
        if r \<noteq> 0 then Some UB
        else run_bind (Some (init_friend L (fp_init env) (fp_name env) uname pkey ul kl)) (\<lambda>f. case f of
          None \<Rightarrow> Some UB
        | Some f \<Rightarrow>
          let f1 = f\<lparr>fr_r_symm_key := slice 0 0x20 keys, fr_r_hmac_key := slice 0x20 0x20 keys,
                     fr_s_symm_key := slice 0x40 0x20 keys, fr_s_hmac_key := slice 0x60 0x20 keys\<rparr>
          in run_bind (add_friend L usable (fp_friends env) f1 s) (\<lambda>(r1, s1).
            if r1 \<noteq> 0 then Some (Done (-1, delete_listed_friend s1))
            else if \<not> fp_notif env then Some (Done (-1, delete_listed_friend s1))
            else run_bind (add_notif L (fp_store env) (NAccepted (length (cs_friends s))) s1) (\<lambda>(_, s2).
              Some (Done (0, s2))))))"

definition send_friendreq_message :: "ibc \<Rightarrow> fq_env \<Rightarrow> bytes \<Rightarrow> bytes \<Rightarrow> u64 \<Rightarrow> client_state \<Rightarrow> (int \<times> client_state) run" where
  "send_friendreq_message L env target pkey pkeylen s = send_rsa_message L env 1 target pkey pkeylen None s"

text \<open>\<open>rand\<close>: the four keys that are sent with the answer.\<close>

definition friendreq_send_resp_message :: "ibc \<Rightarrow> fq_env \<Rightarrow> bytes option \<Rightarrow> friendreq \<Rightarrow> friend \<Rightarrow> client_state \<Rightarrow>
    (int \<times> friend \<times> client_state) run" where
  "friendreq_send_resp_message L env rand freq f s = (case rand of
     None \<Rightarrow> Some (Done (1, f, s))
   | Some keys \<Rightarrow>
      run_bind (send_rsa_message L env 2 (gen_uid L (cstr (fq_uname freq))) (fq_pkey freq) (fq_k_len freq) (Some keys) s) (\<lambda>(r, s1).
        if r \<noteq> 0 then Some (Done (1, f, s1))
        else Some (Done (0, f\<lparr>fr_s_symm_key := slice 0 0x20 keys, fr_s_hmac_key := slice 0x20 0x20 keys,
                     fr_r_symm_key := slice 0x40 0x20 keys, fr_r_hmac_key := slice 0x60 0x20 keys\<rparr>, s1))))"

definition friendreq_send_response :: "ibc \<Rightarrow> (u64 \<Rightarrow> nat) \<Rightarrow> fp_env \<Rightarrow> fq_env \<Rightarrow> bytes option \<Rightarrow> friendreq \<Rightarrow> client_state \<Rightarrow>
    (int \<times> client_state) run" where
  "friendreq_send_response L usable env senv rand freq s =
     run_bind (Some (init_friend L (fp_init env) (fp_name env) (fq_uname freq) (fq_pkey freq) (fq_u_len freq) (fq_k_len freq))) (\<lambda>f.
       case f of None \<Rightarrow> Some (Done (1, s))
       | Some f \<Rightarrow> run_bind (friendreq_send_resp_message L senv rand freq f s) (\<lambda>(r, f1, s1).
           if r \<noteq> 0 then Some (Done (1, s1))
           else run_bind (add_friend L usable (fp_friends env) f1 s1) (\<lambda>(r1, s2).
             if r1 \<noteq> 0 then Some (Done (1, delete_listed_friend s2)) else Some (Done (0, s2)))))"

text \<open>\<open>ans\<close> is the result of \<open>yn_prompt\<close>: 1, 0, or -1 when nothing could be read, which is reported and then ignored.\<close>

definition friendreq_response :: "ibc \<Rightarrow> (u64 \<Rightarrow> nat) \<Rightarrow> fp_env \<Rightarrow> fq_env \<Rightarrow> bytes option \<Rightarrow> int \<Rightarrow> friendreq \<Rightarrow> client_state \<Rightarrow>
    (int \<times> client_state) run" where
  "friendreq_response L usable env senv rand ans freq s =
     (if ans = 0 then Some (Done (0, s)) else friendreq_send_response L usable env senv rand freq s)"

section \<open>The code: asking for a friend\<close>

definition verify_pkey :: "int \<Rightarrow> int" where
  "verify_pkey ans = (if ans = -1 then -1 else if ans = 0 then 1 else 0)"

definition send_pkey_req :: "ibc \<Rightarrow> heap_oracle \<Rightarrow> bytes \<Rightarrow> client_state \<Rightarrow> (int \<times> client_state) run" where
  "send_pkey_req L mem target s =
     run_bind (map_option Done (acquire_netlock s)) (\<lambda>(a, s1).
       if a \<noteq> 0 then Some (Done (-1, s1))
       else if \<not> mem 0 0x21 then Some (Done (-1, release_netlock s1))
       else run_bind (Some (client_send L (\<lambda>k. mem (k + 1)) ([1] @ target) 0x21 s1)) (\<lambda>(r, s2).
         Some (Done (if r \<noteq> 0 then -1 else 0, release_netlock s2))))"

text \<open>
  \<open>send_friendreq\<close> up to the point where it waits, with \<open>bg_lock\<close> free, for the background thread; and
  from there on, from a state in which the wait is over and \<open>bg_lock\<close> is held again. \<open>uname\<close> is the result
  of \<open>getusername\<close>, \<open>ans\<close> that of the prompt.
\<close>

definition send_friendreq_start :: "ibc \<Rightarrow> heap_oracle \<Rightarrow> bytes option \<Rightarrow> client_state \<Rightarrow> (int \<times> client_state) run" where
  "send_friendreq_start L mem uname s = (let s0 = s\<lparr>cs_pkey_resp := None\<rparr> in case uname of
     None \<Rightarrow> Some (Done (-1, s0))
   | Some u \<Rightarrow> run_bind (send_pkey_req L mem (gen_uid L u) s0) (\<lambda>(r, s1).
       if r \<noteq> 0 then Some (Done (-1, s1))
       else run_bind (set_mode 2 s1) (\<lambda>s2. if cs_bglock s2 then None else Some (Done (0, s2)))))"

definition pkey_wait_over :: "client_state \<Rightarrow> bool" where
  "pkey_wait_over s \<longleftrightarrow> \<not> (cs_pkey_resp s = None \<and> cs_mode s = 2)"

definition send_friendreq_finish :: "ibc \<Rightarrow> fq_env \<Rightarrow> bytes \<Rightarrow> int \<Rightarrow> client_state \<Rightarrow> (int \<times> client_state) run" where
  "send_friendreq_finish L env uname ans s =
     (if cs_mode s = -1 then Some (Done (-1, s))
      else run_bind (set_mode 0 s) (\<lambda>s1. let s2 = s1\<lparr>cs_bglock := False\<rparr>; uid = gen_uid L uname in case cs_pkey_resp s2 of
        None \<Rightarrow> Some UB
      | Some m \<Rightarrow>
        if length m < 0x21 then Some (Done (-1, s2))
        else if hd m = 0xff then Some (Done (0, s2))
        else if length m < 0x29 then Some (Done (-1, s2))
        else if slice 1 32 m \<noteq> uid then Some (Done (-1, s2))
        else let pkeysize = rsa_pubkey_bufsize L (decbe64 L (slice 0x21 8 m)) in
          run_bind (Some (read_at m 0x21 (unat pkeysize))) (\<lambda>_. let ver = verify_pkey ans in
            if ver \<noteq> 0 then Some (Done (if ver = -1 then -1 else 0, s2))
            else run_bind (send_friendreq_message L env uid (drop 0x21 m) pkeysize s2) (\<lambda>(r, s3).
              Some (Done (if r \<noteq> 0 then -1 else 0, s3))))))"

section \<open>A letter under RSA\<close>

text \<open>An account, its key pair and the wire form of the public key.\<close>

definition rsa_party :: "ibc \<Rightarrow> account \<Rightarrow> rsa_key \<Rightarrow> rsa_public_key \<Rightarrow> bytes \<Rightarrow> bool" where
  "rsa_party L acc k pk w \<longleftrightarrow> rsa_pub_key L k = Some pk \<and> rsa_prikey2wire L k = Some (ac_key_bin acc) \<and>
     rsa_pubkey2wire L pk = Some w \<and> unat (ac_u_len acc) = length (ac_uname acc) \<and> length (ac_uname acc) < 2 ^ 40 \<and>
     0 \<notin> set (ac_uname acc) \<and> length w < 2 ^ 40 \<and> 0 < unat (pk_bits pk) \<and> unat (pk_bits pk) < 2 ^ 40 \<and> (\<forall>m. rsa_pss_sign L k m \<noteq> None)"

definition rsa_data :: "ibc \<Rightarrow> account \<Rightarrow> bytes \<Rightarrow> bytes \<Rightarrow> bytes" where
  "rsa_data L acc w ex = encbe64 L (ac_u_len acc) @ encbe64 L (of_nat (length w)) @ ac_uname acc @ w @ ex"

definition bits_block :: "u64 \<Rightarrow> u64" where
  "bits_block b = (b + 7) div 8"

text \<open>\<open>p\<close> is a letter of type \<open>t\<close> from the account to the owner of \<open>pB\<close>.\<close>

definition rsa_letter :: "ibc \<Rightarrow> byte \<Rightarrow> account \<Rightarrow> rsa_key \<Rightarrow> bytes \<Rightarrow> rsa_public_key \<Rightarrow> bytes \<Rightarrow> bytes \<Rightarrow> bytes \<Rightarrow> bool" where
  "rsa_letter L t acc k w pB keys ex p \<longleftrightarrow> (\<exists>enc sig. rsa_oaep_encrypt L pB keys = Some enc \<and>
     (let data = rsa_data L acc w ex; signed = rsa_signed L t (bits_block (pk_bits pB)) (of_nat (length data) + 0x20) enc keys data in
      rsa_pss_sign L k signed = Some sig \<and> p = signed @ sig))"

lemma rsa_partyD:
  assumes "lib_ok L" "rsa_party L acc k pk w"
  shows "rsa_wire2prikey L (ac_key_bin acc) = Some k" "8 \<le> length (ac_key_bin acc)"
    "decbe64 L (take 8 (ac_key_bin acc)) = pk_bits pk" "rsa_wire_prikey2pubkey L (ac_key_bin acc) = Some w"
    "rsa_wire2pubkey L w = Some pk" "8 \<le> length w" "decbe64 L (take 8 w) = pk_bits pk"
    "rsa_pubkey_bufsize L (pk_bits pk) = of_nat (length w)" "take (unat (ac_u_len acc)) (ac_uname acc) = ac_uname acc"
proof -
  note ok = lib_ok_parts [OF assms(1)]
  have p: "rsa_pub_key L k = Some pk" "rsa_prikey2wire L k = Some (ac_key_bin acc)" "rsa_pubkey2wire L pk = Some w"
    "unat (ac_u_len acc) = length (ac_uname acc)" using assms(2) by (simp_all add: rsa_party_def)
  note a = rsa_prikey_wireD [OF ok(7) p(2)] and b = rsa_pubkey_wireD [OF ok(7) p(3)] and c = rsa_bitsD [OF ok(7) p(1)]
  show "rsa_wire2prikey L (ac_key_bin acc) = Some k" "8 \<le> length (ac_key_bin acc)" using a by simp_all
  show "decbe64 L (take 8 (ac_key_bin acc)) = pk_bits pk" "decbe64 L (take 8 w) = pk_bits pk"
    using a b c ok by (simp_all add: endian_simps)
  show "rsa_wire_prikey2pubkey L (ac_key_bin acc) = Some w" using a p by simp
  show "rsa_wire2pubkey L w = Some pk" "8 \<le> length w" using b by simp_all
  have "unat (rsa_pubkey_bufsize L (pk_bits pk)) = length w" using b by simp
  then show "rsa_pubkey_bufsize L (pk_bits pk) = of_nat (length w)" by (metis of_nat_unat ucast_id)
  show "take (unat (ac_u_len acc)) (ac_uname acc) = ac_uname acc" using p(4) by simp
qed

lemma bits_block_small: "0 < unat b \<Longrightarrow> unat b < 2 ^ 40 \<Longrightarrow> 0 < unat (bits_block b) \<and> unat (bits_block b) < 2 ^ 40"
proof -
  assume b: "0 < unat b" "unat b < 2 ^ 40"
  have "unat (b + 7) = unat b + 7" using b unat_plus_small [of b 7] by simp
  then have "unat (bits_block b) = (unat b + 7) div 8" by (simp add: bits_block_def unat_div)
  moreover have "1 \<le> (unat b + 7) div 8" using b(1) by (simp add: less_eq_div_iff_mult_less_eq)
  moreover have "(unat b + 7) div 8 < 2 ^ 40" using b(2) by (simp add: div_less_iff_less_mult)
  ultimately show ?thesis by linarith
qed

lemma rsa_signed_length:
  "lib_ok L \<Longrightarrow> length (rsa_signed L t a b enc keys data) = 0x31 + length enc + length data"
  by (simp add: rsa_signed_def Let_def endian_simps [OF lib_ok_parts(1)] digest_simps [OF lib_ok_parts(3)]
      cipher_simps [OF lib_ok_parts(4)])

lemma rsa_data_length: "lib_ok L \<Longrightarrow> length (rsa_data L acc w ex) = 16 + length (ac_uname acc) + length w + length ex"
  by (simp add: rsa_data_def endian_simps [OF lib_ok_parts(1)])

lemma parse_verify_ok:
  assumes "lib_ok L" "p = H @ E @ C @ M @ sig" "length H = 17" "length E = e" "length C = d" "length M = 32" "e + d + length sig < 2 ^ 50"
    "chacha_enc L (take 32 keys) 0 data = C" "8 \<le> length kd" "(decbe64 L (take 8 kd) + 7) div 8 = of_nat (length sig)"
    "rsa_wire2pubkey L kd = Some pk" "rsa_pss_verify L pk sig (H @ E @ C @ M) = Some True"
  shows "parse_rsa_verify L p (of_nat (length p)) (of_nat e) (of_nat (d + 32)) keys data kd = Done 0"
proof -
  let ?sl = "of_nat (length sig) :: u64" and ?pl = "of_nat (length p) :: u64"
  have lp: "length p = 49 + e + d + length sig" using assms(2-6) by simp
  have k: "read_at kd 0 8 = Done (take 8 kd)" using assms(9) by (simp add: read_at_def slice_def)
  have c: "?pl = of_nat e + of_nat (d + 32) + 17 + ?sl" by (simp add: lp)
  have o1: "unat (17 + of_nat e :: u64) = 17 + e"
    using unat_of_nat_small [of "17 + e"] assms(7) by simp
  have o2: "unat (17 + of_nat e + (of_nat (d + 32) - 32) :: u64) = 17 + e + d"
    using unat_of_nat_small [of "17 + e + d"] assms(7) by simp
  have "?pl - ?sl = of_nat (49 + e + d)" by (simp add: lp)
  then have o3: "unat (?pl - ?sl) = 49 + e + d" using unat_of_nat_small [of "49 + e + d"] assms(7) by simp
  have o4: "unat ?sl = length sig" using assms(7) by (intro unat_of_nat_small) simp
  have t: "take (17 + e) p = H @ E" "drop (17 + e + d) p = M @ sig" using assms(2-5) by simp_all
  have b: "take (17 + e) p @ C @ drop (17 + e + d) p = (H @ E @ C @ M) @ sig @ []" unfolding t by simp
  have l: "length (H @ E @ C @ M) = 49 + e + d" using assms(3-6) by simp
  have r1: "read_at ((H @ E @ C @ M) @ sig @ []) (49 + e + d) (length sig) = Done sig" by (rule read_at_append [OF l refl])
  have r2: "read_at ((H @ E @ C @ M) @ sig @ []) 0 (49 + e + d) = Done (H @ E @ C @ M)"
    using read_at_append [of "[]" 0 "H @ E @ C @ M" "49 + e + d" "sig @ []"] l by simp
  show ?thesis
    unfolding parse_rsa_verify_def k exec_bind.simps Let_def assms(10) assms(11) option.case o1 o2 o3 o4 assms(8) b r1 r2 assms(12)
    using c by simp
qed

lemma parse_rsa_core:
  assumes "lib_ok L" "p = ([t] @ encbe64 L (of_nat e) @ encbe64 L (of_nat (d + 32))) @ E @ C @ M @ sig" "length E = e" "length C = d"
    "length M = 32" "0 < length sig" "e + d + length sig < 2 ^ 50" "rsa_wire2prikey L (ac_key_bin acc) = Some rk"
    "rsa_oaep_decrypt L rk E 64 = Some keys" "M = hmac_sha256 L (drop 32 keys) C" "chacha_enc L (take 32 keys) 0 data = C"
    "data = encbe64 L ul @ encbe64 L kl @ un @ kd @ ex" "unat ul = length un" "unat kl = length kd" "case_option 0 id ed = length ex"
    "8 \<le> length kd" "(decbe64 L (take 8 kd) + 7) div 8 = of_nat (length sig)" "rsa_wire2pubkey L kd = Some pk"
    "rsa_pss_verify L pk sig (([t] @ encbe64 L (of_nat e) @ encbe64 L (of_nat (d + 32))) @ E @ C @ M) = Some True" "\<forall>k n. mem k n"
  shows "parse_rsa_message L mem acc p (of_nat (length p)) ed = Done (0, Some (ul, un, kl, kd, ex))"
proof -
  note ok = lib_ok_parts [OF assms(1)]
  let ?H = "[t] @ encbe64 L (of_nat e) @ encbe64 L (of_nat (d + 32))"
  have e8: "length (encbe64 L x) = 8" "decbe64 L (encbe64 L x) = x" for x using ok by (simp_all add: endian_simps)
  have H: "length ?H = 17" using e8 by simp
  have lp: "length p = 49 + e + d + length sig" using assms(2-5) H by simp
  have r1: "read_at p 1 8 = Done (encbe64 L (of_nat e))"
    using read_at_append [of "[t]" 1 "encbe64 L (of_nat e)" 8 "encbe64 L (of_nat (d + 32)) @ E @ C @ M @ sig"] e8 by (simp add: assms(2))
  have r2: "read_at p 9 8 = Done (encbe64 L (of_nat (d + 32)))"
    using read_at_append [of "[t] @ encbe64 L (of_nat e)" 9 "encbe64 L (of_nat (d + 32))" 8 "E @ C @ M @ sig"] e8 by (simp add: assms(2))
  have u: "unat (of_nat e :: u64) = e" "unat (17 + of_nat e :: u64) = 17 + e" "unat (of_nat (d + 32) - 32 :: u64) = d"
    using unat_of_nat_small [of e] unat_of_nat_small [of "17 + e"] unat_of_nat_small [of d] assms(7) by simp_all
  have c: "\<not> (of_nat e + of_nat (d + 32) + 17 \<ge> (of_nat (length p) :: u64))"
  proof -
    have a: "(of_nat e + of_nat (d + 32) + 17 :: u64) = of_nat (49 + e + d)" by simp
    have "unat (of_nat (49 + e + d) :: u64) = 49 + e + d" "unat (of_nat (length p) :: u64) = length p"
      by (rule unat_of_nat_small, use assms(7) lp in simp)+
    then show ?thesis unfolding a word_le_nat_alt using lp assms(6) by simp
  qed
  have r3: "read_at p 0x11 e = Done E"
    unfolding assms(2) using H assms(3) by (intro read_at_append) simp_all
  have r4: "read_at p (17 + e) d = Done C"
    using read_at_append [of "?H @ E" "17 + e" C d "M @ sig"] H assms(3,4) by (simp add: assms(2))
  have r5: "read_at p (17 + e + d) 32 = Done M"
    using read_at_append [of "?H @ E @ C" "17 + e + d" M 32 sig] H assms(3-5) by (simp add: assms(2))
  have m: "memcmp_ct L (hmac_sha256 L (drop 32 keys) C) M = 0" using ok by (simp add: assms(10) memcmp_ct_same)
  have dec: "chacha_dec L (take 32 keys) 0 C = data" using ok assms(11) cipher_simps [OF ok(4)] by (metis)
  let ?ns = "[encbe64 L ul, encbe64 L kl]" and ?bs = "[un, kd, ex]"
  have buf: "data @ x = concat ?ns @ concat ?bs @ x" for x unfolding assms(12) by simp
  have s1: "read_seq ([] @ concat ?ns @ concat ?bs @ x) 0 [8, 8] = Done (?ns, 0 + length (concat ?ns))" for x
    by (rule read_seq_concat) (use e8 in simp_all)
  have s2: "read_seq (concat ?ns @ concat ?bs @ x) 16 [unat ul, unat kl, case_option 0 id ed] = Done (?bs, 16 + length (concat ?bs))" for x
    by (rule read_seq_concat) (use e8 assms(13,14,15) in simp_all)
  have v: "parse_rsa_verify L p (of_nat (length p)) (of_nat e) (of_nat (d + 32)) keys data kd = Done 0"
    by (rule parse_verify_ok [OF assms(1,2) H assms(3,4,5,7,11,16-19)])
  have nth: "?ns ! 0 = encbe64 L ul" "?ns ! 1 = encbe64 L kl" "?bs ! 0 = un" "?bs ! 1 = kd" "?bs ! 2 = ex" by simp_all
  have mm: "(\<not> mem 0 (ul + 1) \<or> \<not> mem 1 kl) = False" using assms(20) by simp
  show ?thesis
    unfolding parse_rsa_message_def r1 r2 exec_bind.simps Let_def e8(2) u r3 r4 r5 m dec assms(8) option.case assms(9)
    unfolding buf s1 [simplified append_Nil] exec_bind.simps prod.case nth e8(2) mm s2 v
    using c by simp
qed

lemma rsa_letterD:
  assumes "lib_ok L" "rsa_party L acc k pk w" "rsa_party L accB kB pB wB" "length keys = 64" "length ex < 2 ^ 40"
    "rsa_letter L t acc k w pB keys ex p"
  obtains E C M sig where "p = ([t] @ encbe64 L (of_nat (length E)) @ encbe64 L (of_nat (length C + 32))) @ E @ C @ M @ sig"
    "rsa_oaep_decrypt L kB E 64 = Some keys" "C = chacha_enc L (take 32 keys) 0 (rsa_data L acc w ex)"
    "M = hmac_sha256 L (drop 32 keys) C" "of_nat (length sig) = bits_block (pk_bits pk)" "0 < length sig"
    "rsa_pss_verify L pk sig (([t] @ encbe64 L (of_nat (length E)) @ encbe64 L (of_nat (length C + 32))) @ E @ C @ M) = Some True"
    "length E + length C + length sig < 2 ^ 50" "rsa_oaep_encrypt L pB keys = Some E"
    "rsa_pss_sign L k (rsa_signed L t (bits_block (pk_bits pB)) (of_nat (length (rsa_data L acc w ex)) + 0x20) E keys (rsa_data L acc w ex)) = Some sig"
    "rsa_signed L t (bits_block (pk_bits pB)) (of_nat (length (rsa_data L acc w ex)) + 0x20) E keys (rsa_data L acc w ex) =
      ([t] @ encbe64 L (of_nat (length E)) @ encbe64 L (of_nat (length C + 32))) @ E @ C @ M"
    "length E = unat (bits_block (pk_bits pB))" "length C = 16 + length (ac_uname acc) + length w + length ex" "length M = 32"
proof -
  note ok = lib_ok_parts [OF assms(1)]
  have A: "rsa_pub_key L k = Some pk" "length (ac_uname acc) < 2 ^ 40" "length w < 2 ^ 40" "0 < unat (pk_bits pk)" "unat (pk_bits pk) < 2 ^ 40"
    using assms(2) by (simp_all add: rsa_party_def)
  have B: "rsa_pub_key L kB = Some pB" "0 < unat (pk_bits pB)" "unat (pk_bits pB) < 2 ^ 40" using assms(3) by (simp_all add: rsa_party_def)
  let ?data = "rsa_data L acc w ex" and ?dl = "of_nat (length (rsa_data L acc w ex)) + 0x20 :: u64"
  from assms(6) obtain E sig where E: "rsa_oaep_encrypt L pB keys = Some E"
    and sig: "rsa_pss_sign L k (rsa_signed L t (bits_block (pk_bits pB)) ?dl E keys ?data) = Some sig"
    and p: "p = rsa_signed L t (bits_block (pk_bits pB)) ?dl E keys ?data @ sig"
    unfolding rsa_letter_def Let_def by blast
  let ?C = "chacha_enc L (take 32 keys) 0 ?data" and ?M = "hmac_sha256 L (drop 32 keys) (chacha_enc L (take 32 keys) 0 ?data)"
  have e: "length E = unat (bits_block (pk_bits pB))" "rsa_oaep_decrypt L kB E 64 = Some keys"
    using rsa_oaepD [OF ok(7) B(1) E] assms(4) by (simp_all add: bits_block_def)
  have g: "length sig = unat (bits_block (pk_bits pk))"
    using rsa_signD [OF ok(7) A(1) sig] rsa_bitsD [OF ok(7) A(1)] by (simp add: bits_block_def)
  have C: "length ?C = 16 + length (ac_uname acc) + length w + length ex" "length ?C = length ?data"
    using ok rsa_data_length [OF assms(1)] by (simp_all add: cipher_simps)
  have s: "rsa_signed L t (bits_block (pk_bits pB)) ?dl E keys ?data =
      ([t] @ encbe64 L (of_nat (length E)) @ encbe64 L (of_nat (length ?C + 32))) @ E @ ?C @ ?M"
    using e(1) C(2) by (simp add: rsa_signed_def Let_def)
  have v: "rsa_pss_verify L pk sig (([t] @ encbe64 L (of_nat (length E)) @ encbe64 L (of_nat (length ?C + 32))) @ E @ ?C @ ?M) = Some True"
    using rsa_signD [OF ok(7) A(1) sig] unfolding s by blast
  show ?thesis
  proof (rule that [of E ?C ?M sig])
    show "p = ([t] @ encbe64 L (of_nat (length E)) @ encbe64 L (of_nat (length ?C + 32))) @ E @ ?C @ ?M @ sig"
      unfolding p s by simp
    show "of_nat (length sig) = bits_block (pk_bits pk)" "0 < length sig" "length E + length ?C + length sig < 2 ^ 50"
      using g bits_block_small [OF A(4,5)] bits_block_small [OF B(2,3)] e(1) C(1) A(2,3) assms(5) by simp_all
    show "length ?M = 32" using ok by (simp add: digest_simps)
  qed (rule e(2) refl v E sig s e(1) C(1))+
qed

text \<open>The owner of the key reads the letter.\<close>

lemma open_letter:
  assumes "lib_ok L" "rsa_party L acc k pk w" "rsa_party L accB kB pB wB" "length keys = 64" "length ex < 2 ^ 40"
    "rsa_letter L t acc k w pB keys ex p" "case_option 0 id ed = length ex" "\<forall>k n. mem k n"
  shows "parse_rsa_message L mem accB p (of_nat (length p)) ed =
    Done (0, Some (ac_u_len acc, ac_uname acc, of_nat (length w), w, ex))"
proof -
  note A = rsa_partyD [OF assms(1,2)] and B = rsa_partyD [OF assms(1,3)]
  from rsa_letterD [OF assms(1-6)] obtain E C M sig where
    l: "p = ([t] @ encbe64 L (of_nat (length E)) @ encbe64 L (of_nat (length C + 32))) @ E @ C @ M @ sig"
    "rsa_oaep_decrypt L kB E 64 = Some keys" "C = chacha_enc L (take 32 keys) 0 (rsa_data L acc w ex)"
    "M = hmac_sha256 L (drop 32 keys) C" "of_nat (length sig) = bits_block (pk_bits pk)" "0 < length sig"
    "rsa_pss_verify L pk sig (([t] @ encbe64 L (of_nat (length E)) @ encbe64 L (of_nat (length C + 32))) @ E @ C @ M) = Some True"
    "length E + length C + length sig < 2 ^ 50" "length M = 32" by metis
  have ul: "unat (ac_u_len acc) = length (ac_uname acc)" "unat (of_nat (length w) :: u64) = length w"
    using assms(2) by (auto simp: rsa_party_def intro!: unat_of_nat_small)
  have kd: "(decbe64 L (take 8 w) + 7) div 8 = of_nat (length sig)" unfolding A(7) l(5) by (simp add: bits_block_def)
  show ?thesis
    by (rule parse_rsa_core [OF assms(1) l(1) refl refl l(9,6,8) B(1) l(2,4) l(3) [symmetric] rsa_data_def ul assms(7) A(6) kd A(5) l(7) assms(8)])
qed

text \<open>And \<open>send_rsa_message\<close> sends such a letter.\<close>

definition fe_ok :: "fq_env \<Rightarrow> bool" where
  "fe_ok e \<longleftrightarrow> (\<forall>k n. fe_mem e k n) \<and> (\<forall>k n. fe_send e k n) \<and> (\<exists>keys. fe_rand e = Some keys \<and> length keys = 64)"

lemma send_rsa_eq:
  assumes "lib_ok L" "rsa_party L (cs_acc s) k pk w" "rsa_party L accB kB pB wB" "fe_mem env = (\<lambda>_ _. True)"
    "fe_rand env = Some keys" "length keys = 64" "rsa_oaep_encrypt L pB keys \<noteq> None" "length (case_option [] (\<lambda>d. d) exd) < 2 ^ 40"
    "length target = 32" "client_ready s"
  obtains p where "rsa_letter L t (cs_acc s) k w pB keys (case_option [] (\<lambda>d. d) exd) p"
    "length (conv_request L target p) < 2 ^ 52"
    "send_rsa_message L env t target wB (of_nat (length wB)) exd s =
      run_bind (Some (client_send L (fe_send env) (conv_request L target p) (of_nat (length (conv_request L target p))) (s\<lparr>cs_netlock := True\<rparr>)))
        (\<lambda>(r, s2). if r \<noteq> 0 then Some (Done (-1, s2)) else Some (Done (0, release_netlock s2)))"
proof -
  note ok = lib_ok_parts [OF assms(1)]
  note A = rsa_partyD [OF assms(1,2)] and B = rsa_partyD [OF assms(1,3)]
  let ?acc = "cs_acc s" and ?ex = "case_option [] (\<lambda>d. d) exd"
  let ?data = "rsa_data L ?acc w ?ex"
  obtain E where E: "rsa_oaep_encrypt L pB keys = Some E" using assms(7) by blast
  let ?signed = "rsa_signed L t (bits_block (pk_bits pB)) (of_nat (length ?data) + 0x20) E keys ?data"
  obtain sig where sig: "rsa_pss_sign L k ?signed = Some sig" using assms(2) by (auto simp: rsa_party_def)
  have letter: "rsa_letter L t ?acc k w pB keys ?ex (?signed @ sig)" using E sig by (auto simp: rsa_letter_def Let_def)
  obtain E1 sig1 and C :: bytes where l1: "rsa_oaep_encrypt L pB keys = Some E1"
    "rsa_pss_sign L k (rsa_signed L t (bits_block (pk_bits pB)) (of_nat (length ?data) + 0x20) E1 keys ?data) = Some sig1"
    "of_nat (length sig1) = bits_block (pk_bits pk)" "length E1 + length C + length sig1 < 2 ^ 50" "length E1 = unat (bits_block (pk_bits pB))"
    "length C = 16 + length (ac_uname ?acc) + length w + length ?ex"
    by (rule rsa_letterD [OF assms(1,2,3,6,8) letter]) (rule that, assumption+)
  have eq: "E1 = E" "sig1 = sig" using l1(1,2) E sig by simp_all
  have l: "of_nat (length sig) = bits_block (pk_bits pk)" "length E + length C + length sig < 2 ^ 50" "length E = unat (bits_block (pk_bits pB))"
      "length C = length ?data" "length ?signed = 49 + length E + length C"
    using l1(3-6) rsa_signed_length [OF assms(1)] rsa_data_length [OF assms(1)] unfolding eq by simp_all
  have ul: "unat (ac_u_len ?acc) = length (ac_uname ?acc)" using assms(2) by (simp add: rsa_party_def)
  then have ul': "ac_u_len ?acc = of_nat (length (ac_uname ?acc))" by (metis of_nat_unat ucast_id)
  have bl: "rsa_block L wB = of_nat (length E)" "rsa_block L (ac_key_bin ?acc) = of_nat (length sig)"
    using l(1,3) by (simp_all add: rsa_block_def A(3) B(7) bits_block_def)
  let ?reqlen = "0x29 + 0x11 + rsa_block L wB + 0x10 + ac_u_len ?acc + of_nat (length w) + of_nat (length ?ex) + 0x20 + rsa_block L (ac_key_bin ?acc)"
  let ?req = "[0] @ target @ encbe64 L (?reqlen - 0x29) @ ?signed @ sig"
  have n: "length (?signed @ sig) = 49 + length E + (16 + length (ac_uname ?acc) + length w + length ?ex) + length sig"
    using l(4,5) rsa_data_length [OF assms(1)] by simp
  have rl: "?reqlen = of_nat (41 + length (?signed @ sig))" unfolding n bl ul' by simp
  have rl2: "?reqlen - 0x29 = of_nat (length (?signed @ sig))" unfolding rl by simp
  have req: "?req = conv_request L target (?signed @ sig)" unfolding rl2 by (simp add: conv_request_def)
  have lr: "length ?req = 41 + length (?signed @ sig)" using assms(9) ok by (simp add: endian_simps)
  have b: "length (?signed @ sig) < 2 ^ 51" using l(2,5) by simp
  have u: "unat ?reqlen = length ?req" unfolding lr unfolding rl by (rule unat_of_nat_small) (use b in simp)
  have rq: "?reqlen = of_nat (length ?req)" unfolding lr by (rule rl)
  have dl: "(0x10 + ac_u_len ?acc + of_nat (length w) + of_nat (length ?ex) + 0x20 :: u64) = of_nat (length ?data) + 0x20"
    unfolding rsa_data_length [OF assms(1)] ul' by simp
  let ?s1 = "s\<lparr>cs_netlock := True\<rparr>"
  have a: "acquire_netlock s = Some (0, ?s1)" using assms(10) by (simp add: acquire_netlock_def client_ready_def get_mode_free)
  have data: "encbe64 L (ac_u_len ?acc) @ encbe64 L (of_nat (length w)) @ take (unat (ac_u_len ?acc)) (ac_uname ?acc) @ w @ ?ex = ?data"
    unfolding A(9) rsa_data_def by (rule refl)
  have g: "\<not> (length wB < 8 \<or> length (ac_key_bin ?acc) < 8)" using A(2) B(6) by simp
  have tk: "take (unat (of_nat (length wB) :: u64)) wB = wB"
    using assms(3) unat_of_nat_small [of "length wB"] by (simp add: rsa_party_def)
  have eb: "rsa_block L wB = bits_block (pk_bits pB)" by (simp add: rsa_block_def B(7) bits_block_def)
  have mt: "fe_mem env i j" for i j unfolding assms(4) by (rule TrueI)
  have "send_rsa_message L env t target wB (of_nat (length wB)) exd s =
      run_bind (Some (client_send L (fe_send env) ?req ?reqlen ?s1)) (\<lambda>(r, s2).
            if r \<noteq> 0 then Some (Done (-1, s2)) else Some (Done (0, release_netlock s2)))"
    unfolding send_rsa_message_def Let_def A(3) A(8) tk assms(5) option.case B(5) E A(4) A(1) data dl
    unfolding eb sig option.case
    unfolding eb [symmetric] u a
    using g mt by simp
  moreover have "client_send L (fe_send env) ?req ?reqlen ?s1 = client_send L (fe_send env) ?req (of_nat (length ?req)) ?s1"
    unfolding rq [symmetric] ..
  moreover have "length ?req < 2 ^ 52" unfolding lr using b by simp
  ultimately show ?thesis using letter unfolding req by (intro that) simp_all
qed

lemma send_letter:
  assumes "lib_ok L" "rsa_party L (cs_acc s) k pk w" "rsa_party L accB kB pB wB" "fe_mem env = (\<lambda>_ _. True)" "\<forall>k n. fe_send env k n"
    "fe_rand env = Some keys" "length keys = 64" "rsa_oaep_encrypt L pB keys \<noteq> None" "length (case_option [] (\<lambda>d. d) exd) < 2 ^ 40"
    "length target = 32" "client_ready s" "key_linked (cs_keys s) r"
  obtains m p where "rsa_letter L t (cs_acc s) k w pB keys (case_option [] (\<lambda>d. d) exd) p"
    "send_rsa_message L env t target wB (of_nat (length wB)) exd s =
      Some (Done (0, s\<lparr>cs_con := add_message (\<lambda>_ _. True) (cs_con s) m, cs_keys := (cs_keys s)\<lparr>k_nonce := k_nonce (cs_keys s) + 1\<rparr>\<rparr>))"
    "\<forall>q. recv_message L (\<lambda>_ _. True) r (Got m q) = Done (Some (conv_request L target p))"
proof -
  let ?ex = "case_option [] (\<lambda>d. d) exd" and ?s1 = "s\<lparr>cs_netlock := True\<rparr>"
  obtain p where p: "rsa_letter L t (cs_acc s) k w pB keys ?ex p" "length (conv_request L target p) < 2 ^ 52"
    "send_rsa_message L env t target wB (of_nat (length wB)) exd s =
      run_bind (Some (client_send L (fe_send env) (conv_request L target p) (of_nat (length (conv_request L target p))) ?s1))
        (\<lambda>(r, s2). if r \<noteq> 0 then Some (Done (-1, s2)) else Some (Done (0, release_netlock s2)))"
    by (rule send_rsa_eq [OF assms(1-4,6-11)])
  have kl: "key_linked (cs_keys ?s1) r" and lb: "length (conv_request L target p) + 80 < 2 ^ 64" using assms(12) p(2) by simp_all
  from client_send_ok [OF assms(1,5) kl lb] obtain m where
    m: "client_send L (fe_send env) (conv_request L target p) (of_nat (length (conv_request L target p))) ?s1 =
      Done (0, ?s1\<lparr>cs_con := add_message (\<lambda>_ _. True) (cs_con ?s1) m, cs_keys := (cs_keys ?s1)\<lparr>k_nonce := k_nonce (cs_keys ?s1) + 1\<rparr>\<rparr>)"
    "\<forall>q. recv_message L (\<lambda>_ _. True) r (Got m q) = Done (Some (conv_request L target p))" .
  have "send_rsa_message L env t target wB (of_nat (length wB)) exd s =
      Some (Done (0, s\<lparr>cs_con := add_message (\<lambda>_ _. True) (cs_con s) m, cs_keys := (cs_keys s)\<lparr>k_nonce := k_nonce (cs_keys s) + 1\<rparr>\<rparr>))"
    unfolding p(3) m(1) using assms(11) by (cases s) (simp add: release_netlock_def client_ready_def)
  with p(1) m(2) show ?thesis by (intro that)
qed

section \<open>Adding to the lists\<close>

lemma add_notif_ok:
  assumes "lib_ok L" "uids_ok (cs_friends s)" "\<forall>x \<in> set (cs_notifs s @ [n]). notif_sized (cs_friends s) x"
    "length (cs_notifs s) < 1000000" "fst e" "wd_ok (snd e)" "cs_lock s = 0"
  obtains fl where "add_notif L e n s = Some (Done (0, s\<lparr>cs_notifs := cs_notifs s @ [n], cs_nf_file := Some fl,
    cs_mode := (if cs_mode s = 0 then 0xff else cs_mode s)\<rparr>))"
proof -
  let ?s = "s\<lparr>cs_lock := -1, cs_notifs := cs_notifs s @ [n]\<rparr>"
  have h: "uids_ok (cs_friends ?s)" "\<forall>x \<in> set (cs_notifs ?s). notif_sized (cs_friends ?s) x" "length (cs_notifs ?s) < 2 ^ 20"
    using assms(2-4) by simp_all
  from store_notifs_ok [OF assms(1) h assms(5,6)] obtain fl where
    fl: "store_notifs L e ?s = Done (0, ?s\<lparr>cs_nf_file := Some fl\<rparr>)" .
  let ?t = "s\<lparr>cs_notifs := cs_notifs s @ [n], cs_nf_file := Some fl\<rparr>"
  have "insert_notif L e n s = Some (Done (0, ?t))"
    unfolding insert_notif_free [OF assms(7)] fl using assms(7) by (cases s) simp
  moreover have "tell_user (0, ?t) = Some (Done (0, ?t\<lparr>cs_mode := (if cs_mode s = 0 then 0xff else cs_mode s)\<rparr>))"
    using tell_user_free [of ?t 0] assms(7) by (cases s) simp
  ultimately show ?thesis by (intro that [of fl]) (simp add: add_notif_def)
qed

lemma write_friendfile_ok:
  assumes "lib_ok L" "\<forall>f \<in> set fs. friend_ok L f" "length fs < 2 ^ 20" "wd_ok env"
  obtains fl where "write_friendfile L usable True env acc fs = Done (0, Some fl)"
proof -
  have e: "wd_open env" "\<forall>k n. wd_mem env k n" "\<forall>j. wd_tx env j = None"
    and "\<exists>r. wd_rand env = Some r \<and> length r = 32" using assms(4) by (auto simp: wd_ok_def)
  then obtain rnd where r: "wd_rand env = Some rnd" "length rnd = 32" by blast
  have s: "\<forall>f \<in> set fs. sized (ff_format L usable) f" using assms(1,2) friend_sized by blast
  have k: "fd_p_fill (ff_format L usable) acc = Some []" "length [] = unat (fd_pref_len (ff_format L usable))"
    "fd_s_key (ff_format L usable) acc [] = (acc, Some (ac_f_symm acc))" "fd_h_key (ff_format L usable) acc [] = (acc, Some (ac_f_hmac acc))"
    by (simp_all add: ff_format_def)
  from friendfile.write_ok [OF assms(1) k e(1,2) r(1) e(3) s friends_total [OF assms(2,3)]] show ?thesis
    by (auto simp: write_friendfile_def intro: that)
qed

lemma add_friend_ok:
  assumes "lib_ok L" "\<forall>x \<in> set (cs_friends s @ [f]). friend_ok L x" "length (cs_friends s) < 1000000" "fst e" "wd_ok (snd e)"
    "cs_lock s = 0"
  obtains fl where "add_friend L usable e f s =
    Some (Done (0, s\<lparr>cs_friends := cs_friends s @ [f], cs_ff_file := Some fl\<rparr>))"
proof -
  have "length (cs_friends s @ [f]) < 2 ^ 20" using assms(3) by simp
  from write_friendfile_ok [OF assms(1,2) this assms(5), of usable "cs_acc s"] obtain fl where
    fl: "write_friendfile L usable True (snd e) (cs_acc s) (cs_friends s @ [f]) = Done (0, Some fl)" .
  have "add_friend L usable e f s = Some (Done (0, s\<lparr>cs_friends := cs_friends s @ [f], cs_ff_file := Some fl\<rparr>))"
    using assms(4,6) fl by (cases s) (simp add: add_friend_def with_writelock_def lock_free store_friends_def unlock_write_def)
  then show ?thesis by (rule that)
qed

lemma init_friend_ok:
  assumes "\<forall>k n. mem k n" "length c_file = 32" "0 \<notin> set uname" "unat ul = length uname" "unat kl = length pkey"
    "length uname < 2 ^ 40" "length pkey < 2 ^ 40"
  obtains f where "init_friend L mem (Some c_file) uname pkey ul kl = Done (Some f)" "fr_uname f = uname" "fr_pkey f = pkey"
    "fr_uid f = gen_uid L uname" "friend_ok L f" "fr_s_nonce f = 0" "fr_r_nonce f = 0"
proof -
  have c: "cstr uname = uname" using assms(3) by (rule cstr_no_zero)
  have r: "read_at pkey 0 (length pkey) = Done pkey" by (simp add: read_at_def)
  let ?f = "\<lparr>fr_u_len = ul, fr_k_len = kl, fr_uname = uname, fr_pkey = pkey, fr_uid = gen_uid L uname, fr_c_file = c_file,
    fr_f_symm_key = replicate 32 0, fr_f_hmac_key = replicate 32 0, fr_s_symm_key = replicate 32 0, fr_s_hmac_key = replicate 32 0,
    fr_r_symm_key = replicate 32 0, fr_r_hmac_key = replicate 32 0, fr_s_nonce = 0, fr_r_nonce = 0\<rparr>"
  have "init_friend L mem (Some c_file) uname pkey ul kl = Done (Some ?f)"
    using assms(1,4,5) by (simp add: init_friend_def c r)
  then show ?thesis by (rule that) (use assms(2,4-7) in \<open>simp_all add: friend_ok_def c\<close>)
qed

section \<open>The two ends\<close>

definition fp_ok :: "fp_env \<Rightarrow> bool" where
  "fp_ok e \<longleftrightarrow> fp_freq e \<and> (\<forall>k n. fp_parse e k n) \<and> fp_notif e \<and> fst (fp_store e) \<and> wd_ok (snd (fp_store e)) \<and>
     (\<forall>k n. fp_init e k n) \<and> (\<exists>c. fp_name e = Some c \<and> length c = 32) \<and> fst (fp_friends e) \<and> wd_ok (snd (fp_friends e))"

text \<open>What the lists of a client are assumed to be: consistent, and not too long.\<close>

definition lists_ok :: "ibc \<Rightarrow> client_state \<Rightarrow> bool" where
  "lists_ok L s \<longleftrightarrow> uids_ok (cs_friends s) \<and> (\<forall>f \<in> set (cs_friends s). friend_ok L f) \<and> length (cs_friends s) < 1000000 \<and>
     (\<forall>n \<in> set (cs_notifs s). notif_sized (cs_friends s) n) \<and> length (cs_notifs s) < 1000000"

text \<open>The four keys as the answerer and as the requester takes them.\<close>

definition answer_keys :: "bytes \<Rightarrow> friend \<Rightarrow> friend" where
  "answer_keys k f = f\<lparr>fr_s_symm_key := slice 0 0x20 k, fr_s_hmac_key := slice 0x20 0x20 k,
     fr_r_symm_key := slice 0x40 0x20 k, fr_r_hmac_key := slice 0x60 0x20 k\<rparr>"

definition request_keys :: "bytes \<Rightarrow> friend \<Rightarrow> friend" where
  "request_keys k f = f\<lparr>fr_r_symm_key := slice 0 0x20 k, fr_r_hmac_key := slice 0x20 0x20 k,
     fr_s_symm_key := slice 0x40 0x20 k, fr_s_hmac_key := slice 0x60 0x20 k\<rparr>"

lemma keys_linked:
  "friends_linked (request_keys k a) (answer_keys k b)" "friends_linked (answer_keys k b) (request_keys k a)"
  by (simp_all add: friends_linked_def answer_keys_def request_keys_def)

lemma keys_keep:
  "fr_uname (answer_keys k f) = fr_uname f" "fr_s_nonce (answer_keys k f) = fr_s_nonce f" "fr_r_nonce (answer_keys k f) = fr_r_nonce f"
  "fr_uname (request_keys k f) = fr_uname f" "fr_s_nonce (request_keys k f) = fr_s_nonce f" "fr_r_nonce (request_keys k f) = fr_r_nonce f"
  "fr_uid (request_keys k f) = fr_uid f"
  "friend_ok L f \<Longrightarrow> length k = 0x80 \<Longrightarrow> friend_ok L (answer_keys k f)"
  "friend_ok L f \<Longrightarrow> length k = 0x80 \<Longrightarrow> friend_ok L (request_keys k f)"
  by (simp_all add: answer_keys_def request_keys_def friend_ok_def)

lemma rsa_party_name:
  assumes "rsa_party L acc k pk w"
  shows "0 \<notin> set (ac_uname acc)" "unat (ac_u_len acc) = length (ac_uname acc)" "unat (of_nat (length w) :: u64) = length w"
    "length (ac_uname acc) < 2 ^ 40" "length w < 2 ^ 40"
  using assms by (auto simp: rsa_party_def intro!: unat_of_nat_small)

text \<open>The answerer's side.\<close>

lemma answer_sent:
  assumes "lib_ok L" "rsa_party L accA kA pA wA" "rsa_party L (cs_acc sB) kB pB wB"
    "q = \<lparr>fq_u_len = ac_u_len accA, fq_k_len = of_nat (length wA), fq_uname = ac_uname accA, fq_pkey = wA\<rparr>"
    "fe_mem eB = (\<lambda>_ _. True)" "\<forall>k n. fe_send eB k n" "fe_rand eB = Some keys" "length keys = 64"
    "rsa_oaep_encrypt L pA keys \<noteq> None" "length k4 = 0x80" "client_ready sB" "key_linked (cs_keys sB) r" "fp_ok fB" "lists_ok L sB"
  obtains sB' b m p where "friendreq_send_response L usable fB eB (Some k4) q sB = Some (Done (0, sB'))"
    "rsa_letter L 2 (cs_acc sB) kB wB pA keys k4 p" "cs_friends sB' = cs_friends sB @ [answer_keys k4 b]"
    "out_queue (cs_con sB') = out_queue (cs_con sB) @ [m]"
    "\<forall>q. recv_message L (\<lambda>_ _. True) r (Got m q) = Done (Some (conv_request L (gen_uid L (ac_uname accA)) p))"
    "fr_uname b = ac_uname accA" "fr_s_nonce b = 0" "fr_r_nonce b = 0"
proof -
  note A = rsa_party_name [OF assms(2)]
  have eB: "\<forall>k n. fp_init fB k n" "fst (fp_friends fB)" "wd_ok (snd (fp_friends fB))" using assms(13) by (simp_all add: fp_ok_def)
  obtain cB where cB: "fp_name fB = Some cB" "length cB = 32" using assms(13) by (auto simp: fp_ok_def)
  from init_friend_ok [OF eB(1) cB(2) A, of L] obtain b where
    b: "init_friend L (fp_init fB) (Some cB) (ac_uname accA) wA (ac_u_len accA) (of_nat (length wA)) = Done (Some b)"
      "fr_uname b = ac_uname accA" "friend_ok L b" "fr_s_nonce b = 0" "fr_r_nonce b = 0" by metis
  have ex: "case_option [] (\<lambda>d. d) (Some k4) = k4" "length (case_option [] (\<lambda>d. d) (Some k4)) < 2 ^ 40" using assms(10) by simp_all
  from send_letter [OF assms(1,3,2,5,6,7,8,9) ex(2) length_gen_uid [OF assms(1)] assms(11,12), of 2 "ac_uname accA"] obtain m p where
    l: "rsa_letter L 2 (cs_acc sB) kB wB pA keys k4 p"
    "send_rsa_message L eB 2 (gen_uid L (ac_uname accA)) wA (of_nat (length wA)) (Some k4) sB =
      Some (Done (0, sB\<lparr>cs_con := add_message (\<lambda>_ _. True) (cs_con sB) m, cs_keys := (cs_keys sB)\<lparr>k_nonce := k_nonce (cs_keys sB) + 1\<rparr>\<rparr>))"
    "\<forall>q. recv_message L (\<lambda>_ _. True) r (Got m q) = Done (Some (conv_request L (gen_uid L (ac_uname accA)) p))"
    unfolding ex(1) .
  let ?s1 = "sB\<lparr>cs_con := add_message (\<lambda>_ _. True) (cs_con sB) m, cs_keys := (cs_keys sB)\<lparr>k_nonce := k_nonce (cs_keys sB) + 1\<rparr>\<rparr>"
  let ?b = "answer_keys k4 b"
  have f1: "\<forall>x \<in> set (cs_friends ?s1 @ [?b]). friend_ok L x" "length (cs_friends ?s1) < 1000000" "cs_lock ?s1 = 0"
    using assms(11,14) keys_keep(8) [OF b(3) assms(10)] by (auto simp: lists_ok_def client_ready_def)
  from add_friend_ok [OF assms(1) f1(1,2) eB(2,3) f1(3), of usable] obtain fl where
    ab: "add_friend L usable (fp_friends fB) ?b ?s1 = Some (Done (0, ?s1\<lparr>cs_friends := cs_friends ?s1 @ [?b], cs_ff_file := Some fl\<rparr>))" .
  have "friendreq_send_response L usable fB eB (Some k4) q sB =
      Some (Done (0, ?s1\<lparr>cs_friends := cs_friends ?s1 @ [?b], cs_ff_file := Some fl\<rparr>))"
    using ab by (simp add: friendreq_send_response_def assms(4) cB(1) b(1) friendreq_send_resp_message_def cstr_no_zero [OF A(1)] l(2) answer_keys_def)
  then show ?thesis by (rule that) (use l b in \<open>simp_all add: add_message_def\<close>)
qed

text \<open>The requester's side.\<close>

lemma answer_received:
  assumes "lib_ok L" "rsa_party L (cs_acc sA) kA pA wA" "rsa_party L accB kB pB wB" "length keys = 64" "length k4 = 0x80"
    "rsa_letter L 2 accB kB wB pA keys k4 p" "fp_ok fA" "lists_ok L sA" "cs_lock sA = 0"
    "gen_uid L (ac_uname accB) \<notin> fr_uid ` set (cs_friends sA)"
  obtains sA' a where "parse_friendreq_response L usable fA p (of_nat (length p)) sA = Some (Done (0, sA'))"
    "cs_friends sA' = cs_friends sA @ [request_keys k4 a]" "cs_notifs sA' = cs_notifs sA @ [NAccepted (length (cs_friends sA))]"
    "fr_uname a = ac_uname accB" "fr_s_nonce a = 0" "fr_r_nonce a = 0"
proof -
  note B = rsa_party_name [OF assms(3)]
  have eA: "\<forall>k n. fp_init fA k n" "fst (fp_friends fA)" "wd_ok (snd (fp_friends fA))" "\<forall>k n. fp_parse fA k n"
    "fst (fp_store fA)" "wd_ok (snd (fp_store fA))" "fp_notif fA" using assms(7) by (simp_all add: fp_ok_def)
  obtain cA where cA: "fp_name fA = Some cA" "length cA = 32" using assms(7) by (auto simp: fp_ok_def)
  from init_friend_ok [OF eA(1) cA(2) B, of L] obtain a where
    a: "init_friend L (fp_init fA) (Some cA) (ac_uname accB) wB (ac_u_len accB) (of_nat (length wB)) = Done (Some a)"
      "fr_uname a = ac_uname accB" "friend_ok L a" "fr_s_nonce a = 0" "fr_r_nonce a = 0" "fr_uid a = gen_uid L (ac_uname accB)"
    by metis
  let ?a = "request_keys k4 a"
  have op: "parse_rsa_message L (fp_parse fA) (cs_acc sA) p (of_nat (length p)) (Some 0x80) =
      Done (0, Some (ac_u_len accB, ac_uname accB, of_nat (length wB), wB, k4))"
    by (rule open_letter [OF assms(1,3,2,4) _ assms(6) _ eA(4)]) (simp_all add: assms(5))
  have f2: "\<forall>x \<in> set (cs_friends sA @ [?a]). friend_ok L x" "length (cs_friends sA) < 1000000"
    using assms(8) keys_keep(9) [OF a(3) assms(5)] by (auto simp: lists_ok_def)
  from add_friend_ok [OF assms(1) f2 eA(2,3) assms(9), of usable] obtain fl2 where
    aa: "add_friend L usable (fp_friends fA) ?a sA = Some (Done (0, sA\<lparr>cs_friends := cs_friends sA @ [?a], cs_ff_file := Some fl2\<rparr>))" .
  let ?s2 = "sA\<lparr>cs_friends := cs_friends sA @ [?a], cs_ff_file := Some fl2\<rparr>" and ?n = "NAccepted (length (cs_friends sA))"
  have u: "uids_ok (cs_friends ?s2)"
    using assms(8,10) a(6) length_gen_uid [OF assms(1)] by (auto simp: lists_ok_def uids_ok_def keys_keep)
  have "notif_sized (cs_friends ?s2) x" if "notif_sized (cs_friends sA) x" for x
    using that by (cases x) (auto simp: notif_sized_def)
  then have ns: "\<forall>x \<in> set (cs_notifs ?s2 @ [?n]). notif_sized (cs_friends ?s2) x"
    using assms(8) by (auto simp: lists_ok_def notif_sized_def)
  have ln: "length (cs_notifs ?s2) < 1000000" "cs_lock ?s2 = 0" using assms(8,9) by (simp_all add: lists_ok_def)
  from add_notif_ok [OF assms(1) u ns ln(1) eA(5,6) ln(2)] obtain fl3 where
    an: "add_notif L (fp_store fA) ?n ?s2 = Some (Done (0, ?s2\<lparr>cs_notifs := cs_notifs ?s2 @ [?n], cs_nf_file := Some fl3,
      cs_mode := (if cs_mode ?s2 = 0 then 0xff else cs_mode ?s2)\<rparr>))" .
  have "parse_friendreq_response L usable fA p (of_nat (length p)) sA = Some (Done (0, ?s2\<lparr>cs_notifs := cs_notifs ?s2 @ [?n],
      cs_nf_file := Some fl3, cs_mode := (if cs_mode ?s2 = 0 then 0xff else cs_mode ?s2)\<rparr>))"
    unfolding parse_friendreq_response_def op run_bind.simps prod.case option.case cA(1) a(1) Let_def request_keys_def [symmetric] aa
    using eA(7) by (simp add: an [simplified])
  then show ?thesis by (rule that) (use a in simp_all)
qed

text \<open>The type of a letter is its first byte, which is what the receiver's dispatch looks at.\<close>

lemma rsa_letter_type:
  assumes "lib_ok L" "rsa_party L acc k pk w" "rsa_party L accB kB pB wB" "length keys = 64" "length ex < 2 ^ 40"
    "rsa_letter L t acc k w pB keys ex p"
  shows "p \<noteq> []" "hd p = t" "length p < 2 ^ 52"
proof -
  from rsa_letterD [OF assms] obtain E C M sig where
    l: "p = ([t] @ encbe64 L (of_nat (length E)) @ encbe64 L (of_nat (length C + 32))) @ E @ C @ M @ sig"
    "length E + length C + length sig < 2 ^ 50" "length M = 32" by metis
  have "length p = 49 + length E + length C + length sig"
    using l(3) lib_ok_parts [OF assms(1)] by (simp add: l(1) endian_simps)
  with l(2) show "length p < 2 ^ 52" by simp
  show "p \<noteq> []" "hd p = t" by (simp_all add: l(1))
qed

text \<open>The two ends of a friend request.\<close>

lemma request_sent:
  assumes "lib_ok L" "rsa_party L (cs_acc sA) kA pA wA" "rsa_party L accB kB pB wB"
    "fe_mem eA = (\<lambda>_ _. True)" "\<forall>k n. fe_send eA k n" "fe_rand eA = Some keys" "length keys = 64"
    "rsa_oaep_encrypt L pB keys \<noteq> None" "length target = 32" "client_ready sA" "key_linked (cs_keys sA) r"
  obtains sA' m p where "send_friendreq_message L eA target wB (of_nat (length wB)) sA = Some (Done (0, sA'))"
    "rsa_letter L 1 (cs_acc sA) kA wA pB keys [] p" "out_queue (cs_con sA') = out_queue (cs_con sA) @ [m]"
    "\<forall>q. recv_message L (\<lambda>_ _. True) r (Got m q) = Done (Some (conv_request L target p))"
proof -
  have ex: "case_option [] (\<lambda>d. d) None = ([] :: bytes)" "length (case_option [] (\<lambda>d. d) None :: bytes) < 2 ^ 40" by simp_all
  from send_letter [OF assms(1-8) ex(2) assms(9-11), of 1] obtain m p where
    l: "rsa_letter L 1 (cs_acc sA) kA wA pB keys [] p"
    "send_rsa_message L eA 1 target wB (of_nat (length wB)) None sA =
      Some (Done (0, sA\<lparr>cs_con := add_message (\<lambda>_ _. True) (cs_con sA) m, cs_keys := (cs_keys sA)\<lparr>k_nonce := k_nonce (cs_keys sA) + 1\<rparr>\<rparr>))"
    "\<forall>q. recv_message L (\<lambda>_ _. True) r (Got m q) = Done (Some (conv_request L target p))" unfolding ex(1) .
  show ?thesis
    by (rule that [OF _ l(1) _ l(3)], unfold send_friendreq_message_def, rule l(2)) (simp add: add_message_def)
qed

lemma request_received:
  assumes "lib_ok L" "rsa_party L accA kA pA wA" "rsa_party L (cs_acc sB) kB pB wB" "length keys = 64"
    "rsa_letter L 1 accA kA wA pB keys [] p" "fp_ok eB" "lists_ok L sB" "cs_lock sB = 0"
  obtains sB' where "parse_friendreq L eB p (of_nat (length p)) sB = Some (Done (0, sB'))" "cs_friends sB' = cs_friends sB"
    "cs_notifs sB' = cs_notifs sB @ [NRequest \<lparr>fq_u_len = ac_u_len accA, fq_k_len = of_nat (length wA),
      fq_uname = ac_uname accA, fq_pkey = wA\<rparr>]"
proof -
  let ?q = "\<lparr>fq_u_len = ac_u_len accA, fq_k_len = of_nat (length wA), fq_uname = ac_uname accA, fq_pkey = wA\<rparr>"
  have e: "\<forall>k n. fp_parse eB k n" "fst (fp_store eB)" "wd_ok (snd (fp_store eB))" "fp_freq eB" "fp_notif eB"
    using assms(6) by (simp_all add: fp_ok_def)
  have op: "parse_rsa_message L (fp_parse eB) (cs_acc sB) p (of_nat (length p)) None =
      Done (0, Some (ac_u_len accA, ac_uname accA, of_nat (length wA), wA, []))"
    by (rule open_letter [OF assms(1-4) _ assms(5) _ e(1)]) simp_all
  have wl: "unat (of_nat (length wA) :: u64) = length wA"
    using assms(2) by (intro unat_of_nat_small) (simp add: rsa_party_def)
  have ns: "\<forall>x \<in> set (cs_notifs sB @ [NRequest ?q]). notif_sized (cs_friends sB) x"
    using assms(2,7) wl by (auto simp: lists_ok_def notif_sized_def rsa_party_def)
  have ln: "uids_ok (cs_friends sB)" "length (cs_notifs sB) < 1000000" using assms(7) by (simp_all add: lists_ok_def)
  from add_notif_ok [OF assms(1) ln(1) ns ln(2) e(2,3) assms(8)] obtain fl where
    an: "add_notif L (fp_store eB) (NRequest ?q) sB = Some (Done (0, sB\<lparr>cs_notifs := cs_notifs sB @ [NRequest ?q], cs_nf_file := Some fl,
      cs_mode := (if cs_mode sB = 0 then 0xff else cs_mode sB)\<rparr>))" .
  have "parse_friendreq L eB p (of_nat (length p)) sB = Some (Done (0, sB\<lparr>cs_notifs := cs_notifs sB @ [NRequest ?q], cs_nf_file := Some fl,
      cs_mode := (if cs_mode sB = 0 then 0xff else cs_mode sB)\<rparr>))"
    using e(4,5) by (simp add: parse_friendreq_def op an)
  then show ?thesis by (rule that) simp_all
qed

section \<open>Properties\<close>

text \<open>
  A letter that cannot be sent stops the client: when \<open>send_message\<close> fails inside \<open>send_rsa_message\<close>, the
  function returns with \<open>net_lock\<close> held, and every later message to a friend waits for it for ever.
\<close>
theorem failed_send_keeps_netlock:
  assumes "lib_ok L" and "rsa_party L (cs_acc s) k pk w" and "rsa_party L accB kB pB wB" and "fe_mem env = (\<lambda>_ _. True)"
    and "fe_rand env = Some keys" and "length keys = 64" and "rsa_oaep_encrypt L pB keys \<noteq> None" and "length target = 32"
    and "client_ready s" and "\<forall>n. \<not> fe_send env 0 n" and "fr_s_nonce (cs_friends s ! i) + 1 \<noteq> 0"
  shows "\<exists>s'. send_friendreq_message L env target wB (of_nat (length wB)) s = Some (Done (-1, s')) \<and>
    acquire_netlock s' = None \<and> cmessage_send_server L (\<lambda>_ _. True) i m s' = None"
proof -
  have ex: "length (case_option [] (\<lambda>d. d) None :: bytes) < 2 ^ 40" by simp
  obtain p where p: "send_rsa_message L env 1 target wB (of_nat (length wB)) None s =
      run_bind (Some (client_send L (fe_send env) (conv_request L target p) (of_nat (length (conv_request L target p))) (s\<lparr>cs_netlock := True\<rparr>)))
        (\<lambda>(r, s2). if r \<noteq> 0 then Some (Done (-1, s2)) else Some (Done (0, release_netlock s2)))"
    by (rule send_rsa_eq [OF assms(1-7) ex assms(8,9), of 1])
  have "client_send L (fe_send env) b n t = Done (-1, t)" for b n t
    using assms(10) by (cases t) (simp add: client_send_def send_message_def encrypt_message_def alloc_message_def Let_def)
  then have "send_friendreq_message L env target wB (of_nat (length wB)) s = Some (Done (-1, s\<lparr>cs_netlock := True\<rparr>))"
    by (simp add: send_friendreq_message_def p)
  moreover have "cmessage_send_server L (\<lambda>_ _. True) i m (s\<lparr>cs_netlock := True\<rparr>) = None"
    using assms(11) by (simp add: cmessage_send_server_def acquire_netlock_def put_friend_def Let_def)
  ultimately show ?thesis by (auto simp: acquire_netlock_def)
qed

text \<open>
  An invalid letter is undefined behaviour: when the lengths in it do not fit, which is noticed
  before anything is allocated, \<open>parse_friendreq\<close> frees a name that was never set, and
  \<open>parse_friendreq_response\<close> deletes a null friend. Anyone who can send a message can send one.
\<close>
theorem invalid_letter_undefined:
  assumes "17 \<le> length p" and "decbe64 L (slice 1 8 p) + decbe64 L (slice 9 8 p) + 17 \<ge> plen" and "fp_freq env"
  shows "parse_friendreq L env p plen s = Some UB \<and> parse_friendreq_response L usable env p plen s = Some UB"
proof -
  have "parse_rsa_message L mem acc p plen ed = Done (1, None)" for mem acc ed
    using assms(1,2) by (simp add: parse_rsa_message_def read_at_def Let_def)
  then show ?thesis using assms(3) by (simp add: parse_friendreq_def parse_friendreq_response_def)
qed

section \<open>Witnesses\<close>

definition demo_rsa :: rsa_key where
  "demo_rsa = \<lparr>sk_bits = 512, sk_e = 3, sk_n = 35, sk_d = 7\<rparr>"

definition demo_rsa_pub :: rsa_public_key where
  "demo_rsa_pub = \<lparr>pk_bits = 512, pk_e = 3, pk_n = 35\<rparr>"

definition demo_rsa_wire :: bytes where
  "demo_rsa_wire = be_enc 8 512 @ be_enc 8 3 @ be_enc 8 35"

definition demo_key_account :: account where
  "demo_key_account = demo_account\<lparr>ac_u_len := 2, ac_uname := [97, 98], ac_key_bin := be_enc 8 512 @ be_enc 8 3 @ be_enc 8 35 @ be_enc 8 7\<rparr>"

lemma demo_party: "rsa_party demo_lib demo_key_account demo_rsa demo_rsa_pub demo_rsa_wire"
  by (simp add: rsa_party_def demo_lib_def demo_key_account_def demo_rsa_def demo_rsa_pub_def demo_rsa_wire_def)

lemma demo_oaep: "rsa_oaep_encrypt demo_lib demo_rsa_pub (replicate 64 5) \<noteq> None"
  by (simp add: demo_lib_def demo_rsa_pub_def)

definition demo_key_client :: client_state where
  "demo_key_client = demo_user_client\<lparr>cs_acc := demo_key_account\<rparr>"

definition demo_fe :: fq_env where
  "demo_fe = \<lparr>fe_mem = \<lambda>_ _. True, fe_rand = Some (replicate 64 5), fe_send = \<lambda>_ _. True\<rparr>"

definition demo_fp :: fp_env where
  "demo_fp = \<lparr>fp_freq = True, fp_parse = \<lambda>_ _. True, fp_notif = True, fp_store = (True, demo_wd), fp_init = \<lambda>_ _. True,
     fp_name = Some (replicate 32 8), fp_friends = (True, demo_wd)\<rparr>"

lemma demo_fp_ok: "fp_ok demo_fp"
  using demo_wd_ok by (simp add: fp_ok_def demo_fp_def)

lemma demo_ready: "client_ready demo_key_client" "cs_lock demo_key_client = 0" "lists_ok demo_lib demo_key_client"
  "lists_ok demo_lib (demo_key_client\<lparr>cs_friends := []\<rparr>)" "cs_acc demo_key_client = demo_key_account"
  "key_linked (cs_keys demo_key_client) demo_peer"
  using demo_uids_ok demo_friend_ok
  by (simp_all add: client_ready_def demo_key_client_def demo_user_client_def lists_ok_def uids_ok_def key_linked_def demo_keys_def demo_peer_def)

lemma demo_fe_ok: "fe_mem demo_fe = (\<lambda>_ _. True)" "\<forall>k n. fe_send demo_fe k n" "fe_rand demo_fe = Some (replicate 64 5)"
  by (simp_all add: demo_fe_def)

theorem failed_send_keeps_netlock_witness:
  "\<exists>s' :: client_state. acquire_netlock s' = None \<and>
    send_friendreq_message demo_lib (demo_fe\<lparr>fe_send := \<lambda>_ _. False\<rparr>) (replicate 32 1) demo_rsa_wire (of_nat (length demo_rsa_wire)) demo_key_client =
      Some (Done (-1, s'))"
proof -
  note p = demo_party [folded demo_ready(5)]
  have e: "fe_mem (demo_fe\<lparr>fe_send := \<lambda>_ _. False\<rparr>) = (\<lambda>_ _. True)" "fe_rand (demo_fe\<lparr>fe_send := \<lambda>_ _. False\<rparr>) = Some (replicate 64 5)"
    "length (replicate 64 (5 :: byte)) = 64" "length (replicate 32 (1 :: byte)) = 32" "\<forall>n. \<not> fe_send (demo_fe\<lparr>fe_send := \<lambda>_ _. False\<rparr>) 0 n"
    "fr_s_nonce (cs_friends demo_key_client ! 0) + 1 \<noteq> 0"
    by (simp_all add: demo_fe_def demo_key_client_def demo_user_client_def demo_friend_def)
  from failed_send_keeps_netlock [OF demo_lib_ok p p e(1,2,3) demo_oaep e(4) demo_ready(1) e(5,6)] show ?thesis by blast
qed

theorem invalid_letter_undefined_witness:
  "parse_friendreq demo_lib demo_fp ([1] @ encbe64 demo_lib 5 @ encbe64 demo_lib 7 @ []) 17 demo_user_client = Some UB"
proof -
  note h = head_slices [OF demo_lib_ok]
  let ?p = "[1] @ encbe64 demo_lib 5 @ encbe64 demo_lib 7 @ []"
  have l: "17 \<le> length ?p" using h(3) by simp
  have c: "decbe64 demo_lib (slice 1 8 ?p) + decbe64 demo_lib (slice 9 8 ?p) + 17 \<ge> 17" unfolding h(1,2) h(4) by simp
  have e: "fp_freq demo_fp" by (simp add: demo_fp_def)
  show ?thesis using invalid_letter_undefined [OF l c e] by blast
qed

end
