(* ===== verification/BgManager.thy ===== *)
theory BgManager
  imports Friendreq
begin

text \<open>
  \<open>client/bg_manager.c\<close>: the thread that takes the messages of the server and hands them to the
  conversations, the friend requests, or the user who waits for a key. Three properties follow a
  text, a friend request and its answer from one client through the server to the other: what is sent,
  how the server relays it, and that its type brings it to the right function.
\<close>

section \<open>The code\<close>

record bg_env =
  be_conv :: conv_env
  be_freq :: fp_env

text \<open>
  \<open>add_umessage\<close> reads the type and the length before it looks at the length of the message. The payload
  is a pointer into the message; what is passed with it is the length field.
\<close>

definition add_umessage :: "ibc \<Rightarrow> (u64 \<Rightarrow> nat) \<Rightarrow> bg_env \<Rightarrow> bytes \<Rightarrow> client_state \<Rightarrow> (int \<times> client_state) run" where
  "add_umessage L usable env m s =
     run_bind (Some (read_at m 0x29 1)) (\<lambda>t. run_bind (Some (read_at m 1 0x20)) (\<lambda>sender.
       run_bind (Some (read_at m 0x21 8)) (\<lambda>lb. let p_len = decbe64 L lb; payload = drop 0x29 m in
         if p_len + 0x29 \<noteq> of_nat (length m) then Some (Done (-1, s))
         else if t = [0] then parse_conv_message L (be_conv env) sender payload p_len s
         else if t = [1] then parse_friendreq L (be_freq env) payload p_len s
         else if t = [2] then parse_friendreq_response L usable (be_freq env) payload p_len s
         else Some (Done (0, s)))))"

text \<open>\<open>add_pkeyresp\<close> and \<open>add_unotfound\<close> are the same: the answer for a user who waits (mode 2).\<close>

definition add_pkeyresp :: "bytes \<Rightarrow> client_state \<Rightarrow> (int \<times> client_state) run" where
  "add_pkeyresp m s = (if cs_bglock s then None else case get_mode s of
     None \<Rightarrow> None
   | Some md \<Rightarrow> if md \<noteq> 2 then Some (Done (-1, s)) else Some (Done (0, s\<lparr>cs_pkey_resp := Some m\<rparr>)))"

definition add_unotfound :: "bytes \<Rightarrow> client_state \<Rightarrow> (int \<times> client_state) run" where
  "add_unotfound m s = (if cs_bglock s then None else case get_mode s of
     None \<Rightarrow> None
   | Some md \<Rightarrow> if md \<noteq> 2 then Some (Done (-1, s)) else Some (Done (0, s\<lparr>cs_pkey_resp := Some m\<rparr>)))"

definition bg_dispatch :: "ibc \<Rightarrow> (u64 \<Rightarrow> nat) \<Rightarrow> bg_env \<Rightarrow> bytes \<Rightarrow> client_state \<Rightarrow> (int \<times> client_state) run" where
  "bg_dispatch L usable env m s = run_bind (Some (read_at m 0 1)) (\<lambda>t.
     if t = [0] then add_umessage L usable env m s
     else if t = [1] then add_pkeyresp m s
     else if t = [0xff] then add_unotfound m s
     else Some (Done (0, s)))"

text \<open>
  The end of \<open>background_thread\<close>. It releases \<open>net_lock\<close> whether or not it has it, which is undefined
  when it has not; it does have it only after a message that could not be processed.
\<close>

definition bg_exit :: "bool \<Rightarrow> client_state \<Rightarrow> client_state run" where
  "bg_exit holds s =
     (if \<not> holds then Some UB
      else run_bind (with_writelock (\<lambda>s1. unlock_write (s1\<lparr>cs_stop := True\<rparr>)) (release_netlock s)) (set_mode (-1)))"

text \<open>
  The loop, for a sequence of results of \<open>recv_message\<close>, each with the \<open>handler_status\<close> seen after it; the
  first component tells whether the loop is still running after them.
\<close>

fun bg_loop :: "ibc \<Rightarrow> (u64 \<Rightarrow> nat) \<Rightarrow> (nat \<Rightarrow> bg_env) \<Rightarrow> (bytes option \<times> int) list \<Rightarrow> client_state \<Rightarrow>
    (bool \<times> client_state) run" where
  "bg_loop L usable env [] s = Some (Done (True, s))"
| "bg_loop L usable env ((m, status) # rest) s = (case get_mode s of
     None \<Rightarrow> None
   | Some md \<Rightarrow>
     if md = -1 then run_bind (bg_exit False s) (\<lambda>s1. Some (Done (False, s1)))
     else run_bind (map_option Done (acquire_netlock s)) (\<lambda>(a, s1).
       if a \<noteq> 0 then run_bind (bg_exit False s1) (\<lambda>s2. Some (Done (False, s2)))
       else run_bind (if status \<noteq> 0 then set_mode (-1) s1 else Some (Done s1)) (\<lambda>s2. case m of
           None \<Rightarrow> bg_loop L usable env rest (release_netlock s2)
         | Some m \<Rightarrow> run_bind (bg_dispatch L usable (env (length rest)) m s2) (\<lambda>(r, s3).
             if r \<noteq> 0 then run_bind (bg_exit True s3) (\<lambda>s4. Some (Done (False, s4)))
             else bg_loop L usable env rest (release_netlock s3)))))"

section \<open>A delivery\<close>

lemma dispatch_delivery:
  assumes "lib_ok L" "length sender = 32" "p \<noteq> []" "length p < 2 ^ 52"
  shows "bg_dispatch L usable env (conv_delivery L sender p) s =
    (if hd p = 0 then parse_conv_message L (be_conv env) sender p (of_nat (length p)) s
     else if hd p = 1 then parse_friendreq L (be_freq env) p (of_nat (length p)) s
     else if hd p = 2 then parse_friendreq_response L usable (be_freq env) p (of_nat (length p)) s
     else Some (Done (0, s)))"
proof -
  note ok = lib_ok_parts [OF assms(1)]
  let ?m = "conv_delivery L sender p" and ?lb = "encbe64 L (of_nat (length p))"
  have e: "length ?lb = 8" "decbe64 L ?lb = of_nat (length p)" using ok by (simp_all add: endian_simps)
  obtain t ts where p: "p = t # ts" using assms(3) by (cases p) auto
  have r0: "read_at ?m 0 1 = Done [0]"
    using read_at_append [of "[]" 0 "[0]" 1 "sender @ ?lb @ p"] by (simp add: conv_delivery_def)
  have r1: "read_at ?m 0x29 1 = Done [t]"
    using read_at_append [of "0 # sender @ ?lb" "0x29" "[t]" 1 ts] assms(2) e(1) by (simp add: conv_delivery_def p)
  have r2: "read_at ?m 1 0x20 = Done sender"
    using read_at_append [of "[0]" 1 sender "0x20" "?lb @ p"] assms(2) by (simp add: conv_delivery_def)
  have r3: "read_at ?m 0x21 8 = Done ?lb"
    using read_at_append [of "0 # sender" "0x21" ?lb 8 p] assms(2) e(1) by (simp add: conv_delivery_def)
  have d: "drop 0x29 ?m = p" using drop_length_append [of "0 # sender @ ?lb" "0x29" p] assms(2) e(1) by (simp add: conv_delivery_def)
  have l: "(of_nat (length p) + 0x29 :: u64) = of_nat (length ?m)"
    using conv_delivery_length [OF assms(1,2), of p] by simp
  show ?thesis
    unfolding bg_dispatch_def r0 run_bind.simps add_umessage_def r1 r2 r3 Let_def e(2) d l by (simp add: p)
qed

section \<open>Properties\<close>

text \<open>
  C2: A text reaches the friend: \<open>cmessage_send_server\<close> of one client queues a sealed request; the server, on
  opening it, relays it to the session of the receiver; what the receiver's client opens there goes
  through its background thread into the conversation file, behind the messages that were there, and
  counts as unread; if the conversation with this friend is open (mode 1), the message is put into the
  list from which the conversation is shown, else that list is as it was. The receiver's counter is
  then the sender's.
\<close>
theorem text_reaches_friend:
  assumes "lib_ok L" and "\<forall>k n. mem k n" and "client_ready sA" and "key_linked (cs_keys sA) r" and "a = cs_friends sA ! i"
    and "fr_s_nonce a + 1 \<noteq> 0" and "0 \<notin> set text" and "length text < 2 ^ 32"
    and "hm_alloc h" and "hm_send h = (\<lambda>_ _. True)" and "length (ch_id self) = 32"
    and "user_db_get L (sv_db st) (gen_uid L (cstr (fr_uname a))) = Done (Some u)"
    and "get_handler L (sv_ht st) (gen_uid L (cstr (fr_uname a))) = Some t" and "sv_sess st (ch_fd t) = (con, keys)"
    and "key_linked keys (cs_keys sB)"
    and "conv_env_ok (be_conv e)" and "cs_lock sB = 0" and "uids_ok (cs_friends sB)"
    and "\<forall>n \<in> set (cs_notifs sB). notif_ok (cs_friends sB) n" and "length (cs_notifs sB) < 1000000" and "fresh_for j (cs_notifs sB)"
    and "friend_index (cs_friends sB) (ch_id self) = Some j" and "b = cs_friends sB ! j" and "friends_linked a b"
    and "fr_r_nonce b < fr_s_nonce a + 1" and "cf_fits (ms @ [\<lparr>cm_sender = 1, cm_text = text\<rparr>])"
    and "cs_cfiles sB (fr_c_file b) = Some (cfile_image L b ms)"
  shows "\<exists>sA' mA req st' mB msg sB'.
    cmessage_send_server L mem i \<lparr>cm_sender = 0, cm_text = text\<rparr> sA = Some (Done (0, sA')) \<and>
    out_queue (cs_con sA') = out_queue (cs_con sA) @ [mA] \<and> recv_message L (\<lambda>_ _. True) r (Got mA q) = Done (Some req) \<and>
    handle_message L h st self req = Done (0, st') \<and>
    out_queue (fst (sv_sess st' (ch_fd t))) = out_queue con @ [mB] \<and>
    recv_message L (\<lambda>_ _. True) (cs_keys sB) (Got mB q) = Done (Some msg) \<and>
    bg_dispatch L usable e msg sB = Some (Done (0, sB')) \<and>
    cs_cfiles sB' (fr_c_file b) = Some (cfile_image L b (ms @ [\<lparr>cm_sender = 1, cm_text = text\<rparr>])) \<and>
    cs_notifs sB' = count_message j (cs_notifs sB) \<and> cs_friends sB' = (cs_friends sB)[j := b\<lparr>fr_r_nonce := fr_s_nonce a + 1\<rparr>] \<and>
    cs_new_messages sB' = (if cs_mode sB = 1 \<and> cs_cur_conv sB = Some j then \<lparr>cm_sender = 1, cm_text = text\<rparr> # cs_new_messages sB
      else cs_new_messages sB)"
proof -
  let ?n = "fr_s_nonce a + 1" and ?uid = "gen_uid L (cstr (fr_uname a))"
  let ?p = "conv_seal L a ?n text"
  have pl: "length ?p < 2 ^ 52" "?p \<noteq> []" "hd ?p = 0" "length text < 2 ^ 40"
    using conv_seal_length [OF assms(1), of a ?n "text"] assms(8) by (simp_all add: conv_seal_def conv_body_def)
  from cmessage_send_server_ok [OF assms(1-8)] obtain mA where
    A: "cmessage_send_server L mem i \<lparr>cm_sender = 0, cm_text = text\<rparr> sA = Some (Done (0, (put_friend i (a\<lparr>fr_s_nonce := ?n\<rparr>) sA)
        \<lparr>cs_con := add_message (\<lambda>_ _. True) (cs_con sA) mA, cs_keys := (cs_keys sA)\<lparr>k_nonce := k_nonce (cs_keys sA) + 1\<rparr>\<rparr>))"
      "recv_message L (\<lambda>_ _. True) r (Got mA q) = Done (Some (conv_request L ?uid ?p))" by blast
  from relay_online [OF assms(1) length_gen_uid [OF assms(1)] pl(1) assms(9,10,12-15,11)] obtain mB where
    H: "handle_message L h st self (conv_request L ?uid ?p) =
      Done (0, st\<lparr>sv_sess := (sv_sess st)(ch_fd t := (add_message (\<lambda>_ _. True) con mB, keys\<lparr>k_nonce := k_nonce keys + 1\<rparr>))\<rparr>)"
      "\<forall>q. recv_message L (\<lambda>_ _. True) (cs_keys sB) (Got mB q) = Done (Some (conv_delivery L (ch_id self) ?p))" .
  from parse_conv_message_ok [OF assms(1,16-24) assms(25,7,26) pl(4) assms(27)] obtain sB' where
    P: "parse_conv_message L (be_conv e) (ch_id self) ?p (of_nat (length ?p)) sB = Some (Done (0, sB'))"
      "cs_cfiles sB' (fr_c_file b) = Some (cfile_image L b (ms @ [\<lparr>cm_sender = 1, cm_text = text\<rparr>]))"
      "cs_notifs sB' = count_message j (cs_notifs sB)" "cs_friends sB' = (cs_friends sB)[j := b\<lparr>fr_r_nonce := ?n\<rparr>]"
      "cs_new_messages sB' = (if cs_mode sB = 1 \<and> cs_cur_conv sB = Some j then \<lparr>cm_sender = 1, cm_text = text\<rparr> # cs_new_messages sB
        else cs_new_messages sB)" by blast
  have B: "bg_dispatch L usable e (conv_delivery L (ch_id self) ?p) sB = Some (Done (0, sB'))"
    using dispatch_delivery [OF assms(1,11) pl(2,1)] pl(3) P(1) by simp
  show ?thesis
    by (rule exI, rule exI [of _ mA], rule exI [of _ "conv_request L ?uid ?p"], rule exI, rule exI [of _ mB],
        rule exI [of _ "conv_delivery L (ch_id self) ?p"], rule exI [of _ sB'], rule conjI [OF A(1)], intro conjI)
      (rule A(2) B P H(1) H(2) [THEN spec] | simp add: add_message_def)+
qed

text \<open>
  C12: A friend request arrives: what \<open>send_friendreq_message\<close> queues is opened by the server, which relays
  it to the session of the user it is for, under the id of whoever sent it; what that user's client
  opens there is taken by its background thread for a request (type 1) and becomes a notification at
  the end of the list, with exactly the name and the public key of the sender's account. No friend is
  added. The name is not compared with the sender's id, though \<open>client/message_format.txt\<close> says that
  it must match: the request arrives whatever the id is.
\<close>
theorem friend_request_arrives:
  assumes "lib_ok L" and "rsa_party L (cs_acc sA) kA pA wA" and "rsa_party L (cs_acc sB) kB pB wB"
    and "fe_mem eA = (\<lambda>_ _. True)" and "\<forall>k n. fe_send eA k n" and "fe_rand eA = Some keys" and "length keys = 64"
    and "rsa_oaep_encrypt L pB keys \<noteq> None" and "length target = 32" and "client_ready sA" and "key_linked (cs_keys sA) r"
    and "hm_alloc h" and "hm_send h = (\<lambda>_ _. True)" and "length (ch_id self) = 32"
    and "user_db_get L (sv_db st) target = Done (Some u)" and "get_handler L (sv_ht st) target = Some t"
    and "sv_sess st (ch_fd t) = (con, skeys)" and "key_linked skeys (cs_keys sB)"
    and "fp_ok (be_freq e)" and "lists_ok L sB" and "cs_lock sB = 0"
  shows "\<exists>sA' mA req st' mB msg sB'.
    send_friendreq_message L eA target wB (of_nat (length wB)) sA = Some (Done (0, sA')) \<and>
    out_queue (cs_con sA') = out_queue (cs_con sA) @ [mA] \<and> recv_message L (\<lambda>_ _. True) r (Got mA q) = Done (Some req) \<and>
    handle_message L h st self req = Done (0, st') \<and>
    out_queue (fst (sv_sess st' (ch_fd t))) = out_queue con @ [mB] \<and>
    recv_message L (\<lambda>_ _. True) (cs_keys sB) (Got mB q) = Done (Some msg) \<and>
    bg_dispatch L usable e msg sB = Some (Done (0, sB')) \<and> cs_friends sB' = cs_friends sB \<and>
    cs_notifs sB' = cs_notifs sB @ [NRequest \<lparr>fq_u_len = ac_u_len (cs_acc sA), fq_k_len = of_nat (length wA),
      fq_uname = ac_uname (cs_acc sA), fq_pkey = wA\<rparr>]"
proof -
  obtain sA' mA p where A: "send_friendreq_message L eA target wB (of_nat (length wB)) sA = Some (Done (0, sA'))"
    "rsa_letter L 1 (cs_acc sA) kA wA pB keys [] p" "out_queue (cs_con sA') = out_queue (cs_con sA) @ [mA]"
    "\<forall>q. recv_message L (\<lambda>_ _. True) r (Got mA q) = Done (Some (conv_request L target p))"
    by (rule request_sent [OF assms(1-11)])
  have n: "length ([] :: bytes) < 2 ^ 40" by simp
  note t = rsa_letter_type [OF assms(1-3,7) n A(2)]
  from relay_online [OF assms(1,9) t(3) assms(12,13,15-18,14)] obtain mB where
    H: "handle_message L h st self (conv_request L target p) =
      Done (0, st\<lparr>sv_sess := (sv_sess st)(ch_fd t := (add_message (\<lambda>_ _. True) con mB, skeys\<lparr>k_nonce := k_nonce skeys + 1\<rparr>))\<rparr>)"
    "\<forall>q. recv_message L (\<lambda>_ _. True) (cs_keys sB) (Got mB q) = Done (Some (conv_delivery L (ch_id self) p))" .
  obtain sB' where P: "parse_friendreq L (be_freq e) p (of_nat (length p)) sB = Some (Done (0, sB'))" "cs_friends sB' = cs_friends sB"
    "cs_notifs sB' = cs_notifs sB @ [NRequest \<lparr>fq_u_len = ac_u_len (cs_acc sA), fq_k_len = of_nat (length wA),
      fq_uname = ac_uname (cs_acc sA), fq_pkey = wA\<rparr>]"
    by (rule request_received [OF assms(1-3,7) A(2) assms(19-21)])
  have B: "bg_dispatch L usable e (conv_delivery L (ch_id self) p) sB = Some (Done (0, sB'))"
    using dispatch_delivery [OF assms(1,14) t(1,3)] t(2) P(1) by simp
  show ?thesis
    by (rule exI [of _ sA'], rule exI [of _ mA], rule exI [of _ "conv_request L target p"], rule exI, rule exI [of _ mB],
        rule exI [of _ "conv_delivery L (ch_id self) p"], rule exI [of _ sB'], intro conjI)
      (rule A(1,3) A(4) [THEN spec] B P H(1) H(2) [THEN spec] | simp add: add_message_def)+
qed

text \<open>
  C11: Accepting a request makes the two users friends with matching keys: \<open>friendreq_send_response\<close> adds the
  requester to the list and queues an answer; the server relays it to the requester's session, whose
  background thread takes it for an answer (type 2) and adds the answerer there. Afterwards each side
  receives with what the other sends with, in both directions, and both counters start at 0.
\<close>
theorem friends_linked_after_answer:
  assumes "lib_ok L" and "rsa_party L (cs_acc sA) kA pA wA" and "rsa_party L (cs_acc sB) kB pB wB"
    and "q = \<lparr>fq_u_len = ac_u_len (cs_acc sA), fq_k_len = of_nat (length wA), fq_uname = ac_uname (cs_acc sA), fq_pkey = wA\<rparr>"
    and "fe_mem eB = (\<lambda>_ _. True)" and "\<forall>k n. fe_send eB k n" and "fe_rand eB = Some keys" and "length keys = 64"
    and "rsa_oaep_encrypt L pA keys \<noteq> None" and "length k4 = 0x80" and "client_ready sB" and "key_linked (cs_keys sB) r"
    and "fp_ok fB" and "lists_ok L sB"
    and "hm_alloc h" and "hm_send h = (\<lambda>_ _. True)" and "length (ch_id self) = 32"
    and "user_db_get L (sv_db st) (gen_uid L (ac_uname (cs_acc sA))) = Done (Some u)"
    and "get_handler L (sv_ht st) (gen_uid L (ac_uname (cs_acc sA))) = Some t"
    and "sv_sess st (ch_fd t) = (con, skeys)" and "key_linked skeys (cs_keys sA)"
    and "fp_ok (be_freq e)" and "lists_ok L sA" and "cs_lock sA = 0"
    and "gen_uid L (ac_uname (cs_acc sB)) \<notin> fr_uid ` set (cs_friends sA)"
  shows "\<exists>sB' mB req st' mA msg sA' a b. friendreq_send_response L usable fB eB (Some k4) q sB = Some (Done (0, sB')) \<and>
    cs_friends sB' = cs_friends sB @ [b] \<and> out_queue (cs_con sB') = out_queue (cs_con sB) @ [mB] \<and>
    recv_message L (\<lambda>_ _. True) r (Got mB qu) = Done (Some req) \<and>
    handle_message L h st self req = Done (0, st') \<and>
    out_queue (fst (sv_sess st' (ch_fd t))) = out_queue con @ [mA] \<and>
    recv_message L (\<lambda>_ _. True) (cs_keys sA) (Got mA qu) = Done (Some msg) \<and>
    bg_dispatch L usable e msg sA = Some (Done (0, sA')) \<and>
    cs_friends sA' = cs_friends sA @ [a] \<and> cs_notifs sA' = cs_notifs sA @ [NAccepted (length (cs_friends sA))] \<and>
    friends_linked a b \<and> friends_linked b a \<and> fr_uname a = ac_uname (cs_acc sB) \<and> fr_uname b = ac_uname (cs_acc sA) \<and>
    fr_s_nonce a = 0 \<and> fr_r_nonce a = 0 \<and> fr_s_nonce b = 0 \<and> fr_r_nonce b = 0"
proof -
  obtain sB' b mB p where B: "friendreq_send_response L usable fB eB (Some k4) q sB = Some (Done (0, sB'))"
    "rsa_letter L 2 (cs_acc sB) kB wB pA keys k4 p" "cs_friends sB' = cs_friends sB @ [answer_keys k4 b]"
    "out_queue (cs_con sB') = out_queue (cs_con sB) @ [mB]"
    "\<forall>q. recv_message L (\<lambda>_ _. True) r (Got mB q) = Done (Some (conv_request L (gen_uid L (ac_uname (cs_acc sA))) p))"
    "fr_uname b = ac_uname (cs_acc sA)" "fr_s_nonce b = 0" "fr_r_nonce b = 0"
    by (rule answer_sent [OF assms(1-14)])
  have n: "length k4 < 2 ^ 40" using assms(10) by simp
  note ty = rsa_letter_type [OF assms(1,3,2,8) n B(2)]
  from relay_online [OF assms(1) length_gen_uid [OF assms(1)] ty(3) assms(15,16,18-21,17)] obtain mA where
    H: "handle_message L h st self (conv_request L (gen_uid L (ac_uname (cs_acc sA))) p) =
      Done (0, st\<lparr>sv_sess := (sv_sess st)(ch_fd t := (add_message (\<lambda>_ _. True) con mA, skeys\<lparr>k_nonce := k_nonce skeys + 1\<rparr>))\<rparr>)"
    "\<forall>q. recv_message L (\<lambda>_ _. True) (cs_keys sA) (Got mA q) = Done (Some (conv_delivery L (ch_id self) p))" .
  obtain sA' a where A: "parse_friendreq_response L usable (be_freq e) p (of_nat (length p)) sA = Some (Done (0, sA'))"
    "cs_friends sA' = cs_friends sA @ [request_keys k4 a]" "cs_notifs sA' = cs_notifs sA @ [NAccepted (length (cs_friends sA))]"
    "fr_uname a = ac_uname (cs_acc sB)" "fr_s_nonce a = 0" "fr_r_nonce a = 0"
    by (rule answer_received [OF assms(1-3,8,10) B(2) assms(22-25)])
  have D: "bg_dispatch L usable e (conv_delivery L (ch_id self) p) sA = Some (Done (0, sA'))"
    using dispatch_delivery [OF assms(1,17) ty(1,3)] ty(2) A(1) by simp
  show ?thesis
    by (rule exI [of _ sB'], rule exI [of _ mB], rule exI, rule exI, rule exI [of _ mA], rule exI, rule exI [of _ sA'],
        rule exI [of _ "request_keys k4 a"], rule exI [of _ "answer_keys k4 b"], intro conjI)
      (rule A(2,3) B(1,3,4) B(5) [THEN spec] D H(1) H(2) [THEN spec] keys_linked
        | simp add: keys_keep A(4-6) B(6-8) add_message_def)+
qed

text \<open>
  The background thread never ends properly: if the connection breaks, or the client is told to stop
  (mode -1), the thread leaves its loop without \<open>net_lock\<close> and still unlocks it. The only other way out of the
  loop is a message whose processing failed; then the client is stopped and \<open>net_lock\<close> is free.
\<close>
theorem background_thread_end:
  assumes "cs_lock s = 0" and "\<not> cs_netlock s"
  shows "(cs_mode s = -1 \<longrightarrow> bg_loop L usable env (x # rest) s = Some UB) \<and>
    (cs_mode s \<noteq> -1 \<longrightarrow> bg_loop L usable env ((None, 1) # x # rest) s = Some UB) \<and>
    (cs_mode s \<noteq> -1 \<and> bg_dispatch L usable (env (length rest)) m (s\<lparr>cs_netlock := True\<rparr>) = Some (Done (v, s1)) \<and> v \<noteq> 0 \<and>
      cs_lock s1 = 0 \<longrightarrow> bg_loop L usable env ((Some m, 0) # rest) s =
        Some (Done (False, s1\<lparr>cs_netlock := False, cs_stop := True, cs_mode := -1\<rparr>)))"
proof (intro conjI impI)
  obtain m st where x: "x = (m, st)" by (cases x)
  show "bg_loop L usable env (x # rest) s = Some UB" if "cs_mode s = -1"
    using that assms by (simp add: x get_mode_free bg_exit_def)
  show "bg_loop L usable env ((None, 1) # x # rest) s = Some UB" if "cs_mode s \<noteq> -1"
    using that assms by (simp add: x get_mode_free bg_exit_def acquire_netlock_def set_mode_free release_netlock_def)
next
  assume h: "cs_mode s \<noteq> -1 \<and> bg_dispatch L usable (env (length rest)) m (s\<lparr>cs_netlock := True\<rparr>) = Some (Done (v, s1)) \<and>
    v \<noteq> 0 \<and> cs_lock s1 = 0"
  then show "bg_loop L usable env ((Some m, 0) # rest) s = Some (Done (False, s1\<lparr>cs_netlock := False, cs_stop := True, cs_mode := -1\<rparr>))"
    using assms by (cases s1) (simp add: get_mode_free bg_exit_def acquire_netlock_def set_mode_free release_netlock_def
        with_writelock_def lock_free unlock_write_def)
qed

section \<open>Witnesses\<close>

definition demo_bg_env :: bg_env where
  "demo_bg_env = \<lparr>be_conv = \<lparr>ce_alloc = \<lambda>_ _. True, ce_send = \<lambda>_ _. True, ce_check = demo_cf, ce_file = demo_cf,
     ce_store = (True, demo_wd), ce_notif = \<lambda>_ _. True\<rparr>, be_freq = demo_fp\<rparr>"

definition demo_receiver :: client_state where
  "demo_receiver = demo_user_client\<lparr>cs_friends := [demo_peer_friend], cs_keys := demo_peer,
     cs_cfiles := [fr_c_file demo_peer_friend \<mapsto> cfile_image demo_lib demo_peer_friend []]\<rparr>"

lemma demo_route:
  "\<exists>(st :: server_state) u. user_db_get demo_lib (sv_db st) (fr_uid demo_friend) = Done (Some u) \<and>
    get_handler demo_lib (sv_ht st) (fr_uid demo_friend) = Some \<lparr>ch_id = fr_uid demo_friend, ch_fd = 3, ch_stop = 0\<rparr> \<and>
    sv_sess st 3 = (init_handler True, demo_keys)"
proof -
  let ?t = "\<lparr>ch_id = fr_uid demo_friend, ch_fd = 3, ch_stop = 0\<rparr> :: client_handler"
  let ?ht = "\<lparr>ht_buckets = replicate 16 [?t], ht_size = 16, ht_elements = 1\<rparr> :: handler_table"
  let ?u = "demo_user\<lparr>u_uid := fr_uid demo_friend\<rparr>"
  have l: "length (fr_uid demo_friend) = 32" using uid_length [OF demo_uids_ok, of 0] by simp
  from add_no_write_ok [OF db_inv_init(1), of ?u demo_lib True] l db_inv_init(2) obtain db where
    db: "db_inv demo_lib db" "db_users db = {#?u#}" by auto
  have g: "user_db_get demo_lib db (fr_uid demo_friend) = Done (Some ?u)"
    using user_db_get_spec [OF lib_ok_parts(2) [OF demo_lib_ok] db(1) l] db(2) by auto
  let ?st = "demo_state\<lparr>sv_db := db, sv_ht := ?ht, sv_sess := \<lambda>_. (init_handler True, demo_keys)\<rparr>"
  have "get_handler demo_lib (sv_ht ?st) (fr_uid demo_friend) = Some ?t"
    by (simp add: get_handler_def bucket_index_def nth_replicate unat_mod)
  with g show ?thesis by (intro exI [of _ ?st] exI [of _ ?u]) simp
qed

lemma demo_names:
  "cstr (fr_uname demo_friend) = [97, 98]" "gen_uid demo_lib [97, 98] = fr_uid demo_friend" "ac_uname demo_key_account = [97, 98]"
  "length (fr_uid demo_friend) = 32"
  using uid_length [OF demo_uids_ok, of 0] by (simp_all add: cstr_def demo_friend_def demo_key_account_def)

lemma demo_hm: "hm_alloc demo_hm_env" "hm_send demo_hm_env = (\<lambda>_ _. True)"
  by (simp_all add: demo_hm_env_def)

theorem text_reaches_friend_witness:
  "\<exists>msg sB'. bg_dispatch demo_lib (\<lambda>n. 24) demo_bg_env msg (demo_receiver\<lparr>cs_mode := 1, cs_cur_conv := Some 0\<rparr>) = Some (Done (0, sB')) \<and>
    cs_cfiles sB' (fr_c_file demo_peer_friend) =
      Some (cfile_image demo_lib demo_peer_friend [\<lparr>cm_sender = 1, cm_text = [104, 105]\<rparr>]) \<and> cs_notifs sB' = [NMessage 0 1] \<and>
    cs_new_messages sB' = [\<lparr>cm_sender = 1, cm_text = [104, 105]\<rparr>]"
proof -
  let ?self = "\<lparr>ch_id = fr_uid demo_friend, ch_fd = 4, ch_stop = 0\<rparr> :: client_handler"
  let ?rv = "demo_receiver\<lparr>cs_mode := 1, cs_cur_conv := Some 0\<rparr>"
  note c = demo_names(1,2)
  from demo_route obtain st :: server_state and u where st: "user_db_get demo_lib (sv_db st) (fr_uid demo_friend) = Done (Some u)"
    "get_handler demo_lib (sv_ht st) (fr_uid demo_friend) = Some \<lparr>ch_id = fr_uid demo_friend, ch_fd = 3, ch_stop = 0\<rparr>"
    "sv_sess st (ch_fd (\<lparr>ch_id = fr_uid demo_friend, ch_fd = 3, ch_stop = 0\<rparr> :: client_handler)) = (init_handler True, demo_keys)" by auto
  have u: "uids_ok (cs_friends ?rv)" "fr_uid demo_peer_friend = fr_uid demo_friend"
    using demo_uids_ok by (simp_all add: demo_receiver_def demo_peer_friend_def uids_ok_def)
  have A: "client_ready demo_user_client" "key_linked (cs_keys demo_user_client) demo_peer" "demo_friend = cs_friends demo_user_client ! 0"
    "fr_s_nonce demo_friend + 1 \<noteq> 0" "0 \<notin> set [104, 105 :: byte]" "length [104, 105 :: byte] < 2 ^ 32"
    by (simp_all add: client_ready_def demo_user_client_def key_linked_def demo_keys_def demo_peer_def demo_friend_def)
  have H: "length (ch_id ?self) = 32" by (simp add: demo_names(4))
  have B: "key_linked demo_keys (cs_keys ?rv)" "conv_env_ok (be_conv demo_bg_env)" "cs_lock ?rv = 0"
    "\<forall>n \<in> set (cs_notifs ?rv). notif_ok (cs_friends ?rv) n" "length (cs_notifs ?rv) < 1000000"
    "fresh_for 0 (cs_notifs ?rv)" "friend_index (cs_friends ?rv) (ch_id ?self) = Some 0"
    "demo_peer_friend = cs_friends ?rv ! 0" "fr_r_nonce demo_peer_friend < fr_s_nonce demo_friend + 1"
    "cf_fits ([] @ [\<lparr>cm_sender = 1, cm_text = [104, 105]\<rparr>])"
    "cs_cfiles ?rv (fr_c_file demo_peer_friend) = Some (cfile_image demo_lib demo_peer_friend [])"
    "cs_notifs ?rv = []" "cs_new_messages ?rv = []" "cs_mode ?rv = 1" "cs_cur_conv ?rv = Some 0"
    using demo_cf_good demo_wd_ok u(2)
    by (simp_all add: key_linked_def demo_keys_def demo_peer_def demo_receiver_def demo_user_client_def conv_env_ok_def demo_bg_env_def
        fresh_for_def demo_peer_friend_def demo_friend_def cf_fits_def cmessage_ok_def cf_length_def)
  have m: "\<forall>k n. (\<lambda>_ _. True) k n" by simp
  from text_reaches_friend [OF demo_lib_ok m A demo_hm H _ _ st(3) B(1-3) u(1) B(4-8) demo_friends_linked B(9-11), of u "[]" "\<lambda>n. 24", unfolded c, OF st(1,2)]
  obtain msg sB' where "bg_dispatch demo_lib (\<lambda>n. 24) demo_bg_env msg ?rv = Some (Done (0, sB'))"
    "cs_cfiles sB' (fr_c_file demo_peer_friend) = Some (cfile_image demo_lib demo_peer_friend ([] @ [\<lparr>cm_sender = 1, cm_text = [104, 105]\<rparr>]))"
    "cs_notifs sB' = count_message 0 (cs_notifs ?rv)"
    "cs_new_messages sB' = (if cs_mode ?rv = 1 \<and> cs_cur_conv ?rv = Some 0 then \<lparr>cm_sender = 1, cm_text = [104, 105]\<rparr> # cs_new_messages ?rv
      else cs_new_messages ?rv)" by - (elim exE conjE, rule that, assumption+)
  then show ?thesis unfolding B(12-15) by (intro exI [of _ msg] exI [of _ sB']) simp
qed

theorem friend_request_arrives_witness:
  "\<exists>msg sB'. bg_dispatch demo_lib (\<lambda>n. 24) demo_bg_env msg (demo_key_client\<lparr>cs_keys := demo_peer\<rparr>) = Some (Done (0, sB')) \<and>
    cs_notifs sB' = [NRequest \<lparr>fq_u_len = 2, fq_k_len = 24, fq_uname = [97, 98], fq_pkey = demo_rsa_wire\<rparr>]"
proof -
  let ?self = "\<lparr>ch_id = replicate 32 9, ch_fd = 4, ch_stop = 0\<rparr> :: client_handler"
  let ?rv = "demo_key_client\<lparr>cs_keys := demo_peer\<rparr>"
  note p = demo_party [folded demo_ready(5)]
  have pB: "rsa_party demo_lib (cs_acc ?rv) demo_rsa demo_rsa_pub demo_rsa_wire" using p by simp
  have t: "length (replicate 64 (5 :: byte)) = 64" "length (ch_id ?self) = 32" by simp_all
  from demo_route obtain st :: server_state and u where st: "user_db_get demo_lib (sv_db st) (fr_uid demo_friend) = Done (Some u)"
    "get_handler demo_lib (sv_ht st) (fr_uid demo_friend) = Some \<lparr>ch_id = fr_uid demo_friend, ch_fd = 3, ch_stop = 0\<rparr>"
    "sv_sess st (ch_fd (\<lparr>ch_id = fr_uid demo_friend, ch_fd = 3, ch_stop = 0\<rparr> :: client_handler)) = (init_handler True, demo_keys)" by auto
  have B: "key_linked demo_keys (cs_keys ?rv)" "fp_ok (be_freq demo_bg_env)" "lists_ok demo_lib ?rv" "cs_lock ?rv = 0"
    using demo_fp_ok demo_ready by (simp_all add: key_linked_def demo_keys_def demo_peer_def demo_bg_env_def lists_ok_def)
  from friend_request_arrives [OF demo_lib_ok p pB demo_fe_ok(1,2,3) t(1) demo_oaep demo_names(4) demo_ready(1,6) demo_hm t(2) st B,
      where usable = "\<lambda>n. 24" and q = "[]"]
  obtain msg sB' where "bg_dispatch demo_lib (\<lambda>n. 24) demo_bg_env msg ?rv = Some (Done (0, sB'))"
    "cs_notifs sB' = cs_notifs ?rv @ [NRequest \<lparr>fq_u_len = ac_u_len (cs_acc demo_key_client),
      fq_k_len = of_nat (length demo_rsa_wire), fq_uname = ac_uname (cs_acc demo_key_client), fq_pkey = demo_rsa_wire\<rparr>]"
    by - (elim exE conjE, rule that, assumption+)
  then show ?thesis
    by (intro exI [of _ msg] exI [of _ sB']) (simp add: demo_ready(5) demo_key_account_def demo_key_client_def demo_user_client_def demo_rsa_wire_def)
qed

theorem friends_linked_after_answer_witness:
  "\<exists>(sB' :: client_state) msg (sA' :: client_state) (a :: friend) (b :: friend).
    bg_dispatch demo_lib (\<lambda>n. 24) demo_bg_env msg (demo_key_client\<lparr>cs_friends := [], cs_keys := demo_peer\<rparr>) = Some (Done (0, sA')) \<and>
    cs_friends sB' = [b] \<and> cs_friends sA' = [a] \<and> friends_linked a b \<and> friends_linked b a \<and> fr_uname a = [97, 98] \<and>
    cs_notifs sA' = [NAccepted 0]"
proof -
  let ?self = "\<lparr>ch_id = replicate 32 9, ch_fd = 4, ch_stop = 0\<rparr> :: client_handler"
  let ?s = "demo_key_client\<lparr>cs_friends := []\<rparr>" and ?r = "demo_key_client\<lparr>cs_friends := [], cs_keys := demo_peer\<rparr>"
  have p: "rsa_party demo_lib (cs_acc ?r) demo_rsa demo_rsa_pub demo_rsa_wire" "rsa_party demo_lib (cs_acc ?s) demo_rsa demo_rsa_pub demo_rsa_wire"
    using demo_party demo_ready(5) by simp_all
  have t: "length (replicate 64 (5 :: byte)) = 64" "length (replicate 128 (6 :: byte)) = 0x80" "length (ch_id ?self) = 32" by simp_all
  have r: "client_ready ?s" "key_linked (cs_keys ?s) demo_peer" "lists_ok demo_lib ?r" "cs_lock ?r = 0"
    "gen_uid demo_lib (ac_uname (cs_acc ?s)) \<notin> fr_uid ` set (cs_friends ?r)"
    using demo_ready by (simp_all add: client_ready_def lists_ok_def)
  from demo_route obtain st :: server_state and u where st: "user_db_get demo_lib (sv_db st) (fr_uid demo_friend) = Done (Some u)"
    "get_handler demo_lib (sv_ht st) (fr_uid demo_friend) = Some \<lparr>ch_id = fr_uid demo_friend, ch_fd = 3, ch_stop = 0\<rparr>"
    "sv_sess st (ch_fd (\<lparr>ch_id = fr_uid demo_friend, ch_fd = 3, ch_stop = 0\<rparr> :: client_handler)) = (init_handler True, demo_keys)" by auto
  have n: "gen_uid demo_lib (ac_uname (cs_acc ?r)) = fr_uid demo_friend" by (simp add: demo_ready(5) demo_names(2,3))
  have B: "key_linked demo_keys (cs_keys ?r)" "fp_ok (be_freq demo_bg_env)"
    using demo_fp_ok by (simp_all add: key_linked_def demo_keys_def demo_peer_def demo_bg_env_def)
  from friends_linked_after_answer [OF demo_lib_ok p refl demo_fe_ok(1,2,3) t(1) demo_oaep t(2) r(1,2) demo_fp_ok demo_ready(4) demo_hm t(3) _ _ st(3)
      B(1,2) r(3-5), unfolded n, OF st(1,2), where usable = "\<lambda>n. 24" and qu = "[]"]
  obtain sB' sA' :: client_state and msg and a b :: friend where "cs_friends sB' = cs_friends ?s @ [b]"
    "bg_dispatch demo_lib (\<lambda>n. 24) demo_bg_env msg ?r = Some (Done (0, sA'))" "cs_friends sA' = cs_friends ?r @ [a]"
    "friends_linked a b" "friends_linked b a" "fr_uname a = ac_uname (cs_acc ?s)" "cs_notifs sA' = cs_notifs ?r @ [NAccepted (length (cs_friends ?r))]"
    by - (elim exE conjE, rule that, assumption+)
  then show ?thesis
    by (intro exI [of _ sB'] exI [of _ msg] exI [of _ sA'] exI [of _ a] exI [of _ b])
      (simp add: demo_ready(5) demo_key_account_def demo_key_client_def demo_user_client_def)
qed

theorem background_thread_end_witness:
  "bg_loop demo_lib (\<lambda>n. 24) (\<lambda>_. demo_bg_env) [(None, 1), (None, 0)] demo_user_client = Some UB"
  using background_thread_end [of demo_user_client demo_lib "\<lambda>n. 24" "\<lambda>_. demo_bg_env" "(None, 0)" "[]"] by (simp add: demo_user_client_def)

end
