(* ===== verification/Prompt.thy ===== *)
theory Prompt
  imports Prelude
begin

text \<open>
  \<open>util/line_prompt.c\<close>: what the user types. The terminal is the list of the lines \<open>getline\<close> returns,
  terminators included, until the end of the input; every prompt takes lines from its front. The
  numbers read are shown to be the decimal ones, whatever was typed before.
\<close>

section \<open>The code\<close>

text \<open>The C string left in the buffer after its last character is overwritten with a zero.\<close>

definition line_text :: "bytes \<Rightarrow> bytes" where
  "line_text line = takeWhile (\<lambda>c. c \<noteq> 0) (butlast line)"

text \<open>With \<open>confprompt\<close> (\<open>conf\<close>) two lines are read until they agree.\<close>

fun prompt_lines :: "bool \<Rightarrow> bytes list \<Rightarrow> bytes option \<times> bytes list" where
  "prompt_lines conf [] = (None, [])"
| "prompt_lines False (l # ls) = (Some (line_text l), ls)"
| "prompt_lines True [l] = (None, [])"
| "prompt_lines True (l # c # ls) =
     (if line_text l \<noteq> line_text c then prompt_lines True ls else (Some (line_text l), ls))"

text \<open>\<open>echo\<close>: with \<open>hide\<close> on a terminal, whether its echo can be turned off and on again.\<close>

definition line_prompt :: "bool \<Rightarrow> (bool \<times> bool) option \<Rightarrow> bytes list \<Rightarrow> bytes option \<times> bytes list" where
  "line_prompt conf echo lines = (case echo of
     None \<Rightarrow> prompt_lines conf lines
   | Some (off, on) \<Rightarrow>
       if \<not> off then (None, lines)
       else (case prompt_lines conf lines of (r, rest) \<Rightarrow> (if on then r else None, rest)))"

text \<open>The loop over the digits; \<open>res\<close> is an \<open>int64_t\<close>.\<close>

fun digits_value :: "bytes \<Rightarrow> u64 \<Rightarrow> u64 option" where
  "digits_value [] res = Some res"
| "digits_value (c # cs) res =
     (let dig = sint c - 48 in
      if dig < 0 \<or> dig > 9 then None else digits_value cs (res * 10 + word_of_int dig))"

definition num_answer :: "u64 \<Rightarrow> u64 \<Rightarrow> bytes \<Rightarrow> u64 option" where
  "num_answer lo hi resp =
     (if length resp > 18 \<or> length resp < 1 then None
      else case digits_value resp 0 of
        None \<Rightarrow> None
      | Some res \<Rightarrow> if res < lo \<or> res > hi then None else Some res)"

lemma line_prompt_plain: "line_prompt False None lines = (case lines of [] \<Rightarrow> (None, []) | l # ls \<Rightarrow> (Some (line_text l), ls))"
  by (cases lines) (simp_all add: line_prompt_def)

text \<open>\<open>ULLONG_MAX\<close> is \<open>-1\<close> in 64 bits.\<close>

function num_prompt :: "u64 \<Rightarrow> u64 \<Rightarrow> bytes list \<Rightarrow> u64 \<times> bytes list" where
  "num_prompt lo hi lines = (case line_prompt False None lines of
     (None, rest) \<Rightarrow> (-1, rest)
   | (Some resp, rest) \<Rightarrow> (case num_answer lo hi resp of
       Some res \<Rightarrow> (res, rest)
     | None \<Rightarrow> num_prompt lo hi rest))"
  by pat_completeness auto

termination
  by (relation "measure (\<lambda>(_, _, lines). length lines)") (auto simp: line_prompt_plain split: list.splits)

definition num_prompt_no_retry :: "u64 \<Rightarrow> u64 \<Rightarrow> bytes list \<Rightarrow> u64 \<times> bytes list" where
  "num_prompt_no_retry lo hi lines = (case line_prompt False None lines of
     (None, rest) \<Rightarrow> (-1, rest)
   | (Some resp, rest) \<Rightarrow> (case num_answer lo hi resp of Some res \<Rightarrow> (res, rest) | None \<Rightarrow> (-2, rest)))"

text \<open>The first character is looked at, also that of an empty line.\<close>

definition yn_prompt :: "bytes list \<Rightarrow> int \<times> bytes list" where
  "yn_prompt lines = (case line_prompt False None lines of
     (None, rest) \<Rightarrow> (-1, rest)
   | (Some ans, rest) \<Rightarrow> (if or (case ans of [] \<Rightarrow> 0 | c # _ \<Rightarrow> c) 32 = 121 then 1 else 0, rest))"

section \<open>Decimal numbers\<close>

definition is_digit :: "byte \<Rightarrow> bool" where
  "is_digit c \<longleftrightarrow> 48 \<le> unat c \<and> unat c \<le> 57"

definition decimal :: "bytes \<Rightarrow> nat" where
  "decimal s = foldl (\<lambda>a c. a * 10 + (unat c - 48)) 0 s"

text \<open>What the prompt is meant to accept: a decimal number of 1 to 18 digits in the range.\<close>

definition choice :: "u64 \<Rightarrow> u64 \<Rightarrow> bytes \<Rightarrow> bool" where
  "choice lo hi s \<longleftrightarrow> 1 \<le> length s \<and> length s \<le> 18 \<and> list_all is_digit s \<and> unat lo \<le> decimal s \<and> decimal s \<le> unat hi"

lemma sint_digit: "(sint c - 48 < 0 \<or> sint c - 48 > 9) = (\<not> is_digit c)" "is_digit c \<Longrightarrow> sint c = int (unat c)"
proof -
  have m: "int (unat c) = sint c mod 256"
    by (simp only: uint_nat [symmetric] uint_sint take_bit_eq_mod) simp
  have r: "-128 \<le> sint c" "sint c < 128" using sint_ge [of c] sint_lt [of c] by simp_all
  from m r have "sint c = int (unat c) \<or> sint c = int (unat c) - 256" "unat c < 128 \<longleftrightarrow> 0 \<le> sint c" by presburger+
  with r show "(sint c - 48 < 0 \<or> sint c - 48 > 9) = (\<not> is_digit c)" "is_digit c \<Longrightarrow> sint c = int (unat c)"
    unfolding is_digit_def by linarith+
qed

lemma decimal_snoc_bound: "list_all is_digit s \<Longrightarrow> foldl (\<lambda>a c. a * 10 + (unat c - 48)) a s < (a + 1) * 10 ^ length s"
proof (induction s arbitrary: a)
  case Nil
  then show ?case by simp
next
  case (Cons c s)
  have "foldl (\<lambda>a c. a * 10 + (unat c - 48)) (a * 10 + (unat c - 48)) s < (a * 10 + (unat c - 48) + 1) * 10 ^ length s"
    using Cons by simp
  also have "\<dots> \<le> ((a + 1) * 10) * 10 ^ length s"
    using Cons.prems by (intro mult_le_mono1) (auto simp: is_digit_def)
  finally show ?case by (simp add: algebra_simps)
qed

lemma digits_value_decimal:
  "digits_value s (of_nat a) =
    (if list_all is_digit s then Some (of_nat (foldl (\<lambda>a c. a * 10 + (unat c - 48)) a s)) else None)"
proof (induction s arbitrary: a)
  case Nil
  then show ?case by simp
next
  case (Cons c s)
  show ?case
  proof (cases "is_digit c")
    case True
    then have "(of_nat a * 10 + word_of_int (sint c - 48) :: u64) = of_nat (a * 10 + (unat c - 48))"
      by (simp add: sint_digit(2) is_digit_def of_nat_diff)
    moreover have "\<not> (sint c - 48 < 0 \<or> sint c - 48 > 9)" using True sint_digit(1) by blast
    ultimately show ?thesis
      using True Cons [of "a * 10 + (unat c - 48)"] unfolding digits_value.simps Let_def
      by (simp only: if_False foldl_Cons list.pred_inject simp_thms)
  next
    case False
    then show ?thesis unfolding digits_value.simps Let_def sint_digit(1) by simp
  qed
qed

lemma num_answer_decimal: "num_answer lo hi s = (if choice lo hi s then Some (of_nat (decimal s)) else None)"
proof (cases "1 \<le> length s \<and> length s \<le> 18 \<and> list_all is_digit s")
  case True
  have "decimal s < 10 ^ length s" using decimal_snoc_bound [of s 0] True by (simp add: decimal_def)
  also have "\<dots> \<le> (10 :: nat) ^ 18" using True by (intro power_increasing) auto
  finally have "unat (of_nat (decimal s) :: u64) = decimal s" by (intro unat_of_nat_small) simp
  then show ?thesis
    using True digits_value_decimal [of s 0] by (auto simp: num_answer_def choice_def decimal_def word_less_nat_alt)
next
  case False
  then have "\<not> choice lo hi s" unfolding choice_def by blast
  moreover have "num_answer lo hi s = None"
  proof (cases "length s > 18 \<or> length s < 1")
    case False
    then have "1 \<le> length s \<and> length s \<le> 18" by linarith
    with \<open>\<not> (1 \<le> length s \<and> _)\<close> have "\<not> list_all is_digit s" by blast
    then show ?thesis using digits_value_decimal [of s 0] by (simp add: num_answer_def)
  qed (simp add: num_answer_def)
  ultimately show ?thesis by simp
qed

declare num_prompt.simps [simp del]

lemma num_prompt_step:
  "num_prompt lo hi [] = (-1, [])"
  "num_prompt lo hi (l # ls) = (if choice lo hi (line_text l) then (of_nat (decimal (line_text l)), ls) else num_prompt lo hi ls)"
  by (simp_all add: num_prompt.simps [of lo hi "[]"] num_prompt.simps [of lo hi "l # ls"] line_prompt_plain num_answer_decimal)

section \<open>Properties\<close>

text \<open>
  C35: \<open>num_prompt\<close> reads decimal numbers: it skips every line that is not a decimal number of 1 to 18 digits
  between \<open>lo\<close> and \<open>hi\<close> and returns the value of the first line that is, as a number and not modulo
  2^64; it returns \<open>ULLONG_MAX\<close> only when the input ends before such a line. So what it returns is always
  \<open>ULLONG_MAX\<close> or in the range, and no line is taken for the failure value.
\<close>
theorem num_prompt_reads_decimal:
  "num_prompt lo hi lines =
    (case dropWhile (\<lambda>l. \<not> choice lo hi (line_text l)) lines of
       [] \<Rightarrow> (-1, [])
     | l # rest \<Rightarrow> (of_nat (decimal (line_text l)), rest)) \<and>
   (\<forall>l. choice lo hi (line_text l) \<longrightarrow> unat (of_nat (decimal (line_text l)) :: u64) = decimal (line_text l) \<and>
      lo \<le> of_nat (decimal (line_text l)) \<and> of_nat (decimal (line_text l)) \<le> hi \<and> of_nat (decimal (line_text l)) \<noteq> (-1 :: u64))"
proof (intro conjI allI impI)
  show "num_prompt lo hi lines =
      (case dropWhile (\<lambda>l. \<not> choice lo hi (line_text l)) lines of
         [] \<Rightarrow> (-1, []) | l # rest \<Rightarrow> (of_nat (decimal (line_text l)), rest))"
    by (induction lines) (simp_all add: num_prompt_step)
next
  fix l
  assume c: "choice lo hi (line_text l)"
  let ?s = "line_text l"
  have "decimal ?s < 10 ^ length ?s" using decimal_snoc_bound [of ?s 0] c by (simp add: decimal_def choice_def)
  also have "\<dots> \<le> (10 :: nat) ^ 18" using c by (intro power_increasing) (auto simp: choice_def)
  finally have b: "decimal ?s < 10 ^ 18" .
  then show u: "unat (of_nat (decimal ?s) :: u64) = decimal ?s" by (intro unat_of_nat_small) simp
  show "lo \<le> of_nat (decimal ?s)" "of_nat (decimal ?s) \<le> hi"
    unfolding word_le_nat_alt u using c by (simp_all add: choice_def)
  show "of_nat (decimal ?s) \<noteq> (-1 :: u64)"
  proof
    assume "of_nat (decimal ?s) = (-1 :: u64)"
    then have "decimal ?s = unat (-1 :: u64)" using u by simp
    moreover have "unat (-1 :: u64) = 2 ^ 64 - 1" by (simp add: unat_minus_one unsigned_minus_1_eq_mask mask_eq_exp_minus_1)
    ultimately show False using b by simp
  qed
qed

theorem num_prompt_reads_decimal_witness:
  "num_prompt 0 3 [[120, 10], [57, 10], [50, 10], [49, 10]] = (2, [[49, 10]])"
  using num_prompt_reads_decimal [of 0 3 "[[120, 10], [57, 10], [50, 10], [49, 10]]"]
  by (simp add: choice_def line_text_def decimal_def is_digit_def)

text \<open>Only an answer that begins with \<open>y\<close> or \<open>Y\<close> is a yes.\<close>

lemma yn_prompt_yes: "fst (yn_prompt lines) = 1 \<longleftrightarrow> (\<exists>l rest. lines = l # rest \<and> (\<exists>cs. line_text l = 121 # cs \<or> line_text l = 89 # cs))"
proof -
  have "or c 32 = (121 :: byte) \<longleftrightarrow> c = 121 \<or> c = 89" for c
  proof -
    have "\<forall>n \<in> set [0..<256]. or (of_nat n) 32 = (121 :: byte) \<longleftrightarrow> n = 121 \<or> n = 89" by code_simp
    moreover have "unat c \<in> set [0..<256]" using unsigned_less [of c, where 'a = nat] by simp
    ultimately have "or (of_nat (unat c)) 32 = (121 :: byte) \<longleftrightarrow> unat c = 121 \<or> unat c = 89" by blast
    then show ?thesis by (simp add: word_unat_eq_iff)
  qed
  then show ?thesis
    by (cases lines) (auto simp: yn_prompt_def line_prompt_plain split: list.splits)
qed

end
