(* ===== verification/LoginServer.thy ===== *)
theory LoginServer
  imports Friendreq Prompt Handshake
begin

text \<open>
  \<open>client/login_server.c\<close>, \<open>client/connect_server.c\<close> and the choice of an account in
  \<open>client/account.c\<close>: how the client connects, checks the server's key, proves its identity and, if it has to,
  registers. The properties put this side together with \<open>server/client_auth.c\<close>.
\<close>

section \<open>The code: the connection\<close>

record server_connection =
  sc_ch :: con_handle
  sc_server_key :: rsa_public_key
  sc_keys :: keyset

text \<open>
  What a login meets: whether the server can be reached, the handshake, the pipe and the
  allocations, the two messages that \<open>get_message\<close> returns.
\<close>

record login_env =
  lg_reach :: bool
  lg_hs :: client_env
  lg_pipe :: bool
  lg_mem :: heap_oracle
  lg_fing :: bool
  lg_chal :: get_result
  lg_chal_mem :: heap_oracle
  lg_alloc :: "u64 \<Rightarrow> bool"
  lg_send :: heap_oracle
  lg_resp :: get_result
  lg_resp_mem :: heap_oracle
  lg_reg :: heap_oracle

definition connect_server :: "ibc \<Rightarrow> login_env \<Rightarrow> server_connection \<Rightarrow> (int \<times> server_connection) exec" where
  "connect_server L env sc =
     (if \<not> lg_reach env then Done (1, sc)
      else exec_bind (client_handshake L (lg_hs env) (sc_keys sc)) (\<lambda>(ret, res, ms, keys, pk).
        let con = fold (\<lambda>m c. add_message (lg_mem env) c m) ms (init_handler (lg_pipe env));
            sc1 = \<lparr>sc_ch = con, sc_server_key = (case pk of None \<Rightarrow> sc_server_key sc | Some k \<Rightarrow> k), sc_keys = keys\<rparr>;
            ended = sc1\<lparr>sc_ch := end_handler con\<rparr>
        in if ret = -1 then Done (ret, ended)
           else if ret = 1 then Done (ret, ended)
           else if res \<noteq> 0 then Done (2, ended)
           else Done (0, sc1)))"

definition zero_keyset :: keyset where
  "zero_keyset = \<lparr>k_nonce = 0, send_symm_key = replicate 32 0, recv_symm_key = replicate 32 0,
     send_hmac_key = replicate 32 0, recv_hmac_key = replicate 32 0\<rparr>"

definition cleanup_server_connection :: "server_connection \<Rightarrow> server_connection" where
  "cleanup_server_connection sc = sc\<lparr>sc_keys := zero_keyset, sc_ch := end_handler (sc_ch sc)\<rparr>"

text \<open>\<open>send_message(sc->ch, &sc->keys, buf, len)\<close>.\<close>

definition sc_send :: "ibc \<Rightarrow> heap_oracle \<Rightarrow> bytes \<Rightarrow> u64 \<Rightarrow> server_connection \<Rightarrow> (int \<times> server_connection) exec" where
  "sc_send L mem buf len sc = exec_bind (send_message L mem (sc_ch sc) (sc_keys sc) buf len) (\<lambda>(r, con, keys).
     Done (r, sc\<lparr>sc_ch := con, sc_keys := keys\<rparr>))"

section \<open>The code: the login\<close>

text \<open>
  The answer to the challenge. The new buffer is used without looking whether there is one; the two
  library calls that write into it are told how much room they have, and what they leave unwritten
  would be sent as it is.
\<close>

definition send_login_message :: "ibc \<Rightarrow> login_env \<Rightarrow> account \<Rightarrow> rsa_key \<Rightarrow> server_connection \<Rightarrow>
    (int \<times> server_connection) exec" where
  "send_login_message L env acc rkey sc =
     exec_bind (recv_message L (lg_chal_mem env) (sc_keys sc) (lg_chal env)) (\<lambda>c. case c of
       None \<Rightarrow> Done (-1, sc)
     | Some challenge \<Rightarrow>
         if length challenge \<noteq> 0x20 then Done (-1, sc)
         else exec_bind (read_at (ac_key_bin acc) 0 8) (\<lambda>kb.
           let bits = decbe64 L kb; pklen = rsa_pubkey_bufsize L bits; siglen = (bits + 7) div 8;
               size = 0x20 + pklen + 0x20 + 0x08 + siglen in
           if \<not> lg_alloc env size then UB
           else case rsa_wire_prikey2pubkey L (ac_key_bin acc) of
             None \<Rightarrow> Done (-1, sc)
           | Some pkey \<Rightarrow>
               if length pkey \<noteq> unat pklen then UB
               else let signed = gen_uid L (cstr (ac_uname acc)) @ pkey @ challenge @ encbe64 L siglen in
                 case rsa_pss_sign L rkey signed of
                   None \<Rightarrow> Done (-1, sc)
                 | Some sig \<Rightarrow>
                     if length sig \<noteq> unat siglen then UB
                     else exec_bind (sc_send L (lg_send env) (signed @ sig) size sc) (\<lambda>(r, sc1).
                       Done (if r \<noteq> 0 then -1 else 0, sc1))))"

definition get_server_authresponse :: "ibc \<Rightarrow> login_env \<Rightarrow> keyset \<Rightarrow> int exec" where
  "get_server_authresponse L env keys =
     exec_bind (recv_message L (lg_resp_mem env) keys (lg_resp env)) (\<lambda>r. case r of
       None \<Rightarrow> Done (-1)
     | Some m \<Rightarrow>
         if length m \<noteq> 8 \<or> take 7 m \<noteq> cliauth_text \<or> m ! 7 > 4 then Done (-1)
         else Done (uint (m ! 7)))"

text \<open>The result of \<open>rsa_pubkey2wire\<close> is not looked at; if it fails, uninitialised memory is hashed.\<close>

definition prompt_verify_skey :: "ibc \<Rightarrow> bool \<Rightarrow> account \<Rightarrow> rsa_public_key \<Rightarrow> bool \<Rightarrow> bytes list \<Rightarrow>
    (int \<times> account \<times> bytes list) exec" where
  "prompt_verify_skey L mem acc key firsttime lines =
     (if \<not> mem then Done (-1, acc, lines)
      else case rsa_pubkey2wire L key of
        None \<Rightarrow> UB
      | Some w \<Rightarrow>
          let hash = sha256 L w in
          if memcmp_ct L hash (ac_sfing acc) = 0 then Done (0, acc, lines)
          else (case yn_prompt lines of (resp, rest) \<Rightarrow>
            if resp = -1 then Done (-1, acc, rest)
            else if resp = 1 then Done (if firsttime then 0 else 1, acc\<lparr>ac_sfing := hash\<rparr>, rest)
            else Done (-1, acc, rest)))"

text \<open>
  \<open>login_account\<close>: the result, the account (its fingerprint may be new), the connection,
  \<open>userfile_dirty\<close>, and what is left of the input.
\<close>

definition login_account :: "ibc \<Rightarrow> login_env \<Rightarrow> account \<Rightarrow> server_connection \<Rightarrow> bool \<Rightarrow> bytes list \<Rightarrow>
    (int \<times> account \<times> server_connection \<times> bool \<times> bytes list) exec" where
  "login_account L env acc sc0 dirty lines = (case rsa_wire2prikey L (ac_key_bin acc) of
     None \<Rightarrow> Done (1, acc, sc0, dirty, lines)
   | Some rsa_key \<Rightarrow> exec_bind (connect_server L env sc0) (\<lambda>(ret, sc).
       if ret \<noteq> 0 then Done (-1, acc, sc, dirty, lines)
       else exec_bind (prompt_verify_skey L (lg_fing env) acc (sc_server_key sc) False lines) (\<lambda>(ver, acc1, lines1).
         let dirty1 = (dirty \<or> ver = 1); fail = (\<lambda>sc'. Done (-1, acc1, cleanup_server_connection sc', dirty1, lines1)) in
         if ver = -1 then fail sc
         else exec_bind (send_login_message L env acc1 rsa_key sc) (\<lambda>(r, sc1).
           if r \<noteq> 0 then fail sc1
           else exec_bind (get_server_authresponse L env (sc_keys sc1)) (\<lambda>servresp.
             if servresp \<noteq> 0 \<and> servresp \<noteq> 1 then fail sc1
             else if servresp = 0 then Done (0, acc1, sc1, dirty1, lines1)
             else (case yn_prompt lines1 of (resp, lines2) \<Rightarrow>
               if resp \<noteq> 1 then Done (-1, acc1, cleanup_server_connection sc1, dirty1, lines2)
               else exec_bind (sc_send L (lg_reg env) register_text 8 sc1) (\<lambda>(r2, sc2).
                 if r2 \<noteq> 0 then Done (-1, acc1, cleanup_server_connection sc2, dirty1, lines2)
                 else Done (0, acc1, sc2, dirty1, lines2))))))))"

section \<open>The code: accounts\<close>

text \<open>
  \<open>pick_account\<close>: the result (\<open>0x55\<close> for a new account, 0 with the index of an old one), and what is left
  of the input.
\<close>

definition pick_account :: "account list \<Rightarrow> bytes list \<Rightarrow> int \<times> nat option \<times> bytes list" where
  "pick_account accs lines =
     (if accs = [] then (case yn_prompt lines of (ans, rest) \<Rightarrow>
        if ans = -1 then (-1, None, rest) else if ans = 0 then (1, None, rest) else (0x55, None, rest))
      else (case num_prompt 0 (of_nat (length accs)) lines of (selection, rest) \<Rightarrow>
        if selection = -1 then (-1, None, rest)
        else if selection = 0 then (0x55, None, rest)
        else if unat selection \<le> length accs then (0, Some (unat selection - 1), rest)
        else (-1, None, rest)))"

text \<open>What making an account meets: the key, the name typed, the copies, and the files of the account.\<close>

record create_env =
  cr_key :: "rsa_key option"
  cr_names :: "bytes list"
  cr_strdup :: bool
  cr_kb :: "u64 \<Rightarrow> bool"
  cr_friends :: "bytes option \<times> bool \<times> stat_result \<times> wd_env"
  cr_notifs :: "bytes option \<times> bool \<times> stat_result \<times> wd_env"

text \<open>The string \<open>ibchat.seanp.xyz\<close>.\<close>

definition DFLT_ADDR :: bytes where
  "DFLT_ADDR = [105, 98, 99, 104, 97, 116, 46, 115, 101, 97, 110, 112, 46, 120, 121, 122]"

definition init_account_file :: "ibc \<Rightarrow> (u64 \<Rightarrow> nat) \<Rightarrow> create_env \<Rightarrow> account \<Rightarrow>
    (int \<times> account \<times> bytes option \<times> bytes option) exec" where
  "init_account_file L usable cenv acc =
     (case (cr_friends cenv, cr_notifs cenv) of ((rand, path, st, wd), (rand', path', st', wd')) \<Rightarrow>
       exec_bind (init_friendfile L usable rand path st wd acc) (\<lambda>(r1, acc1, ff).
       exec_bind (init_notiffile L rand' path' st' wd' acc1) (\<lambda>(r2, acc2, nf).
         Done (or r1 r2, acc2, ff, nf))))"

text \<open>
  The account as it is before the connection is made. The result of \<open>rsa_prikey2wire\<close> is not looked at.
\<close>

definition new_account :: "ibc \<Rightarrow> create_env \<Rightarrow> rsa_key \<Rightarrow> bytes \<Rightarrow> bytes \<Rightarrow> account exec" where
  "new_account L cenv k uname addr =
     (let klen = rsa_prikey_bufsize L (sk_bits k) in
      if \<not> cr_kb cenv klen then UB
      else case rsa_prikey2wire L k of
        None \<Rightarrow> UB
      | Some kb \<Rightarrow> Done \<lparr>ac_u_len = of_nat (length uname), ac_a_len = of_nat (length addr), ac_k_len = klen,
          ac_uname = uname, ac_addr = addr, ac_key_bin = kb, ac_sfing = replicate 32 0,
          ac_f_file = replicate 32 0, ac_f_symm = replicate 32 0, ac_f_hmac = replicate 32 0,
          ac_n_file = replicate 32 0, ac_n_symm = replicate 32 0, ac_n_hmac = replicate 32 0\<rparr>)"

text \<open>
  \<open>create_account\<close>: the result, the account (none if it fails, as its parts are freed), the connection,
  the files of friends and notifications, and what is left of the input.
\<close>

definition create_account :: "ibc \<Rightarrow> (u64 \<Rightarrow> nat) \<Rightarrow> login_env \<Rightarrow> create_env \<Rightarrow> server_connection \<Rightarrow> bytes list \<Rightarrow>
    (int \<times> account option \<times> server_connection \<times> (bytes option \<times> bytes option) \<times> bytes list) exec" where
  "create_account L usable env cenv sc0 lines = (case cr_key cenv of
     None \<Rightarrow> Done (-1, None, sc0, (None, None), lines)
   | Some k \<Rightarrow> exec_bind (getusername (cr_names cenv)) (\<lambda>u. case u of
       None \<Rightarrow> Done (-1, None, sc0, (None, None), lines)
     | Some uname \<Rightarrow> (case line_prompt False None lines of
         (None, rest) \<Rightarrow> Done (-1, None, sc0, (None, None), rest)
       | (Some line, rest) \<Rightarrow>
         if line = [] \<and> \<not> cr_strdup cenv then Done (-1, None, sc0, (None, None), rest)
         else exec_bind (new_account L cenv k uname (if line = [] then DFLT_ADDR else line)) (\<lambda>acc.
         exec_bind (connect_server L env sc0) (\<lambda>(ret, sc).
           if ret \<noteq> 0 then Done (-1, None, sc, (None, None), rest)
           else exec_bind (prompt_verify_skey L (lg_fing env) acc (sc_server_key sc) True rest) (\<lambda>(ver, acc1, rest1).
             let fail = (\<lambda>sc' files. Done (-1, None, cleanup_server_connection sc', files, rest1)) in
             if ver \<noteq> 0 then fail sc (None, None)
             else exec_bind (send_login_message L env acc1 k sc) (\<lambda>(r, sc1).
               if r \<noteq> 0 then fail sc1 (None, None)
               else exec_bind (get_server_authresponse L env (sc_keys sc1)) (\<lambda>servresp.
                 if servresp \<noteq> 1 then fail sc1 (None, None)
                 else exec_bind (sc_send L (lg_reg env) register_text 8 sc1) (\<lambda>(r2, sc2).
                   if r2 \<noteq> 0 then fail sc2 (None, None)
                   else exec_bind (init_account_file L usable cenv acc1) (\<lambda>(r3, acc2, ff, nf).
                     if r3 \<noteq> 0 then fail sc2 (ff, nf)
                     else Done (0, Some acc2, sc2, (ff, nf), rest1)))))))))))"

section \<open>Connecting\<close>

lemma client_keybuf_codes: "client_keybuf L env b dw = Inl (r, res) \<Longrightarrow> r = -1 \<and> res = 0 \<or> r = 1 \<and> res \<noteq> 0"
  by (auto simp: client_keybuf_def hs_codes split: option.split_asm if_split_asm)

lemma client_check_codes:
  "client_check L env m rs ds kb keys = Done (r, res, keys', pk) \<Longrightarrow> r = -1 \<or> r = 0 \<and> res = 0 \<or> r = 1 \<and> res \<noteq> 0"
  by (auto simp: client_check_def Let_def hs_codes exec_bind_Done_iff split: option.split_asm if_split_asm)

lemma client_finish_codes:
  assumes "client_finish L env b m keys = Done (r, res, keys', pk)"
  shows "r = -1 \<or> r = 0 \<and> res = 0 \<or> r = 1 \<and> res \<noteq> 0"
proof -
  have "r = -1 \<or> r = 0 \<and> res = 0 \<or> r = 1 \<and> res \<noteq> 0"
    if "(case client_keybuf L env b dw of Inl (r, res) \<Rightarrow> Done (r, res, keys, None)
      | Inr kb \<Rightarrow> client_check L env m rs ds kb (expand_keyset kb 0 keys\<lparr>k_nonce := 1\<rparr>)) = Done (r, res, keys', pk)" for dw rs ds
    using that client_keybuf_codes [of L env b dw] client_check_codes [of L env m rs ds]
    by (cases "client_keybuf L env b dw") (auto split: prod.split_asm)
  with assms show ?thesis
    by (auto simp: client_finish_def Let_def hs_codes exec_bind_Done_iff split: if_split_asm)
qed

text \<open>Besides 0, 1 and -1 there is the code of a wrong first message, with which \<open>*res\<close> is still 0.\<close>

definition bogus_greeting :: "client_env \<Rightarrow> bool" where
  "bogus_greeting env \<longleftrightarrow> (\<exists>im. cv_init env = Some im \<and> 9 \<le> length (m_message im) \<and> take 9 (m_message im) \<noteq> hs_init)"

lemma client_handshake_codes:
  assumes "client_handshake L env keys = Done (r, res, ms, keys', pk)"
  shows "(r = -1 \<or> r = 0 \<and> res = 0 \<or> r = 1 \<and> res \<noteq> 0) \<and> \<not> bogus_greeting env \<or>
    (r, res, ms, keys', pk) = (INVALID_INIT, 0, [], keys, None) \<and> bogus_greeting env"
proof -
  from assms obtain im where i: "cv_init env = Some im \<and> 9 \<le> length (m_message im) \<or> cv_init env = None \<and> r = -1"
    by (auto simp: client_handshake_def read_at_def split: option.split_asm if_split_asm)
  show ?thesis
  proof (cases "bogus_greeting env")
    case True
    with assms show ?thesis by (auto simp: bogus_greeting_def client_handshake_def read_at_def slice_def)
  next
    case False
    with assms i have "r = -1 \<or> (\<exists>b sm. client_finish L env b sm keys = Done (r, res, keys', pk))"
      by (auto simp: bogus_greeting_def client_handshake_def read_at_def slice_def exec_bind_Done_iff
          split: option.split_asm if_split_asm)
    with False client_finish_codes show ?thesis by blast
  qed
qed

text \<open>
  C27: What \<open>connect_server\<close> takes for a connection: it returns 0 if and only if the handshake succeeded or
  the server's very first message was not the greeting. In the second case nothing was negotiated
  and nothing was verified: the session keys and the server's public key are what they were before,
  which for the connection of a program that has just started is all zeros.
\<close>
theorem connect_server_accepts:
  assumes "lg_reach env" and "client_handshake L (lg_hs env) (sc_keys sc0) = Done (r, res, ms, keys, pk)"
  shows "((\<exists>sc. connect_server L env sc0 = Done (0, sc)) \<longleftrightarrow> r = 0 \<and> res = 0 \<or> bogus_greeting (lg_hs env)) \<and>
    (bogus_greeting (lg_hs env) \<longrightarrow> connect_server L env sc0 = Done (0, sc0\<lparr>sc_ch := init_handler (lg_pipe env)\<rparr>))"
proof (cases "bogus_greeting (lg_hs env)")
  case True
  with client_handshake_codes [OF assms(2)] have "(r, res, ms, keys, pk) = (INVALID_INIT, 0, [], sc_keys sc0, None)" by blast
  with assms True show ?thesis by (cases sc0) (simp add: connect_server_def INVALID_INIT_def)
next
  case False
  with client_handshake_codes [OF assms(2)] have "r = -1 \<or> r = 0 \<and> res = 0 \<or> r = 1 \<and> res \<noteq> 0" by blast
  with assms False show ?thesis by (auto simp: connect_server_def Let_def)
qed

section \<open>Logging in\<close>

lemma sc_send_ok:
  assumes "lib_ok L" "\<forall>k n. mem k n" "key_linked (sc_keys sc) r" "length buf + 80 < 2 ^ 64"
  obtains m where "sc_send L mem buf (of_nat (length buf)) sc =
      Done (0, sc\<lparr>sc_ch := add_message (\<lambda>_ _. True) (sc_ch sc) m, sc_keys := (sc_keys sc)\<lparr>k_nonce := k_nonce (sc_keys sc) + 1\<rparr>\<rparr>)"
    "\<forall>q. recv_message L (\<lambda>_ _. True) r (Got m q) = Done (Some buf)"
proof -
  have mem: "mem = (\<lambda>_ _. True)" using assms(2) by (simp add: fun_eq_iff)
  have al: "alloc_message (\<lambda>_ _. True) x" for x by (simp add: alloc_message_def)
  have l: "length buf + 40 < 2 ^ 64" using assms(4) by simp
  obtain m where m: "encrypt_message L (\<lambda>_ _. True) (sc_keys sc) buf (of_nat (length buf)) = Done (Some m)"
    using encrypt_message_ok [OF assms(1) al l] by blast
  have "recv_message L (\<lambda>_ _. True) r (Got m q) = Done (Some buf)" for q
    by (rule recv_sealed [OF assms(1,3) m assms(4) al])
  with m mem show ?thesis by (intro that [of m]) (simp_all add: sc_send_def send_message_def)
qed

text \<open>What the client answers to a challenge, and that the server accepts it.\<close>

lemma login_answer_sent:
  assumes "lib_ok L" "rsa_party L acc k pk w" "key_linked (sc_keys sc) kS" "length challenge = 32"
    "recv_message L (lg_chal_mem env) (sc_keys sc) (lg_chal env) = Done (Some challenge)"
    "\<forall>n. lg_alloc env n" "\<forall>k n. lg_send env k n"
  obtains m resp where "send_login_message L env acc k sc =
      Done (0, sc\<lparr>sc_ch := add_message (\<lambda>_ _. True) (sc_ch sc) m, sc_keys := (sc_keys sc)\<lparr>k_nonce := k_nonce (sc_keys sc) + 1\<rparr>\<rparr>)"
    "\<forall>q. recv_message L (\<lambda>_ _. True) kS (Got m q) = Done (Some resp)"
    "check_response L challenge resp = Done (Some (gen_uid L (ac_uname acc), pk))"
proof -
  note ok = lib_ok_parts [OF assms(1)]
  note p = rsa_partyD [OF assms(1,2)]
  from assms(2) have q: "rsa_pub_key L k = Some pk" "rsa_pubkey2wire L pk = Some w" "0 \<notin> set (ac_uname acc)" "length w < 2 ^ 40"
    "0 < unat (pk_bits pk)" "unat (pk_bits pk) < 2 ^ 40" "\<forall>m. rsa_pss_sign L k m \<noteq> None" by (auto simp: rsa_party_def)
  let ?sl = "(pk_bits pk + 7) div 8"
  have sk: "sk_bits k = pk_bits pk" using rsa_bitsD [OF ok(7) q(1)] by simp
  have sl: "0 < unat ?sl" "unat ?sl < 2 ^ 40" using bits_block_small [OF q(5,6)] by (simp_all add: bits_block_def)
  let ?signed = "gen_uid L (ac_uname acc) @ w @ challenge @ encbe64 L ?sl"
  obtain sg where sg: "rsa_pss_sign L k ?signed = Some sg" using q(7) by blast
  have lsg: "length sg = unat ?sl" using rsa_signD [OF ok(7) q(1) sg] by (simp add: sk)
  have len: "length (?signed @ sg) = 0x48 + length w + unat ?sl"
    using length_gen_uid [OF assms(1)] assms(4) lsg ok by (simp add: endian_simps)
  have size: "0x20 + of_nat (length w) + 0x20 + 0x08 + ?sl = (of_nat (length (?signed @ sg)) :: u64)"
    unfolding len by simp
  have lw: "unat (of_nat (length w) :: u64) = length w" using q(4) by (intro unat_of_nat_small) simp
  have lb: "length (?signed @ sg) + 80 < 2 ^ 64" using len q(4) sl(2) by simp
  from sc_send_ok [OF assms(1,7,3) lb] obtain m where
    m: "sc_send L (lg_send env) (?signed @ sg) (of_nat (length (?signed @ sg))) sc =
      Done (0, sc\<lparr>sc_ch := add_message (\<lambda>_ _. True) (sc_ch sc) m, sc_keys := (sc_keys sc)\<lparr>k_nonce := k_nonce (sc_keys sc) + 1\<rparr>\<rparr>)"
    "\<forall>q. recv_message L (\<lambda>_ _. True) kS (Got m q) = Done (Some (?signed @ sg))" by blast
  have kb: "read_at (ac_key_bin acc) 0 8 = Done (take 8 (ac_key_bin acc))" using p(2) by (simp add: read_at_def slice_def)
  have c: "cstr (ac_uname acc) = ac_uname acc" using q(3) by (rule cstr_no_zero)
  show ?thesis
  proof (rule that [OF _ m(2)])
    show "send_login_message L env acc k sc =
      Done (0, sc\<lparr>sc_ch := add_message (\<lambda>_ _. True) (sc_ch sc) m, sc_keys := (sc_keys sc)\<lparr>k_nonce := k_nonce (sc_keys sc) + 1\<rparr>\<rparr>)"
      unfolding send_login_message_def assms(5) exec_bind.simps option.case kb Let_def p(3) p(8) c p(4) lw size sg
      using assms(4,6) lsg m(1) by simp
    have l60: "length w < 2 ^ 60" and pos: "0 < (sk_bits k + 7) div 8" using q(4) sl(1) by (simp_all add: sk word_less_nat_alt)
    show "check_response L challenge (?signed @ sg) = Done (Some (gen_uid L (ac_uname acc), pk))"
      using check_response_honest [OF assms(1) q(1,2) _ length_gen_uid [OF assms(1)] assms(4) l60 pos, of "ac_uname acc" sg] sg
      by (simp add: sk)
  qed
qed

lemma authresponse_value:
  assumes "recv_message L (lg_resp_mem env) keys (lg_resp env) = Done (Some (cliauth_text @ [of_int c]))"
    "c = 0 \<or> c = 1 \<or> c = 2 \<or> c = 3"
  shows "get_server_authresponse L env keys = Done c"
  using assms by (auto simp: get_server_authresponse_def cliauth_text_def)

text \<open>A server key that is known passes without a question.\<close>

lemma known_key_passes:
  assumes "lib_ok L" "rsa_pubkey2wire L key = Some w" "ac_sfing acc = sha256 L w"
  shows "prompt_verify_skey L True acc key firsttime lines = Done (0, acc, lines)"
  using memcmp_ct_same [OF lib_ok_parts(2) [OF assms(1)]] assms(2,3) by (simp add: prompt_verify_skey_def)

text \<open>What the two sides of a login make of the answer code, once the client's answer is accepted.\<close>

lemma auth_user_outcome:
  assumes "ae_rand senv = Some challenge" "ae_send1 senv" "ae_send2 senv" "ae_resp senv = Some resp"
    "check_response L challenge resp = Done (Some (uid, pk))" "check_user L st uid pk = Done c"
  shows "auth_user L sk senv st =
    (let sent = [challenge, cliauth_text @ [of_int c]] in
     if c = 2 \<or> c = 3 then Done (-1, [], sent, st)
     else if c = 1 then exec_bind (user_register L sk senv st uid pk) (\<lambda>(r, st').
       if r \<noteq> 0 then Done (-1, [], sent, st') else Done (0, uid, sent, st'))
     else Done (0, uid, sent, st))"
  using assms by (simp add: auth_user_def)

lemma login_account_outcome:
  assumes "lib_ok L" "rsa_wire2prikey L (ac_key_bin acc) = Some k" "connect_server L env sc0 = Done (0, sc)" "lg_fing env"
    "rsa_pubkey2wire L (sc_server_key sc) = Some sw" "ac_sfing acc = sha256 L sw"
    "send_login_message L env acc k sc = Done (0, sc1)" "get_server_authresponse L env (sc_keys sc1) = Done c"
  shows "login_account L env acc sc0 dirty lines =
    (if c \<noteq> 0 \<and> c \<noteq> 1 then Done (-1, acc, cleanup_server_connection sc1, dirty, lines)
     else if c = 0 then Done (0, acc, sc1, dirty, lines)
     else case yn_prompt lines of (ans, lines') \<Rightarrow>
       if ans \<noteq> 1 then Done (-1, acc, cleanup_server_connection sc1, dirty, lines')
       else exec_bind (sc_send L (lg_reg env) register_text 8 sc1) (\<lambda>(r2, sc2).
         if r2 \<noteq> 0 then Done (-1, acc, cleanup_server_connection sc2, dirty, lines')
         else Done (0, acc, sc2, dirty, lines')))"
  using assms(2-4,7,8) known_key_passes [OF assms(1,5,6), of False lines]
  by (simp add: login_account_def)

lemma out_queue_add [simp]: "out_queue (add_message (\<lambda>_ _. True) con m) = out_queue con @ [m]"
  by (simp add: add_message_def)

lemma registration_sent:
  assumes "lib_ok L" "\<forall>k n. lg_reg env k n" "key_linked (sc_keys sc) kS"
  obtains m where "sc_send L (lg_reg env) register_text 8 sc =
      Done (0, sc\<lparr>sc_ch := add_message (\<lambda>_ _. True) (sc_ch sc) m, sc_keys := (sc_keys sc)\<lparr>k_nonce := k_nonce (sc_keys sc) + 1\<rparr>\<rparr>)"
    "cl_open L kS m = Some register_text"
proof -
  have rl: "length register_text + 80 < 2 ^ 64" "of_nat (length register_text) = (8 :: u64)"
    by (simp_all add: register_text_def)
  from sc_send_ok [OF assms rl(1)] obtain m where
    "sc_send L (lg_reg env) register_text 8 sc =
      Done (0, sc\<lparr>sc_ch := add_message (\<lambda>_ _. True) (sc_ch sc) m, sc_keys := (sc_keys sc)\<lparr>k_nonce := k_nonce (sc_keys sc) + 1\<rparr>\<rparr>)"
    "\<forall>q. recv_message L (\<lambda>_ _. True) kS (Got m q) = Done (Some register_text)" unfolding rl(2) by blast
  then show thesis by (intro that [of m]) (simp_all add: cl_open_def)
qed

text \<open>Without a word from the client nobody is registered.\<close>

lemma silent_not_registered: "ae_reg env = None \<Longrightarrow> user_register L sk env st uid pk = Done (-1, st)"
  by (simp add: user_register_def prompt_user_register_def)

lemma register_env_ok_cong [simp]:
  "register_env_ok (env\<lparr>ae_resp := r, ae_reg := g\<rparr>) = register_env_ok env"
  by (simp add: register_env_ok_def)

text \<open>
  C3: Client and server agree on a login. A client whose server key is the one it knows answers the
  challenge; the server opens the answer, finds the client's id and key in it and replies with what
  \<open>check_user\<close> says. If nothing fails, \<open>login_account\<close> returns 0 if and only if \<open>auth_user\<close> does, namely for
  a known user who is not logged in, and for an unknown one who answers that they want to register;
  then the server registers them. The id the server gets is the hash of the client's user name, and
  after a login it is in the user table with the client's key. For a registration the hypotheses are
  about what the server finds (random bytes, files, memory, room in the table), not about its code.
\<close>
theorem login_agreement:
  assumes "lib_ok L" and "rsa_party L acc k pk w"
    and "connect_server L env sc0 = Done (0, sc)" and "lg_fing env"
    and "rsa_pubkey2wire L (sc_server_key sc) = Some sw" and "ac_sfing acc = sha256 L sw"
    and "key_linked (sc_keys sc) kS" and "length challenge = 32"
    and "recv_message L (lg_chal_mem env) (sc_keys sc) (lg_chal env) = Done (Some challenge)"
    and "recv_message L (lg_resp_mem env) ((sc_keys sc)\<lparr>k_nonce := k_nonce (sc_keys sc) + 1\<rparr>) (lg_resp env) =
      Done (Some (cliauth_text @ [of_int c]))"
    and "\<forall>n. lg_alloc env n" and "\<forall>k n. lg_send env k n" and "\<forall>k n. lg_reg env k n"
    and "ae_rand senv = Some challenge" and "ae_send1 senv" and "ae_send2 senv"
    and "check_user L st (gen_uid L (ac_uname acc)) pk = Done c"
    and "c = 1 \<longrightarrow> signer_ok L sk spk \<and> db_inv L (sv_db st) \<and> size (db_users (sv_db st)) < 12 \<and> register_env_ok senv"
  shows "\<exists>m ms resp cr sc' lines' r uid st'.
    login_account L env acc sc0 dirty lines = Done (cr, acc, sc', dirty, lines') \<and>
    out_queue (sc_ch sc') = out_queue (sc_ch sc) @ m # ms \<and> cl_open L kS m = Some resp \<and>
    auth_user L sk (senv\<lparr>ae_resp := Some resp, ae_reg := (case ms of [] \<Rightarrow> None | m' # _ \<Rightarrow> cl_open L kS m')\<rparr>) st =
      Done (r, uid, [challenge, cliauth_text @ [of_int c]], st') \<and>
    (cr = 0 \<longleftrightarrow> r = 0) \<and> (r = 0 \<longleftrightarrow> c = 0 \<or> c = 1 \<and> fst (yn_prompt lines) = 1) \<and>
    (r = 0 \<longrightarrow> uid = gen_uid L (ac_uname acc) \<and> (\<exists>u. user_db_get L (sv_db st') uid = Done (Some u) \<and> u_pkey u = pk))"
proof -
  note rk = rsa_partyD(1) [OF assms(1,2)]
  from login_answer_sent [OF assms(1,2,7,8,9,11,12)] obtain m resp where
    s: "send_login_message L env acc k sc =
      Done (0, sc\<lparr>sc_ch := add_message (\<lambda>_ _. True) (sc_ch sc) m, sc_keys := (sc_keys sc)\<lparr>k_nonce := k_nonce (sc_keys sc) + 1\<rparr>\<rparr>)"
    "\<forall>q. recv_message L (\<lambda>_ _. True) kS (Got m q) = Done (Some resp)"
    "check_response L challenge resp = Done (Some (gen_uid L (ac_uname acc), pk))" by blast
  have o: "cl_open L kS m = Some resp" using s(2) by (simp add: cl_open_def)
  note cc = check_user_cases [OF assms(17)]
  let ?sc1 = "sc\<lparr>sc_ch := add_message (\<lambda>_ _. True) (sc_ch sc) m, sc_keys := (sc_keys sc)\<lparr>k_nonce := k_nonce (sc_keys sc) + 1\<rparr>\<rparr>"
  have g: "get_server_authresponse L env (sc_keys ?sc1) = Done c"
    by (rule authresponse_value) (use assms(10) cc in simp_all)
  note login = login_account_outcome [OF assms(1) rk assms(3-6) s(1) g, of dirty lines]
  let ?e = "\<lambda>reg. senv\<lparr>ae_resp := Some resp, ae_reg := reg\<rparr>"
  have a: "ae_rand (?e reg) = Some challenge" "ae_send1 (?e reg)" "ae_send2 (?e reg)" "ae_resp (?e reg) = Some resp" for reg
    using assms(14-16) by simp_all
  note auth = auth_user_outcome [OF a s(3) assms(17)]
  show ?thesis
  proof (cases "c = 1 \<and> fst (yn_prompt lines) = 1")
    case True
    then obtain lines' where yn: "yn_prompt lines = (1, lines')" by (cases "yn_prompt lines") auto
    have kl: "key_linked (sc_keys ?sc1) kS" using assms(7) by simp
    from registration_sent [OF assms(1,13) kl] obtain m2 where
      m2: "sc_send L (lg_reg env) register_text 8 ?sc1 = Done (0, ?sc1\<lparr>sc_ch := add_message (\<lambda>_ _. True) (sc_ch ?sc1) m2,
        sc_keys := (sc_keys ?sc1)\<lparr>k_nonce := k_nonce (sc_keys ?sc1) + 1\<rparr>\<rparr>)"
      "cl_open L kS m2 = Some register_text" by blast
    have e: "signer_ok L sk spk" "db_inv L (sv_db st)" "size (db_users (sv_db st)) < 12" "register_env_ok (?e (Some register_text))"
      using assms(18) True by simp_all
    have new: "user_db_get L (sv_db st) (gen_uid L (ac_uname acc)) = Done None"
      using check_user_one assms(17) True by blast
    have reg: "ae_reg (?e (Some register_text)) = Some register_text" by simp
    from user_register_succeeds [OF assms(1) e(1-3) length_gen_uid [OF assms(1)] new reg e(4)] obtain st1 v where
      u: "user_register L sk (senv\<lparr>ae_resp := Some resp, ae_reg := Some register_text\<rparr>) st
        (gen_uid L (ac_uname acc)) pk = Done (0, st1)"
      "user_db_get L (sv_db st1) (gen_uid L (ac_uname acc)) = Done (Some v)" "u_pkey v = pk" by blast
    show ?thesis
      using True o m2(2,1) login auth u
      by (intro exI [of _ m] exI [of _ "[m2]"] exI [of _ resp]) (simp add: yn)
  next
    case False
    with cc consider "c = 0" | "c = 1" "fst (yn_prompt lines) \<noteq> 1" | "c = 2 \<or> c = 3" by blast
    then show ?thesis
    proof cases
      case 1
      then have "\<exists>u. user_db_get L (sv_db st) (gen_uid L (ac_uname acc)) = Done (Some u) \<and> u_pkey u = pk"
        using check_user_zero assms(17) by metis
      then show ?thesis using 1 o login auth
        by (intro exI [of _ m] exI [of _ "[]"] exI [of _ resp]) simp
    next
      case 2
      then obtain ans lines' where yn: "yn_prompt lines = (ans, lines')" "ans \<noteq> 1" by (cases "yn_prompt lines") auto
      with 2 show ?thesis using o login auth silent_not_registered [of "?e None" L sk st]
        by (intro exI [of _ m] exI [of _ "[]"] exI [of _ resp]) (simp add: cleanup_server_connection_def end_handler_def)
    next
      case 3
      then show ?thesis using o login auth
        by (intro exI [of _ m] exI [of _ "[]"] exI [of _ resp]) (auto simp: cleanup_server_connection_def end_handler_def)
    qed
  qed
qed

section \<open>A new account\<close>

lemma new_account_ok:
  assumes "lib_ok L" "new_account L cenv k uname addr = Done acc" "length uname \<le> 20" "length addr < 2 ^ 40"
    "unat (rsa_prikey_bufsize L (sk_bits k)) < 2 ^ 40"
  shows "account_ok acc \<and> ac_uname acc = uname \<and> rsa_wire2prikey L (ac_key_bin acc) = Some k"
proof -
  from assms(2) obtain kb where kb: "rsa_prikey2wire L k = Some kb" "ac_key_bin acc = kb"
    "ac_k_len acc = rsa_prikey_bufsize L (sk_bits k)" "ac_uname acc = uname" "ac_addr acc = addr"
    "ac_u_len acc = of_nat (length uname)" "ac_a_len acc = of_nat (length addr)" "ac_sfing acc = replicate 32 0"
    "ac_f_file acc = replicate 32 0" "ac_f_symm acc = replicate 32 0" "ac_f_hmac acc = replicate 32 0"
    "ac_n_file acc = replicate 32 0" "ac_n_symm acc = replicate 32 0" "ac_n_hmac acc = replicate 32 0"
    by (auto simp: new_account_def Let_def split: if_split_asm option.split_asm)
  moreover have "rsa_wire2prikey L kb = Some k" "length kb = unat (rsa_prikey_bufsize L (sk_bits k))"
    using rsa_prikey_wireD [OF lib_ok_parts(7) [OF assms(1)] kb(1)] by simp_all
  moreover have "unat (of_nat (length uname) :: u64) = length uname" "unat (of_nat (length addr) :: u64) = length addr"
    using assms(3,4) by (intro unat_of_nat_small; simp)+
  ultimately show ?thesis using assms(3-5) by (simp add: account_ok_def)
qed

lemma prompt_verify_skey_ok:
  assumes "lib_ok L" "prompt_verify_skey L mem acc key True lines = Done (0, acc', rest)" "length (ac_sfing acc) = 32"
  shows "\<exists>w. rsa_pubkey2wire L key = Some w \<and> acc' = acc\<lparr>ac_sfing := sha256 L w\<rparr> \<and> (set rest \<subseteq> set lines)"
proof -
  note ok = lib_ok_parts [OF assms(1)]
  have h: "length (sha256 L w) = 32" for w using ok by (simp add: digest_simps)
  from assms(2) obtain w where w: "rsa_pubkey2wire L key = Some w"
    by (auto simp: prompt_verify_skey_def split: if_split_asm option.split_asm)
  have "acc' = acc\<lparr>ac_sfing := sha256 L w\<rparr>" if "memcmp_ct L (sha256 L w) (ac_sfing acc) = 0" "acc' = acc"
    using that memcmp_ct_iff [OF ok(2), of "sha256 L w" "ac_sfing acc"] h assms(3) by (cases acc) simp
  with assms(2) w show ?thesis
    by (auto simp: prompt_verify_skey_def Let_def yn_prompt_def line_prompt_plain split: if_split_asm prod.split_asm list.split_asm)
qed

text \<open>Both files of the account are there, and hold empty lists under its keys.\<close>

definition files_ready :: "ibc \<Rightarrow> (u64 \<Rightarrow> nat) \<Rightarrow> account \<Rightarrow> bytes option \<times> bytes option \<Rightarrow> bool" where
  "files_ready L usable acc files \<longleftrightarrow> (\<exists>ff nf. files = (Some ff, Some nf) \<and>
     (\<forall>mem imem. (\<forall>k n. mem k n) \<and> (\<forall>i k n. imem i k n) \<longrightarrow>
        read_friendfile L usable True mem imem acc (Some ff) = Done (0, Some []) \<and>
        read_notiffile L True mem imem acc [] (Some nf) = Done (0, Some [])))"

definition file_env_ok :: "bytes option \<times> bool \<times> stat_result \<times> wd_env \<Rightarrow> bool" where
  "file_env_ok = (\<lambda>(rand, path, st, wd). (\<forall>buf. rand = Some buf \<longrightarrow> length buf = 96) \<and> wd_ok wd)"

lemma init_account_file_ok:
  assumes "lib_ok L" "init_account_file L usable cenv acc = Done (0, acc', ff, nf)" "account_ok acc"
    "file_env_ok (cr_friends cenv)" "file_env_ok (cr_notifs cenv)"
  shows "account_ok acc' \<and> files_ready L usable acc' (ff, nf) \<and> ac_uname acc' = ac_uname acc \<and>
    ac_key_bin acc' = ac_key_bin acc \<and> ac_sfing acc' = ac_sfing acc"
proof -
  obtain rand path st wd where f: "cr_friends cenv = (rand, path, st, wd)" by (cases "cr_friends cenv")
  obtain rand' path' st' wd' where n: "cr_notifs cenv = (rand', path', st', wd')" by (cases "cr_notifs cenv")
  from assms(2) obtain acc1 where
    i: "init_friendfile L usable rand path st wd acc = Done (0, acc1, ff)"
    "init_notiffile L rand' path' st' wd' acc1 = Done (0, acc', nf)"
    by (auto simp: init_account_file_def f n exec_bind_Done_iff or_eq_0_iff)
  from i(1) obtain buf where b: "rand = Some buf" "path"
    "acc1 = acc\<lparr>ac_f_file := slice 0 32 buf, ac_f_symm := slice 32 32 buf, ac_f_hmac := slice 64 32 buf\<rparr>"
    "write_friendfile L usable True wd acc1 [] = Done (0, ff)"
    by (auto simp: init_friendfile_def Let_def exec_bind_Done_iff split: option.split_asm if_split_asm)
  from i(2) obtain buf' where b': "rand' = Some buf'" "path'"
    "acc' = acc1\<lparr>ac_n_file := slice 0 32 buf', ac_n_symm := slice 32 32 buf', ac_n_hmac := slice 64 32 buf'\<rparr>"
    "write_notiffile L True wd' acc' [] [] = Done (0, nf)"
    by (auto simp: init_notiffile_def Let_def exec_bind_Done_iff split: option.split_asm if_split_asm)
  have wd: "wd_ok wd" "wd_ok wd'" "length buf = 96" "length buf' = 96"
    using assms(4,5) b(1) b'(1) by (simp_all add: file_env_ok_def f n)
  have same: "ff_same acc1 acc'" "nf_same acc' acc'" by (simp_all add: ff_same_def nf_same_def b'(3))
  have "account_ok acc'" using assms(3) wd(3,4) by (simp add: b(3) b'(3) account_ok_def)
  moreover have "files_ready L usable acc' (ff, nf)"
  proof -
    have rf: "\<exists>fl. ff = Some fl \<and> read_friendfile L usable True mem imem acc' (Some fl) = Done (0, Some [])"
      if "\<forall>k n. mem k n" "\<forall>i k n. imem i k n" for mem imem
      using stored_friends_read [OF assms(1) _ _ wd(1) same(1) that, of "[]" usable] b(4) by auto
    have rn: "\<exists>fl. nf = Some fl \<and> read_notiffile L True mem imem acc' [] (Some fl) = Done (0, Some [])"
      if "\<forall>k n. mem k n" "\<forall>i k n. imem i k n" for mem imem
      using stored_notifs_read [OF assms(1) _ _ _ wd(2) same(2) that, of "[]" "[]"] b'(4) by (auto simp: uids_ok_def)
    have "\<exists>fl. ff = Some fl" "\<exists>fl. nf = Some fl" using rf [of "\<lambda>_ _. True" "\<lambda>_ _ _. True"] rn [of "\<lambda>_ _. True" "\<lambda>_ _ _. True"] by auto
    with rf rn show ?thesis by (auto simp: files_ready_def)
  qed
  ultimately show ?thesis by (simp add: b(3) b'(3))
qed

lemma sc_send_key: "sc_send L mem buf len sc = Done (r, sc') \<Longrightarrow> sc_server_key sc' = sc_server_key sc"
  by (auto simp: sc_send_def exec_bind_Done_iff)

lemma send_login_key:
  assumes "send_login_message L env acc k sc = Done (r, sc')"
  shows "sc_server_key sc' = sc_server_key sc"
proof (cases "recv_message L (lg_chal_mem env) (sc_keys sc) (lg_chal env)")
  case (Done c)
  show ?thesis
  proof (cases "\<exists>challenge kb pk. c = Some challenge \<and> length challenge = 32 \<and> read_at (ac_key_bin acc) 0 8 = Done kb \<and>
      rsa_wire_prikey2pubkey L (ac_key_bin acc) = Some pk")
    case True
    with assms Done show ?thesis
      by (auto simp: send_login_message_def Let_def exec_bind_Done_iff sc_send_key split: if_split_asm option.split_asm)
  next
    case False
    with assms Done show ?thesis
      by (cases "read_at (ac_key_bin acc) 0 8"; cases "rsa_wire_prikey2pubkey L (ac_key_bin acc)")
        (auto simp: send_login_message_def Let_def split: if_split_asm option.split_asm)
  qed
qed (use assms in \<open>simp add: send_login_message_def\<close>)

text \<open>
  C19: An account that \<open>create_account\<close> returns is well formed: its lengths are those of its parts, its name
  is a valid user name, its key buffer holds the key that was generated, its fingerprint is the one
  of the server it registered with, so that \<open>login_account\<close> will not ask again, and its two files exist
  and hold empty lists under its keys. It is what \<open>add_account\<close> and \<open>login_account\<close> take.
\<close>
theorem created_account_ok:
  assumes "lib_ok L" and "create_account L usable env cenv sc0 lines = Done (0, Some acc, sc, files, rest)"
    and "cr_key cenv = Some k" and "unat (rsa_prikey_bufsize L (sk_bits k)) < 2 ^ 40" and "\<forall>l \<in> set lines. length l < 2 ^ 40"
    and "file_env_ok (cr_friends cenv)" and "file_env_ok (cr_notifs cenv)"
  shows "account_ok acc \<and> valid_uname (ac_uname acc) \<and> rsa_wire2prikey L (ac_key_bin acc) = Some k \<and>
    (\<exists>w. rsa_pubkey2wire L (sc_server_key sc) = Some w \<and> ac_sfing acc = sha256 L w) \<and> files_ready L usable acc files"
proof -
  obtain typed rest0 where lp: "line_prompt False None lines = (typed, rest0)" by (cases "line_prompt False None lines")
  with assms(2,3) obtain uname line where u: "getusername (cr_names cenv) = Done (Some uname)"
    "line_prompt False None lines = (Some line, rest0)" "\<not> (line = [] \<and> \<not> cr_strdup cenv)"
    by (cases typed) (auto simp: create_account_def exec_bind_Done_iff split: option.split_asm if_split_asm)
  from assms(2) u assms(3) obtain acc0 sc1 where a: "new_account L cenv k uname (if line = [] then DFLT_ADDR else line) = Done acc0"
    "connect_server L env sc0 = Done (0, sc1)"
    by (auto simp: create_account_def exec_bind_Done_iff split: prod.split_asm if_split_asm)
  from assms(2) u assms(3) a obtain acc1 rest1 where v: "prompt_verify_skey L (lg_fing env) acc0 (sc_server_key sc1) True rest0 = Done (0, acc1, rest1)"
    by (auto simp: create_account_def exec_bind_Done_iff Let_def simp del: replicate.simps split: prod.split_asm if_split_asm)
  from assms(2) u assms(3) a v obtain sc2 where l: "send_login_message L env acc1 k sc1 = Done (0, sc2)"
    by (auto simp: create_account_def exec_bind_Done_iff Let_def split: prod.split_asm if_split_asm)
  from assms(2) u assms(3) a v l obtain ff nf where
    i: "init_account_file L usable cenv acc1 = Done (0, acc, ff, nf)" "files = (ff, nf)" "sc_server_key sc = sc_server_key sc2"
    by (auto simp: create_account_def exec_bind_Done_iff Let_def sc_send_def split: prod.split_asm if_split_asm)
  have line: "length line < 2 ^ 40"
    using u(2) assms(5) by (cases lines) (auto simp: line_prompt_plain line_text_def intro: order_le_less_trans [OF length_takeWhile_le])
  then have addr: "length (if line = [] then DFLT_ADDR else line) < 2 ^ 40" by (simp add: DFLT_ADDR_def)
  have name: "valid_uname uname" using u(1) by (rule getusername_valid)
  from new_account_ok [OF assms(1) a(1) valid_unameD(2) [OF name] addr assms(4)] have
    n: "account_ok acc0" "ac_uname acc0 = uname" "rsa_wire2prikey L (ac_key_bin acc0) = Some k" by simp_all
  from prompt_verify_skey_ok [OF assms(1) v] n(1) obtain w where
    w: "rsa_pubkey2wire L (sc_server_key sc1) = Some w" "acc1 = acc0\<lparr>ac_sfing := sha256 L w\<rparr>" by (auto simp: account_ok_def)
  have ok1: "account_ok acc1"
    using n(1) lib_ok_parts [OF assms(1)] by (simp add: account_ok_def w(2) digest_simps)
  have k2: "sc_server_key sc2 = sc_server_key sc1"
    using l by (rule send_login_key)
  from init_account_file_ok [OF assms(1) i(1) ok1 assms(6,7)] n(2,3) name w i(2,3) k2 show ?thesis by simp
qed

section \<open>Witnesses\<close>

definition demo_sc :: server_connection where
  "demo_sc = \<lparr>sc_ch = init_handler True, sc_server_key = \<lparr>pk_bits = 0, pk_e = 0, pk_n = 0\<rparr>, sc_keys = demo_keys\<rparr>"

definition demo_login_env :: "client_env \<Rightarrow> message \<Rightarrow> message \<Rightarrow> login_env" where
  "demo_login_env hs mc mr = \<lparr>lg_reach = True, lg_hs = hs, lg_pipe = True, lg_mem = \<lambda>_ _. True, lg_fing = True, lg_chal = Got mc [],
     lg_chal_mem = \<lambda>_ _. True, lg_alloc = \<lambda>_. True, lg_send = \<lambda>_ _. True, lg_resp = Got mr [], lg_resp_mem = \<lambda>_ _. True,
     lg_reg = \<lambda>_ _. True\<rparr>"

definition demo_bogus :: client_env where
  "demo_bogus = demo_client (Some \<lparr>m_length = 9, m_seq_num = 0, m_message = [0, 1, 2, 3, 4, 5, 6, 7, 8]\<rparr>) None"

theorem connect_server_accepts_witness:
  "connect_server demo_lib (demo_login_env demo_bogus demo_hello demo_hello) (demo_sc\<lparr>sc_keys := zero_keyset\<rparr>) =
    Done (0, demo_sc\<lparr>sc_keys := zero_keyset\<rparr>)"
proof -
  let ?e = "demo_login_env demo_bogus demo_hello demo_hello"
  have b: "bogus_greeting (lg_hs ?e)"
    by (simp add: bogus_greeting_def demo_login_env_def demo_bogus_def demo_client_def hs_init_def)
  have r: "lg_reach ?e" by (simp add: demo_login_env_def)
  have h: "client_handshake demo_lib (lg_hs ?e) (sc_keys (demo_sc\<lparr>sc_keys := zero_keyset\<rparr>)) = Done (INVALID_INIT, 0, [], zero_keyset, None)"
    by (simp add: client_handshake_def demo_login_env_def demo_bogus_def demo_client_def hs_init_def read_at_def slice_def)
  have "lg_pipe ?e" by (simp add: demo_login_env_def)
  with connect_server_accepts [OF r h] b show ?thesis by (simp add: demo_sc_def)
qed

text \<open>A connection made by the two handshakes, and two messages of the server on it.\<close>

lemma demo_connect:
  obtains hs kc kS where
    "\<forall>mc mr. connect_server demo_lib (demo_login_env hs mc mr) demo_sc =
      Done (0, \<lparr>sc_ch = add_message (\<lambda>_ _. True) (init_handler True) demo_hello, sc_server_key = demo_server_pub, sc_keys = kc\<rparr>)"
    "key_linked kc kS" "key_linked kS kc"
proof -
  obtain im sm ks' where s: "server_handshake demo_lib (demo_server (Some demo_hello)) demo_key demo_peer = (0, [im, sm], ks')"
    using demo_server_handshake by blast
  have "\<exists>kc' pk. client_handshake demo_lib (demo_client (Some im) (Some sm)) demo_keys =
      Done (0, 0, [demo_hello], kc', Some pk) \<and> rsa_pub_key demo_lib demo_key = Some pk \<and>
      key_linked kc' ks' \<and> key_linked ks' kc' \<and> k_nonce kc' = 1 \<and> k_nonce ks' = 2"
    by (rule handshake_agrees [OF demo_lib_ok s, where b = 3 and A = 14 and s = 42])
      (simp_all add: demo_client_hello, simp_all add: demo_client_def demo_server_def demo_lib_def)
  then obtain kc pk where c: "client_handshake demo_lib (demo_client (Some im) (Some sm)) demo_keys = Done (0, 0, [demo_hello], kc, Some pk)"
    "rsa_pub_key demo_lib demo_key = Some pk" "key_linked kc ks'" "key_linked ks' kc" by blast
  have "pk = demo_server_pub" using c(2) by (simp add: demo_lib_def demo_key_def demo_server_pub_def)
  with c show ?thesis
    by (intro that [of "demo_client (Some im) (Some sm)" kc ks']) (simp_all add: connect_server_def demo_login_env_def demo_sc_def)
qed

lemma demo_sealed:
  assumes "key_linked kS kc" "length pt < 100"
  obtains m where "\<forall>n. recv_message demo_lib (\<lambda>_ _. True) (kc\<lparr>k_nonce := n\<rparr>) (Got m []) = Done (Some pt)"
    "recv_message demo_lib (\<lambda>_ _. True) kc (Got m []) = Done (Some pt)"
proof -
  have al: "alloc_message (\<lambda>_ _. True) x" for x by (simp add: alloc_message_def)
  have l: "length pt + 40 < 2 ^ 64" "length pt + 80 < 2 ^ 64" using assms(2) by simp_all
  obtain m where m: "encrypt_message demo_lib (\<lambda>_ _. True) kS pt (of_nat (length pt)) = Done (Some m)"
    using encrypt_message_ok [OF demo_lib_ok al l(1)] by blast
  have "recv_message demo_lib (\<lambda>_ _. True) (kc\<lparr>k_nonce := n\<rparr>) (Got m []) = Done (Some pt)" for n
    by (rule recv_sealed [OF demo_lib_ok _ m l(2) al]) (simp add: assms(1))
  moreover have "recv_message demo_lib (\<lambda>_ _. True) kc (Got m []) = Done (Some pt)"
    by (rule recv_sealed [OF demo_lib_ok assms(1) m l(2) al])
  ultimately show ?thesis using that by blast
qed

lemma demo_unknown: "check_user demo_lib demo_state uid pk = Done 1" if "length uid = 32"
proof -
  have "user_db_get demo_lib init_user_db_st uid = Done None"
    using user_db_get_spec [OF lib_ok_parts(2) [OF demo_lib_ok] db_inv_init(1) that]
    by (auto simp: db_inv_init(2))
  then show ?thesis by (simp add: check_user_def demo_state_def)
qed

text \<open>A new user: the server does not know them, they type \<open>y\<close>, and they are registered.\<close>

theorem login_agreement_witness:
  "\<exists>env acc sc' lines' resp reg (st' :: server_state) u. login_account demo_lib env acc demo_sc False [[121, 10]] = Done (0, acc, sc', False, lines') \<and>
    auth_user demo_lib demo_server_key (demo_auth_env\<lparr>ae_resp := Some resp, ae_reg := reg\<rparr>) demo_state =
      Done (0, gen_uid demo_lib [97, 98], [replicate 32 3, cliauth_text @ [of_int 1]], st') \<and>
    user_db_get demo_lib (sv_db st') (gen_uid demo_lib [97, 98]) = Done (Some u) \<and> u_pkey u = demo_rsa_pub"
proof -
  from demo_connect obtain hs kc kS where c: "\<forall>mc mr. connect_server demo_lib (demo_login_env hs mc mr) demo_sc =
      Done (0, \<lparr>sc_ch = add_message (\<lambda>_ _. True) (init_handler True) demo_hello, sc_server_key = demo_server_pub, sc_keys = kc\<rparr>)"
    "key_linked kc kS" "key_linked kS kc" by blast
  from demo_sealed [OF c(3), of "replicate 32 3"] obtain mc where
    mc: "recv_message demo_lib (\<lambda>_ _. True) kc (Got mc []) = Done (Some (replicate 32 3))" by auto
  from demo_sealed [OF c(3), of "cliauth_text @ [of_int 1]"] obtain mr where
    mr: "\<forall>n. recv_message demo_lib (\<lambda>_ _. True) (kc\<lparr>k_nonce := n\<rparr>) (Got mr []) = Done (Some (cliauth_text @ [of_int 1]))"
    by (auto simp: cliauth_text_def)
  let ?w = "be_enc 8 16 @ be_enc 8 3 @ be_enc 8 77"
  let ?acc = "demo_key_account\<lparr>ac_sfing := sha256 demo_lib ?w\<rparr>" and ?env = "demo_login_env hs mc mr"
  let ?sc = "\<lparr>sc_ch = add_message (\<lambda>_ _. True) (init_handler True) demo_hello, sc_server_key = demo_server_pub, sc_keys = kc\<rparr>"
  have p: "rsa_party demo_lib ?acc demo_rsa demo_rsa_pub demo_rsa_wire" using demo_party by (simp add: rsa_party_def)
  have n: "ac_uname ?acc = [97, 98]" by (simp add: demo_key_account_def)
  have w: "rsa_pubkey2wire demo_lib (sc_server_key ?sc) = Some ?w" by (simp add: demo_lib_def demo_server_pub_def)
  have st: "check_user demo_lib demo_state (gen_uid demo_lib (ac_uname ?acc)) demo_rsa_pub = Done 1"
    by (rule demo_unknown) (simp add: length_gen_uid)
  have reg: "1 = (1 :: int) \<longrightarrow> signer_ok demo_lib demo_server_key demo_server_pub \<and> db_inv demo_lib (sv_db demo_state) \<and>
      size (db_users (sv_db demo_state)) < 12 \<and> register_env_ok demo_auth_env"
    using demo_signer_ok demo_ue_ok db_inv_init
    by (simp add: demo_state_def register_env_ok_def demo_auth_env_def uw_ok_def demo_uw_env_def)
  have y: "yn_prompt [[121, 10]] = (1, [])" by (simp add: yn_prompt_def line_prompt_plain line_text_def)
  have ae: "ae_rand demo_auth_env = Some (replicate 32 3)" "ae_send1 demo_auth_env" "ae_send2 demo_auth_env"
    by (simp_all add: demo_auth_env_def)
  from login_agreement [OF demo_lib_ok p _ _ w _ _ _ _ _ _ _ _ ae st reg, of ?env demo_sc kS False "[[121, 10]]"]
  obtain m ms resp cr sc' lines' r uid st' where
    "login_account demo_lib ?env ?acc demo_sc False [[121, 10]] = Done (cr, ?acc, sc', False, lines')"
    "auth_user demo_lib demo_server_key (demo_auth_env\<lparr>ae_resp := Some resp,
      ae_reg := (case ms of [] \<Rightarrow> None | m' # _ \<Rightarrow> cl_open demo_lib kS m')\<rparr>) demo_state = Done (r, uid, [replicate 32 3, cliauth_text @ [of_int 1]], st')"
    "cr = 0 \<longleftrightarrow> r = 0" "r = 0" "uid = gen_uid demo_lib [97, 98]"
    "\<exists>u. user_db_get demo_lib (sv_db st') uid = Done (Some u) \<and> u_pkey u = demo_rsa_pub"
    using c(1,2) mc mr n y by (auto simp: demo_login_env_def)
  then show ?thesis by blast
qed

text \<open>A registration: the typed name is \<open>ab\<close>, the address is left empty, the key of the server is trusted.\<close>

definition demo_create_env :: create_env where
  "demo_create_env = \<lparr>cr_key = Some demo_rsa, cr_names = [[97, 98, 10]], cr_strdup = True, cr_kb = \<lambda>_. True,
     cr_friends = (Some (replicate 96 7), True, StatAbsent, demo_wd), cr_notifs = (Some (replicate 96 8), True, StatAbsent, demo_wd)\<rparr>"

lemma demo_files:
  "\<exists>acc' ff nf. init_account_file demo_lib (\<lambda>n. 24) demo_create_env acc = Done (0, acc', ff, nf)"
proof -
  have f: "\<exists>fl. write_friendfile demo_lib (\<lambda>n. 24) True demo_wd a [] = Done (0, Some fl)" for a
    using stored_friends_read [OF demo_lib_ok _ _ demo_wd_ok, of "[]" "\<lambda>n. 24" a a "\<lambda>_ _. True" "\<lambda>_ _ _. True"]
    by (auto simp: ff_same_def)
  have n: "\<exists>fl. write_notiffile demo_lib True demo_wd a [] [] = Done (0, Some fl)" for a
    using stored_notifs_read [OF demo_lib_ok _ _ _ demo_wd_ok, of "[]" "[]" a a "\<lambda>_ _. True" "\<lambda>_ _ _. True"]
    by (auto simp: nf_same_def uids_ok_def)
  let ?a1 = "acc\<lparr>ac_f_file := slice 0 32 (replicate 96 7), ac_f_symm := slice 32 32 (replicate 96 7), ac_f_hmac := slice 64 32 (replicate 96 7)\<rparr>"
  let ?a2 = "?a1\<lparr>ac_n_file := slice 0 32 (replicate 96 8), ac_n_symm := slice 32 32 (replicate 96 8), ac_n_hmac := slice 64 32 (replicate 96 8)\<rparr>"
  from f [of ?a1] obtain ff where ff: "write_friendfile demo_lib (\<lambda>n. 24) True demo_wd ?a1 [] = Done (0, Some ff)" by blast
  from n [of ?a2] obtain nf where nf: "write_notiffile demo_lib True demo_wd ?a2 [] [] = Done (0, Some nf)" by blast
  have "init_account_file demo_lib (\<lambda>n. 24) demo_create_env acc = Done (0, ?a2, Some ff, Some nf)"
    using ff nf by (simp only: init_account_file_def demo_create_env_def create_env.select_convs prod.case
        init_friendfile_def init_notiffile_def option.case Let_def if_True if_False simp_thms exec_bind.simps or.idem stat_result.distinct)
  then show ?thesis by blast
qed

theorem created_account_ok_witness:
  "\<exists>env acc sc files rest. create_account demo_lib (\<lambda>n. 24) env demo_create_env demo_sc [[10], [121, 10]] = Done (0, Some acc, sc, files, rest) \<and>
    account_ok acc \<and> ac_uname acc = [97, 98] \<and> files_ready demo_lib (\<lambda>n. 24) acc files"
proof -
  from demo_connect obtain hs kc kS where c: "\<forall>mc mr. connect_server demo_lib (demo_login_env hs mc mr) demo_sc =
      Done (0, \<lparr>sc_ch = add_message (\<lambda>_ _. True) (init_handler True) demo_hello, sc_server_key = demo_server_pub, sc_keys = kc\<rparr>)"
    "key_linked kc kS" "key_linked kS kc" by blast
  from demo_sealed [OF c(3), of "replicate 32 3"] obtain mc where
    mc: "recv_message demo_lib (\<lambda>_ _. True) kc (Got mc []) = Done (Some (replicate 32 3))" by auto
  from demo_sealed [OF c(3), of "cliauth_text @ [of_int 1]"] obtain mr where
    mr: "\<forall>n. recv_message demo_lib (\<lambda>_ _. True) (kc\<lparr>k_nonce := n\<rparr>) (Got mr []) = Done (Some (cliauth_text @ [of_int 1]))"
    by (auto simp: cliauth_text_def)
  let ?env = "demo_login_env hs mc mr"
  let ?sc = "\<lparr>sc_ch = add_message (\<lambda>_ _. True) (init_handler True) demo_hello, sc_server_key = demo_server_pub, sc_keys = kc\<rparr>"
  obtain acc0 where a0: "new_account demo_lib demo_create_env demo_rsa [97, 98] DFLT_ADDR = Done acc0"
    and a0p: "ac_u_len acc0 = 2" "ac_uname acc0 = [97, 98]" "ac_key_bin acc0 = ac_key_bin demo_key_account"
    by (simp add: new_account_def demo_create_env_def demo_lib_def demo_rsa_def demo_key_account_def)
  have "\<exists>acc1 rest. prompt_verify_skey demo_lib True acc0 demo_server_pub True [[121, 10]] = Done (0, acc1, rest) \<and>
      (acc1 = acc0 \<or> (\<exists>h. acc1 = acc0\<lparr>ac_sfing := h\<rparr>))"
  proof -
    have y: "yn_prompt [[121, 10]] = (1, [])" by (simp add: yn_prompt_def line_prompt_plain line_text_def)
    have w: "rsa_pubkey2wire demo_lib demo_server_pub = Some (be_enc 8 16 @ be_enc 8 3 @ be_enc 8 77)"
      by (simp add: demo_lib_def demo_server_pub_def)
    show ?thesis unfolding prompt_verify_skey_def w option.case y Let_def by auto
  qed
  then obtain acc1 rest where v: "prompt_verify_skey demo_lib True acc0 demo_server_pub True [[121, 10]] = Done (0, acc1, rest)"
    "acc1 = acc0 \<or> (\<exists>h. acc1 = acc0\<lparr>ac_sfing := h\<rparr>)" by blast
  have a1p: "ac_u_len acc1 = 2" "ac_uname acc1 = [97, 98]" "ac_key_bin acc1 = ac_key_bin demo_key_account"
    using v(2) a0p by auto
  have p: "rsa_party demo_lib acc1 demo_rsa demo_rsa_pub demo_rsa_wire"
    using demo_party a1p by (simp add: rsa_party_def demo_key_account_def)
  have kl: "key_linked (sc_keys ?sc) kS" using c(2) by simp
  have chal: "recv_message demo_lib (lg_chal_mem ?env) (sc_keys ?sc) (lg_chal ?env) = Done (Some (replicate 32 3))"
    using mc by (simp add: demo_login_env_def)
  have al: "\<forall>n. lg_alloc ?env n" "\<forall>k n. lg_send ?env k n" "\<forall>k n. lg_reg ?env k n" by (simp_all add: demo_login_env_def)
  have l32: "length (replicate 32 (3 :: byte)) = 32" by simp
  from login_answer_sent [OF demo_lib_ok p kl l32 chal al(1,2)] obtain m where
    s: "send_login_message demo_lib ?env acc1 demo_rsa ?sc = Done (0, ?sc\<lparr>sc_ch := add_message (\<lambda>_ _. True) (sc_ch ?sc) m,
      sc_keys := (sc_keys ?sc)\<lparr>k_nonce := k_nonce (sc_keys ?sc) + 1\<rparr>\<rparr>)" by blast
  let ?sc1 = "?sc\<lparr>sc_ch := add_message (\<lambda>_ _. True) (sc_ch ?sc) m, sc_keys := (sc_keys ?sc)\<lparr>k_nonce := k_nonce (sc_keys ?sc) + 1\<rparr>\<rparr>"
  have g: "get_server_authresponse demo_lib ?env (sc_keys ?sc1) = Done 1"
    by (rule authresponse_value) (use mr in \<open>simp_all add: demo_login_env_def\<close>)
  have kl1: "key_linked (sc_keys ?sc1) kS" using c(2) by simp
  have rl: "length register_text + 80 < 2 ^ 64" "of_nat (length register_text) = (8 :: u64)"
    by (simp_all add: register_text_def)
  from sc_send_ok [OF demo_lib_ok al(3) kl1 rl(1)] obtain sc2 where
    r: "sc_send demo_lib (lg_reg ?env) register_text 8 ?sc1 = Done (0, sc2)" unfolding rl(2) by blast
  from demo_files [of acc1] obtain acc2 ff nf where f: "init_account_file demo_lib (\<lambda>n. 24) demo_create_env acc1 = Done (0, acc2, ff, nf)" by blast
  have u: "getusername (cr_names demo_create_env) = Done (Some [97, 98])" "cr_key demo_create_env = Some demo_rsa" "cr_strdup demo_create_env"
    by (simp_all add: demo_create_env_def valid_uname_def valid_uname_char_def Let_def)
  have lp: "line_prompt False None [[10], [121, 10]] = (Some [], [[121, 10]])" by (simp add: line_prompt_plain line_text_def)
  have lg: "lg_fing ?env" by (simp add: demo_login_env_def)
  have cr: "create_account demo_lib (\<lambda>n. 24) ?env demo_create_env demo_sc [[10], [121, 10]] = Done (0, Some acc2, sc2, (ff, nf), rest)"
    using c(1) v(1) s g r f lg a0
    unfolding create_account_def u option.case exec_bind.simps lp prod.case by (simp add: u(3))
  have e: "\<forall>l \<in> set [[10], [121, 10 :: byte]]. length l < 2 ^ 40" "unat (rsa_prikey_bufsize demo_lib (sk_bits demo_rsa)) < 2 ^ 40"
    "file_env_ok (cr_friends demo_create_env)" "file_env_ok (cr_notifs demo_create_env)"
    using demo_wd_ok by (simp_all add: demo_lib_def file_env_ok_def demo_create_env_def)
  have n2: "ac_uname acc2 = [97, 98]"
    using f a1p(2) by (auto simp: init_account_file_def demo_create_env_def init_friendfile_def init_notiffile_def Let_def exec_bind_Done_iff)
  from created_account_ok [OF demo_lib_ok cr u(2) e(2,1,3,4)] cr n2 show ?thesis by blast
qed

end
