(* ===== verification/ConvLoop.thy ===== *)
theory ConvLoop
  imports BgManager
begin

text \<open>
  \<open>start_conversation\<close> of \<open>client/conversation.c\<close>: the loop in which the user types while the background thread
  receives. The two threads interleave at the places where a lock is released: the background thread keeps a
  message (\<open>cfile_add\<close>), adds it to the open conversation and counts it in three sections, and \<open>start_conversation\<close>
  opens the conversation in one, loads its file in another, and sends and keeps what is typed in two. The property
  says what the user sees: the messages of the conversation file, each side's in the order in which they
  were sent, and those that were kept while the conversation was opened once more.
\<close>

section \<open>The background thread\<close>

text \<open>
  \<open>parse_conv_message\<close> up to the end of \<open>cfile_add\<close>: the result, and the message that is still to be shown with
  the position of its friend. The rest is \<open>show_message\<close> and \<open>add_new_message\<close>.
\<close>

definition keep_message :: "ibc \<Rightarrow> conv_env \<Rightarrow> bytes \<Rightarrow> bytes \<Rightarrow> u64 \<Rightarrow> client_state \<Rightarrow>
    (int \<times> (nat \<times> cmessage) option \<times> client_state) run" where
  "keep_message L env sender payload plen s = (case friend_index (cs_friends s) sender of
     None \<Rightarrow> Some (Done (0, None, s))
   | Some i \<Rightarrow>
      run_bind (Some (parse_conv_message_payload L (ce_alloc env) (cs_friends s ! i) payload plen)) (\<lambda>(res, f, m).
        let s1 = put_friend i f s in
        case m of
          None \<Rightarrow> Some (Done (if res < 0 then -1 else 0, None, s1))
        | Some m \<Rightarrow>
            run_bind (cfile_add L (ce_check env) (ce_file env) f m s1) (\<lambda>(r, s2).
              Some (Done (if r \<noteq> 0 then (-1, None, s2) else (0, Some (i, m), s2))))))"

lemma run_bind_Done_iff: "run_bind m f = Some (Done y) \<longleftrightarrow> (\<exists>x. m = Some (Done x) \<and> f x = Some (Done y))"
  by (induction m f rule: run_bind.induct) auto

lemma run_bind_bind: "run_bind (run_bind m f) g = run_bind m (\<lambda>x. run_bind (f x) g)"
  by (induction m f rule: run_bind.induct) auto

text \<open>The three sections, one after the other, are \<open>parse_conv_message\<close>.\<close>

lemma parse_conv_message_sections:
  "parse_conv_message L env sender payload plen s =
    run_bind (keep_message L env sender payload plen s) (\<lambda>(r, kept, s1). case kept of
      None \<Rightarrow> Some (Done (r, s1))
    | Some (i, m) \<Rightarrow> run_bind (map_option Done (show_message i m s1)) (\<lambda>s2.
        run_bind (add_new_message L (ce_store env) (ce_notif env) i s2) (\<lambda>(r', s3). Some (Done (if r' \<noteq> 0 then -1 else 0, s3)))))"
proof (cases "friend_index (cs_friends s) sender")
  case (Some i)
  then show ?thesis
    by (cases "parse_conv_message_payload L (ce_alloc env) (cs_friends s ! i) payload plen")
      (auto simp: parse_conv_message_def keep_message_def Let_def run_bind_bind intro!: arg_cong2 [where f = run_bind] ext
        split: option.split)
qed (simp add: parse_conv_message_def keep_message_def)

text \<open>
  Where the background thread is: gone; between two messages; in one that is kept and not yet shown; in one
  that is shown and not yet counted. It holds \<open>net_lock\<close> while it is in a message, so the user's thread
  waits with what it sends until the message is done.
\<close>

datatype bg_state = Gone | Idle | Kept conv_env nat cmessage | Shown conv_env nat

text \<open>
  Its events: a text message, whose sender, payload and length are given, arrives and is kept; the next
  section of the message it is in. An event that does not fit the state changes nothing. A message that cannot be
  processed ends the thread.
\<close>

datatype bg_event = Keep conv_env bytes bytes u64 | Step

fun bg_step :: "ibc \<Rightarrow> bg_event \<Rightarrow> bg_state \<Rightarrow> client_state \<Rightarrow> (bg_state \<times> client_state) run" where
  "bg_step L (Keep env sender payload plen) Idle s = run_bind (map_option Done (acquire_netlock s)) (\<lambda>(a, s1).
     if a \<noteq> 0 then run_bind (bg_exit False s1) (\<lambda>s2. Some (Done (Gone, s2)))
     else run_bind (keep_message L env sender payload plen s1) (\<lambda>(r, kept, s2).
       if r \<noteq> 0 then run_bind (bg_exit True s2) (\<lambda>s3. Some (Done (Gone, s3)))
       else case kept of None \<Rightarrow> Some (Done (Idle, release_netlock s2)) | Some (i, m) \<Rightarrow> Some (Done (Kept env i m, s2))))"
| "bg_step L Step (Kept env i m) s = run_bind (map_option Done (show_message i m s)) (\<lambda>s1. Some (Done (Shown env i, s1)))"
| "bg_step L Step (Shown env i) s = run_bind (add_new_message L (ce_store env) (ce_notif env) i s) (\<lambda>(r, s1).
     if r \<noteq> 0 then run_bind (bg_exit True s1) (\<lambda>s2. Some (Done (Gone, s2))) else Some (Done (Idle, release_netlock s1)))"
| "bg_step L e b s = Some (Done (b, s))"

fun bg_run :: "ibc \<Rightarrow> bg_event list \<Rightarrow> bg_state \<Rightarrow> client_state \<Rightarrow> (bg_state \<times> client_state) run" where
  "bg_run L [] b s = Some (Done (b, s))"
| "bg_run L (e # es) b s = run_bind (bg_step L e b s) (\<lambda>(b1, s1). bg_run L es b1 s1)"

section \<open>The conversation\<close>

text \<open>
  \<open>Bg\<close>: an event of the background thread. \<open>Typed\<close>: a turn of the loop in which the input is ready and
  \<open>line_prompt\<close> returns this; the two lists are what the background thread does between the sending of the message
  and \<open>cfile_add\<close>, where no lock is held, and between the input and the end of the turn. \<open>Quiet\<close>: a turn
  without input.
\<close>

datatype conv_event = Bg bg_event | Typed conv_env "bytes option" "bg_event list" "bg_event list" | Quiet

text \<open>\<open>cmessage_send\<close>, with what the background thread does in its middle.\<close>

definition conv_send :: "ibc \<Rightarrow> conv_env \<Rightarrow> bg_event list \<Rightarrow> nat \<Rightarrow> bytes \<Rightarrow> bg_state \<Rightarrow> cmessage list \<Rightarrow> client_state \<Rightarrow>
    (int \<times> bg_state \<times> cmessage list \<times> client_state) run" where
  "conv_send L env mid i text bg shown s =
     run_bind (Some (alloc_cmessage (ce_alloc env) (of_nat (length (cstr text))))) (\<lambda>ok.
       if \<not> ok then Some UB
       else let m = \<lparr>cm_sender = 0, cm_text = cstr text\<rparr> in
         run_bind (cmessage_send_server L (ce_send env) i m s) (\<lambda>(r, s1).
           if r \<noteq> 0 then Some (Done (-1, bg, shown, s1))
           else run_bind (bg_run L mid bg s1) (\<lambda>(bg1, s2).
             run_bind (cfile_add L (ce_check env) (ce_file env) (cs_friends s2 ! i) m s2) (\<lambda>(r', s3).
               if r' \<noteq> 0 then Some (Done (-1, bg1, shown, s3))
               else Some (Done (0, bg1, shown @ [m], s3))))))"

lemma conv_send_alone:
  "conv_send L env [] i text bg shown s =
    run_bind (cmessage_send L env i text shown s) (\<lambda>(r, shown', s'). Some (Done (r, bg, shown', s')))"
  unfolding conv_send_def cmessage_send_def run_bind_bind Let_def
  by (auto simp: run_bind_bind split_def intro!: arg_cong2 [where f = run_bind] ext)

text \<open>The string \<open>/exit\<close>.\<close>

definition exit_text :: bytes where
  "exit_text = [47, 101, 120, 105, 116]"

text \<open>
  What is done with the input: the result when the conversation ends with it, the background thread, the messages
  shown (a list that ends with \<open>head\<close>), the state.
\<close>

definition conv_input :: "ibc \<Rightarrow> conv_env \<Rightarrow> bg_event list \<Rightarrow> nat \<Rightarrow> bytes option \<Rightarrow> bg_state \<Rightarrow> cmessage list \<Rightarrow> client_state \<Rightarrow>
    (int option \<times> bg_state \<times> cmessage list \<times> client_state) run" where
  "conv_input L env mid i input bg shown s = (case input of
     None \<Rightarrow> Some (Done (Some (-1), bg, shown, s))
   | Some t \<Rightarrow>
       if t = [] then Some (Done (None, bg, shown, s))
       else if hd t = 47 then Some (Done (if t = exit_text then Some 0 else None, bg, shown, s))
       else run_bind (conv_send L env mid i t bg shown s) (\<lambda>(r, bg1, shown1, s1).
         Some (Done (if r \<noteq> 0 then Some (-1) else None, bg1, shown1, s1))))"

text \<open>
  The new messages, most recent first, are put behind \<open>head\<close>, which is followed also when it is null.
\<close>

definition merge_new_messages :: "cmessage list \<Rightarrow> client_state \<Rightarrow> (cmessage list \<times> client_state) run" where
  "merge_new_messages shown s = with_writelock (\<lambda>s1.
     if cs_new_messages s1 \<noteq> [] \<and> shown = [] then UB
     else exec_bind (unlock_write (s1\<lparr>cs_new_messages := []\<rparr>)) (\<lambda>s2. Done (shown @ rev (cs_new_messages s1), s2))) s"

text \<open>The loop. The result is \<open>None\<close> when the events are over and the user has not left.\<close>

fun conv_loop :: "ibc \<Rightarrow> nat \<Rightarrow> conv_event list \<Rightarrow> bg_state \<Rightarrow> cmessage list \<Rightarrow> client_state \<Rightarrow>
    (int option \<times> bg_state \<times> cmessage list \<times> client_state) run" where
  "conv_loop L i [] bg shown s = Some (Done (None, bg, shown, s))"
| "conv_loop L i (Bg e # es) bg shown s = run_bind (bg_step L e bg s) (\<lambda>(bg1, s1). conv_loop L i es bg1 shown s1)"
| "conv_loop L i (Typed env input mid post # es) bg shown s =
     run_bind (conv_input L env mid i input bg shown s) (\<lambda>(stop, bg1, shown1, s1).
     run_bind (bg_run L post bg1 s1) (\<lambda>(bg2, s2). case stop of
       Some r \<Rightarrow> run_bind (set_mode 0 s2) (\<lambda>s3. Some (Done (Some r, bg2, shown1, s3)))
     | None \<Rightarrow> run_bind (merge_new_messages shown1 s2) (\<lambda>(shown2, s3). conv_loop L i es bg2 shown2 s3)))"
| "conv_loop L i (Quiet # es) bg shown s =
     run_bind (merge_new_messages shown s) (\<lambda>(shown2, s2). conv_loop L i es bg shown2 s2)"

text \<open>
  The conversation is opened under \<open>lock\<close>; the lock is free until \<open>cfile_load\<close> takes it, and \<open>win\<close> is what the
  background thread does meanwhile. (\<open>cfile_check\<close> between them only looks whether the file is there, which no
  event changes.)
\<close>

definition start_conversation :: "ibc \<Rightarrow> cf_env \<Rightarrow> cf_env \<Rightarrow> (nat \<Rightarrow> heap_oracle) \<Rightarrow> nat \<Rightarrow> bg_event list \<Rightarrow> conv_event list \<Rightarrow>
    bg_state \<Rightarrow> client_state \<Rightarrow> (int option \<times> bg_state \<times> cmessage list \<times> client_state) run" where
  "start_conversation L cenv lenv mem i win es bg0 s =
     run_bind (with_writelock (\<lambda>s1. unlock_write (set_mode_no_lock 1 (s1\<lparr>cs_cur_conv := Some i, cs_new_messages := []\<rparr>))) s) (\<lambda>s0.
     run_bind (bg_run L win bg0 s0) (\<lambda>(bg, s1).
     run_bind (Some (cfile_check L cenv (cs_friends s1 ! i) s1)) (\<lambda>c.
       if c \<noteq> 0 then run_bind (set_mode 0 s1) (\<lambda>s2. Some (Done (Some (-1), bg, [], s2)))
       else run_bind (cfile_load L lenv mem (cs_friends s1 ! i) s1) (\<lambda>(r, ms).
         if r \<noteq> 0 then run_bind (set_mode 0 s1) (\<lambda>s2. Some (Done (Some (-1), bg, [], s2)))
         else conv_loop L i es bg ms s1))))"

section \<open>What the operations leave alone\<close>

text \<open>Of a friend, the conversation file depends on its name and two keys only.\<close>

definition file_keys :: "friend \<Rightarrow> bytes \<times> bytes \<times> bytes" where
  "file_keys f = (fr_c_file f, fr_f_symm_key f, fr_f_hmac_key f)"

lemma cfile_image_keys: "file_keys f = file_keys g \<Longrightarrow> cfile_image L f ms = cfile_image L g ms"
proof -
  assume k: "file_keys f = file_keys g"
  have "cf_entries L f i prev ms = cf_entries L g i prev ms" for i prev
    using k by (induction ms arbitrary: i prev) (simp_all add: file_keys_def cf_mac1_def cf_mac2_def cf_head_def cf_body_def)
  with k show ?thesis by (simp add: cfile_image_def cfile_header_def file_keys_def)
qed

text \<open>What is kept of a message: its text up to the first zero.\<close>

definition kept :: "cmessage \<Rightarrow> cmessage" where
  "kept m = m\<lparr>cm_text := cstr (cm_text m)\<rparr>"

lemma zero_not_in_cstr [simp]: "0 \<notin> set (cstr t)"
  by (auto simp: cstr_def dest: set_takeWhileD)

lemma cstr_cstr [simp]: "cstr (cstr t) = cstr t"
  by (rule cstr_no_zero) simp

lemma length_cstr: "length (cstr t) \<le> length t"
  by (simp add: cstr_def length_takeWhile_le)

lemma kept_simps [simp]: "cm_text (kept m) = cstr (cm_text m)" "cm_sender (kept m) = cm_sender m"
  by (simp_all add: kept_def)

lemma cfile_add_file_kept: "cfile_add_file L env f (kept m) d = cfile_add_file L env f m d"
  unfolding cfile_add_file_def cfile_append_def kept_simps cstr_cstr ..

lemma cfile_add_kept: "cfile_add L cenv env f (kept m) s = cfile_add L cenv env f m s"
  by (simp only: cfile_add_def cfile_add_file_kept)

lemma cfile_add_frame:
  assumes "cfile_add L cenv env f m s = Some (Done (r, s'))" "cs_lock s = 0"
  shows "\<exists>d. s' = s\<lparr>cs_cfiles := (cs_cfiles s)(fr_c_file f := d)\<rparr>"
proof -
  from assms obtain "cs_cfiles s (fr_c_file f) = None \<and> s' = s \<or> (\<exists>d. s' = s\<lparr>cs_cfiles := (cs_cfiles s)(fr_c_file f \<mapsto> d)\<rparr>) \<or> s' = s"
    by (cases s) (auto simp: cfile_add_def with_writelock_def unlock_write_def lock_free
        split: exec.split_asm if_split_asm option.split_asm prod.split_asm)
  moreover have "s = s\<lparr>cs_cfiles := (cs_cfiles s)(fr_c_file f := cs_cfiles s (fr_c_file f))\<rparr>" by simp
  ultimately show ?thesis by metis
qed

lemma add_new_message_frame:
  assumes "add_new_message L e mem i s = Some (Done (r, s'))" "cs_lock s = 0"
  shows "\<exists>ns nf md. s' = s\<lparr>cs_notifs := ns, cs_nf_file := nf, cs_mode := md\<rparr> \<and> (cs_mode s \<noteq> 0 \<longrightarrow> md = cs_mode s)"
proof -
  have st: "\<exists>nf. t' = t\<lparr>cs_nf_file := nf\<rparr>" if "store_notifs L e t = Done (q, t')" for t t' q
    using store_notifs_frame [OF that] .
  have inserted: "\<exists>nf. t' = s\<lparr>cs_notifs := cs_notifs s @ [NMessage i 1], cs_nf_file := nf\<rparr>"
    if "insert_notif L e (NMessage i 1) s = Some (Done (q, t'))" for t' q
    using that st assms(2) unfolding insert_notif_free [OF assms(2)]
    by (cases s) (fastforce simp: exec_bind_Done_iff)
  from assms(1) consider (store) k where "store_notifs L e (s\<lparr>cs_notifs := (cs_notifs s)[k := bump_unread (cs_notifs s ! k)]\<rparr>) = Done (r, s')"
    | (mem) "s' = s" | (ins) t' q where "insert_notif L e (NMessage i 1) s = Some (Done (q, t'))" "tell_user (q, t') = Some (Done (r, s'))"
    by (auto simp: add_new_message_def assms(2) lock_free split: option.split_asm if_split_asm elim: run_bind.elims)
  then show ?thesis
  proof cases
    case store
    from st [OF this] obtain nf where "s' = s\<lparr>cs_notifs := (cs_notifs s)[k := bump_unread (cs_notifs s ! k)], cs_nf_file := nf\<rparr>" by auto
    then show ?thesis
      by (intro exI [of _ "(cs_notifs s)[k := bump_unread (cs_notifs s ! k)]"] exI [of _ nf] exI [of _ "cs_mode s"]) simp
  next
    case mem
    then show ?thesis by (intro exI [of _ "cs_notifs s"] exI [of _ "cs_nf_file s"] exI [of _ "cs_mode s"]) simp
  next
    case ins
    from inserted [OF ins(1)] obtain nf where t: "t' = s\<lparr>cs_notifs := cs_notifs s @ [NMessage i 1], cs_nf_file := nf\<rparr>" by blast
    then have "cs_lock t' = 0" using assms(2) by simp
    with ins(2) tell_user_free have "s' = (if cs_mode t' = 0 then t'\<lparr>cs_mode := 0xff\<rparr> else t')" by simp
    with t show ?thesis
      by (intro exI [of _ "cs_notifs s @ [NMessage i 1]"] exI [of _ nf] exI [of _ "if cs_mode s = 0 then 0xff else cs_mode s"]) simp
  qed
qed

section \<open>What the user sees\<close>

definition side :: "int \<Rightarrow> cmessage list \<Rightarrow> cmessage list" where
  "side a ms = [m \<leftarrow> ms. cm_sender m = a]"

text \<open>The message the background thread has still to show in the conversation with friend \<open>j\<close>.\<close>

fun kept_for :: "nat \<Rightarrow> (nat \<times> cmessage) option \<Rightarrow> cmessage list" where
  "kept_for j None = []"
| "kept_for j (Some (i, m)) = (if i = j then [m] else [])"

fun waiting :: "nat \<Rightarrow> bg_state \<Rightarrow> cmessage list" where
  "waiting j (Kept env i m) = kept_for j (Some (i, m))"
| "waiting j _ = []"

text \<open>
  The file holds \<open>ms\<close>; what is shown, what is queued and what waits in the background thread (\<open>q\<close>) are the messages
  \<open>v\<close>, each side's in order.
\<close>

definition shows_file :: "ibc \<Rightarrow> friend \<Rightarrow> cmessage list \<Rightarrow> cmessage list \<Rightarrow> cmessage list \<Rightarrow> cmessage list \<Rightarrow> client_state \<Rightarrow> bool" where
  "shows_file L f ms v q shown s \<longleftrightarrow> cs_cfiles s (fr_c_file f) = Some (cfile_image L f ms) \<and>
     (\<forall>m \<in> set (cs_new_messages s) \<union> set q. cm_sender m = 1) \<and>
     (\<forall>a. side a (map kept (shown @ rev (cs_new_messages s) @ q)) = side a v)"

text \<open>While the conversation with friend \<open>j\<close> is open; \<open>K\<close> are the files and file keys of all friends.\<close>

definition conv_open :: "(bytes \<times> bytes \<times> bytes) list \<Rightarrow> nat \<Rightarrow> bool \<Rightarrow> client_state \<Rightarrow> bool" where
  "conv_open K j bg s \<longleftrightarrow> cs_lock s = 0 \<and> map file_keys (cs_friends s) = K \<and> cs_cur_conv s = Some j \<and> (bg \<longrightarrow> cs_mode s = 1)"

text \<open>The files of different friends are different.\<close>

definition own_file :: "(bytes \<times> bytes \<times> bytes) list \<Rightarrow> nat \<Rightarrow> friend \<Rightarrow> bool" where
  "own_file K j f \<longleftrightarrow> j < length K \<and> K ! j = file_keys f \<and> (\<forall>k < length K. k \<noteq> j \<longrightarrow> fst (K ! k) \<noteq> fr_c_file f)"

lemma side_append [simp]: "side a (xs @ ys) = side a xs @ side a ys"
  by (simp add: side_def)

lemma payload_frame:
  "parse_conv_message_payload L mem f p plen = Done (r, f', mo) \<Longrightarrow> \<exists>n. f' = f\<lparr>fr_r_nonce := n\<rparr>"
proof -
  assume a: "parse_conv_message_payload L mem f p plen = Done (r, f', mo)"
  have "f' = f \<or> (\<exists>n. f' = f\<lparr>fr_r_nonce := n\<rparr>)"
    using a by (auto simp: parse_conv_message_payload_def Let_def exec_bind_Done_iff split: if_split_asm)
  then show ?thesis by (elim disjE) (auto intro: exI [of _ "fr_r_nonce f"])
qed

lemma file_keys_nonces [simp]: "file_keys (f\<lparr>fr_r_nonce := n\<rparr>) = file_keys f" "file_keys (f\<lparr>fr_s_nonce := n\<rparr>) = file_keys f"
  by (simp_all add: file_keys_def)

lemma put_friend_keys: "i < length (cs_friends s) \<Longrightarrow> file_keys f = file_keys (cs_friends s ! i) \<Longrightarrow>
    map file_keys (cs_friends (put_friend i f s)) = map file_keys (cs_friends s)"
  by (simp add: put_friend_def map_update) (metis list_update_id length_map nth_map)

lemma put_friend_rest [simp]: "cs_lock (put_friend i f s) = cs_lock s" "cs_cfiles (put_friend i f s) = cs_cfiles s"
  "cs_cur_conv (put_friend i f s) = cs_cur_conv s" "cs_mode (put_friend i f s) = cs_mode s"
  "cs_new_messages (put_friend i f s) = cs_new_messages s" "cs_netlock (put_friend i f s) = cs_netlock s"
  by (simp_all add: put_friend_def)

text \<open>Adding a message to the open conversation's file.\<close>

lemma cfile_add_open:
  assumes "lib_ok L" "cf_good cenv" "cf_good env" "cs_lock s = 0" "file_keys g = file_keys f"
    "cs_cfiles s (fr_c_file f) = Some (cfile_image L f ms)" "cf_fits (ms @ [kept m])"
  shows "cfile_add L cenv env g m s = Some (Done (0, s\<lparr>cs_cfiles := (cs_cfiles s)(fr_c_file f \<mapsto> cfile_image L f (ms @ [kept m]))\<rparr>))"
proof -
  have c: "fr_c_file g = fr_c_file f" using assms(5) by (simp add: file_keys_def)
  have "cfile_add L cenv env g (kept m) s =
      Some (Done (0, s\<lparr>cs_cfiles := (cs_cfiles s)(fr_c_file g \<mapsto> cfile_image L g (ms @ [kept m]))\<rparr>))"
    using assms(4,6) by (intro cfile_add_client [OF assms(1-3,7)]) (simp_all add: c cfile_image_keys [OF assms(5)])
  then show ?thesis by (simp add: cfile_add_kept c cfile_image_keys [OF assms(5)])
qed

text \<open>The sections of the background thread, one after the other.\<close>

lemma notified_view:
  assumes "add_new_message L senv mem i s = Some (Done (r, s'))" "conv_open K j True s" "shows_file L f ms v q shown s"
  shows "conv_open K j True s' \<and> shows_file L f ms v q shown s'"
proof -
  have m: "cs_lock s = 0" "cs_mode s = 1" using assms(2) by (simp_all add: conv_open_def)
  from add_new_message_frame [OF assms(1) m(1)] m(2) obtain ns nf where
    "s' = s\<lparr>cs_notifs := ns, cs_nf_file := nf, cs_mode := 1\<rparr>" by auto
  with assms(2,3) show ?thesis by (simp add: conv_open_def shows_file_def)
qed

lemma shown_view:
  assumes "show_message i m s = Some s'" "conv_open K j True s" "shows_file L f ms v (kept_for j (Some (i, m))) shown s"
  shows "conv_open K j True s' \<and> shows_file L f ms v [] shown s'"
proof -
  have "show_message i m s = Some (if i = j then s\<lparr>cs_new_messages := m # cs_new_messages s\<rparr> else s)"
    using assms(2) by (auto simp: conv_open_def show_message_def acquire_readlock_def MAX_READERS_def INT_MAX_def)
  with assms(1) have "s' = (if i = j then s\<lparr>cs_new_messages := m # cs_new_messages s\<rparr> else s)" by simp
  with assms(2,3) show ?thesis by (cases "i = j") (simp_all add: conv_open_def shows_file_def)
qed

lemma kept_here:
  assumes "lib_ok L" "conv_open K j True s" "shows_file L f ms v [] shown s" "file_keys g = file_keys f" "cf_good cenv" "cf_good env"
    "cm_sender m = 1" "cf_fits (ms @ [kept m])" "cfile_add L cenv env g m s = Some (Done (r, s'))"
  shows "r = 0 \<and> conv_open K j True s' \<and> shows_file L f (ms @ [kept m]) (v @ [kept m]) [m] shown s'"
proof -
  have s: "cs_lock s = 0" "cs_cfiles s (fr_c_file f) = Some (cfile_image L f ms)"
    using assms(2,3) by (simp_all add: conv_open_def shows_file_def)
  from cfile_add_open [OF assms(1,5,6) s(1) assms(4) s(2) assms(8)] assms(9) have
    "r = 0" "s' = s\<lparr>cs_cfiles := (cs_cfiles s)(fr_c_file f \<mapsto> cfile_image L f (ms @ [kept m]))\<rparr>" by simp_all
  with assms(2,3,7) show ?thesis by (simp add: conv_open_def shows_file_def)
qed

lemma kept_elsewhere:
  assumes "conv_open K j True s" "shows_file L f ms v [] shown s" "fr_c_file g \<noteq> fr_c_file f"
    "cfile_add L cenv env g m s = Some (Done (r, s'))"
  shows "conv_open K j True s' \<and> shows_file L f ms v [] shown s'"
proof -
  have "cs_lock s = 0" using assms(1) by (simp add: conv_open_def)
  from cfile_add_frame [OF assms(4) this] obtain d where "s' = s\<lparr>cs_cfiles := (cs_cfiles s)(fr_c_file g := d)\<rparr>" by blast
  with assms(1-3) show ?thesis by (simp add: conv_open_def shows_file_def)
qed

text \<open>At most \<open>k\<close> messages more, of \<open>n\<close> bytes; the file has room for them.\<close>

definition grown :: "cmessage list \<Rightarrow> cmessage list \<Rightarrow> nat \<Rightarrow> nat \<Rightarrow> bool" where
  "grown ms new k n \<longleftrightarrow> cf_fits (ms @ new) \<and> length new \<le> k \<and> cf_length (ms @ new) \<le> cf_length ms + n"

definition room :: "cmessage list \<Rightarrow> nat \<Rightarrow> nat \<Rightarrow> bool" where
  "room ms k n \<longleftrightarrow> length ms + k < 2 ^ 32 \<and> 0x30 + cf_length ms + n < 2 ^ 63"

lemma grown_none: "cf_fits ms \<Longrightarrow> grown ms [] k n"
  by (simp add: grown_def)

lemma grown_room: "grown ms new k n \<Longrightarrow> room ms (k + k') (n + n') \<Longrightarrow> room (ms @ new) k' n'"
  by (simp add: grown_def room_def)

lemma grown_trans: "grown ms new k n \<Longrightarrow> grown (ms @ new) new' k' n' \<Longrightarrow> grown ms (new @ new') (k + k') (n + n')"
  by (simp add: grown_def)

lemma grown_mono: "grown ms new k n \<Longrightarrow> k \<le> k' \<Longrightarrow> n \<le> n' \<Longrightarrow> grown ms new k' n'"
  by (simp add: grown_def)

lemma room_mono: "room ms k n \<Longrightarrow> k' \<le> k \<Longrightarrow> n' \<le> n \<Longrightarrow> room ms k' n'"
  by (simp add: room_def)

lemma room_fits: "room ms k n \<Longrightarrow> cf_fits ms \<Longrightarrow> cmessage_ok m \<Longrightarrow> 1 \<le> k \<Longrightarrow> 0x50 + length (cm_text m) \<le> n \<Longrightarrow>
    cf_fits (ms @ [m]) \<and> grown ms [m] 1 (0x50 + length (cm_text m))"
  by (simp add: room_def grown_def cf_fits_def cf_length_append)

lemma keep_view:
  assumes "lib_ok L" "keep_message L env sender payload plen s = Some (Done (r, mo, s'))" "own_file K j f"
    "conv_open K j True s" "shows_file L f ms v [] shown s" "cf_good (ce_check env)" "cf_good (ce_file env)"
    "length payload < 2 ^ 40" "cf_fits ms" "room ms 1 (0x50 + length payload)"
  shows "(r \<noteq> 0 \<longrightarrow> mo = None) \<and> (\<exists>new. conv_open K j True s' \<and> shows_file L f (ms @ new) (v @ new) (kept_for j mo) shown s' \<and>
    grown ms new 1 (0x50 + length payload) \<and> (\<forall>m \<in> set new. cm_sender m = 1))"
proof -
  have o: "map file_keys (cs_friends s) = K" using assms(4) by (simp add: conv_open_def)
  have idle: ?thesis if "conv_open K j True s' \<and> shows_file L f ms v [] shown s'" "kept_for j mo = []" "r \<noteq> 0 \<longrightarrow> mo = None"
    using that grown_none [OF assms(9)] by (intro conjI exI [of _ "[]"]) simp_all
  show ?thesis
  proof (cases "friend_index (cs_friends s) sender")
    case None
    with assms(2) have "s' = s" "mo = None" by (simp_all add: keep_message_def)
    with assms(4,5) show ?thesis by (intro idle) simp_all
  next
    case (Some i)
    note i = friend_index_Some [OF Some]
    from assms(2) Some obtain res g m where
      p: "parse_conv_message_payload L (ce_alloc env) (cs_friends s ! i) payload plen = Done (res, g, m)"
      by (cases "parse_conv_message_payload L (ce_alloc env) (cs_friends s ! i) payload plen") (auto simp: keep_message_def)
    from payload_frame [OF p] have gk: "file_keys g = file_keys (cs_friends s ! i)" by auto
    then have gK: "file_keys g = K ! i" using i(1) o by auto
    let ?s1 = "put_friend i g s"
    have "map file_keys (cs_friends ?s1) = K" using put_friend_keys i gk o by metis
    then have v1: "conv_open K j True ?s1" "shows_file L f ms v [] shown ?s1"
      using assms(4,5) by (simp_all add: conv_open_def shows_file_def)
    show ?thesis
    proof (cases m)
      case None
      with assms(2) Some p have "s' = ?s1" "mo = None" by (simp_all add: keep_message_def Let_def)
      with v1 show ?thesis by (intro idle) simp_all
    next
      case (Some m)
      from assms(2) p Some \<open>friend_index (cs_friends s) sender = Some i\<close> obtain r1 where
        c: "cfile_add L (ce_check env) (ce_file env) g m ?s1 = Some (Done (r1, s'))"
        "(r, mo) = (if r1 \<noteq> 0 then (-1, None) else (0, Some (i, m)))"
        by (auto simp: keep_message_def Let_def run_bind_Done_iff split: if_split_asm)
      from parse_message_inv [OF p [unfolded Some]] have m: "cm_sender m = 1" "length (cm_text m) \<le> length payload"
        using lib_ok_parts [OF assms(1)] by (simp_all add: cipher_simps)
      have lk: "length (cm_text (kept m)) \<le> length payload" using m(2) length_cstr [of "cm_text m"] by simp
      have "cmessage_ok (kept m)" using assms(8) lk m(1) by (simp add: cmessage_ok_def)
      from room_fits [OF assms(10,9) this] lk have fit: "cf_fits (ms @ [kept m])"
        and "grown ms [kept m] 1 (0x50 + length (cm_text (kept m)))" by simp_all
      from grown_mono [OF this(2)] lk have g: "grown ms [kept m] 1 (0x50 + length payload)" by simp
      show ?thesis
      proof (cases "i = j")
        case True
        have gf: "file_keys g = file_keys f" using assms(3) gK True by (auto simp: own_file_def)
        from kept_here [OF assms(1) v1 gf assms(6,7) m(1) fit c(1)] c(2) True m(1) show ?thesis
          using g by (intro conjI exI [of _ "[kept m]"]) simp_all
      next
        case False
        have "fr_c_file g = fst (K ! i)" unfolding gK [symmetric] by (simp add: file_keys_def)
        then have "fr_c_file g \<noteq> fr_c_file f" using assms(3) False i(1) o by (auto simp: own_file_def)
        from kept_elsewhere [OF v1 this c(1)] c(2) False show ?thesis by (intro idle) (simp_all split: if_split_asm)
      qed
    qed
  qed
qed

lemma netlock_view [simp]:
  "conv_open K j b (s\<lparr>cs_netlock := n\<rparr>) = conv_open K j b s" "shows_file L f ms v q shown (s\<lparr>cs_netlock := n\<rparr>) = shows_file L f ms v q shown s"
  "conv_open K j b (release_netlock s) = conv_open K j b s" "shows_file L f ms v q shown (release_netlock s) = shows_file L f ms v q shown s"
  by (simp_all add: conv_open_def shows_file_def release_netlock_def)

lemma bg_exit_view:
  assumes "bg_exit h s = Some (Done s')" "conv_open K j True s" "shows_file L f ms v q shown s"
  shows "conv_open K j False s' \<and> shows_file L f ms v q shown s'"
proof -
  have "s' = s\<lparr>cs_netlock := False, cs_stop := True, cs_mode := -1\<rparr>"
    using assms(1,2) by (cases s) (auto simp: bg_exit_def conv_open_def with_writelock_def unlock_write_def lock_free release_netlock_def
        set_mode_def set_mode_no_lock_def split: if_split_asm)
  with assms(2,3) show ?thesis by (simp add: conv_open_def shows_file_def)
qed

fun bg_size :: "bg_event \<Rightarrow> nat" where
  "bg_size (Keep env sender payload plen) = 0x50 + length payload"
| "bg_size Step = 0"

fun bg_ok :: "bg_event \<Rightarrow> bool" where
  "bg_ok (Keep env sender payload plen) = (cf_good (ce_check env) \<and> cf_good (ce_file env) \<and> length payload < 2 ^ 40)"
| "bg_ok Step = True"

lemma bg_step_view:
  assumes "lib_ok L" "own_file K j f" "bg_step L e bg s = Some (Done (bg', s'))" "conv_open K j (bg \<noteq> Gone) s"
    "shows_file L f ms v (waiting j bg) shown s" "cf_fits ms" "bg_ok e" "room ms 1 (bg_size e)"
  shows "\<exists>new. conv_open K j (bg' \<noteq> Gone) s' \<and> shows_file L f (ms @ new) (v @ new) (waiting j bg') shown s' \<and>
    grown ms new 1 (bg_size e) \<and> (\<forall>m \<in> set new. cm_sender m = 1)"
proof -
  have idle: ?thesis if "conv_open K j (bg' \<noteq> Gone) s' \<and> shows_file L f ms v (waiting j bg') shown s'"
    using that grown_none [OF assms(6)] by (intro exI [of _ "[]"]) simp_all
  consider (stay) "bg' = bg" "s' = s" | (keep) env sender payload plen where "e = Keep env sender payload plen" "bg = Idle"
    | (display) env i m where "e = Step" "bg = Kept env i m" | (count) env i where "e = Step" "bg = Shown env i"
    using assms(3) by (cases "(L, e, bg, s)" rule: bg_step.cases) auto
  then show ?thesis
  proof cases
    case stay
    with assms(4,5) show ?thesis by (intro idle) simp_all
  next
    case keep
    from assms(3) keep obtain s1 where a: "acquire_netlock s = Some (0, s1)"
      by (auto simp: run_bind_Done_iff bg_exit_def split: if_split_asm)
    then have s1: "s1 = s\<lparr>cs_netlock := True\<rparr>"
      by (auto simp: acquire_netlock_def split: if_split_asm option.split_asm)
    from assms(3) keep a obtain r mo s2 where m: "keep_message L env sender payload plen s1 = Some (Done (r, mo, s2))"
      "r \<noteq> 0 \<and> bg' = Gone \<and> bg_exit True s2 = Some (Done s') \<or>
       r = 0 \<and> (mo = None \<and> bg' = Idle \<and> s' = release_netlock s2 \<or> (\<exists>i m. mo = Some (i, m) \<and> bg' = Kept env i m \<and> s' = s2))"
      by (auto simp: run_bind_Done_iff split: if_split_asm option.split_asm)
    have v1: "conv_open K j True s1" "shows_file L f ms v [] shown s1" using assms(4,5) keep by (simp_all add: s1)
    from keep_view [OF assms(1) m(1) assms(2) v1 _ _ _ assms(6)] assms(7,8) keep obtain new where
      k: "r \<noteq> 0 \<longrightarrow> mo = None" "conv_open K j True s2" "shows_file L f (ms @ new) (v @ new) (kept_for j mo) shown s2"
        "grown ms new 1 (bg_size e)" "\<forall>m \<in> set new. cm_sender m = 1" by auto
    have "conv_open K j (bg' \<noteq> Gone) s' \<and> shows_file L f (ms @ new) (v @ new) (waiting j bg') shown s'"
      using m(2) k(1) bg_exit_view [OF _ k(2,3)] k(2,3) by (elim disjE conjE exE) simp_all
    with k(4,5) show ?thesis by blast
  next
    case display
    with assms(3) have m: "show_message i m s = Some s'" "bg' = Shown env i" by (auto simp: run_bind_Done_iff)
    from shown_view [OF m(1), of K j L f ms v shown] assms(4,5) display m(2) show ?thesis by (intro idle) simp
  next
    case count
    with assms(3) obtain r s1 where m: "add_new_message L (ce_store env) (ce_notif env) i s = Some (Done (r, s1))"
      "r \<noteq> 0 \<and> bg' = Gone \<and> bg_exit True s1 = Some (Done s') \<or> r = 0 \<and> bg' = Idle \<and> s' = release_netlock s1"
      by (auto simp: run_bind_Done_iff split: if_split_asm)
    from notified_view [OF m(1), of K j f ms v "[]" shown] assms(4,5) count have
      n: "conv_open K j True s1" "shows_file L f ms v [] shown s1" by simp_all
    show ?thesis using m(2) bg_exit_view [OF _ n] n by (intro idle) auto
  qed
qed

lemma bg_run_view:
  assumes "lib_ok L" "own_file K j f"
  shows "bg_run L es bg s = Some (Done (bg', s')) \<Longrightarrow> conv_open K j (bg \<noteq> Gone) s \<Longrightarrow> shows_file L f ms v (waiting j bg) shown s \<Longrightarrow>
    cf_fits ms \<Longrightarrow> \<forall>e \<in> set es. bg_ok e \<Longrightarrow> room ms (length es) (sum_list (map bg_size es)) \<Longrightarrow>
    \<exists>new. conv_open K j (bg' \<noteq> Gone) s' \<and> shows_file L f (ms @ new) (v @ new) (waiting j bg') shown s' \<and>
      grown ms new (length es) (sum_list (map bg_size es)) \<and> (\<forall>m \<in> set new. cm_sender m = 1)"
proof (induction es arbitrary: bg s ms v)
  case Nil
  then show ?case by (intro exI [of _ "[]"]) (simp add: grown_none)
next
  case (Cons e es)
  from Cons.prems(1) obtain bg1 s1 where b: "bg_step L e bg s = Some (Done (bg1, s1))" "bg_run L es bg1 s1 = Some (Done (bg', s'))"
    by (auto simp: run_bind_Done_iff)
  have r: "room ms 1 (bg_size e)" "room ms (1 + length es) (bg_size e + sum_list (map bg_size es))"
    using Cons.prems(6) by (auto elim: room_mono)
  from bg_step_view [OF assms b(1) Cons.prems(2-4) _ r(1)] Cons.prems(5) obtain new where
    n: "conv_open K j (bg1 \<noteq> Gone) s1" "shows_file L f (ms @ new) (v @ new) (waiting j bg1) shown s1" "grown ms new 1 (bg_size e)"
      "\<forall>m \<in> set new. cm_sender m = 1" by auto
  have "cf_fits (ms @ new)" using n(3) by (simp add: grown_def)
  from Cons.IH [OF b(2) n(1,2) this _ grown_room [OF n(3) r(2)]] Cons.prems(5) obtain new2 where
    m: "conv_open K j (bg' \<noteq> Gone) s'" "shows_file L f ((ms @ new) @ new2) ((v @ new) @ new2) (waiting j bg') shown s'"
      "grown (ms @ new) new2 (length es) (sum_list (map bg_size es))" "\<forall>m \<in> set new2. cm_sender m = 1" by auto
  from grown_trans [OF n(3) m(3)] m n(4) show ?case by (intro exI [of _ "new @ new2"]) auto
qed

lemma merge_view:
  assumes "merge_new_messages shown s = Some (Done (shown', s'))" "conv_open K j b s" "shows_file L f ms v q shown s"
  shows "conv_open K j b s' \<and> shows_file L f ms v q shown' s'"
proof -
  have "shown' = shown @ rev (cs_new_messages s) \<and> s' = s\<lparr>cs_new_messages := []\<rparr>"
    using assms(1,2) by (cases s) (auto simp: merge_new_messages_def with_writelock_def unlock_write_def lock_free conv_open_def
        split: if_split_asm)
  with assms(2,3) show ?thesis by (simp add: conv_open_def shows_file_def)
qed

lemma send_server_frame:
  assumes "cmessage_send_server L mem i m s = Some (Done (r, s'))" "i < length (cs_friends s)"
  shows "cs_lock s' = cs_lock s \<and> cs_cfiles s' = cs_cfiles s \<and> cs_cur_conv s' = cs_cur_conv s \<and> cs_mode s' = cs_mode s \<and>
    cs_new_messages s' = cs_new_messages s \<and> map file_keys (cs_friends s') = map file_keys (cs_friends s)"
proof -
  let ?s1 = "put_friend i ((cs_friends s ! i)\<lparr>fr_s_nonce := fr_s_nonce (cs_friends s ! i) + 1\<rparr>) s"
  have k: "map file_keys (cs_friends ?s1) = map file_keys (cs_friends s)"
    using put_friend_keys [OF assms(2)] by simp
  have net: "\<exists>b. s2 = t\<lparr>cs_netlock := b\<rparr>" if "acquire_netlock t = Some (a, s2)" for t a s2
    using that by (cases t) (auto simp: acquire_netlock_def split: if_split_asm option.split_asm)
  have snd: "\<exists>con keys. s2 = t\<lparr>cs_con := con, cs_keys := keys\<rparr>" if "client_send L mem' buf len t = Done (q, s2)" for mem' buf len t q s2
    using that by (auto simp: client_send_def exec_bind_Done_iff)
  from assms(1) consider "s' = s" | "s' = ?s1" | a s2 where "acquire_netlock ?s1 = Some (a, s2)" "s' = s2"
    | a s2 q s3 mem' buf len where "acquire_netlock ?s1 = Some (a, s2)" "client_send L mem' buf len s2 = Done (q, s3)" "s' = release_netlock s3"
    by (auto simp: cmessage_send_server_def Let_def run_bind_Done_iff split: if_split_asm)
  then show ?thesis
  proof cases
    case 3
    with net [OF 3(1)] k show ?thesis by auto
  next
    case 4
    from net [OF 4(1)] snd [OF 4(2)] obtain b con keys where "s3 = ?s1\<lparr>cs_netlock := b, cs_con := con, cs_keys := keys\<rparr>" by auto
    with 4(3) k show ?thesis by (simp add: release_netlock_def)
  qed (use k in simp_all)
qed

lemma sent_view:
  assumes "shows_file L f ms v q shown s" "cm_sender m = 0" "kept m = m"
  shows "shows_file L f (ms @ [m]) (v @ [m]) q (shown @ [m]) (s\<lparr>cs_cfiles := (cs_cfiles s)(fr_c_file f \<mapsto> cfile_image L f (ms @ [m]))\<rparr>)"
proof -
  let ?new = "map kept (rev (cs_new_messages s) @ q)"
  have none: "side 0 ?new = []" using assms(1) by (auto simp: side_def shows_file_def filter_empty_conv)
  have all: "side a (map kept shown) @ side a ?new = side a v" for a
    using assms(1) by (simp add: shows_file_def)
  have one: "side a [m] = (if a = 0 then [m] else [])" for a by (simp add: side_def assms(2))
  have "side a (map kept ((shown @ [m]) @ rev (cs_new_messages s) @ q)) = side a (v @ [m])" for a
  proof -
    have "side a (map kept ((shown @ [m]) @ rev (cs_new_messages s) @ q)) = side a (map kept shown) @ side a [m] @ side a ?new"
      unfolding map_append side_append by (simp add: assms(3))
    also have "\<dots> = side a v @ side a [m]"
      unfolding all [symmetric] one using none by (cases "a = 0") simp_all
    finally show ?thesis unfolding side_append .
  qed
  then show ?thesis using assms(1) unfolding shows_file_def by simp
qed

lemma send_view:
  assumes "lib_ok L" "conv_send L env mid j t bg shown s = Some (Done (r, bg', shown', s'))" "own_file K j f"
    "conv_open K j (bg \<noteq> Gone) s" "shows_file L f ms v (waiting j bg) shown s" "cf_good (ce_check env)" "cf_good (ce_file env)"
    "length t < 2 ^ 40" "cf_fits ms" "\<forall>e \<in> set mid. bg_ok e"
    "room ms (length mid + 1) (sum_list (map bg_size mid) + (0x50 + length t))"
  shows "\<exists>new. conv_open K j (bg' \<noteq> Gone) s' \<and> shows_file L f (ms @ new) (v @ new) (waiting j bg') shown' s' \<and>
    grown ms new (length mid + 1) (sum_list (map bg_size mid) + (0x50 + length t))"
proof -
  let ?m = "\<lparr>cm_sender = 0, cm_text = cstr t\<rparr>"
  from assms(2) obtain r1 s1 where s1: "cmessage_send_server L (ce_send env) j ?m s = Some (Done (r1, s1))"
    "bg' = bg \<and> shown' = shown \<and> s' = s1 \<or> (\<exists>s2 r2. bg_run L mid bg s1 = Some (Done (bg', s2)) \<and>
      cfile_add L (ce_check env) (ce_file env) (cs_friends s2 ! j) ?m s2 = Some (Done (r2, s')) \<and>
      (r2 \<noteq> 0 \<and> shown' = shown \<or> r2 = 0 \<and> shown' = shown @ [?m]))"
    by (auto simp: conv_send_def Let_def split: if_split_asm simp: run_bind_Done_iff)
  have "j < length (cs_friends s)" using assms(3,4) by (auto simp: own_file_def conv_open_def)
  from send_server_frame [OF s1(1) this] have v1: "conv_open K j (bg \<noteq> Gone) s1" "shows_file L f ms v (waiting j bg) shown s1"
    using assms(4,5) by (simp_all add: conv_open_def shows_file_def)
  from s1(2) consider "bg' = bg" "shown' = shown" "s' = s1" | s2 r2 where "bg_run L mid bg s1 = Some (Done (bg', s2))"
      "cfile_add L (ce_check env) (ce_file env) (cs_friends s2 ! j) ?m s2 = Some (Done (r2, s'))"
      "r2 \<noteq> 0 \<and> shown' = shown \<or> r2 = 0 \<and> shown' = shown @ [?m]" by blast
  then show ?thesis
  proof cases
    case 1
    with v1 grown_none [OF assms(9)] show ?thesis by (intro exI [of _ "[]"]) simp
  next
    case 2
    note b = 2(1) and c = 2(2) and d = 2(3)
    have "room ms (length mid) (sum_list (map bg_size mid))" using assms(11) by (rule room_mono) simp_all
    from bg_run_view [OF assms(1,3) b v1 assms(9,10) this] obtain new where
      n: "conv_open K j (bg' \<noteq> Gone) s2" "shows_file L f (ms @ new) (v @ new) (waiting j bg') shown s2"
        "grown ms new (length mid) (sum_list (map bg_size mid))" by blast
    have km: "kept ?m = ?m" by (simp add: kept_def)
    have f2: "cf_fits (ms @ new)" using n(3) by (simp add: grown_def)
    have lt: "length (cm_text ?m) \<le> length t" using length_cstr [of t] by simp
    have "cmessage_ok ?m" using assms(8) lt by (simp add: cmessage_ok_def)
    from room_fits [OF grown_room [OF n(3) assms(11)] f2 this] lt have
      fit: "cf_fits ((ms @ new) @ [?m])" "grown (ms @ new) [?m] 1 (0x50 + length (cm_text ?m))" by auto
    have g: "grown ms (new @ [?m]) (length mid + 1) (sum_list (map bg_size mid) + (0x50 + length t))"
      using grown_mono [OF grown_trans [OF n(3) fit(2)]] lt by simp
    have k: "file_keys (cs_friends s2 ! j) = file_keys f" using n(1) assms(3) by (metis conv_open_def length_map nth_map own_file_def)
    have "cs_lock s2 = 0" "cs_cfiles s2 (fr_c_file f) = Some (cfile_image L f (ms @ new))"
      using n(1,2) by (simp_all add: conv_open_def shows_file_def)
    from cfile_add_open [OF assms(1,6,7) this(1) k this(2), of ?m, unfolded km, OF fit(1)] c d have
      e: "shown' = shown @ [?m]" "s' = s2\<lparr>cs_cfiles := (cs_cfiles s2)(fr_c_file f \<mapsto> cfile_image L f ((ms @ new) @ [?m]))\<rparr>" by auto
    have "conv_open K j (bg' \<noteq> Gone) s'" using n(1) by (simp add: conv_open_def e(2))
    moreover have "shows_file L f ((ms @ new) @ [?m]) ((v @ new) @ [?m]) (waiting j bg') shown' s'"
      unfolding e by (rule sent_view [OF n(2)]) (simp_all add: km)
    ultimately show ?thesis using g by (intro exI [of _ "new @ [?m]"]) simp
  qed
qed

lemma input_view:
  assumes "lib_ok L" "conv_input L env mid j input bg shown s = Some (Done (stop, bg', shown', s'))" "own_file K j f"
    "conv_open K j (bg \<noteq> Gone) s" "shows_file L f ms v (waiting j bg) shown s" "cf_good (ce_check env)" "cf_good (ce_file env)"
    "length (case_option [] id input) < 2 ^ 40" "cf_fits ms" "\<forall>e \<in> set mid. bg_ok e"
    "room ms (length mid + 1) (sum_list (map bg_size mid) + (0x50 + length (case_option [] id input)))"
  shows "\<exists>new. conv_open K j (bg' \<noteq> Gone) s' \<and> shows_file L f (ms @ new) (v @ new) (waiting j bg') shown' s' \<and>
    grown ms new (length mid + 1) (sum_list (map bg_size mid) + (0x50 + length (case_option [] id input)))"
proof -
  consider "bg' = bg" "shown' = shown" "s' = s" | t r where "input = Some t" "conv_send L env mid j t bg shown s = Some (Done (r, bg', shown', s'))"
    using assms(2) by (auto simp: conv_input_def split: option.split_asm if_split_asm simp: run_bind_Done_iff)
  then show ?thesis
  proof cases
    case 1
    with assms(4,5) grown_none [OF assms(9)] show ?thesis by (intro exI [of _ "[]"]) simp
  next
    case 2
    from send_view [OF assms(1) 2(2) assms(3-7) _ assms(9,10)] 2(1) assms(8,11) show ?thesis by simp
  qed
qed

text \<open>The events of a conversation in which the conversation file can be opened and written.\<close>

fun ev_size :: "conv_event \<Rightarrow> nat" where
  "ev_size (Bg e) = bg_size e"
| "ev_size (Typed env input mid post) = sum_list (map bg_size (mid @ post)) + (0x50 + length (case_option [] id input))"
| "ev_size Quiet = 0"

fun ev_count :: "conv_event \<Rightarrow> nat" where
  "ev_count (Bg e) = 1"
| "ev_count (Typed env input mid post) = length mid + 1 + length post"
| "ev_count Quiet = 0"

fun ev_ok :: "conv_event \<Rightarrow> bool" where
  "ev_ok (Bg e) = bg_ok e"
| "ev_ok (Typed env input mid post) = (cf_good (ce_check env) \<and> cf_good (ce_file env) \<and> length (case_option [] id input) < 2 ^ 40 \<and>
     (\<forall>e \<in> set (mid @ post). bg_ok e))"
| "ev_ok Quiet = True"

lemma set_mode_view:
  assumes "set_mode md s = Some (Done s')" "shows_file L f ms v q shown s"
  shows "shows_file L f ms v q shown s'"
proof -
  have "\<exists>us. s' = s\<lparr>cs_mode := md, cs_lock := us\<rparr>"
    using assms(1) by (cases s) (auto simp: set_mode_def with_writelock_def unlock_write_def set_mode_no_lock_def split: option.split_asm)
  with assms(2) show ?thesis by (auto simp: shows_file_def)
qed

lemma conv_input_shown: "conv_input L env mid i input bg shown s = Some (Done (stop, bg', shown', s')) \<Longrightarrow> \<exists>more. shown' = shown @ more"
  by (auto simp: conv_input_def conv_send_def Let_def run_bind_Done_iff split: option.split_asm if_split_asm)

lemma merge_shown: "merge_new_messages shown s = Some (Done (shown', s')) \<Longrightarrow> \<exists>more. shown' = shown @ more"
  by (auto simp: merge_new_messages_def with_writelock_def exec_bind_Done_iff split: option.split_asm if_split_asm)

text \<open>One event: the loop goes on from a state in which the file has a little more in it, or it ends in one.\<close>

definition conv_after :: "ibc \<Rightarrow> (bytes \<times> bytes \<times> bytes) list \<Rightarrow> nat \<Rightarrow> friend \<Rightarrow> cmessage list \<Rightarrow> cmessage list \<Rightarrow> conv_event \<Rightarrow> bool \<Rightarrow>
    bg_state \<Rightarrow> cmessage list \<Rightarrow> cmessage list \<Rightarrow> client_state \<Rightarrow> bool" where
  "conv_after L K j f ms v e open bg shown0 shown s \<longleftrightarrow>
     (\<exists>new. shows_file L f (ms @ new) (v @ new) (waiting j bg) shown s \<and> grown ms new (ev_count e) (ev_size e)) \<and>
     (open \<longrightarrow> conv_open K j (bg \<noteq> Gone) s) \<and> (\<exists>more. shown = shown0 @ more)"

lemma typed_after:
  assumes "lib_ok L" "own_file K j f" "conv_open K j (bg \<noteq> Gone) s" "shows_file L f ms v (waiting j bg) shown s" "cf_fits ms"
    "e = Typed env input mid post" "ev_ok e" "room ms (ev_count e) (ev_size e)"
    "conv_loop L j (e # es) bg shown s = Some (Done (ret, bg', shown', s'))"
  shows "conv_after L K j f ms v e False bg' shown shown' s' \<or>
    (\<exists>bg1 shown1 s1. conv_loop L j es bg1 shown1 s1 = Some (Done (ret, bg', shown', s')) \<and> conv_after L K j f ms v e True bg1 shown shown1 s1)"
proof -
  let ?n = "sum_list (map bg_size mid) + (0x50 + length (case_option [] id input))"
  from assms(9) obtain stop bg1 shown1 s1 bg2 s2 where s1: "conv_input L env mid j input bg shown s = Some (Done (stop, bg1, shown1, s1))"
    and s2: "bg_run L post bg1 s1 = Some (Done (bg2, s2))"
    and rest: "(case stop of Some r \<Rightarrow> run_bind (set_mode 0 s2) (\<lambda>s3. Some (Done (Some r, bg2, shown1, s3)))
      | None \<Rightarrow> run_bind (merge_new_messages shown1 s2) (\<lambda>(shown2, s3). conv_loop L j es bg2 shown2 s3)) =
      Some (Done (ret, bg', shown', s'))"
    by (auto simp only: assms(6) conv_loop.simps run_bind_Done_iff prod.case)
  have r: "room ms (length mid + 1) ?n" "room ms (length mid + 1 + length post) (?n + sum_list (map bg_size post))"
    using assms(8) unfolding assms(6) by (auto elim: room_mono)
  from input_view [OF assms(1) s1 assms(2-4) _ _ _ assms(5) _ r(1)] assms(7) obtain new where
    n: "conv_open K j (bg1 \<noteq> Gone) s1" "shows_file L f (ms @ new) (v @ new) (waiting j bg1) shown1 s1" "grown ms new (length mid + 1) ?n"
    by (auto simp: assms(6))
  have "cf_fits (ms @ new)" using n(3) by (simp add: grown_def)
  from bg_run_view [OF assms(1,2) s2 n(1,2) this _ grown_room [OF n(3) r(2)]] assms(7) obtain new2 where
    m: "conv_open K j (bg2 \<noteq> Gone) s2" "shows_file L f ((ms @ new) @ new2) ((v @ new) @ new2) (waiting j bg2) shown1 s2"
      "grown (ms @ new) new2 (length post) (sum_list (map bg_size post))" by (auto simp: assms(6))
  let ?all = "new @ new2"
  have g: "grown ms ?all (ev_count e) (ev_size e)" using grown_trans [OF n(3) m(3)] by (simp add: assms(6) add.commute add.left_commute)
  obtain more where more: "shown1 = shown @ more" using conv_input_shown [OF s1] by blast
  show ?thesis
  proof (cases stop)
    case None
    with rest obtain shown2 s3 where w: "merge_new_messages shown1 s2 = Some (Done (shown2, s3))"
      "conv_loop L j es bg2 shown2 s3 = Some (Done (ret, bg', shown', s'))" by (auto simp: run_bind_Done_iff)
    obtain more2 where "shown2 = shown1 @ more2" using merge_shown [OF w(1)] by blast
    then have "conv_after L K j f ms v e True bg2 shown shown2 s3"
      unfolding conv_after_def using merge_view [OF w(1) m(1,2)] g more
      by (intro conjI exI [of _ ?all] exI [of _ "more @ more2"]) simp_all
    with w(2) show ?thesis by blast
  next
    case (Some r)
    with rest obtain s3 where "set_mode 0 s2 = Some (Done s3)" "shown' = shown1" "s' = s3" "bg' = bg2" by (auto simp: run_bind_Done_iff)
    then have "conv_after L K j f ms v e False bg' shown shown' s'"
      unfolding conv_after_def using set_mode_view [of 0 s2 s3, OF _ m(2)] g more
      by (intro conjI exI [of _ ?all] exI [of _ more]) simp_all
    then show ?thesis by blast
  qed
qed

lemma quiet_after:
  assumes "conv_open K j (bg \<noteq> Gone) s" "shows_file L f ms v (waiting j bg) shown s" "cf_fits ms"
    "conv_loop L j (Quiet # es) bg shown s = Some (Done (ret, bg', shown', s'))"
  shows "\<exists>shown1 s1. conv_loop L j es bg shown1 s1 = Some (Done (ret, bg', shown', s')) \<and>
    conv_after L K j f ms v Quiet True bg shown shown1 s1"
proof -
  from assms(4) obtain shown2 s2 where m: "merge_new_messages shown s = Some (Done (shown2, s2))"
    "conv_loop L j es bg shown2 s2 = Some (Done (ret, bg', shown', s'))" by (auto simp: run_bind_Done_iff)
  obtain more where "shown2 = shown @ more" using merge_shown [OF m(1)] by blast
  with merge_view [OF m(1) assms(1,2)] grown_none [OF assms(3)] have "conv_after L K j f ms v Quiet True bg shown shown2 s2"
    unfolding conv_after_def by (intro conjI exI [of _ "[]"] exI [of _ more]) simp_all
  with m(2) show ?thesis by blast
qed

lemma bg_after:
  assumes "lib_ok L" "own_file K j f" "conv_open K j (bg \<noteq> Gone) s" "shows_file L f ms v (waiting j bg) shown s" "cf_fits ms"
    "ev_ok (Bg e)" "room ms (ev_count (Bg e)) (ev_size (Bg e))"
    "conv_loop L j (Bg e # es) bg shown s = Some (Done (ret, bg', shown', s'))"
  shows "\<exists>bg1 s1. conv_loop L j es bg1 shown s1 = Some (Done (ret, bg', shown', s')) \<and>
    conv_after L K j f ms v (Bg e) True bg1 shown shown s1"
proof -
  from assms(8) obtain bg1 s1 where b: "bg_step L e bg s = Some (Done (bg1, s1))"
    "conv_loop L j es bg1 shown s1 = Some (Done (ret, bg', shown', s'))" by (auto simp: run_bind_Done_iff)
  from bg_step_view [OF assms(1,2) b(1) assms(3-5)] assms(6,7) have
    "conv_after L K j f ms v (Bg e) True bg1 shown shown s1" by (auto simp: conv_after_def)
  with b(2) show ?thesis by blast
qed

lemma conv_loop_view:
  assumes "lib_ok L" "own_file K j f"
  shows "conv_loop L j es bg shown s = Some (Done (ret, bg', shown', s')) \<Longrightarrow> conv_open K j (bg \<noteq> Gone) s \<Longrightarrow>
    shows_file L f ms v (waiting j bg) shown s \<Longrightarrow> cf_fits ms \<Longrightarrow> \<forall>e \<in> set es. ev_ok e \<Longrightarrow>
    room ms (sum_list (map ev_count es)) (sum_list (map ev_size es)) \<Longrightarrow>
    (\<exists>new. shows_file L f (ms @ new) (v @ new) (waiting j bg') shown' s') \<and> (\<exists>more. shown' = shown @ more)"
proof (induction es arbitrary: bg shown s ms v)
  case Nil
  then show ?case by (auto intro: exI [of _ "[]"])
next
  case (Cons e es)
  have room: "ev_ok e" "room ms (ev_count e) (ev_size e)"
    "room ms (ev_count e + sum_list (map ev_count es)) (ev_size e + sum_list (map ev_size es))"
    using Cons.prems(5,6) by (auto elim: room_mono)
  have "conv_after L K j f ms v e False bg' shown shown' s' \<or>
    (\<exists>bg1 shown1 s1. conv_loop L j es bg1 shown1 s1 = Some (Done (ret, bg', shown', s')) \<and>
      conv_after L K j f ms v e True bg1 shown shown1 s1)"
  proof (cases e)
    case (Bg b)
    from bg_after [OF assms Cons.prems(2-4) room(1,2) [unfolded Bg] Cons.prems(1) [unfolded Bg]] Bg
    show ?thesis by blast
  next
    case (Typed env input mid post)
    from typed_after [OF assms Cons.prems(2-4) Typed room(1,2) Cons.prems(1)] show ?thesis .
  next
    case Quiet
    from quiet_after [OF Cons.prems(2-4) Cons.prems(1) [unfolded Quiet]] Quiet show ?thesis by auto
  qed
  then show ?case
  proof (elim disjE exE conjE)
    assume "conv_after L K j f ms v e False bg' shown shown' s'"
    then show ?case unfolding conv_after_def by blast
  next
    fix bg1 shown1 s1
    assume l: "conv_loop L j es bg1 shown1 s1 = Some (Done (ret, bg', shown', s'))"
      and a: "conv_after L K j f ms v e True bg1 shown shown1 s1"
    from a obtain new more where n: "shows_file L f (ms @ new) (v @ new) (waiting j bg1) shown1 s1" "grown ms new (ev_count e) (ev_size e)"
      and o: "conv_open K j (bg1 \<noteq> Gone) s1" "shown1 = shown @ more"
      unfolding conv_after_def by blast
    have "cf_fits (ms @ new)" using n(2) by (simp add: grown_def)
    from Cons.IH [OF l o(1) n(1) this _ grown_room [OF n(2) room(3)]] Cons.prems(5) o(2) show ?case by fastforce
  qed
qed

lemma parse_lock:
  assumes "parse_conv_message L env sender payload plen s = Some (Done (r, s'))" "cs_lock s = 0"
  shows "cs_lock s' = 0"
proof (cases "friend_index (cs_friends s) sender")
  case (Some i)
  have shown: "cs_lock s3 = cs_lock s2" if "show_message i m s2 = Some s3" for m s2 s3
    using that by (auto simp: show_message_def split: option.split_asm)
  have add: "cs_lock s2 = 0" if "cfile_add L cenv fenv g m s1 = Some (Done (r1, s2))" "cs_lock s1 = 0" for cenv fenv g m r1 s1 s2
    using cfile_add_frame [OF that] that(2) by auto
  have count: "cs_lock s4 = 0" if "add_new_message L e mem i s3 = Some (Done (r2, s4))" "cs_lock s3 = 0" for e mem s3 r2 s4
    using add_new_message_frame [OF that] that(2) by auto
  from assms Some show ?thesis
    by (auto simp: parse_conv_message_def Let_def run_bind_Done_iff split: option.split_asm if_split_asm)
      (metis add count shown put_friend_rest(1))+
qed (use assms in \<open>simp add: parse_conv_message_def\<close>)

text \<open>The conversation is opened, and its file loaded.\<close>

lemma conversation_opened:
  "cs_lock s = 0 \<Longrightarrow> with_writelock (\<lambda>s1. unlock_write (set_mode_no_lock 1 (s1\<lparr>cs_cur_conv := Some j, cs_new_messages := []\<rparr>))) s =
    Some (Done (s\<lparr>cs_cur_conv := Some j, cs_new_messages := [], cs_mode := 1\<rparr>))"
  by (cases s) (simp add: with_writelock_def unlock_write_def lock_free set_mode_no_lock_def)

lemma file_loaded:
  assumes "lib_ok L" "\<forall>i k n. mem i k n" "cf_good cenv" "cf_path lenv" "cf_open lenv" "cf_fits ms" "cs_lock s = 0"
    "file_keys g = file_keys f" "cs_cfiles s (fr_c_file f) = Some (cfile_image L f ms)"
  shows "cfile_check L cenv g s = Done 0 \<and> cfile_load L lenv mem g s = Some (Done (0, ms))"
proof -
  have c: "fr_c_file g = fr_c_file f" using assms(8) by (simp add: file_keys_def)
  have file1: "cs_cfiles s (fr_c_file g) = Some (cfile_image L g ms)"
    using assms(9) unfolding c cfile_image_keys [OF assms(8)] .
  have "cfile_load_file L True mem g (Some (cfile_image L g ms)) = Done (0, ms)"
    using cmessage_ok_loadable assms(6) by (subst cfile_load_iff [OF assms(1,2)]) (auto simp: cf_fits_def)
  with file1 assms(3-5,7) show ?thesis
    by (simp add: cfile_check_def cf_good_def cfile_load_def acquire_readlock_def MAX_READERS_def INT_MAX_def)
qed

text \<open>A message that is processed is processed in the three sections.\<close>

lemma bg_message:
  assumes "cs_lock s = 0" "\<not> cs_netlock s" "cs_mode s \<noteq> -1"
    "parse_conv_message L env sender p plen (s\<lparr>cs_netlock := True\<rparr>) = Some (Done (0, s'))"
  shows "bg_run L [Keep env sender p plen, Step, Step] Idle s = Some (Done (Idle, release_netlock s'))"
proof -
  have a: "acquire_netlock s = Some (0, s\<lparr>cs_netlock := True\<rparr>)"
    using assms(1-3) by (simp add: acquire_netlock_def get_mode_free)
  from assms(4) obtain r mo s1 where k: "keep_message L env sender p plen (s\<lparr>cs_netlock := True\<rparr>) = Some (Done (r, mo, s1))"
    unfolding parse_conv_message_sections run_bind_Done_iff by auto
  show ?thesis
  proof (cases mo)
    case None
    with assms(4) k have "r = 0" "s1 = s'" by (simp_all add: parse_conv_message_sections)
    with a k None show ?thesis by simp
  next
    case (Some im)
    obtain i m where im: "im = (i, m)" by (cases im)
    have "r = 0" using k Some
      by (auto simp: keep_message_def Let_def run_bind_Done_iff split: option.split_asm if_split_asm)
    moreover from assms(4) k Some im obtain s2 where "show_message i m s1 = Some s2"
      "add_new_message L (ce_store env) (ce_notif env) i s2 = Some (Done (0, s'))"
      by (auto simp: parse_conv_message_sections run_bind_Done_iff split: if_split_asm)
    ultimately show ?thesis using a k Some im by simp
  qed
qed

lemma conv_loop_bg:
  "conv_loop L i (map Bg es @ rest) b shown s = run_bind (bg_run L es b s) (\<lambda>(b1, s1). conv_loop L i rest b1 shown s1)"
proof (induction es arbitrary: b s)
  case (Cons e es)
  show ?case by (cases "bg_step L e b s" rule: run_bind.cases [of "(x, \<lambda>_. x)" for x]) (auto simp: Cons run_bind_bind split_def)
qed simp

section \<open>Properties\<close>


text \<open>
  A conversation that has no messages yet must be begun by its user: a message that arrives in it before
  the user has sent one is appended to a null \<open>head\<close>.
\<close>
theorem empty_conversation_crashes:
  assumes "lib_ok L" and "conv_env_ok e" and "cs_lock s = 0" and "uids_ok (cs_friends s)"
    and "\<forall>n \<in> set (cs_notifs s). notif_ok (cs_friends s) n" and "length (cs_notifs s) < 1000000" and "fresh_for i (cs_notifs s)"
    and "friend_index (cs_friends s) sender = Some i" and "b = cs_friends s ! i" and "friends_linked a b" and "fr_r_nonce b < n"
    and "0 \<notin> set text" and "cf_fits [\<lparr>cm_sender = 1, cm_text = text\<rparr>]" and "length text < 2 ^ 40"
    and "cs_cfiles s (fr_c_file b) = Some (cfile_image L b [])" and "cs_mode s = 1" and "cs_cur_conv s = Some i"
    and "\<not> cs_netlock s"
  shows "conv_loop L i (map Bg [Keep e sender (conv_seal L a n text) (of_nat (length (conv_seal L a n text))), Step, Step] @ [Quiet])
    Idle [] s = Some UB"
proof -
  let ?s = "s\<lparr>cs_netlock := True\<rparr>"
  have fit: "cf_fits ([] @ [\<lparr>cm_sender = 1, cm_text = text\<rparr>])" using assms(13) by simp
  have l: "cs_lock ?s = 0" "cs_lock s = 0" "cs_mode s \<noteq> -1" using assms(3,16) by simp_all
  have a: "uids_ok (cs_friends ?s)" "\<forall>n \<in> set (cs_notifs ?s). notif_ok (cs_friends ?s) n" "length (cs_notifs ?s) < 1000000"
    "fresh_for i (cs_notifs ?s)" "friend_index (cs_friends ?s) sender = Some i" "b = cs_friends ?s ! i"
    "cs_cfiles ?s (fr_c_file b) = Some (cfile_image L b [])" using assms(4-9,15) by simp_all
  from parse_conv_message_ok [OF assms(1,2) l(1) a(1-6) assms(10-12) fit assms(14) a(7)] assms(16,17) obtain s' where
    p: "parse_conv_message L e sender (conv_seal L a n text) (of_nat (length (conv_seal L a n text))) ?s = Some (Done (0, s'))"
    "cs_new_messages s' = \<lparr>cm_sender = 1, cm_text = text\<rparr> # cs_new_messages s" by auto
  have "cs_lock s' = 0" by (rule parse_lock [OF p(1) l(1)])
  then have "merge_new_messages [] (release_netlock s') = Some UB"
    using p(2) by (simp add: merge_new_messages_def with_writelock_def lock_free release_netlock_def)
  then show ?thesis unfolding conv_loop_bg bg_message [OF l(2) assms(18) l(3) p(1)] by simp
qed

section \<open>Witnesses\<close>

definition demo_talk :: client_state where
  "demo_talk = demo_receiver\<lparr>cs_cfiles := [fr_c_file demo_peer_friend \<mapsto>
     cfile_image demo_lib demo_peer_friend [\<lparr>cm_sender = 0, cm_text = [111]\<rparr>]]\<rparr>"

lemma demo_talk_state:
  "cs_lock demo_talk = 0" "cs_friends demo_talk = [demo_peer_friend]" "cs_notifs demo_talk = []" "\<not> cs_netlock demo_talk"
  "cs_cfiles demo_talk (fr_c_file demo_peer_friend) = Some (cfile_image demo_lib demo_peer_friend [\<lparr>cm_sender = 0, cm_text = [111]\<rparr>])"
  by (simp_all add: demo_talk_def demo_receiver_def demo_user_client_def)

text \<open>The friend of \<open>demo_talk\<close> sends "hi".\<close>

definition demo_hi :: "bg_event list" where
  "demo_hi = [Keep (be_conv demo_bg_env) (fr_uid demo_friend) (conv_seal demo_lib demo_friend 7 [104, 105])
     (of_nat (length (conv_seal demo_lib demo_friend 7 [104, 105]))), Step, Step]"

lemma demo_hi_run:
  obtains s2 where "bg_run demo_lib demo_hi Idle (demo_talk\<lparr>cs_cur_conv := Some 0, cs_new_messages := [], cs_mode := 1\<rparr>) = Some (Done (Idle, s2))"
    "cs_lock s2 = 0" "cs_new_messages s2 = [\<lparr>cm_sender = 1, cm_text = [104, 105]\<rparr>]" "cs_friends s2 = [demo_peer_friend\<lparr>fr_r_nonce := 7\<rparr>]"
    "cs_cfiles s2 (fr_c_file demo_peer_friend) =
      Some (cfile_image demo_lib demo_peer_friend [\<lparr>cm_sender = 0, cm_text = [111]\<rparr>, \<lparr>cm_sender = 1, cm_text = [104, 105]\<rparr>])"
proof -
  let ?p = "conv_seal demo_lib demo_friend 7 [104, 105]" and ?e = "be_conv demo_bg_env"
  let ?m0 = "\<lparr>cm_sender = 0, cm_text = [111]\<rparr> :: cmessage" and ?m1 = "\<lparr>cm_sender = 1, cm_text = [104, 105]\<rparr> :: cmessage"
  let ?s0 = "demo_talk\<lparr>cs_cur_conv := Some 0, cs_new_messages := [], cs_mode := 1\<rparr>"
  let ?s1 = "?s0\<lparr>cs_netlock := True\<rparr>"
  have fit: "cf_fits ([?m0] @ [?m1])" by (simp add: cf_fits_def cmessage_ok_def cf_length_def)
  have u: "uids_ok [demo_peer_friend]" "fr_uid demo_peer_friend = fr_uid demo_friend" "fr_r_nonce demo_peer_friend < 7"
    using demo_uids_ok by (simp_all add: demo_peer_friend_def uids_ok_def demo_friend_def)
  have good: "conv_env_ok ?e" using demo_cf_good demo_wd_ok by (simp add: conv_env_ok_def demo_bg_env_def)
  have a: "cs_lock ?s1 = 0" "uids_ok (cs_friends ?s1)" "\<forall>n \<in> set (cs_notifs ?s1). notif_ok (cs_friends ?s1) n" "length (cs_notifs ?s1) < 1000000"
    "fresh_for 0 (cs_notifs ?s1)" "friend_index (cs_friends ?s1) (fr_uid demo_friend) = Some 0" "demo_peer_friend = cs_friends ?s1 ! 0"
    "0 \<notin> set [104, 105 :: byte]" "length [104, 105 :: byte] < 2 ^ 40"
    "cs_cfiles ?s1 (fr_c_file demo_peer_friend) = Some (cfile_image demo_lib demo_peer_friend [?m0])"
    using demo_talk_state u by (simp_all add: fresh_for_def)
  from parse_conv_message_ok [OF demo_lib_ok good a(1-7) demo_friends_linked u(3) a(8) fit a(9,10)] obtain s2 where
    p: "parse_conv_message demo_lib ?e (fr_uid demo_friend) ?p (of_nat (length ?p)) ?s1 = Some (Done (0, s2))"
    "cs_new_messages s2 = [?m1]" "cs_friends s2 = [demo_peer_friend\<lparr>fr_r_nonce := 7\<rparr>]"
    "cs_cfiles s2 (fr_c_file demo_peer_friend) = Some (cfile_image demo_lib demo_peer_friend [?m0, ?m1])"
    using demo_talk_state(2) by auto
  have "cs_lock s2 = 0" by (rule parse_lock [OF p(1) a(1)])
  moreover have "bg_run demo_lib demo_hi Idle ?s0 = Some (Done (Idle, release_netlock s2))"
    unfolding demo_hi_def by (rule bg_message [OF _ _ _ p(1)]) (simp_all add: demo_talk_state)
  ultimately show thesis using p(2-4) by (intro that [of "release_netlock s2"]) (simp_all add: release_netlock_def)
qed


end
