(* ===== verification/Cli.thy ===== *)
theory Cli
  imports ConvLoop LoginServer
begin

text \<open>
  \<open>client/cli.c\<close> with the dialogues it starts, \<open>select_conversation\<close> of \<open>client/conversation.c\<close>,
  \<open>view_notifs\<close> of \<open>client/notifications.c\<close> and \<open>send_friendreq\<close> of \<open>client/friendreq.c\<close>: the start of a session, the
  menu, and its end. A result \<open>None\<close> is a thread that waits for a lock that nobody releases.
\<close>

section \<open>The code: the account\<close>

text \<open>
  What \<open>select_profile\<close> meets: the login, the making of an account, the rewriting of the user file, and
  the reading of the two files of the account, of which the disk holds \<open>disk\<close>.
\<close>

record profile_env =
  pe_login :: login_env
  pe_create :: create_env
  pe_path :: bool
  pe_store :: wd_env
  pe_rand :: "bytes option"
  pe_ff :: "bool \<times> heap_oracle \<times> (nat \<Rightarrow> heap_oracle)"
  pe_nf :: "bool \<times> heap_oracle \<times> (nat \<Rightarrow> heap_oracle)"

text \<open>
  \<open>select_profile\<close>: the result, the profile, and, on success, the account with its friends and
  notifications; the connection. \<open>*acc\<close> points into the profile's list, so what the login changes in it is changed there.
\<close>

definition select_profile :: "ibc \<Rightarrow> (u64 \<Rightarrow> nat) \<Rightarrow> profile_env \<Rightarrow> bool \<Rightarrow> profile \<Rightarrow> (bytes \<rightharpoonup> bytes) \<Rightarrow> server_connection \<Rightarrow>
    bytes list \<Rightarrow> (int \<times> profile \<times> (account \<times> friend list \<times> notif list) option \<times> server_connection) exec" where
  "select_profile L usable env dirty prof disk sc lines = (case pick_account (pr_accounts prof) lines of (ret, idx, rest) \<Rightarrow>
     if ret < 0 then Done (1, prof, None, sc)
     else if ret = 1 then Done (1, prof, None, sc)
     else if ret = 0x55 then
       exec_bind (create_account L usable (pe_login env) (pe_create env) sc rest) (\<lambda>(r, acc, sc1, _, _). case acc of
         None \<Rightarrow> Done (1, prof, None, sc1)
       | Some a \<Rightarrow> exec_bind (add_account L (pe_path env) (pe_store env) (pe_rand env) prof a) (\<lambda>(r1, prof1, _).
           Done (if r1 \<noteq> 0 then (1, prof1, None, sc1) else (0, prof1, Some (a, [], []), sc1))))
     else (case idx of None \<Rightarrow> UB | Some i \<Rightarrow>
       exec_bind (login_account L (pe_login env) (pr_accounts prof ! i) sc dirty rest) (\<lambda>(r, a, sc1, dirty1, _).
         let prof1 = prof\<lparr>pr_accounts := (pr_accounts prof)[i := a]\<rparr> in
         if r \<noteq> 0 then Done (1, prof1, None, sc1)
         else exec_bind (check_userfile L dirty1 (pe_path env) (pe_store env) (pe_rand env) prof1) (\<lambda>(c, prof2, _).
           if c \<noteq> 0 then Done (1, prof2, None, sc1)
           else (case (pe_ff env, pe_nf env) of ((fpath, fmem, fimem), (npath, nmem, nimem)) \<Rightarrow>
             exec_bind (read_friendfile L usable fpath fmem fimem a (disk (ac_f_file a))) (\<lambda>(r1, fs).
               if r1 \<noteq> 0 then Done (1, prof2, None, sc1)
               else (case fs of None \<Rightarrow> UB | Some fs \<Rightarrow>
                 exec_bind (read_notiffile L npath nmem nimem a fs (disk (ac_n_file a))) (\<lambda>(r2, ns).
                   if r2 \<noteq> 0 then Done (1, prof2, None, sc1)
                   else (case ns of None \<Rightarrow> UB | Some ns \<Rightarrow> Done (0, prof2, Some (a, fs, ns), sc1))))))))))"

section \<open>The code: the dialogues\<close>

text \<open>
  What one turn of the menu meets: what the background thread receives before it, the lines typed,
  the names typed, the events while a conversation is opened and in it, the files, and what the background thread
  receives while \<open>send_friendreq\<close> waits.
\<close>

record turn_env =
  tn_bg :: "(bytes option \<times> int) list"
  tn_bgenv :: "nat \<Rightarrow> bg_env"
  tn_lines :: "bytes list"
  tn_names :: "bytes list"
  tn_window :: "bg_event list"
  tn_events :: "conv_event list"
  tn_check :: cf_env
  tn_load :: cf_env
  tn_mem :: "nat \<Rightarrow> heap_oracle"
  tn_store :: store_env
  tn_fp :: fp_env
  tn_fq :: fq_env
  tn_rand :: "bytes option"
  tn_req :: heap_oracle
  tn_wait :: "(bytes option \<times> int) list"

text \<open>The result (\<open>None\<close>: still in a conversation), the background thread, the state, the lines left.\<close>

type_synonym turn_result = "int option \<times> bool \<times> client_state \<times> bytes list"

text \<open>A conversation; a message the background thread is still in when it ends is finished before the menu goes on.\<close>

definition open_conversation :: "ibc \<Rightarrow> turn_env \<Rightarrow> nat \<Rightarrow> bool \<Rightarrow> client_state \<Rightarrow> bytes list \<Rightarrow> turn_result run" where
  "open_conversation L env i bg s lines =
     run_bind (start_conversation L (tn_check env) (tn_load env) (tn_mem env) i (tn_window env) (tn_events env)
         (if bg then Idle else Gone) s) (\<lambda>(r, b, _, s1).
       run_bind (bg_run L [Step, Step] b s1) (\<lambda>(b1, s2). Some (Done (r, b1 \<noteq> Gone, s2, lines))))"

text \<open>
  \<open>select_conversation\<close>: two of its ways out keep the lock, and a prompt that failed is \<open>-1\<close> as an \<open>int\<close>.
\<close>

definition select_conversation :: "ibc \<Rightarrow> turn_env \<Rightarrow> bool \<Rightarrow> client_state \<Rightarrow> bytes list \<Rightarrow> turn_result run" where
  "select_conversation L env bg s lines = (case acquire_readlock (cs_lock s) of
     None \<Rightarrow> None
   | Some us \<Rightarrow>
       let s1 = s\<lparr>cs_lock := us\<rparr>; fnum = length (cs_friends s) in
       if fnum = 0 then Some (Done (Some 0, bg, s1, lines))
       else (case num_prompt 0 (of_nat fnum) lines of (v, rest) \<Rightarrow>
         let sel = sint (ucast v :: u32) in
         if sel = 0 then Some (Done (Some 0, bg, s1, rest))
         else if sel > int fnum then Some (Done (Some 1, bg, s1, rest))
         else (case release_readlock us of
           None \<Rightarrow> Some UB
         | Some us1 \<Rightarrow> open_conversation L env (nat (sel - 1)) bg (s1\<lparr>cs_lock := us1\<rparr>) rest)))"

text \<open>\<open>notif_selected\<close> is called with the lock held for writing; a failed write keeps it held.\<close>

definition notif_selected :: "ibc \<Rightarrow> (u64 \<Rightarrow> nat) \<Rightarrow> turn_env \<Rightarrow> nat \<Rightarrow> bool \<Rightarrow> client_state \<Rightarrow> bytes list \<Rightarrow> turn_result run" where
  "notif_selected L usable env i bg s lines =
     (let n = cs_notifs s ! i; s1 = s\<lparr>cs_notifs := take i (cs_notifs s) @ drop (Suc i) (cs_notifs s)\<rparr> in
      run_bind (Some (store_notifs L (tn_store env) s1)) (\<lambda>(r, s2).
        if r \<noteq> 0 then Some (Done (Some 1, bg, s2, lines))
        else run_bind (Some (unlock_write s2)) (\<lambda>s3. case n of
          NMessage f _ \<Rightarrow> open_conversation L env f bg s3 lines
        | NAccepted f \<Rightarrow> open_conversation L env f bg s3 lines
        | NRequest freq \<Rightarrow> (case yn_prompt lines of (ans, rest) \<Rightarrow>
            run_bind (friendreq_response L usable (tn_fp env) (tn_fq env) (tn_rand env) ans freq s3) (\<lambda>(r1, s4).
              Some (Done (Some r1, bg, s4, rest))))
        | NOther _ \<Rightarrow> Some (Done (Some 0, bg, s3, lines)))))"

definition view_notifs :: "ibc \<Rightarrow> (u64 \<Rightarrow> nat) \<Rightarrow> turn_env \<Rightarrow> bool \<Rightarrow> client_state \<Rightarrow> bytes list \<Rightarrow> turn_result run" where
  "view_notifs L usable env bg s lines = (case acquire_writelock (cs_lock s) of
     None \<Rightarrow> None
   | Some us \<Rightarrow>
       let s1 = s\<lparr>cs_lock := us\<rparr> in
       (case num_prompt 0 (of_nat (length (cs_notifs s))) lines of (v, rest) \<Rightarrow>
         let sel = sint (ucast v :: u32) in
         if sel = -1 then run_bind (Some (unlock_write s1)) (\<lambda>s2. Some (Done (Some (-1), bg, s2, rest)))
         else if sel > 0 then notif_selected L usable env (nat (sel - 1)) bg s1 rest
         else run_bind (Some (store_notifs L (tn_store env) (s1\<lparr>cs_notifs := []\<rparr>))) (\<lambda>(r, s2).
           run_bind (Some (unlock_write s2)) (\<lambda>s3. Some (Done (Some r, bg, s3, rest))))))"

text \<open>The background thread on what it receives, if it is still there.\<close>

definition bg_turn :: "ibc \<Rightarrow> (u64 \<Rightarrow> nat) \<Rightarrow> (nat \<Rightarrow> bg_env) \<Rightarrow> (bytes option \<times> int) list \<Rightarrow> bool \<Rightarrow> client_state \<Rightarrow>
    (bool \<times> client_state) run" where
  "bg_turn L usable env ms bg s = (if \<not> bg then Some (Done (False, s)) else bg_loop L usable env ms s)"

text \<open>\<open>send_friendreq\<close>; the wait is not over as long as neither an answer nor the end of the client has come.\<close>

definition send_friendreq :: "ibc \<Rightarrow> (u64 \<Rightarrow> nat) \<Rightarrow> turn_env \<Rightarrow> bool \<Rightarrow> client_state \<Rightarrow> bytes list \<Rightarrow> turn_result run" where
  "send_friendreq L usable env bg s lines =
     run_bind (Some (getusername (tn_names env))) (\<lambda>uname.
     run_bind (send_friendreq_start L (tn_req env) uname s) (\<lambda>(r, s1).
       if r \<noteq> 0 then Some (Done (Some r, bg, s1, lines))
       else run_bind (bg_turn L usable (tn_bgenv env) (tn_wait env) bg s1) (\<lambda>(bg1, s2).
         if \<not> pkey_wait_over s2 then None
         else (case yn_prompt lines of (ans, rest) \<Rightarrow>
           run_bind (send_friendreq_finish L (tn_fq env) (case uname of None \<Rightarrow> [] | Some u \<Rightarrow> u) ans (s2\<lparr>cs_bglock := True\<rparr>))
             (\<lambda>(r1, s3). Some (Done (Some r1, bg1, s3, rest)))))))"

section \<open>The code: the menu\<close>

text \<open>The selection; \<open>-2\<close> (\<open>ULLONG_MAX - 1\<close>) is an invalid line.\<close>

function menu_select :: "bytes list \<Rightarrow> u64 \<times> bytes list" where
  "menu_select lines = (case num_prompt_no_retry 0 3 lines of (sel, rest) \<Rightarrow>
     if sel = -2 then menu_select rest else (sel, rest))"
  by pat_completeness auto

termination
  by (relation "measure length") (auto simp: num_prompt_no_retry_def line_prompt_plain split: list.split_asm option.split_asm if_split_asm)

text \<open>\<open>handler_select\<close>: whether it has returned, the background thread, the state.\<close>

definition handler_select :: "ibc \<Rightarrow> (u64 \<Rightarrow> nat) \<Rightarrow> turn_env \<Rightarrow> bool \<Rightarrow> client_state \<Rightarrow> (bool \<times> bool \<times> client_state) run" where
  "handler_select L usable env bg s =
     run_bind (map_option Done (get_mode s)) (\<lambda>md.
     run_bind (if md = 0xff then set_mode 0 s else Some (Done s)) (\<lambda>s1.
     run_bind (map_option Done (notiflist_len s1)) (\<lambda>_.
     run_bind (map_option Done (get_mode s1)) (\<lambda>md1.
       if md1 \<noteq> 0 then Some (Done (True, bg, s1))
       else (case menu_select (tn_lines env) of (sel, rest) \<Rightarrow>
         if sel = -1 then Some (Done (True, bg, s1))
         else if sel = 0 then Some (Done (True, bg, s1\<lparr>cs_stop := True\<rparr>))
         else run_bind (if sel = 1 then select_conversation L env bg s1 rest
             else if sel = 2 then view_notifs L usable env bg s1 rest
             else send_friendreq L usable env bg s1 rest) (\<lambda>(ret, bg1, s2, _).
           Some (Done (case ret of None \<Rightarrow> (False, bg1, s2)
             | Some r \<Rightarrow> (True, bg1, if r \<noteq> 0 then s2\<lparr>cs_stop := True\<rparr> else s2)))))))))"

text \<open>
  The loop of \<open>handle_user\<close>: the result is \<open>None\<close> while it runs. The flag is the background thread.
\<close>

fun handle_user :: "ibc \<Rightarrow> (u64 \<Rightarrow> nat) \<Rightarrow> turn_env list \<Rightarrow> bool \<Rightarrow> client_state \<Rightarrow> (int option \<times> bool \<times> client_state) run" where
  "handle_user L usable [] bg s = Some (Done (None, bg, s))"
| "handle_user L usable (env # envs) bg s =
     run_bind (bg_turn L usable (tn_bgenv env) (tn_bg env) bg s) (\<lambda>(bg1, s1).
       if handler_status (cs_con s1) = 0 \<and> \<not> cs_stop s1
       then run_bind (handler_select L usable env bg1 s1) (\<lambda>(returned, bg2, s2).
         if returned then handle_user L usable envs bg2 s2 else Some (Done (None, bg2, s2)))
       else run_bind (set_mode (-1) s1) (\<lambda>s2. Some (Done (Some 0, bg1, s2))))"

text \<open>\<open>handler_init\<close>: the fingerprint that is shown, and the state with which the menu starts.\<close>

definition handler_init :: "ibc \<Rightarrow> (u64 \<Rightarrow> bool) \<Rightarrow> bool \<Rightarrow> client_state \<Rightarrow> (int \<times> bytes option \<times> client_state) exec" where
  "handler_init L mem thread s =
     (let s1 = s\<lparr>cs_stop := False, cs_mode := 0\<rparr> in
      exec_bind (read_at (ac_key_bin (cs_acc s)) 0 8) (\<lambda>kb.
        if \<not> mem (rsa_pubkey_bufsize L (decbe64 L kb)) then Done (1, None, s1)
        else case rsa_wire_prikey2pubkey L (ac_key_bin (cs_acc s)) of
          None \<Rightarrow> Done (1, None, s1)
        | Some w \<Rightarrow> Done (if thread then 0 else 1, Some (to_hex L (sha256 L w)), s1)))"

section \<open>The menu, line by line\<close>

declare menu_select.simps [simp del]

lemma menu_select_step:
  "menu_select [] = (-1, [])"
  "menu_select (l # ls) = (if choice 0 3 (line_text l) then (of_nat (decimal (line_text l)), ls) else menu_select ls)"
proof -
  show "menu_select [] = (-1, [])"
    by (simp add: menu_select.simps [of "[]"] num_prompt_no_retry_def line_prompt_plain)
  have "of_nat (decimal (line_text l)) \<noteq> (-2 :: u64)" if "choice 0 3 (line_text l)"
  proof -
    from that have "decimal (line_text l) \<in> {0, 1, 2, 3}" by (auto simp: choice_def)
    then show ?thesis by auto
  qed
  then show "menu_select (l # ls) = (if choice 0 3 (line_text l) then (of_nat (decimal (line_text l)), ls) else menu_select ls)"
    by (simp add: menu_select.simps [of "l # ls"] num_prompt_no_retry_def line_prompt_plain num_answer_decimal)
qed

lemma choice_zero: "choice 0 hi s \<Longrightarrow> decimal s = 0 \<Longrightarrow> num_answer 0 hi s = Some 0"
  by (simp add: num_answer_decimal)

text \<open>A turn that comes as far as the menu.\<close>

lemma handler_select_menu:
  assumes "cs_lock s = 0" "cs_mode s = 0 \<or> cs_mode s = 0xff" "menu_select (tn_lines env) = (sel, rest)"
  shows "handler_select L usable env bg s =
    (let s1 = s\<lparr>cs_mode := 0\<rparr> in
     if sel = -1 then Some (Done (True, bg, s1))
     else if sel = 0 then Some (Done (True, bg, s1\<lparr>cs_stop := True\<rparr>))
     else run_bind (if sel = 1 then select_conversation L env bg s1 rest
         else if sel = 2 then view_notifs L usable env bg s1 rest
         else send_friendreq L usable env bg s1 rest) (\<lambda>(ret, bg1, s2, _).
       Some (Done (case ret of None \<Rightarrow> (False, bg1, s2)
         | Some r \<Rightarrow> (True, bg1, if r \<noteq> 0 then s2\<lparr>cs_stop := True\<rparr> else s2)))))"
proof -
  let ?s1 = "s\<lparr>cs_mode := 0\<rparr>"
  have n: "notiflist_len ?s1 \<noteq> None"
    using assms(1) by (simp add: notiflist_len_def acquire_readlock_def release_readlock_def MAX_READERS_def INT_MAX_def)
  then obtain k where k: "notiflist_len ?s1 = Some k" by blast
  have s1: "run_bind (if cs_mode s = 0xff then set_mode 0 s else Some (Done s)) f = f ?s1" for f :: "client_state \<Rightarrow> (bool \<times> bool \<times> client_state) run"
    using assms(1,2) by (cases s) (auto simp: set_mode_free)
  have g: "get_mode s = Some (cs_mode s)" "get_mode ?s1 = Some 0" using assms(1) by (simp_all add: get_mode_free)
  show ?thesis unfolding handler_select_def g option.map run_bind.simps s1 k assms(3) by (simp add: Let_def)
qed

text \<open>The two ways back from the list of friends keep the lock for reading.\<close>

lemma select_conversation_returns:
  assumes "cs_lock s = 0" "cs_friends s = [] \<or> (\<exists>l ls. lines = l # ls \<and> choice 0 (of_nat (length (cs_friends s))) (line_text l) \<and>
    decimal (line_text l) = 0)"
  obtains rest where "select_conversation L env bg s lines = Some (Done (Some 0, bg, s\<lparr>cs_lock := 1\<rparr>, rest))"
proof -
  have "\<exists>rest. select_conversation L env bg s lines = Some (Done (Some 0, bg, s\<lparr>cs_lock := 1\<rparr>, rest))"
    using assms by (auto simp: select_conversation_def acquire_readlock_def MAX_READERS_def INT_MAX_def Let_def num_prompt_step)
  with that show ?thesis by blast
qed

lemma get_mode_reading: "cs_lock s = 1 \<Longrightarrow> get_mode s = Some (cs_mode s)"
  by (simp add: get_mode_def acquire_readlock_def release_readlock_def MAX_READERS_def INT_MAX_def)

lemma set_mode_blocked: "cs_lock s \<noteq> 0 \<Longrightarrow> set_mode v s = None"
  by (simp add: set_mode_def with_writelock_def acquire_writelock_def)

text \<open>A turn in which the lock is held for reading and the user exits.\<close>

lemma handler_select_exit_reading:
  assumes "cs_lock s = 1" "cs_mode s = 0" "menu_select (tn_lines env) = (0, rest)"
  shows "handler_select L usable env bg s = Some (Done (True, bg, s\<lparr>cs_stop := True\<rparr>))"
proof -
  have n: "notiflist_len s \<noteq> None"
    using assms(1) by (simp add: notiflist_len_def acquire_readlock_def release_readlock_def MAX_READERS_def INT_MAX_def)
  then obtain k where "notiflist_len s = Some k" by blast
  then show ?thesis using assms by (simp add: handler_select_def get_mode_reading)
qed

lemma idle_bg: "bg_turn L usable bgenv [] bg s = Some (Done (bg, s))"
  by (simp add: bg_turn_def)

section \<open>The files of an account\<close>

text \<open>A login that does not make the user file dirty leaves the account as it is.\<close>

lemma login_account_clean:
  assumes "login_account L env acc sc0 dirty lines = Done (0, a, sc, False, rest)"
  shows "a = acc \<and> \<not> dirty"
proof -
  have v: "a' = acc \<or> ver = 1 \<or> ver = -1"
    if "prompt_verify_skey L m acc key False ls = Done (ver, a', ls')" for m key ls ver a' ls'
    using that by (auto simp: prompt_verify_skey_def Let_def split: if_split_asm option.split_asm prod.split_asm)
  from assms obtain k sc1 where k: "rsa_wire2prikey L (ac_key_bin acc) = Some k" "connect_server L env sc0 = Done (0, sc1)"
    by (auto simp: login_account_def exec_bind_Done_iff split: option.split_asm if_split_asm)
  from assms k obtain ver a' ls' where p: "prompt_verify_skey L (lg_fing env) acc (sc_server_key sc1) False lines = Done (ver, a', ls')"
    by (auto simp: login_account_def exec_bind_Done_iff)
  with assms k have "ver \<noteq> -1"
    by (auto simp: login_account_def)
  moreover from this assms k p have "a = a' \<and> \<not> (dirty \<or> ver = 1)"
    by (auto simp: login_account_def exec_bind_Done_iff Let_def split: if_split_asm prod.split_asm)
  ultimately show ?thesis using v [OF p] by blast
qed

lemma stored_session_selected:
  assumes "lib_ok L" and "acc = pr_accounts prof ! i" and "pick_account (pr_accounts prof) lines = (0, Some i, rest)"
    and "login_account L (pe_login env) acc sc dirty rest = Done (0, a, sc1, False, rest1)"
    and "\<forall>f \<in> set fs. friend_ok L f \<and> slack_ok usable f" and "length fs < 2 ^ 20"
    and "uids_ok fs" and "\<forall>n \<in> set ns. notif_ok fs n" and "length ns < 2 ^ 20" and "wd_ok wd"
    and "pe_ff env = (True, fm, fi)" and "\<forall>k n. fm k n" and "\<forall>i k n. fi i k n"
    and "pe_nf env = (True, nm, ni)" and "\<forall>k n. nm k n" and "\<forall>i k n. ni i k n"
  shows "\<exists>ff nf. write_friendfile L usable True wd acc fs = Done (0, Some ff) \<and>
    write_notiffile L True wd acc fs ns = Done (0, Some nf) \<and>
    (\<forall>disk. disk (ac_f_file acc) = Some ff \<and> disk (ac_n_file acc) = Some nf \<longrightarrow>
      select_profile L usable env dirty prof disk sc lines = Done (0, prof, Some (acc, fs, ns), sc1))"
proof -
  from login_account_clean [OF assms(4)] have a: "a = acc" by simp
  have u: "prof\<lparr>pr_accounts := (pr_accounts prof)[i := acc]\<rparr> = prof" by (cases prof) (simp add: assms(2))
  have same: "ff_same acc acc" "nf_same acc acc" by (simp_all add: ff_same_def nf_same_def)
  from stored_friends_read [OF assms(1,5,6,10) same(1) assms(12,13)] obtain ff where
    ff: "write_friendfile L usable True wd acc fs = Done (0, Some ff)" "read_friendfile L usable True fm fi acc (Some ff) = Done (0, Some fs)" by blast
  from stored_notifs_read [OF assms(1,7,8,9,10) same(2) assms(15,16)] obtain nf where
    nf: "write_notiffile L True wd acc fs ns = Done (0, Some nf)" "read_notiffile L True nm ni acc fs (Some nf) = Done (0, Some ns)" by blast
  have "select_profile L usable env dirty prof disk sc lines = Done (0, prof, Some (acc, fs, ns), sc1)"
    if "disk (ac_f_file acc) = Some ff" "disk (ac_n_file acc) = Some nf" for disk
    using assms(4) that ff(2) nf(2) u
    by (simp add: select_profile_def assms(3,11,14) a assms(2) [symmetric] check_userfile_def)
  with ff(1) nf(1) show ?thesis by blast
qed

section \<open>Properties\<close>

text \<open>
  C15: A session starts where the last one ended. If the friends and the notifications were written to the
  files of the account the user picks, and the login succeeds with the server key the account
  knows, then \<open>select_profile\<close> succeeds with that account, these friends and these notifications,
  and leaves the profile as it was. It holds for notifications that are not accepted requests, and under
  the condition on the allocator that the friend file has.
\<close>
theorem session_restored:
  assumes "lib_ok L" and "acc = pr_accounts prof ! i" and "pick_account (pr_accounts prof) lines = (0, Some i, rest)"
    and "login_account L (pe_login env) acc sc dirty rest = Done (0, a, sc1, False, rest1)"
    and "\<forall>f \<in> set fs. friend_ok L f \<and> slack_ok usable f" and "length fs < 2 ^ 20"
    and "uids_ok fs" and "\<forall>n \<in> set ns. notif_ok fs n" and "length ns < 2 ^ 20" and "wd_ok wd"
    and "pe_ff env = (True, fm, fi)" and "\<forall>k n. fm k n" and "\<forall>i k n. fi i k n"
    and "pe_nf env = (True, nm, ni)" and "\<forall>k n. nm k n" and "\<forall>i k n. ni i k n"
  shows "\<exists>ff nf. write_friendfile L usable True wd acc fs = Done (0, Some ff) \<and>
    write_notiffile L True wd acc fs ns = Done (0, Some nf) \<and>
    (\<forall>disk. disk (ac_f_file acc) = Some ff \<and> disk (ac_n_file acc) = Some nf \<longrightarrow>
      select_profile L usable env dirty prof disk sc lines = Done (0, prof, Some (acc, fs, ns), sc1))"
  using assms by (rule stored_session_selected)

text \<open>
  C39: Leaving the client works from the main menu, but not after a look at the list of friends. With
  a free lock and a quiet server, a user who selects "exit" ends \<open>handle_user\<close> with 0 and mode -1. A user
  who first selects "message friend" and goes back, or has no friends, is left with the lock held
  for reading: \<open>select_conversation\<close> returns without releasing it. The menu still comes up, as it only reads, but
  then "exit" waits for ever in \<open>set_mode(-1)\<close>.
\<close>
theorem go_back_then_exit_hangs:
  assumes "cs_lock s = 0" and "cs_mode s = 0" and "\<not> cs_stop s" and "handler_status (cs_con s) = 0"
    and "tn_bg env1 = []" and "tn_bg exit = []" and "tn_bg env3 = []"
    and "menu_select (tn_lines exit) = (0, rest)" and "menu_select (tn_lines env1) = (1, lines)"
    and "cs_friends s = [] \<or> (\<exists>l ls. lines = l # ls \<and> choice 0 (of_nat (length (cs_friends s))) (line_text l) \<and>
      decimal (line_text l) = 0)"
  shows "handle_user L usable (exit # env3 # envs) bg s = Some (Done (Some 0, bg, s\<lparr>cs_stop := True, cs_mode := -1\<rparr>)) \<and>
    handler_select L usable env1 bg s = Some (Done (True, bg, s\<lparr>cs_lock := 1\<rparr>)) \<and>
    handle_user L usable (env1 # exit # env3 # envs) bg s = None"
proof -
  have c: "s\<lparr>cs_mode := 0\<rparr> = s" using assms(2) by (cases s) simp
  have e0: "handler_select L usable exit bg s = Some (Done (True, bg, s\<lparr>cs_stop := True\<rparr>))"
    using handler_select_menu [OF assms(1) _ assms(8), of L usable bg] assms(2) c by (simp add: Let_def)
  obtain rest1 where friends: "select_conversation L env1 bg s lines = Some (Done (Some 0, bg, s\<lparr>cs_lock := 1\<rparr>, rest1))"
    using select_conversation_returns [OF assms(1,10)] by blast
  have e1: "handler_select L usable env1 bg s = Some (Done (True, bg, s\<lparr>cs_lock := 1\<rparr>))"
    using handler_select_menu [OF assms(1) _ assms(9), of L usable bg] assms(2) c friends by (simp add: Let_def)
  have e2: "handler_select L usable exit bg (s\<lparr>cs_lock := 1\<rparr>) = Some (Done (True, bg, s\<lparr>cs_lock := 1, cs_stop := True\<rparr>))"
    using handler_select_exit_reading [OF _ _ assms(8), of "s\<lparr>cs_lock := 1\<rparr>"] assms(2) by simp
  show ?thesis
    using assms e0 e1 e2 by (simp add: idle_bg set_mode_free set_mode_blocked)
qed

section \<open>Witnesses\<close>

definition demo_turn :: "bytes list \<Rightarrow> turn_env" where
  "demo_turn lines = \<lparr>tn_bg = [], tn_bgenv = \<lambda>_. demo_bg_env, tn_lines = lines, tn_names = [], tn_window = [], tn_events = [],
     tn_check = demo_cf, tn_load = demo_cf, tn_mem = \<lambda>_ _ _. True, tn_store = (True, demo_wd), tn_fp = demo_fp,
     tn_fq = undefined, tn_rand = None, tn_req = \<lambda>_ _. True, tn_wait = []\<rparr>"

theorem go_back_then_exit_hangs_witness:
  "handle_user demo_lib (\<lambda>_. 24) [demo_turn [[49, 10], [48, 10]], demo_turn [[48, 10]], demo_turn []] True demo_user_client = None"
proof -
  have m: "menu_select [[48, 10]] = (0, [])" "menu_select [[49, 10], [48, 10]] = (1, [[48, 10]])"
    by (simp_all add: menu_select_step choice_def line_text_def decimal_def is_digit_def)
  have "choice 0 (of_nat (length (cs_friends demo_user_client))) (line_text [48, 10])" "decimal (line_text [48, 10]) = 0"
    by (simp_all add: choice_def line_text_def decimal_def is_digit_def demo_user_client_def)
  with go_back_then_exit_hangs [of demo_user_client "demo_turn [[49, 10], [48, 10]]" "demo_turn [[48, 10]]" "demo_turn []" "[]"
      "[[48, 10]]" demo_lib "\<lambda>_. 24" "[]" True] m
  show ?thesis by (simp add: demo_turn_def demo_user_client_def init_handler_def handler_status_def)
qed

lemma demo_login:
  obtains env acc sc' where "login_account demo_lib env acc demo_sc False [] = Done (0, acc, sc', False, [])"
    "ac_f_file acc \<noteq> ac_n_file acc" "account_ok acc" "ac_key_bin acc = ac_key_bin demo_key_account" "handler_status (sc_ch sc') = 0"
proof -
  from demo_connect obtain hs kc kS where c: "\<forall>mc mr. connect_server demo_lib (demo_login_env hs mc mr) demo_sc =
      Done (0, \<lparr>sc_ch = add_message (\<lambda>_ _. True) (init_handler True) demo_hello, sc_server_key = demo_server_pub, sc_keys = kc\<rparr>)"
    "key_linked kc kS" "key_linked kS kc" by blast
  from demo_sealed [OF c(3), of "replicate 32 3"] obtain mc where
    mc: "recv_message demo_lib (\<lambda>_ _. True) kc (Got mc []) = Done (Some (replicate 32 3))" by auto
  from demo_sealed [OF c(3), of "cliauth_text @ [of_int 0]"] obtain mr where
    mr: "\<forall>n. recv_message demo_lib (\<lambda>_ _. True) (kc\<lparr>k_nonce := n\<rparr>) (Got mr []) = Done (Some (cliauth_text @ [of_int 0]))"
    by (auto simp: cliauth_text_def)
  let ?w = "be_enc 8 16 @ be_enc 8 3 @ be_enc 8 77"
  let ?acc = "demo_key_account\<lparr>ac_k_len := 32, ac_sfing := sha256 demo_lib ?w, ac_f_file := replicate 32 1, ac_n_file := replicate 32 2\<rparr>"
    and ?env = "demo_login_env hs mc mr"
  let ?sc = "\<lparr>sc_ch = add_message (\<lambda>_ _. True) (init_handler True) demo_hello, sc_server_key = demo_server_pub, sc_keys = kc\<rparr>"
  have p: "rsa_party demo_lib ?acc demo_rsa demo_rsa_pub demo_rsa_wire" using demo_party by (simp add: rsa_party_def)
  have e: "recv_message demo_lib (lg_chal_mem ?env) (sc_keys ?sc) (lg_chal ?env) = Done (Some (replicate 32 3))" "lg_fing ?env"
    "\<forall>n. lg_alloc ?env n" "\<forall>k n. lg_send ?env k n" "length (replicate 32 (3 :: byte)) = 32" "key_linked (sc_keys ?sc) kS"
    using mc c(2) by (simp_all add: demo_login_env_def)
  from login_answer_sent [OF demo_lib_ok p e(6,5,1,3,4)] obtain m where
    s: "send_login_message demo_lib ?env ?acc demo_rsa ?sc =
      Done (0, ?sc\<lparr>sc_ch := add_message (\<lambda>_ _. True) (sc_ch ?sc) m, sc_keys := (sc_keys ?sc)\<lparr>k_nonce := k_nonce (sc_keys ?sc) + 1\<rparr>\<rparr>)" by blast
  let ?sc1 = "?sc\<lparr>sc_ch := add_message (\<lambda>_ _. True) (sc_ch ?sc) m, sc_keys := (sc_keys ?sc)\<lparr>k_nonce := k_nonce (sc_keys ?sc) + 1\<rparr>\<rparr>"
  have g: "get_server_authresponse demo_lib ?env (sc_keys ?sc1) = Done 0"
    by (rule authresponse_value) (use mr in \<open>simp_all add: demo_login_env_def\<close>)
  have w: "rsa_pubkey2wire demo_lib (sc_server_key ?sc) = Some ?w" by (simp add: demo_lib_def demo_server_pub_def)
  have c1: "connect_server demo_lib ?env demo_sc = Done (0, ?sc)" using c(1) by simp
  have f: "ac_sfing ?acc = sha256 demo_lib ?w" by simp
  from login_account_outcome [OF demo_lib_ok rsa_partyD(1) [OF demo_lib_ok p] c1 e(2) w f s g, of False "[]"]
  have "login_account demo_lib ?env ?acc demo_sc False [] = Done (0, ?acc, ?sc1, False, [])" by simp
  then show ?thesis
  proof (rule that)
    show "account_ok ?acc"
      using lib_ok_parts [OF demo_lib_ok] by (simp add: account_ok_def demo_key_account_def demo_account_def digest_simps)
  qed (simp_all add: init_handler_def handler_status_def add_message_def)
qed

theorem session_restored_witness:
  "\<exists>env prof disk sc1 acc. select_profile demo_lib (\<lambda>_. 24) env False prof disk demo_sc [[49, 10]] =
    Done (0, prof, Some (acc, [demo_friend], [NMessage 0 2]), sc1)"
proof -
  obtain lenv acc sc1 where l: "login_account demo_lib lenv acc demo_sc False [] = Done (0, acc, sc1, False, [])"
    and d: "ac_f_file acc \<noteq> ac_n_file acc" by (rule demo_login)
  let ?prof = "demo_profile\<lparr>pr_accounts := [acc]\<rparr>"
  let ?env = "\<lparr>pe_login = lenv, pe_create = demo_create_env, pe_path = True, pe_store = demo_wd, pe_rand = None,
    pe_ff = (True, \<lambda>_ _. True, \<lambda>_ _ _. True), pe_nf = (True, \<lambda>_ _. True, \<lambda>_ _ _. True)\<rparr>"
  have pick: "pick_account (pr_accounts ?prof) [[49, 10]] = (0, Some 0, [])"
    by (simp add: pick_account_def num_prompt_step choice_def line_text_def decimal_def is_digit_def)
  have f: "\<forall>f \<in> set [demo_friend]. friend_ok demo_lib f \<and> slack_ok (\<lambda>_. 24) f"
    using demo_friend_ok by (simp add: slack_ok_def demo_friend_def)
  have n: "\<forall>n \<in> set [NMessage 0 2]. notif_ok [demo_friend] n" by simp
  from session_restored [OF demo_lib_ok _ pick _ f _ demo_uids_ok n _ demo_wd_ok, of acc ?env demo_sc False acc sc1 "[]"
      "\<lambda>_ _. True" "\<lambda>_ _ _. True" "\<lambda>_ _. True" "\<lambda>_ _ _. True"] l
  obtain ff nf where r: "\<forall>disk. disk (ac_f_file acc) = Some ff \<and> disk (ac_n_file acc) = Some nf \<longrightarrow>
      select_profile demo_lib (\<lambda>_. 24) ?env False ?prof disk demo_sc [[49, 10]] = Done (0, ?prof, Some (acc, [demo_friend], [NMessage 0 2]), sc1)"
    by auto
  have "select_profile demo_lib (\<lambda>_. 24) ?env False ?prof [ac_f_file acc \<mapsto> ff, ac_n_file acc \<mapsto> nf] demo_sc [[49, 10]] =
      Done (0, ?prof, Some (acc, [demo_friend], [NMessage 0 2]), sc1)" by (rule r [rule_format]) (simp add: d)
  then show ?thesis by blast
qed

end
