(* ===== verification/Startup.thy ===== *)
theory Startup
  imports Server Keyfile Prompt
begin

text \<open>
  How a server comes to run: \<open>server/server_main.c\<close> chooses what to do, \<open>util/gen_key.c\<close> makes its key, \<open>server/chat_server.c\<close> reads its options, opens
  its directories, loads the key and the users, and accepts connections with \<open>inet/connect.c\<close>. What the
  operating system answers is given as arguments; \<open>UB\<close> is a call of \<open>fclose\<close> or of a function
  of the library on a null or uninitialised pointer.
\<close>

section \<open>The code: sockets\<close>

text \<open>
  What the system makes of an address that \<open>getaddrinfo\<close> lists: the socket (\<open>-1\<close>: none), whether
  \<open>setsockopt\<close>, \<open>connect\<close> or \<open>bind\<close>, and \<open>listen\<close> succeed, and what \<open>inet_ntop\<close> writes.
\<close>

record sock_env =
  se_socket :: int
  se_option :: bool
  se_attach :: bool
  se_listen :: bool
  se_text :: "bytes option"

text \<open>The loops over the addresses; the second component lists the sockets that were closed again.\<close>

fun try_addresses :: "(sock_env \<Rightarrow> bool) \<Rightarrow> sock_env list \<Rightarrow> sock_env option \<times> int list" where
  "try_addresses usable [] = (None, [])"
| "try_addresses usable (a # as) =
     (if se_socket a = -1 then try_addresses usable as
      else if \<not> usable a then (case try_addresses usable as of (r, closed) \<Rightarrow> (r, se_socket a # closed))
      else (Some a, []))"

definition client_connect :: "sock_env list option \<Rightarrow> int \<times> int list" where
  "client_connect addresses = (case addresses of
     None \<Rightarrow> (-1, [])
   | Some as \<Rightarrow> (case try_addresses se_attach as of
       (None, closed) \<Rightarrow> (-1, closed)
     | (Some a, closed) \<Rightarrow> (case se_text a of
         None \<Rightarrow> (-1, closed @ [se_socket a])
       | Some _ \<Rightarrow> (se_socket a, closed))))"

definition server_bind :: "sock_env list option \<Rightarrow> int \<times> int list" where
  "server_bind addresses = (case addresses of
     None \<Rightarrow> (-2, [])
   | Some as \<Rightarrow> (case try_addresses (\<lambda>a. se_option a \<and> se_attach a \<and> se_listen a) as of
       (None, closed) \<Rightarrow> (-1, closed)
     | (Some a, closed) \<Rightarrow> (case se_text a of
         None \<Rightarrow> (-1, closed @ [se_socket a])
       | Some _ \<Rightarrow> (se_socket a, closed))))"

definition server_accept :: "int \<Rightarrow> bytes option \<Rightarrow> int" where
  "server_accept fd addr = (if fd = -1 then -1 else case addr of None \<Rightarrow> -1 | Some _ \<Rightarrow> fd)"

section \<open>The code: making a key\<close>

text \<open>\<open>strtoull(s, NULL, 0)\<close>: spaces, a sign, a prefix for the base, digits; the largest value on overflow.\<close>

definition digit_of :: "byte \<Rightarrow> nat" where
  "digit_of c = (if 48 \<le> unat c \<and> unat c \<le> 57 then unat c - 48
     else if 97 \<le> unat c \<and> unat c \<le> 122 then unat c - 87
     else if 65 \<le> unat c \<and> unat c \<le> 90 then unat c - 55 else 99)"

definition strtoull :: "bytes \<Rightarrow> u64" where
  "strtoull s =
     (let t = dropWhile (\<lambda>c. c = 32 \<or> 9 \<le> unat c \<and> unat c \<le> 13) s;
          neg = (take 1 t = [45]); u = (if take 1 t = [43] \<or> neg then tl t else t);
          hex = (length u \<ge> 3 \<and> u ! 0 = 48 \<and> (u ! 1 = 120 \<or> u ! 1 = 88) \<and> digit_of (u ! 2) < 16);
          base = (if hex then 16 else if take 1 u = [48] then 8 else 10);
          ds = takeWhile (\<lambda>c. digit_of c < base) (if hex then drop 2 u else u);
          n = foldl (\<lambda>a c. a * base + digit_of c) 0 ds
      in if n \<ge> 2 ^ 64 then -1 else if neg then - of_nat n else of_nat n)"

text \<open>What the making of a key meets: the terminal, \<open>rsa_gen_key\<close>, the allocation of the name, the two files.\<close>

record gen_env =
  ge_echo :: "(bool \<times> bool) option"
  ge_rsa :: "u64 \<Rightarrow> u64 \<Rightarrow> rsa_key option"
  ge_mem :: bool
  ge_pri :: kf_env
  ge_pub :: kf_env

text \<open>
  The result, the private file and the public one. The way out after an error frees both keys, also
  before they have been made; without memory for the name it prints a null string.
\<close>

definition gen_key :: "ibc \<Rightarrow> gen_env \<Rightarrow> bytes list \<Rightarrow> bytes list \<Rightarrow> (int \<times> bytes option \<times> bytes option) exec" where
  "gen_key L env argv lines =
     (if length argv \<noteq> 4 \<and> length argv \<noteq> 5 then Done (1, None, None)
      else let bits = strtoull (argv ! 3); ex = (if length argv = 5 then strtoull (argv ! 4) else 65537) in
        if and bits 1 \<noteq> 0 \<or> bits = 0 \<or> bits > 1000000 then Done (1, None, None)
        else if and ex 1 = 0 \<or> ex = 1 \<or> ex = -1 then Done (1, None, None)
        else (case fst (line_prompt True (ge_echo env) lines) of
          None \<Rightarrow> UB
        | Some typed \<Rightarrow>
          let password = (if typed = [] then None else Some typed) in
          (case ge_rsa env bits ex of None \<Rightarrow> UB
          | Some key \<Rightarrow> (case rsa_pub_key L key of None \<Rightarrow> UB
            | Some pkey \<Rightarrow>
              if \<not> ge_mem env then UB
              else exec_bind (write_pri_key L (ge_pri env) key password) (\<lambda>(r1, f1).
                if r1 \<noteq> 0 then Done (1, f1, None)
                else exec_bind (write_pub_key L (ge_pub env) pkey) (\<lambda>(r2, f2).
                  Done (if r2 \<noteq> 0 then 1 else 0, f1, f2)))))))"

section \<open>The code: options and directories\<close>

text \<open>What \<open>getopt_long\<close> finds.\<close>

datatype srv_option = OptPort bytes | OptRoot bytes | OptNoPw | OptUnknown

record srv_opts =
  so_port :: bytes
  so_root :: bytes
  so_keyfile :: bytes
  so_use_password :: bool

fun apply_option :: "srv_option \<Rightarrow> srv_opts \<Rightarrow> srv_opts" where
  "apply_option (OptPort p) o' = o'\<lparr>so_port := p\<rparr>"
| "apply_option (OptRoot d) o' = o'\<lparr>so_root := d\<rparr>"
| "apply_option OptNoPw o' = o'\<lparr>so_use_password := False\<rparr>"
| "apply_option OptUnknown o' = o'"

text \<open>The strings \<open>41032\<close> and \<open>~/.ibchat_server/\<close>.\<close>

definition DFLT_PORT :: bytes where
  "DFLT_PORT = [52, 49, 48, 51, 50]"

definition DFLT_ROOT_DIR :: bytes where
  "DFLT_ROOT_DIR = [126, 47, 46, 105, 98, 99, 104, 97, 116, 95, 115, 101, 114, 118, 101, 114, 47]"

definition process_opts :: "srv_option list \<Rightarrow> bytes list \<Rightarrow> (bytes \<Rightarrow> bytes list option) \<Rightarrow> bool \<Rightarrow> int \<times> srv_opts option" where
  "process_opts found operands wordexp strdup =
     (let opts = fold apply_option found \<lparr>so_port = DFLT_PORT, so_root = DFLT_ROOT_DIR, so_keyfile = [], so_use_password = True\<rparr> in
      case operands of [] \<Rightarrow> (1, None)
      | file # _ \<Rightarrow> (case wordexp (so_root opts) of
          Some [dir] \<Rightarrow> if strdup then (0, Some (opts\<lparr>so_keyfile := file, so_root := dir\<rparr>)) else (1, None)
        | _ \<Rightarrow> (1, None)))"

text \<open>The answer of \<open>stat\<close>, and whether \<open>mkdir\<close> succeeds. The three checks of a directory are copies of each other.\<close>

datatype dir_stat = DirAbsent | DirError | IsDir | NotDir

definition check_root_dir :: "dir_stat \<times> bool \<Rightarrow> int" where
  "check_root_dir d = (case d of
     (DirError, _) \<Rightarrow> -1 | (DirAbsent, mkdir) \<Rightarrow> if mkdir then 0 else -1 | (NotDir, _) \<Rightarrow> -1 | (IsDir, _) \<Rightarrow> 0)"

definition check_user_dir :: "dir_stat \<times> bool \<Rightarrow> int" where
  "check_user_dir d = (case d of
     (DirError, _) \<Rightarrow> -1 | (DirAbsent, mkdir) \<Rightarrow> if mkdir then 0 else -1 | (NotDir, _) \<Rightarrow> -1 | (IsDir, _) \<Rightarrow> 0)"

definition check_undel_dir :: "dir_stat \<times> bool \<Rightarrow> int" where
  "check_undel_dir d = (case d of
     (DirError, _) \<Rightarrow> -1 | (DirAbsent, mkdir) \<Rightarrow> if mkdir then 0 else -1 | (NotDir, _) \<Rightarrow> -1 | (IsDir, _) \<Rightarrow> 0)"

definition open_logfile :: "bool \<times> bool \<Rightarrow> int" where
  "open_logfile = (\<lambda>(mem, fopen). if \<not> mem then -1 else if \<not> fopen then -1 else 0)"

definition undel_init :: "bool \<Rightarrow> dir_stat \<times> bool \<Rightarrow> int" where
  "undel_init mem d = (if \<not> mem then 1 else check_undel_dir d)"

text \<open>
  \<open>user_db_init\<close>: whether there is memory for the table and for the name of the directory, the directory,
  what \<open>readdir\<close> lists (\<open>None\<close>: it cannot be opened), memory for the path, and what each round finds.
\<close>

record udb_env =
  ud_table :: bool
  ud_name :: bool
  ud_dir :: "dir_stat \<times> bool"
  ud_list :: "bytes list option"
  ud_path :: bool
  ud_load :: "nat \<Rightarrow> load_env"

definition user_db_init :: "ibc \<Rightarrow> rsa_public_key \<Rightarrow> udb_env \<Rightarrow> (bytes \<rightharpoonup> bytes) \<Rightarrow> (int \<times> user_db) exec" where
  "user_db_init L spk env fs =
     (if \<not> ud_table env then Done (1, init_user_db_st)
      else if \<not> ud_name env then Done (1, init_user_db_st)
      else if check_user_dir (ud_dir env) \<noteq> 0 then Done (1, init_user_db_st)
      else (case ud_list env of
        None \<Rightarrow> Done (1, init_user_db_st)
      | Some names \<Rightarrow>
          if \<not> ud_path env then Done (1, init_user_db_st)
          else exec_bind (load_user_files L spk (ud_load env) fs names init_user_db_st) (\<lambda>db. Done (0, db))))"

section \<open>The code: starting\<close>

text \<open>The result of \<open>rsa_pubkey2wire\<close> is not looked at; if it fails, uninitialised memory is hashed.\<close>

definition load_server_key :: "ibc \<Rightarrow> (u64 \<Rightarrow> bool) \<Rightarrow> (u64 \<Rightarrow> bool) \<Rightarrow> bytes option \<Rightarrow> bytes option \<Rightarrow>
    (int \<times> (rsa_key \<times> rsa_public_key) option) exec" where
  "load_server_key L mem mem2 file password =
     exec_bind (read_pri_key L mem file password) (\<lambda>(r, k).
       if r \<noteq> 0 then Done (1, None)
       else case k of None \<Rightarrow> UB
       | Some key \<Rightarrow> (case rsa_pub_key L key of
           None \<Rightarrow> Done (1, None)
         | Some pub \<Rightarrow>
             if \<not> mem2 (rsa_pubkey_bufsize L (pk_bits pub)) then Done (1, None)
             else (case rsa_pubkey2wire L pub of None \<Rightarrow> UB | Some _ \<Rightarrow> Done (0, Some (key, pub)))))"

definition server_bind_err :: "int \<Rightarrow> int" where
  "server_bind_err fd = (if fd = -1 then 1 else if fd = -2 then 1 else 0)"

text \<open>A handler's argument is used without looking whether there is memory for it.\<close>

definition spawn_handler :: "bool \<Rightarrow> bool \<Rightarrow> bool \<Rightarrow> int exec" where
  "spawn_handler mem attr create = (if \<not> mem then UB else Done (if \<not> attr then -1 else if \<not> create then -1 else 0))"

text \<open>
  What \<open>handle_connections\<close> meets: a signal, an interrupted \<open>select\<close>, one that fails, one that times out, or
  a connection with the results of \<open>accept\<close> and \<open>inet_ntop\<close> and of the calls of \<open>spawn_handler\<close>.
\<close>

datatype accept_event = Signal | SelectInterrupted | SelectFails | SelectTimeout
  | Incoming int "bytes option" bool bool bool

text \<open>The result (\<open>None\<close>: the loop is still running) and the sockets that were given to handlers.\<close>

fun accept_loop :: "accept_event list \<Rightarrow> bool \<Rightarrow> (int option \<times> int list) exec" where
  "accept_loop [] stop = Done (if stop then Some 0 else None, [])"
| "accept_loop (e # es) stop =
     (if stop then Done (Some 0, [])
      else case e of
        Signal \<Rightarrow> accept_loop es True
      | SelectInterrupted \<Rightarrow> accept_loop es stop
      | SelectFails \<Rightarrow> Done (Some 1, [])
      | SelectTimeout \<Rightarrow> accept_loop es stop
      | Incoming fd addr mem attr create \<Rightarrow> exec_bind (spawn_handler mem attr create) (\<lambda>r.
          if r \<noteq> 0 then Done (Some 1, [])
          else exec_bind (accept_loop es stop) (\<lambda>(ret, fds). Done (ret, server_accept fd addr # fds))))"

text \<open>\<open>ht\<close> is the handler table when the loop is left.\<close>

definition handle_connections :: "heap_oracle \<Rightarrow> accept_event list \<Rightarrow> handler_table \<Rightarrow>
    (int option \<times> int list \<times> handler_table) exec" where
  "handle_connections mem es ht = (case init_handler_table mem of
     None \<Rightarrow> Done (Some 1, [], ht)
   | Some _ \<Rightarrow> exec_bind (accept_loop es False) (\<lambda>(ret, fds).
       Done (ret, fds, if ret = Some 0 then end_handlers ht else ht)))"

record boot_env =
  bo_root :: "dir_stat \<times> bool"
  bo_log :: "bool \<times> bool"
  bo_echo :: "(bool \<times> bool) option"
  bo_key_mem :: "u64 \<Rightarrow> bool"
  bo_fing_mem :: "u64 \<Rightarrow> bool"
  bo_users :: udb_env
  bo_undel :: "bool \<times> (dir_stat \<times> bool)"
  bo_addresses :: "sock_env list option"
  bo_table :: heap_oracle

record running_server =
  sr_key :: rsa_key
  sr_pub :: rsa_public_key
  sr_db :: user_db
  sr_fd :: int

text \<open>
  \<open>chat_server\<close> up to \<open>handle_connections\<close>, in the order of the code. The log file is closed on the way out
  after an error, also before it has been opened. \<open>keys\<close> and \<open>fs\<close>: the key files and the user directory.
\<close>

definition server_boot :: "ibc \<Rightarrow> boot_env \<Rightarrow> srv_opts \<Rightarrow> (bytes \<rightharpoonup> bytes) \<Rightarrow> (bytes \<rightharpoonup> bytes) \<Rightarrow> bytes list \<Rightarrow>
    (int \<times> running_server option) exec" where
  "server_boot L env opts keys fs lines =
     (if check_root_dir (bo_root env) \<noteq> 0 then UB
      else if open_logfile (bo_log env) \<noteq> 0 then UB
      else let password = (if so_use_password opts then fst (line_prompt False (bo_echo env) lines) else None) in
        if so_use_password opts \<and> password = None then Done (1, None)
        else exec_bind (load_server_key L (bo_key_mem env) (bo_fing_mem env) (keys (so_keyfile opts)) password) (\<lambda>(r, k).
          if r \<noteq> 0 then Done (1, None)
          else case k of None \<Rightarrow> UB
          | Some (key, pub) \<Rightarrow> exec_bind (user_db_init L pub (bo_users env) fs) (\<lambda>(r1, db).
              if r1 \<noteq> 0 then Done (1, None)
              else if undel_init (fst (bo_undel env)) (snd (bo_undel env)) \<noteq> 0 then Done (1, None)
              else let fd = fst (server_bind (bo_addresses env)) in
                if server_bind_err fd \<noteq> 0 then Done (1, None)
                else Done (0, Some \<lparr>sr_key = key, sr_pub = pub, sr_db = db, sr_fd = fd\<rparr>))))"

text \<open>
  \<open>chat_server\<close>: the result (\<open>None\<close>: still running), the server that was started, the sockets given to handlers.
\<close>

definition chat_server :: "ibc \<Rightarrow> boot_env \<Rightarrow> int \<times> srv_opts option \<Rightarrow> (bytes \<rightharpoonup> bytes) \<Rightarrow> (bytes \<rightharpoonup> bytes) \<Rightarrow> bytes list \<Rightarrow>
    accept_event list \<Rightarrow> handler_table \<Rightarrow> (int option \<times> running_server option \<times> int list) exec" where
  "chat_server L env opts keys fs lines es ht = (case opts of
     (r, None) \<Rightarrow> Done (Some 1, None, [])
   | (r, Some o') \<Rightarrow> exec_bind (server_boot L env o' keys fs lines) (\<lambda>(r1, sr). case sr of
       None \<Rightarrow> Done (Some r1, None, [])
     | Some s \<Rightarrow> exec_bind (handle_connections (bo_table env) es ht) (\<lambda>(ret, fds, _).
         Done (case ret of None \<Rightarrow> None | Some v \<Rightarrow> Some (if v \<noteq> 0 then 1 else 0), Some s, fds))))"

section \<open>The code: the program\<close>

text \<open>The table of \<open>server_main.c\<close>: the first argument may name one of its programs, else it is the server.\<close>

datatype server_program = KeyGenProgram | HelpProgram | ChatServerProgram

definition select_program :: "bytes list \<Rightarrow> server_program" where
  "select_program argv =
     (if length argv > 1 then
        (if argv ! 1 = [107, 101, 121, 103, 101, 110] then KeyGenProgram
         else if argv ! 1 = [104, 101, 108, 112] then HelpProgram else ChatServerProgram)
      else ChatServerProgram)"

section \<open>Sockets\<close>

lemma try_addresses_result:
  "try_addresses ok as = (r, closed) \<Longrightarrow>
    closed = map se_socket (filter (\<lambda>a. se_socket a \<noteq> -1) (takeWhile (\<lambda>a. se_socket a = -1 \<or> \<not> ok a) as)) \<and>
    (case r of None \<Rightarrow> \<forall>a \<in> set as. se_socket a = -1 \<or> \<not> ok a | Some a \<Rightarrow> a \<in> set as \<and> se_socket a \<noteq> -1 \<and> ok a)"
  by (induction ok as arbitrary: r closed rule: try_addresses.induct) (auto split: if_split_asm prod.split_asm option.splits)

section \<open>The accept loop\<close>

fun handled :: "accept_event list \<Rightarrow> int list" where
  "handled [] = []"
| "handled (Signal # es) = []"
| "handled (Incoming fd addr mem attr create # es) = server_accept fd addr # handled es"
| "handled (_ # es) = handled es"

fun spawns :: "accept_event \<Rightarrow> bool" where
  "spawns (Incoming fd addr mem attr create) = (mem \<and> attr \<and> create)"
| "spawns SelectFails = False"
| "spawns _ = True"

lemma accept_loop_ok:
  "\<forall>e \<in> set es. spawns e \<Longrightarrow> accept_loop es False = Done (if Signal \<in> set es then Some 0 else None, handled es)"
proof (induction es rule: handled.induct)
  case (2 es)
  then show ?case by (cases es) auto
qed (auto simp: spawn_handler_def)

text \<open>One connection for which no thread can be made ends the loop, and the server with it.\<close>

lemma accept_loop_gives_up:
  assumes "\<forall>e \<in> set es. spawns e" "Signal \<notin> set es" "\<not> create"
  shows "accept_loop (es @ Incoming fd addr True attr create # rest) False = Done (Some 1, handled es)"
  using assms(1,2)
  by (induction es rule: handled.induct) (use assms(3) in \<open>auto simp: spawn_handler_def\<close>)

section \<open>Keys\<close>

lemma unprotected_key_read:
  assumes "lib_ok L" "write_pri_key L env key None = Done (0, fo)" "\<forall>n. mem n"
  shows "read_pri_key L mem fo pwo = Done (0, Some key)"
proof -
  note ok = lib_ok_parts [OF assms(1)]
  from write_pri_key_ok [OF assms(2)] obtain w where
    "fo = Some (kf_magic @ encbe64 L 2 @ encbe64 L 1 @ w)" by auto
  then have "read_pri_key L mem fo pwo = read_pri_key L mem fo None"
    using ok by (simp add: read_pri_key_def read_header_ok wire_simps)
  moreover have "write_pri_key L (env\<lparr>kf_salt := None\<rparr>) key None = Done (0, fo)"
  proof -
    have f: "kf_mem (env\<lparr>kf_salt := None\<rparr>) = kf_mem env" "kf_open (env\<lparr>kf_salt := None\<rparr>) = kf_open env"
      "kf_tx (env\<lparr>kf_salt := None\<rparr>) = kf_tx env" by simp_all
    show ?thesis using assms(2) unfolding write_pri_key_def option.case f .
  qed
  from read_written_pri_key [OF assms(1) this _ assms(3)] have "read_pri_key L mem fo None = Done (0, Some key)" by simp
  ultimately show ?thesis by simp
qed

lemma gen_key_success:
  assumes "gen_key L env argv lines = Done (0, f1, f2)"
  obtains typed key pub where "fst (line_prompt True (ge_echo env) lines) = Some typed"
    "ge_rsa env (strtoull (argv ! 3)) (if length argv = 5 then strtoull (argv ! 4) else 65537) = Some key"
    "rsa_pub_key L key = Some pub"
    "write_pri_key L (ge_pri env) key (if typed = [] then None else Some typed) = Done (0, f1)"
    "write_pub_key L (ge_pub env) pub = Done (0, f2)"
  using assms
  by (auto simp: gen_key_def Let_def exec_bind_Done_iff split: if_split_asm option.split_asm prod.split_asm)

lemma load_generated_key:
  assumes "lib_ok L" "write_pri_key L env key (if pw = [] then None else Some pw) = Done (0, fo)"
    "\<forall>salt. kf_salt env = Some salt \<longrightarrow> length salt = 32" "\<forall>n. mem n" "\<forall>n. mem2 n"
    "rsa_pub_key L key = Some pub" "rsa_pubkey2wire L pub = Some w" "pwo = Some pw \<or> pw = []"
  shows "load_server_key L mem mem2 fo pwo = Done (0, Some (key, pub))"
proof -
  have "read_pri_key L mem fo pwo = Done (0, Some key)"
  proof (cases "pw = []")
    case True
    with assms(2) unprotected_key_read [OF assms(1) _ assms(4)] show ?thesis by simp
  next
    case False
    with assms(2,8) read_written_pri_key [OF assms(1) _ assms(3,4)] show ?thesis by auto
  qed
  then show ?thesis using assms(5-7) by (simp add: load_server_key_def)
qed

section \<open>Properties\<close>

text \<open>A start in which the system refuses nothing.\<close>

definition boot_ok :: "boot_env \<Rightarrow> bool" where
  "boot_ok env \<longleftrightarrow> check_root_dir (bo_root env) = 0 \<and> open_logfile (bo_log env) = 0 \<and> (\<forall>n. bo_key_mem env n) \<and>
     (\<forall>n. bo_fing_mem env n) \<and> ud_table (bo_users env) \<and> ud_name (bo_users env) \<and> check_user_dir (ud_dir (bo_users env)) = 0 \<and>
     ud_path (bo_users env) \<and> load_ok (ud_load (bo_users env)) \<and> undel_init (fst (bo_undel env)) (snd (bo_undel env)) = 0 \<and>
     server_bind_err (fst (server_bind (bo_addresses env))) = 0"

text \<open>
  C14: A server can be stopped and started again. With a key file that \<open>gen_key\<close> made under a password
  (or under none), \<open>chat_server\<close> gets as far as \<open>handle_connections\<close> when the same password is typed; it
  has the key that was generated and its public key; and up to twelve users that were registered
  under this key before are all there, whatever the order in which the directory is listed and
  whatever else is listed: entries that begin with a dot (\<open>.\<close> and \<open>..\<close> always are), that are not 64
  hexadecimal digits, or whose content does not parse as a user's file.
\<close>
theorem server_restarts:
  assumes "lib_ok L" and "hex_ok L" and "signer_ok L key pub" and "\<forall>i. uw_ok (wenv i)"
    and "\<forall>u \<in> set us. reg_ok L u" and "distinct (map u_uid us)" and "length us \<le> 12"
    and "gen_key L genv argv glines = Done (0, pri, f2)" and "\<forall>b e. ge_rsa genv b e = Some key" and "rsa_pub_key L key = Some pub"
    and "\<forall>salt. kf_salt (ge_pri genv) = Some salt \<longrightarrow> length salt = 32"
    and "fst (line_prompt True (ge_echo genv) glines) = Some pw"
    and "boot_ok env" and "keys (so_keyfile opts) = pri"
    and "so_use_password opts \<longrightarrow> fst (line_prompt False (bo_echo env) lines) = Some pw"
    and "so_use_password opts \<or> pw = []"
  shows "\<exists>db fs. register_all L key wenv us init_user_db_st Map.empty = Done (db, fs) \<and>
    (\<forall>dir names. distinct names \<and> fs \<subseteq>\<^sub>m dir \<and> dom fs \<subseteq> set names \<and>
      (\<forall>n \<in> set names - dom fs. take 1 n = [46] \<or> length n \<noteq> 64 \<or> \<not> list_all hex_char n \<or>
         parse_user_file L pub (\<lambda>_. True) n (dir n) = Done None) \<longrightarrow>
      (\<exists>s. server_boot L (env\<lparr>bo_users := (bo_users env)\<lparr>ud_list := Some names\<rparr>\<rparr>) opts keys dir lines = Done (0, Some s) \<and>
        sr_key s = key \<and> sr_pub s = pub \<and> sr_fd s = fst (server_bind (bo_addresses env)) \<and>
        (\<forall>uid. length uid = 32 \<longrightarrow> user_db_get L (sr_db s) uid = user_db_get L db uid))) \<and>
    (\<forall>u \<in> set us. user_db_get L db (u_uid u) = Done (Some u))"
proof -
  from gen_key_success [OF assms(8)] assms(9,10,12) have
    w: "write_pri_key L (ge_pri genv) key (if pw = [] then None else Some pw) = Done (0, pri)" "write_pub_key L (ge_pub genv) pub = Done (0, f2)"
    by (metis option.inject)+
  from w(2) obtain wp where wp: "rsa_pubkey2wire L pub = Some wp"
    by (auto simp: write_pub_key_def kf_codes split: if_split_asm option.split_asm)
  from registered_users_reload [OF assms(1-7)] obtain db fs where
    r: "register_all L key wenv us init_user_db_st Map.empty = Done (db, fs)"
    "\<forall>dir names lenv. listing_of L pub fs dir names \<and> load_ok lenv \<longrightarrow>
      (\<exists>db'. load_user_files L pub lenv dir names init_user_db_st = Done db' \<and>
        (\<forall>uid. length uid = 32 \<longrightarrow> user_db_get L db' uid = user_db_get L db uid))"
    "\<forall>u \<in> set us. user_db_get L db (u_uid u) = Done (Some u)" by (elim exE conjE) (rule that)
  have "\<exists>s. server_boot L (env\<lparr>bo_users := (bo_users env)\<lparr>ud_list := Some names\<rparr>\<rparr>) opts keys dir lines = Done (0, Some s) \<and>
        sr_key s = key \<and> sr_pub s = pub \<and> sr_fd s = fst (server_bind (bo_addresses env)) \<and>
        (\<forall>uid. length uid = 32 \<longrightarrow> user_db_get L (sr_db s) uid = user_db_get L db uid)"
    if n: "listing_of L pub fs dir names" for dir names
  proof -
    let ?pw = "if so_use_password opts then fst (line_prompt False (bo_echo env) lines) else None"
    have p: "?pw = Some pw \<or> pw = []" "so_use_password opts \<longrightarrow> ?pw \<noteq> None" using assms(15,16) by auto
    have load: "load_server_key L (bo_key_mem env) (bo_fing_mem env) pri ?pw = Done (0, Some (key, pub))"
      by (rule load_generated_key [OF assms(1) w(1) assms(11) _ _ assms(10) wp p(1)]) (use assms(13) in \<open>simp_all add: boot_ok_def\<close>)
    have lo: "load_ok (ud_load (bo_users env))" using assms(13) by (simp add: boot_ok_def)
    from r(2) n lo obtain db' where db': "load_user_files L pub (ud_load (bo_users env)) dir names init_user_db_st = Done db'"
      "\<forall>uid. length uid = 32 \<longrightarrow> user_db_get L db' uid = user_db_get L db uid" by blast
    have init: "user_db_init L pub ((bo_users env)\<lparr>ud_list := Some names\<rparr>) dir = Done (0, db')"
      using assms(13) db'(1) by (simp add: user_db_init_def boot_ok_def)
    show ?thesis
      using assms(13,14) load init p(2) db'(2) by (auto simp: server_boot_def boot_ok_def Let_def)
  qed
  with r(1,3) show ?thesis unfolding listing_of_def no_user_file_def by blast
qed

text \<open>
  Starting badly crashes: when the root directory is not usable, or the log file cannot be opened,
  the way out closes the log file that is not open. The same in \<open>gen_key\<close>, where a password that cannot
  be read leads to freeing two keys that have not been made.
\<close>
theorem early_errors_crash:
  assumes "check_root_dir (bo_root env) \<noteq> 0 \<or> open_logfile (bo_log env) \<noteq> 0"
    and "length argv = 4" and "strtoull (argv ! 3) = 2048" and "fst (line_prompt True (ge_echo genv) glines) = None"
  shows "server_boot L env opts keys fs lines = UB \<and> gen_key L genv argv glines = UB"
  using assms by (auto simp: server_boot_def gen_key_def)

section \<open>Witnesses\<close>

definition demo_boot :: boot_env where
  "demo_boot = \<lparr>bo_root = (IsDir, False), bo_log = (True, True), bo_echo = None, bo_key_mem = \<lambda>_. True, bo_fing_mem = \<lambda>_. True,
     bo_users = \<lparr>ud_table = True, ud_name = True, ud_dir = (DirAbsent, True), ud_list = None, ud_path = True,
       ud_load = \<lambda>_. \<lparr>le_parse = \<lambda>_. True, le_ent = True, le_mem = False\<rparr>\<rparr>,
     bo_undel = (True, (DirAbsent, True)),
     bo_addresses = Some [\<lparr>se_socket = 5, se_option = True, se_attach = True, se_listen = True, se_text = Some []\<rparr>],
     bo_table = \<lambda>_ _. True\<rparr>"

definition demo_gen :: gen_env where
  "demo_gen = \<lparr>ge_echo = None, ge_rsa = \<lambda>_ _. Some demo_server_key, ge_mem = True, ge_pri = demo_kf_env, ge_pub = demo_kf_env\<rparr>"

definition demo_srv_opts :: srv_opts where
  "demo_srv_opts = \<lparr>so_port = DFLT_PORT, so_root = [47], so_keyfile = [107], so_use_password = True\<rparr>"

theorem server_restarts_witness:
  "\<exists>pri pub db fs s. gen_key demo_lib demo_gen [[], [], [], [50, 48, 52, 56]] [[112, 10], [112, 10]] = Done (0, Some pri, Some pub) \<and>
    register_all demo_lib demo_server_key (\<lambda>_. demo_uw_env) [demo_user] init_user_db_st Map.empty = Done (db, fs) \<and>
    server_boot demo_lib (demo_boot\<lparr>bo_users := (bo_users demo_boot)\<lparr>ud_list := Some [[46], to_hex demo_lib (u_uid demo_user), [46, 46], [120]]\<rparr>\<rparr>) demo_srv_opts
      [[107] \<mapsto> pri] fs [[112, 10]] = Done (0, Some s) \<and> user_db_get demo_lib (sr_db s) (replicate 32 1) = Done (Some demo_user)"
proof -
  have a: "strtoull [50, 48, 52, 56] = 2048"
    by (simp add: strtoull_def digit_of_def Let_def)
  have l: "fst (line_prompt True None [[112, 10], [112, 10]]) = Some [112]" "fst (line_prompt False None [[112, 10]]) = Some [112]"
    by (simp_all add: line_prompt_def line_text_def)
  have "\<exists>pri. write_pri_key demo_lib demo_kf_env demo_server_key (Some [112]) = Done (0, Some pri)"
    "\<exists>pub. write_pub_key demo_lib demo_kf_env demo_server_pub = Done (0, Some pub)"
    by (simp_all add: write_pri_key_def write_pri_key_password_def write_pub_key_def demo_kf_env_def demo_server_key_def
        demo_server_pub_def write_result_def demo_lib_def Let_def send_fields.simps)
  then obtain pri pub where k: "write_pri_key demo_lib demo_kf_env demo_server_key (Some [112]) = Done (0, Some pri)"
    "write_pub_key demo_lib demo_kf_env demo_server_pub = Done (0, Some pub)" by blast
  have pk: "rsa_pub_key demo_lib demo_server_key = Some demo_server_pub"
    by (simp add: demo_lib_def demo_server_key_def demo_server_pub_def)
  have g: "gen_key demo_lib demo_gen [[], [], [], [50, 48, 52, 56]] [[112, 10], [112, 10]] = Done (0, Some pri, Some pub)"
    using k pk l(1) by (simp add: gen_key_def a demo_gen_def)
  have env: "\<forall>i :: nat. uw_ok demo_uw_env" by (simp add: uw_ok_def demo_uw_env_def)
  have ok: "\<forall>u \<in> set [demo_user]. reg_ok demo_lib u" using demo_reg_ok by simp
  have b: "boot_ok demo_boot"
    by (simp add: boot_ok_def demo_boot_def check_root_dir_def check_user_dir_def check_undel_dir_def open_logfile_def undel_init_def
        load_ok_def server_bind_def server_bind_err_def)
  have e: "\<forall>salt. kf_salt (ge_pri demo_gen) = Some salt \<longrightarrow> length salt = 32" "\<forall>b e. ge_rsa demo_gen b e = Some demo_server_key"
    "fst (line_prompt True (ge_echo demo_gen) [[112, 10], [112, 10]]) = Some [112]"
    using l by (simp_all add: demo_gen_def demo_kf_env_def)
  have o: "[[107] \<mapsto> pri] (so_keyfile demo_srv_opts) = Some pri"
    "so_use_password demo_srv_opts \<longrightarrow> fst (line_prompt False (bo_echo demo_boot) [[112, 10]]) = Some [112]"
    "so_use_password demo_srv_opts \<or> [112] = ([] :: bytes)"
    using l by (simp_all add: demo_srv_opts_def demo_boot_def)
  have d: "distinct (map u_uid [demo_user])" "length [demo_user] \<le> 12" by simp_all
  obtain db fs where r: "register_all demo_lib demo_server_key (\<lambda>_. demo_uw_env) [demo_user] init_user_db_st Map.empty = Done (db, fs)"
    "\<forall>dir names. distinct names \<and> fs \<subseteq>\<^sub>m dir \<and> dom fs \<subseteq> set names \<and>
      (\<forall>n \<in> set names - dom fs. take 1 n = [46] \<or> length n \<noteq> 64 \<or> \<not> list_all hex_char n \<or>
         parse_user_file demo_lib demo_server_pub (\<lambda>_. True) n (dir n) = Done None) \<longrightarrow>
      (\<exists>s. server_boot demo_lib (demo_boot\<lparr>bo_users := (bo_users demo_boot)\<lparr>ud_list := Some names\<rparr>\<rparr>) demo_srv_opts [[107] \<mapsto> pri] dir [[112, 10]] = Done (0, Some s) \<and>
        sr_key s = demo_server_key \<and> sr_pub s = demo_server_pub \<and> sr_fd s = fst (server_bind (bo_addresses demo_boot)) \<and>
        (\<forall>uid. length uid = 32 \<longrightarrow> user_db_get demo_lib (sr_db s) uid = user_db_get demo_lib db uid))"
    "\<forall>u \<in> set [demo_user]. user_db_get demo_lib db (u_uid u) = Done (Some u)"
    using server_restarts [where wenv = "\<lambda>_. demo_uw_env" and keys = "[[107] \<mapsto> pri]", OF demo_lib_ok demo_hex_ok demo_signer_ok env ok d g e(2) pk e(1,3) b o]
    by (elim exE conjE) (rule that)
  have n: "listing_of demo_lib demo_server_pub fs fs [[46], to_hex demo_lib (u_uid demo_user), [46, 46], [120]]"
    using demo_reload [OF refl] r(1) by auto
  from r(2) [THEN spec, THEN spec, THEN mp, OF n [unfolded listing_of_def no_user_file_def]] obtain s where s: "server_boot demo_lib (demo_boot\<lparr>bo_users := (bo_users demo_boot)\<lparr>ud_list := Some [[46], to_hex demo_lib (u_uid demo_user), [46, 46], [120]]\<rparr>\<rparr>) demo_srv_opts
      [[107] \<mapsto> pri] fs [[112, 10]] = Done (0, Some s)" "\<forall>uid. length uid = 32 \<longrightarrow> user_db_get demo_lib (sr_db s) uid = user_db_get demo_lib db uid"
    by (elim exE conjE) (rule that)
  moreover have "user_db_get demo_lib (sr_db s) (replicate 32 1) = Done (Some demo_user)"
    using s(2) r(3) by (simp add: demo_user_def)
  ultimately show ?thesis using g r(1) by blast
qed

end
