(* ===== verification/ClientMain.thy ===== *)
theory ClientMain
  imports Cli Startup
begin

text \<open>
  The client as a whole: \<open>client/ibchat_client.c\<close> (options, directory, log file, names of files), \<open>user_exist\<close> of
  \<open>client/userfile.c\<close>, and \<open>main\<close> of \<open>client/cli.c\<close>, which puts the parts of a session together.
\<close>

section \<open>The code\<close>

text \<open>What \<open>getopt_long\<close> finds.\<close>

datatype cli_option = OptDebug | OptLog | OptInvalid

text \<open>The result, \<open>debug_mode\<close> and \<open>log_on\<close>.\<close>

fun client_process_opts :: "cli_option list \<Rightarrow> bool \<Rightarrow> bool \<Rightarrow> int \<times> bool \<times> bool" where
  "client_process_opts [] debug log = (0, debug, log)"
| "client_process_opts (OptDebug # os) debug log = client_process_opts os True log"
| "client_process_opts (OptLog # os) debug log = client_process_opts os debug True"
| "client_process_opts (OptInvalid # os) debug log = (-1, debug, log)"

text \<open>The string \<open>~/.ibchat/\<close>, and \<open>ufile.ibc\<close>.\<close>

definition ROOT_DIR :: bytes where
  "ROOT_DIR = [126, 47, 46, 105, 98, 99, 104, 97, 116, 47]"

definition UFILE_SUFFIX :: bytes where
  "UFILE_SUFFIX = [117, 102, 105, 108, 101, 46, 105, 98, 99]"

definition expand_root_dir :: "(bytes \<Rightarrow> bytes list option) \<Rightarrow> bool \<Rightarrow> bytes option" where
  "expand_root_dir wordexp mem = (case wordexp ROOT_DIR of
     Some [dir] \<Rightarrow> if mem then Some (dir @ [47]) else None
   | _ \<Rightarrow> None)"

definition client_check_root_dir :: "dir_stat \<times> bool \<Rightarrow> int" where
  "client_check_root_dir d = (case d of
     (DirError, _) \<Rightarrow> -1 | (DirAbsent, mkdir) \<Rightarrow> if mkdir then 0 else -1 | (NotDir, _) \<Rightarrow> -1 | (IsDir, _) \<Rightarrow> 0)"

text \<open>The result and whether the log file is open. Without logging there is none.\<close>

definition client_open_logfile :: "bool \<Rightarrow> bool \<times> bool \<Rightarrow> int \<times> bool" where
  "client_open_logfile log_on = (\<lambda>(mem, fopen).
     if \<not> log_on then (0, False) else if \<not> mem then (-1, False) else if \<not> fopen then (-1, False) else (0, True))"

record init_env =
  in_opts :: "cli_option list"
  in_wordexp :: "bytes \<Rightarrow> bytes list option"
  in_mem :: bool
  in_dir :: "dir_stat \<times> bool"
  in_log :: "bool \<times> bool"

text \<open>\<open>init\<close>: the result, the root directory, whether the log file is open.\<close>

definition client_init :: "init_env \<Rightarrow> int \<times> bytes \<times> bool" where
  "client_init env = (case client_process_opts (in_opts env) False False of (r, debug, log) \<Rightarrow>
     if r \<noteq> 0 then (1, ROOT_DIR, False)
     else (case expand_root_dir (in_wordexp env) (in_mem env) of
       None \<Rightarrow> (1, ROOT_DIR, False)
     | Some dir \<Rightarrow>
         if client_check_root_dir (in_dir env) \<noteq> 0 then (1, dir, False)
         else (case client_open_logfile log (in_log env) of (r1, lgf) \<Rightarrow> (if r1 \<noteq> 0 then 1 else 0, dir, lgf))))"

text \<open>\<open>close_logfile\<close> closes the log file, also if there is none.\<close>

definition close_logfile :: "bool \<Rightarrow> int exec" where
  "close_logfile lgf = (if lgf then Done 0 else UB)"

definition deinit :: "bool \<Rightarrow> int exec" where
  "deinit lgf = exec_bind (close_logfile lgf) (\<lambda>r. Done (if r \<noteq> 0 then 1 else 0))"

definition file_path :: "ibc \<Rightarrow> bytes \<Rightarrow> bool \<Rightarrow> bytes \<Rightarrow> bytes option" where
  "file_path L root mem ident = (if mem then Some (root @ to_hex L ident) else None)"

definition init_acc_file_str :: "bytes \<Rightarrow> bool \<Rightarrow> bytes option" where
  "init_acc_file_str root mem = (if mem then Some (root @ UFILE_SUFFIX) else None)"

text \<open>What \<open>fopen\<close> says of the user file.\<close>

datatype fopen_result = FileOpened | FileNone | FileError

definition user_exist :: "bytes \<Rightarrow> bool \<Rightarrow> (bytes \<Rightarrow> fopen_result) \<Rightarrow> int" where
  "user_exist root mem fopen = (case init_acc_file_str root mem of
     None \<Rightarrow> -1
   | Some path \<Rightarrow> (case fopen path of FileNone \<Rightarrow> 0 | FileError \<Rightarrow> -1 | FileOpened \<Rightarrow> 1))"

text \<open>The globals when the menu starts.\<close>

definition client_start :: "account \<Rightarrow> friend list \<Rightarrow> notif list \<Rightarrow> (bytes \<rightharpoonup> bytes) \<Rightarrow> server_connection \<Rightarrow> client_state" where
  "client_start acc fs ns disk sc = \<lparr>cs_acc = acc, cs_friends = fs, cs_notifs = ns, cs_mode = 0, cs_stop = False, cs_lock = 0,
     cs_ff_file = disk (ac_f_file acc), cs_nf_file = disk (ac_n_file acc), cs_cfiles = disk, cs_cur_conv = None,
     cs_new_messages = [], cs_con = sc_ch sc, cs_keys = sc_keys sc, cs_netlock = False, cs_bglock = False,
     cs_pkey_resp = None, cs_dangling = False\<rparr>"

text \<open>
  What \<open>main\<close> meets: the start, the login of the local user (the file, the answers typed), the profile, the
  connection as it is before it is made, the menu, and what the background thread still does when the menu has
  ended, before the process does: nobody joins it.
\<close>

record main_env =
  me_init :: init_env
  me_mem :: bool
  me_fopen :: "bytes \<Rightarrow> fopen_result"
  me_login :: "heap_oracle \<times> (nat \<Rightarrow> heap_oracle) \<times> wd_env \<times> bytes option \<times> int \<times> bytes option"
  me_prof :: profile
  me_ufile :: "bytes option"
  me_select :: profile_env
  me_lines :: "bytes list"
  me_sc :: server_connection
  me_tty :: bool
  me_key_mem :: "u64 \<Rightarrow> bool"
  me_thread :: bool
  me_turns :: "turn_env list"
  me_bgenv :: "nat \<Rightarrow> bg_env"
  me_bg :: "(bytes option \<times> int) list"

text \<open>\<open>main\<close>: the exit status, \<open>None\<close> while the menu is up.\<close>

definition client_main :: "ibc \<Rightarrow> (u64 \<Rightarrow> nat) \<Rightarrow> main_env \<Rightarrow> (bytes \<rightharpoonup> bytes) \<Rightarrow> int option run" where
  "client_main L usable env disk = (case client_init (me_init env) of (r, root, lgf) \<Rightarrow>
     if r \<noteq> 0 then Some (Done (Some 1))
     else (case me_login env of (mem, imem, wd, rand, ans, prompt) \<Rightarrow>
       run_bind (Some (login_profile L (me_mem env) mem imem wd rand (user_exist root (me_mem env) (me_fopen env)) ans prompt
           (me_prof env) (me_ufile env))) (\<lambda>(r1, prof, _).
         if r1 \<noteq> 0 then Some (Done (Some 1))
         else run_bind (Some (select_profile L usable (me_select env) False prof disk (me_sc env) (me_lines env))) (\<lambda>(r2, _, acc, sc).
           if r2 \<noteq> 0 then Some (Done (Some 1))
           else (case acc of None \<Rightarrow> Some UB
           | Some (a, fs, ns) \<Rightarrow>
               if \<not> me_tty env then Some (Done (Some 1))
               else run_bind (Some (handler_init L (me_key_mem env) (me_thread env) (client_start a fs ns disk sc))) (\<lambda>(r3, _, s).
                 if r3 \<noteq> 0 then Some (Done (Some 1))
                 else run_bind (handle_user L usable (me_turns env) True s) (\<lambda>(ret, bg, s1). case ret of
                   None \<Rightarrow> Some (Done None)
                 | Some v \<Rightarrow> run_bind (bg_turn L usable (me_bgenv env) (me_bg env) bg s1) (\<lambda>_.
                     if v \<noteq> 0 then Some (Done (Some 1))
                     else run_bind (Some (deinit lgf)) (\<lambda>_. Some (Done (Some 0)))))))))))"

section \<open>The names of the files\<close>

text \<open>Files of different ids are different, and none is the user file.\<close>

lemma file_path_inj:
  assumes "hex_ok L" "length a = 32"
  shows "file_path L root True a = file_path L root True b \<longleftrightarrow> a = b"
    "file_path L root True a \<noteq> init_acc_file_str root True"
proof -
  have "to_hex L a = to_hex L b \<longleftrightarrow> a = b" using assms(1) unfolding hex_ok_def by metis
  then show "file_path L root True a = file_path L root True b \<longleftrightarrow> a = b" by (simp add: file_path_def)
  have "length (to_hex L a) = 64" using hex_simps [OF assms(1)] assms(2) by simp
  moreover have "length UFILE_SUFFIX = 9" by (simp add: UFILE_SUFFIX_def)
  ultimately have "to_hex L a \<noteq> UFILE_SUFFIX" by auto
  then show "file_path L root True a \<noteq> init_acc_file_str root True" by (simp add: file_path_def init_acc_file_str_def)
qed

section \<open>A session\<close>

lemma client_init_log:
  assumes "client_init env = (0, root, lgf)"
  shows "lgf \<longleftrightarrow> snd (snd (client_process_opts (in_opts env) False False))"
  using assms by (auto simp: client_init_def client_open_logfile_def split: prod.split_asm if_split_asm option.split_asm)

text \<open>A menu at which the user exits at once.\<close>

lemma exit_at_once:
  assumes "cs_lock s = 0" "cs_mode s = 0" "\<not> cs_stop s" "handler_status (cs_con s) = 0"
    "tn_bg t1 = []" "tn_bg t2 = []" "menu_select (tn_lines t1) = (0, rest)"
  shows "handle_user L usable [t1, t2] bg s = Some (Done (Some 0, bg, s\<lparr>cs_stop := True, cs_mode := -1\<rparr>))"
proof -
  have c: "s\<lparr>cs_mode := 0\<rparr> = s" using assms(2) by (cases s) simp
  have "handler_select L usable t1 bg s = Some (Done (True, bg, s\<lparr>cs_stop := True\<rparr>))"
    using handler_select_menu [OF assms(1) _ assms(7), of L usable bg] assms(2) c by (simp add: Let_def)
  then show ?thesis using assms by (simp add: idle_bg set_mode_free)
qed

text \<open>A background thread that runs on after the client was stopped.\<close>

lemma stopped_bg_turn:
  assumes "cs_lock s = 0" "cs_mode s = -1"
  shows "bg_turn L usable bgenv ms True s = Some (if ms = [] then Done (True, s) else UB)"
  using assms by (cases ms) (auto simp: bg_turn_def get_mode_free bg_exit_def)

section \<open>Properties\<close>


section \<open>Witnesses\<close>

definition demo_init :: "cli_option list \<Rightarrow> init_env" where
  "demo_init os = \<lparr>in_opts = os, in_wordexp = (\<lambda>_. Some [[47]]), in_mem = True, in_dir = (DirAbsent, True), in_log = (True, True)\<rparr>"

text \<open>A disk with a user file, a friend file and a file of notifications, and a run on it.\<close>

lemma demo_profile_file:
  assumes "account_ok acc"
  obtains fl q where "login_profile demo_lib True (\<lambda>_ _. True) (\<lambda>_ _ _. True) demo_wd None 1 0 (Some [112]) demo_profile (Some fl) =
    Done (0, q, None)" "pr_accounts q = [acc]"
proof -
  obtain p1 where p1: "gen_profile demo_lib (Some (replicate 32 9)) (demo_profile\<lparr>pr_pass := [112]\<rparr>) = (0, p1)"
    using demo_gen_profile by blast
  have a: "\<forall>a \<in> set [acc]. account_ok a" using assms by simp
  from profile_read_back [OF demo_lib_ok _ p1 a _ demo_wd_ok, where mem = "\<lambda>_ _. True" and imem = "\<lambda>_ _ _. True"
      and env' = demo_wd and rand = None and ans = 0 and q = demo_profile] that show ?thesis by auto
qed

lemma demo_selected:
  assumes "login_account demo_lib lenv acc demo_sc False [] = Done (0, acc, sc, False, [])" "ac_f_file acc \<noteq> ac_n_file acc"
    "pr_accounts prof = [acc]"
  obtains senv disk where "select_profile demo_lib (\<lambda>_. 24) senv False prof disk demo_sc [[49, 10]] =
    Done (0, prof, Some (acc, [demo_friend], [NMessage 0 2]), sc)"
proof -
  let ?env = "\<lparr>pe_login = lenv, pe_create = demo_create_env, pe_path = True, pe_store = demo_wd, pe_rand = None,
    pe_ff = (True, \<lambda>_ _. True, \<lambda>_ _ _. True), pe_nf = (True, \<lambda>_ _. True, \<lambda>_ _ _. True)\<rparr>"
  have pick: "pick_account (pr_accounts prof) [[49, 10]] = (0, Some 0, [])"
    by (simp add: assms(3) pick_account_def num_prompt_step choice_def line_text_def decimal_def is_digit_def)
  have f: "\<forall>f \<in> set [demo_friend]. friend_ok demo_lib f \<and> slack_ok (\<lambda>_. 24) f"
    using demo_friend_ok by (simp add: slack_ok_def demo_friend_def)
  have n: "\<forall>n \<in> set [NMessage 0 2]. notif_ok [demo_friend] n" by simp
  from stored_session_selected [OF demo_lib_ok _ pick _ f _ demo_uids_ok n _ demo_wd_ok, of acc ?env demo_sc False acc sc "[]"
      "\<lambda>_ _. True" "\<lambda>_ _ _. True" "\<lambda>_ _. True" "\<lambda>_ _ _. True"] assms(1,3)
  obtain ff nf where r: "\<forall>disk. disk (ac_f_file acc) = Some ff \<and> disk (ac_n_file acc) = Some nf \<longrightarrow>
      select_profile demo_lib (\<lambda>_. 24) ?env False prof disk demo_sc [[49, 10]] = Done (0, prof, Some (acc, [demo_friend], [NMessage 0 2]), sc)"
    by auto
  show ?thesis
    by (rule that [of ?env "[ac_f_file acc \<mapsto> ff, ac_n_file acc \<mapsto> nf]"], rule r [rule_format]) (simp add: assms(2))
qed


end
