(* ===== verification/Spec2Isabelle.thy ===== *)
theory Spec2Isabelle
  imports Rwlock MsgQueue Wire Connection CryptoLayer Handshake Keyfile HandlerTable UserDb Undelivered
    ClientAuth Server ServerRaces ServerRun
    Datafile Uname Profile Friends ClientState Notifs Convfile Conversation Friendreq BgManager
    Prompt LoginServer ConvLoop Cli Startup ClientMain
begin

text \<open>
  ibchat: a chat server and its client, in C.

  \<^bold>\<open>The program.\<close> A client keeps a TCP connection to the server. On it run, from the socket upwards:
  frames with acknowledges and keep-alives (\<open>inet/protocol.c\<close>), a handshake with Diffie-Hellman and an RSA
  signature of the server (\<open>crypto/handshake.c\<close>), and encrypted messages (\<open>crypto/crypto_layer.c\<close>). The server
  authenticates its users by a signed challenge, keeps them in signed files, relays their messages
  and stores those for users who are away. What the users say to each other is encrypted between the
  clients: friends exchange RSA letters to agree on keys, and then number, encipher and
  authenticate their messages. The client keeps accounts, friends, notifications and conversations in
  encrypted files. A thread in the background receives; the thread of the user prompts.

  \<^bold>\<open>Theories.\<close> In the order in which they build on each other, with the files under \<open>src/\<close> they model.

  \<^item> \<open>Prelude\<close>: byte strings, 64-bit numbers, results of C code, streams. \<open>Libs\<close>: the record \<open>ibc\<close> of the two
    libraries the program links, and the predicate \<open>lib_ok\<close> with what the code relies on.
  \<^item> \<open>Rwlock\<close> (\<open>util/lock.c\<close>): the operations as guarded updates of \<open>use_state\<close>, and the threads as a step
    relation over mutex, condition variable and program counters.
  \<^item> \<open>MsgQueue\<close> (\<open>inet/message.c\<close>): the linked list over an explicit store of cells.
  \<^item> \<open>Wire\<close> (\<open>inet/protocol.c\<close>): transfer loops, frames, the acknowledge table. \<open>Connection\<close> (\<open>inet/protocol.c\<close>):
    \<open>con_handle\<close>, the turns of \<open>handle_connection\<close>, and \<open>add_message\<close> and \<open>get_message\<close> of other threads.
  \<^item> \<open>CryptoLayer\<close> and \<open>Handshake\<close> (\<open>crypto/crypto_layer.c\<close>, \<open>crypto/handshake.c\<close>): the key set, sealing and opening
    of messages, the two sides of the handshake. \<open>Keyfile\<close> (\<open>crypto/keyfile.c\<close>): key files with and without
    a password.
  \<^item> The server: \<open>HandlerTable\<close>, \<open>Server\<close>, \<open>ServerRaces\<close>, \<open>ServerRun\<close> (\<open>server/client_handler.c\<close>), \<open>UserDb\<close>
    (\<open>server/user_db.c\<close>), \<open>Undelivered\<close> (\<open>server/undelivered.c\<close>), \<open>ClientAuth\<close> (\<open>server/client_auth.c\<close>). Their state is the
    record \<open>server_state\<close>: the user table and its files, the handler table, the undelivered files, and for
    each descriptor its connection and keys. \<open>Server\<close> is one session; \<open>ServerRaces\<close> has the places where two
    threads meet without a lock; \<open>ServerRun\<close> lets all sessions take their steps in any order.
  \<^item> \<open>Startup\<close> (\<open>server/chat_server.c\<close>, \<open>server/server_main.c\<close>, \<open>inet/connect.c\<close>, \<open>util/gen_key.c\<close>): the key generator, the
    start of the server up to its accept loop, and that loop.
  \<^item> The data of the client: \<open>Datafile\<close> (\<open>client/datafile.c\<close>) writes and reads the encrypted lists, for a
    \<open>format_desc\<close> that is a record of functions as in the code; \<open>Profile\<close>, \<open>Friends\<close> and \<open>Notifs\<close> (\<open>client/profile.c\<close>,
    \<open>client/userfile.c\<close>, \<open>client/account.c\<close>, \<open>client/friends.c\<close>, \<open>client/notifications.c\<close>) are its three formats with the
    operations on the lists; \<open>Convfile\<close> (\<open>client/conversation.c\<close>) is the file of a conversation. \<open>ClientState\<close>
    (\<open>client/cli.c\<close>, \<open>client/bg_manager.c\<close>) is the state the two threads share: mode, locks, account, friends,
    notifications, new messages, files and connection. \<open>Uname\<close> (\<open>client/uname.c\<close>): user names and their ids.
  \<^item> What clients say: \<open>Conversation\<close> (\<open>client/conversation.c\<close>) and \<open>Friendreq\<close> (\<open>client/friendreq.c\<close>); \<open>BgManager\<close>
    (\<open>client/bg_manager.c\<close>) receives and dispatches; its properties follow a text, a friend request and an answer from
    the sending client through \<open>handle_message\<close> of the server to the dispatch of the receiving client.
  \<^item> The user's thread: \<open>Prompt\<close> (\<open>util/line_prompt.c\<close>), \<open>LoginServer\<close> (\<open>client/connect_server.c\<close>,
    \<open>client/login_server.c\<close>, \<open>client/account.c\<close>), \<open>ConvLoop\<close> (\<open>client/conversation.c\<close>), \<open>Cli\<close> (\<open>client/cli.c\<close>),
    \<open>ClientMain\<close> (\<open>client/ibchat_client.c\<close>). \<open>ConvLoop\<close> interleaves the two threads at the releases of the lock: the
    background thread takes a message in three sections (keep, show, count), and may take any of them while a
    conversation is opened and between and in the turns of its loop. \<open>Cli\<close> and \<open>ClientMain\<close> let it run between the turns of the
    menu, in conversations, while a key is waited for, and after the end of the menu.

  \<^bold>\<open>How C is read.\<close> \<open>size_t\<close> and \<open>uint64_t\<close> are 64-bit words and wrap as they do in C; an \<open>int\<close> is an \<open>int\<close>; bytes
  are \<open>8 word\<close>, buffers lists of them. A function that can go wrong in the sense of C returns \<open>'a exec\<close>: \<open>Done\<close>
  with its result, or \<open>UB\<close> where the code reads outside a buffer, follows a null pointer or frees what it should
  not. \<open>'a run\<close> is \<open>'a exec option\<close>, where \<open>None\<close> is a thread that waits for a lock nobody releases; in an
  interleaving given as a list of events it is an event that is not possible yet. Error codes are the code's
  numbers, and every early return is a branch.

  \<^bold>\<open>Parameters.\<close> libibur and ibcrypt are submodules whose code is not here: they are the record \<open>ibc\<close>, an
  argument of every definition that uses them; \<open>demo_lib\<close> is a concrete library for the witnesses. Which
  allocations succeed is a function of their order and size (\<open>heap_oracle\<close>); \<open>usable\<close> is how much room an
  allocator really gives. What the system answers to a call (files that open, bytes that a socket
  takes, the time, random bytes, the lines that are typed) comes in records of the environment, one per
  operation. Theorems hold for all of them unless a hypothesis says otherwise.

  \<^bold>\<open>Bounds.\<close> No definition has fuel. A loop over input ends with its input: the lines typed, the
  messages received and the events of a conversation are lists, and the theorems are over all lists. The loop
  of \<open>add_new_message\<close>, which may not end, is a \<open>partial_function\<close>, and when it ends is a theorem.
  The transfer loops are over the attempts of a socket, and end at the timeout. Sizes in hypotheses
  (such as \<open>length p < 2 ^ 40\<close>) keep the 64-bit lengths from wrapping; what happens when they wrap is
  stated in theorems of its own.

  \<^bold>\<open>Interfaces.\<close> The locales, each interpreted on the model: \<open>rw_contract\<close> (a lock), \<open>fifo\<close> (a queue), \<open>ack_table\<close>
  (acknowledges), \<open>channel\<close> (sealed messages in order), \<open>dict\<close> (a table that is a map), \<open>append_store\<close> with its
  extensions \<open>mailbox\<close> (the undelivered file) and \<open>msg_log\<close> (the conversation file), and \<open>datafile_format\<close> with
  three interpretations (user file, friend file, notification file).

  \<^bold>\<open>What is shown.\<close> Transport: a queue that is written is read by the peer, in order, and its acknowledges
  empty the table; nothing damaged is delivered; no message is stranded unless a write to the pipe failed, and then
  it may be; a transfer loop reports the bytes it moved; deadlines are kept. Session: both
  sides of a handshake agree on keys, a client accepts only a signed answer, what is sent is received, only
  authentic messages are, and everything sent is encrypted under a nonce of its own. Server: a login proves the key, client and server agree on its
  result, the tables stay consistent in every order of steps, messages for users who are away are
  kept in order and delivered, requests are answered, and a restarted server has its key and its users, whatever
  else is in their directory. Client: the files give back what was stored and nothing that was not authenticated, a conversation file is the
  list of its messages, what is displayed is what is kept (and what is kept while a conversation is opened is displayed
  twice), requests and answers make friends with matching keys, texts arrive, accounts are well formed. Faults of the code that the model shows are theorems too, next to what
  they are about: blocked locks, reads outside a buffer, a counter moved before a check.

  \<^bold>\<open>Not modelled.\<close> Output and logging (\<open>util/log.c\<close>), the escape sequences of \<open>client/termctl.c\<close>, the test programs
  and the unused \<open>start_conversation_graphic\<close>. Creation and joining of threads and the clean-up handlers of
  cancellation. In \<open>ServerRun\<close>, the resize of the user table that finds no memory; in \<open>Cli\<close>, messages of the
  background thread that are split by the menu. Freeing and overwriting of memory, except where freeing something wrong is undefined
  behaviour. \<open>getopt\<close>, \<open>wordexp\<close>, \<open>stat\<close>, \<open>mkdir\<close>, \<open>select\<close>, the socket calls and signals are what they answer. The
  destruction of the handler table when the server stops. Timing, apart from the arithmetic on the times
  the code reads.
\<close>

end
